(* ===== verification/Sat_Prelude.thy ===== *)
theory Sat_Prelude
  imports
    Main
    "HOL-Library.Word"
    "HOL-Library.Monad_Syntax"
    "HOL-Library.Multiset"
begin

unbundle bit_operations_syntax

text \<open>
  Shared ground of the development: the machine integers of the C++ sources as words, bounded
  reads of a byte buffer (a read past the end is \<^const>\<open>None\<close>, never an arbitrary value),
  decimal text as \<^verbatim>\<open>std::to_string\<close> and \<^verbatim>\<open>printf("%u")\<close> write it, and the list lemmas that the
  component theories use.  The collections \<open>sat_defs\<close> and \<open>sat_simps\<close> carry the facts that the
  component proofs hand to the simplifier.
\<close>

named_theorems sat_defs \<open>definitions unfolded by the component proofs\<close>
named_theorems sat_simps \<open>rewrite rules shared by the component proofs\<close>

section \<open>Machine integers\<close>

type_synonym u8 = "8 word"
type_synonym u16 = "16 word"
type_synonym u32 = "32 word"
type_synonym u64 = "64 word"

text \<open>A signed 16-bit value is a 16-bit word read with \<^const>\<open>sint\<close>.\<close>

type_synonym i16 = "16 word"

text \<open>Points of the steady clock and durations, in nanoseconds.\<close>

type_synonym ticks = int

definition msec :: "int \<Rightarrow> ticks" where
  "msec n = n * 1000000"

definition sec :: "int \<Rightarrow> ticks" where
  "sec n = n * 1000000000"

lemma bit_u8_ge [sat_simps]: "8 \<le> n \<Longrightarrow> \<not> bit (w :: u8) n"
  by (auto dest: bit_imp_le_length)

lemma bit_u16_ge [sat_simps]: "16 \<le> n \<Longrightarrow> \<not> bit (w :: u16) n"
  by (auto dest: bit_imp_le_length)

lemma bit_u32_ge [sat_simps]: "32 \<le> n \<Longrightarrow> \<not> bit (w :: u32) n"
  by (auto dest: bit_imp_le_length)

lemma u8_eqI: "(\<And>n. n < 8 \<Longrightarrow> bit v n = bit w n) \<Longrightarrow> v = (w :: u8)"
  by (rule bit_word_eqI) simp

lemma u16_eqI: "(\<And>n. n < 16 \<Longrightarrow> bit v n = bit w n) \<Longrightarrow> v = (w :: u16)"
  by (rule bit_word_eqI) simp

lemma u32_eqI: "(\<And>n. n < 32 \<Longrightarrow> bit v n = bit w n) \<Longrightarrow> v = (w :: u32)"
  by (rule bit_word_eqI) simp

lemma unat_u8_less [simp]: "unat (w :: u8) < 256"
  using unsigned_less [of w] by simp

lemma unat_u16_less [simp]: "unat (w :: u16) < 65536"
  using unsigned_less [of w] by simp

text \<open>Masks of the form \<open>2 ^ n - 1\<close> keep the low bits.\<close>

lemma and_masks:
  "w AND 15 = take_bit 4 (w :: 'a :: len word)"
  "w AND 127 = take_bit 7 (w :: 'a :: len word)"
  "w AND 255 = take_bit 8 (w :: 'a :: len word)"
  "w AND 65535 = take_bit 16 (w :: 'a :: len word)"
  by (simp_all add: take_bit_eq_mask mask_eq_exp_minus_1)

lemma int_and_masks:
  "x AND 15 = take_bit 4 (x :: int)"
  "x AND 255 = take_bit 8 (x :: int)"
  by (simp_all add: take_bit_eq_mask mask_eq_exp_minus_1)

section \<open>Buffers\<close>

definition byte_at :: "u8 list \<Rightarrow> nat \<Rightarrow> u8 option" where
  "byte_at p i = (if i < length p then Some (p ! i) else None)"

lemma byte_at_Some [simp]: "i < length p \<Longrightarrow> byte_at p i = Some (p ! i)"
  by (simp add: byte_at_def)

lemma byte_at_None [simp]: "length p \<le> i \<Longrightarrow> byte_at p i = None"
  by (simp add: byte_at_def)

lemma byte_at_eq_None [simp]: "byte_at p i = None \<longleftrightarrow> length p \<le> i"
  by (simp add: byte_at_def)

lemma byte_at_append1 [simp]: "i < length p \<Longrightarrow> byte_at (p @ q) i = byte_at p i"
  by (simp add: byte_at_def nth_append)

lemma byte_at_append2 [simp]: "length p \<le> i \<Longrightarrow> byte_at (p @ q) i = byte_at q (i - length p)"
  by (auto simp: byte_at_def nth_append)

text \<open>\<open>slice p off len\<close> is the run of \<open>len\<close> bytes at \<open>off\<close>, as \<^verbatim>\<open>memcpy\<close> reads it.\<close>

definition slice :: "'a list \<Rightarrow> nat \<Rightarrow> nat \<Rightarrow> 'a list option" where
  "slice p off len = (if off + len \<le> length p then Some (take len (drop off p)) else None)"

lemma slice_Some_iff: "slice p off len = Some xs \<longleftrightarrow> off + len \<le> length p \<and> xs = take len (drop off p)"
  by (auto simp: slice_def)

lemma slice_length: "slice p off len = Some xs \<Longrightarrow> length xs = len"
  by (auto simp: slice_def split: if_splits)

section \<open>Decimal text\<close>

definition digit_char :: "nat \<Rightarrow> char" where
  "digit_char d = char_of (48 + d)"

fun dec_string :: "nat \<Rightarrow> string" where
  "dec_string n =
     (if n < 10 then [digit_char n] else dec_string (n div 10) @ [digit_char (n mod 10)])"

declare dec_string.simps [simp del]

lemma of_char_digit_char [simp]: "d < 10 \<Longrightarrow> of_char (digit_char d) = (48 + d :: nat)"
  by (simp add: digit_char_def)

lemma dec_string_small: "n < 10 \<Longrightarrow> dec_string n = [digit_char n]"
  by (simp add: dec_string.simps)

lemma dec_string_step: "10 \<le> n \<Longrightarrow> dec_string n = dec_string (n div 10) @ [digit_char (n mod 10)]"
  by (simp add: dec_string.simps [of n])

lemma dec_string_nonempty [simp]: "dec_string n \<noteq> []"
  by (simp add: dec_string.simps [of n])

text \<open>A signed decimal.\<close>

definition int_string :: "int \<Rightarrow> string" where
  "int_string n = (if n < 0 then ''-'' @ dec_string (nat (- n)) else dec_string (nat n))"

definition string_bytes :: "string \<Rightarrow> u8 list" where
  "string_bytes str = map of_char str"

definition bytes_string :: "u8 list \<Rightarrow> string" where
  "bytes_string bs = map (\<lambda>b. char_of (unat b)) bs"

lemma bytes_string_bytes [simp]: "bytes_string (string_bytes str) = str"
proof -
  have "char_of (unat (of_char c :: u8)) = c" for c
  proof -
    have c: "(of_char c :: nat) < 256" using nat_of_char_less_256 [of c] by simp
    have "(of_char c :: u8) = of_nat (of_char c)" by (simp add: of_nat_of_char)
    then have "unat (of_char c :: u8) = of_char c" using c by (simp add: unat_of_nat)
    then show ?thesis by simp
  qed
  then show ?thesis by (simp add: bytes_string_def string_bytes_def comp_def)
qed

lemma length_string_bytes [simp]: "length (string_bytes str) = length str"
  by (simp add: string_bytes_def)

section \<open>Loops over a list that thread a state\<close>

text \<open>
  \<open>mapS f xs s\<close> is the loop that visits \<open>xs\<close> in order, may change each element in place and
  threads the state \<open>s\<close>.
\<close>

fun mapS :: "('a \<Rightarrow> 's \<Rightarrow> 'b \<times> 's) \<Rightarrow> 'a list \<Rightarrow> 's \<Rightarrow> 'b list \<times> 's" where
  "mapS f [] s = ([], s)"
| "mapS f (x # xs) s =
     (case f x s of (y, s1) \<Rightarrow> case mapS f xs s1 of (ys, s2) \<Rightarrow> (y # ys, s2))"

lemma length_mapS [simp]: "length (fst (mapS f xs s)) = length xs"
  by (induction xs arbitrary: s) (auto split: prod.splits, metis fst_conv)

text \<open>An invariant of the state, and a relation between the old and the new elements.\<close>

lemma mapS_inv:
  assumes "I s" "\<And>x t. x \<in> set xs \<Longrightarrow> I t \<Longrightarrow> I (snd (f x t)) \<and> R x (fst (f x t))"
  shows "I (snd (mapS f xs s)) \<and> list_all2 R xs (fst (mapS f xs s))"
  using assms
proof (induction xs arbitrary: s)
  case Nil
  then show ?case by simp
next
  case (Cons x xs)
  obtain y s1 where y: "f x s = (y, s1)" by force
  obtain ys s2 where ys: "mapS f xs s1 = (ys, s2)" by force
  have "I s1" "R x y" using Cons.prems(2) [of x s] Cons.prems(1) y by simp_all
  then show ?case using Cons.IH [of s1] Cons.prems(2) y ys by simp
qed

lemma mapS_append:
  "mapS f (xs @ ys) s =
     (case mapS f xs s of (us, s1) \<Rightarrow> case mapS f ys s1 of (vs, s2) \<Rightarrow> (us @ vs, s2))"
  by (induction xs arbitrary: s) (auto split: prod.splits)

section \<open>Lists\<close>

lemma sum_list_update_int:
  "i < length xs \<Longrightarrow> sum_list (xs[i := v]) = sum_list xs - xs ! i + (v :: int)"
  by (induction xs arbitrary: i) (auto split: nat.splits)

lemma nth_list_update_if:
  "i < length xs \<Longrightarrow> (xs[j := v]) ! i = (if i = j then v else xs ! i)"
  by simp

lemma distinct_map_inj_nth:
  "distinct (map f xs) \<Longrightarrow> i < length xs \<Longrightarrow> j < length xs \<Longrightarrow> f (xs ! i) = f (xs ! j) \<Longrightarrow> i = j"
  by (metis length_map nth_eq_iff_index_eq nth_map)

lemma find_Some_set: "List.find P xs = Some x \<Longrightarrow> x \<in> set xs \<and> P x"
  by (induction xs) (auto split: if_splits)

lemma find_None_set: "List.find P xs = None \<Longrightarrow> x \<in> set xs \<Longrightarrow> \<not> P x"
  by (induction xs) (auto split: if_splits)

lemma list_all2_memD: "list_all2 R xs ys \<Longrightarrow> y \<in> set ys \<Longrightarrow> \<exists>x\<in>set xs. R x y"
  by (induction rule: list_all2_induct) auto

lemma list_all2_memD1: "list_all2 R xs ys \<Longrightarrow> x \<in> set xs \<Longrightarrow> \<exists>y\<in>set ys. R x y"
  by (induction rule: list_all2_induct) auto

end
