(* ===== verification/Wire_Codec.thy ===== *)
theory Wire_Codec
  imports Sat_Prelude
begin

text \<open>
  The wire's integers and fixed-layout frames: \<^verbatim>\<open>core/byte_order.h\<close>, \<^verbatim>\<open>core/hex.h\<close>,
  \<^verbatim>\<open>core/ipv4_util.h\<close>, \<^verbatim>\<open>core/touchpad_codec.h\<close> and the report structs and decoders of
  \<^verbatim>\<open>core/types.h\<close>.  A C++ pointer into a buffer is the buffer and an offset; every byte is read
  with \<^const>\<open>byte_at\<close>, so a decoder that runs past the buffer returns \<^const>\<open>None\<close>.
\<close>

section \<open>Byte order\<close>

definition readBE16 :: "u8 list \<Rightarrow> nat \<Rightarrow> u16 option" where
  "readBE16 p off = do {
     a \<leftarrow> byte_at p off;
     b \<leftarrow> byte_at p (off + 1);
     Some (push_bit 8 (ucast a) OR ucast b)
   }"

definition readBE32 :: "u8 list \<Rightarrow> nat \<Rightarrow> u32 option" where
  "readBE32 p off = do {
     a \<leftarrow> byte_at p off;
     b \<leftarrow> byte_at p (off + 1);
     c \<leftarrow> byte_at p (off + 2);
     d \<leftarrow> byte_at p (off + 3);
     Some (push_bit 24 (ucast a) OR push_bit 16 (ucast b) OR push_bit 8 (ucast c) OR ucast d)
   }"

definition writeBE16 :: "u16 \<Rightarrow> u8 list" where
  "writeBE16 v = [ucast (drop_bit 8 v), ucast v]"

definition writeBE32 :: "u32 \<Rightarrow> u8 list" where
  "writeBE32 v = [ucast (drop_bit 24 v), ucast (drop_bit 16 v), ucast (drop_bit 8 v), ucast v]"

definition readLE16 :: "u8 list \<Rightarrow> nat \<Rightarrow> u16 option" where
  "readLE16 p off = do {
     a \<leftarrow> byte_at p off;
     b \<leftarrow> byte_at p (off + 1);
     Some (ucast a OR push_bit 8 (ucast b))
   }"

text \<open>The signed read is the same 16 bits: \<^const>\<open>sint\<close> gives the value.\<close>

definition readLE16s :: "u8 list \<Rightarrow> nat \<Rightarrow> i16 option" where
  "readLE16s p off = readLE16 p off"

definition readLE32 :: "u8 list \<Rightarrow> nat \<Rightarrow> u32 option" where
  "readLE32 p off = do {
     a \<leftarrow> byte_at p off;
     b \<leftarrow> byte_at p (off + 1);
     c \<leftarrow> byte_at p (off + 2);
     d \<leftarrow> byte_at p (off + 3);
     Some (ucast a OR push_bit 8 (ucast b) OR push_bit 16 (ucast c) OR push_bit 24 (ucast d))
   }"

definition writeLE16 :: "u16 \<Rightarrow> u8 list" where
  "writeLE16 v = [ucast v, ucast (drop_bit 8 v)]"

definition writeLE32 :: "u32 \<Rightarrow> u8 list" where
  "writeLE32 v = [ucast v, ucast (drop_bit 8 v), ucast (drop_bit 16 v), ucast (drop_bit 24 v)]"

section \<open>Hexadecimal text\<close>

definition HEX_DIGITS :: string where
  "HEX_DIGITS = ''0123456789abcdef''"

definition appendHexByte :: "string \<Rightarrow> u8 \<Rightarrow> string" where
  "appendHexByte out byte =
     out @ [HEX_DIGITS ! unat (drop_bit 4 byte)] @ [HEX_DIGITS ! unat (byte AND 15)]"

definition hexEncode :: "u8 list \<Rightarrow> string" where
  "hexEncode data = foldl appendHexByte [] data"

fun hexEncodeSeparated_from :: "string \<Rightarrow> u8 list \<Rightarrow> char \<Rightarrow> nat \<Rightarrow> string" where
  "hexEncodeSeparated_from out [] sep i = out"
| "hexEncodeSeparated_from out (b # bs) sep i =
     hexEncodeSeparated_from
       (appendHexByte (if i \<noteq> 0 then out @ [sep] else out) b) bs sep (i + 1)"

definition hexEncodeSeparated :: "u8 list \<Rightarrow> char \<Rightarrow> string" where
  "hexEncodeSeparated data sep = hexEncodeSeparated_from [] data sep 0"

definition hexEncodeBE32 :: "u32 \<Rightarrow> string" where
  "hexEncodeBE32 v = hexEncode (writeBE32 v)"

section \<open>IPv4 text\<close>

text \<open>
  The loop of \<^verbatim>\<open>parseIPv4Nbo\<close>: \<open>parts\<close> holds the \<^verbatim>\<open>idx\<close> octets read so far, \<open>val\<close> the octet being
  read, \<open>any\<close> whether it has a digit.  Every early \<^verbatim>\<open>return 0\<close> of the source is the word 0.
\<close>

fun parseIPv4_loop :: "string \<Rightarrow> u8 list \<Rightarrow> nat \<Rightarrow> bool \<Rightarrow> u32" where
  "parseIPv4_loop [] parts val any =
     (if \<not> any \<or> length parts \<noteq> 3 then 0
      else (let ps = parts @ [of_nat val] in
        ucast (ps ! 0) OR push_bit 8 (ucast (ps ! 1)) OR push_bit 16 (ucast (ps ! 2))
          OR push_bit 24 (ucast (ps ! 3))))"
| "parseIPv4_loop (c # cs) parts val any =
     (if 48 \<le> (of_char c :: nat) \<and> of_char c \<le> (57 :: nat) then
        (let v = val * 10 + (of_char c - 48) in
         if v > 255 then 0 else parseIPv4_loop cs parts v True)
      else if c = CHR ''.'' then
        (if \<not> any \<or> length parts \<ge> 3 then 0
         else parseIPv4_loop cs (parts @ [of_nat val]) 0 False)
      else 0)"

definition parseIPv4Nbo :: "string \<Rightarrow> u32" where
  "parseIPv4Nbo s = parseIPv4_loop s [] 0 False"

definition formatIPv4Nbo :: "u32 \<Rightarrow> string" where
  "formatIPv4Nbo nbo =
     (let a = ucast (nbo AND 255) :: u8;
          b = ucast (drop_bit 8 nbo AND 255) :: u8;
          c = ucast (drop_bit 16 nbo AND 255) :: u8;
          d = ucast (drop_bit 24 nbo AND 255) :: u8
      in dec_string (unat a) @ ''.'' @ dec_string (unat b) @ ''.'' @ dec_string (unat c) @ ''.''
         @ dec_string (unat d))"

section \<open>Reports and their decoders\<close>

record gamepad_report =
  wButtons :: u16
  bLeftTrigger :: u8
  bRightTrigger :: u8
  sThumbLX :: i16
  sThumbLY :: i16
  sThumbRX :: i16
  sThumbRY :: i16

record motion_report =
  gyroX :: i16
  gyroY :: i16
  gyroZ :: i16
  accelX :: i16
  accelY :: i16
  accelZ :: i16
  timestampDeltaUs :: u32

record battery_report =
  bat_level :: u8
  bat_status :: u8

record touchpad_finger =
  tf_active :: bool
  tf_trackingId :: u8
  tf_x :: i16
  tf_y :: i16

record touchpad_report =
  finger0 :: touchpad_finger
  finger1 :: touchpad_finger
  buttonPressed :: bool
  rightPressed :: bool
  middlePressed :: bool
  eventTimeMs :: u32
  scrollV :: i16

record audio_frame_header =
  ah_ctrlIdx :: u8
  ah_seq :: u16

text \<open>
  \<^verbatim>\<open>memcpy(&report, payload + 1, sizeof(GamepadReport))\<close>: the 12 bytes of the packed struct on a
  little-endian host, the byte order of every target the program is built for.
\<close>

definition loadGamepadReport :: "u8 list \<Rightarrow> nat \<Rightarrow> gamepad_report option" where
  "loadGamepadReport p off = do {
     b \<leftarrow> readLE16 p off;
     l \<leftarrow> byte_at p (off + 2);
     r \<leftarrow> byte_at p (off + 3);
     lx \<leftarrow> readLE16 p (off + 4);
     ly \<leftarrow> readLE16 p (off + 6);
     rx \<leftarrow> readLE16 p (off + 8);
     ry \<leftarrow> readLE16 p (off + 10);
     Some \<lparr>wButtons = b, bLeftTrigger = l, bRightTrigger = r,
           sThumbLX = lx, sThumbLY = ly, sThumbRX = rx, sThumbRY = ry\<rparr>
   }"

definition decodeAudioFrameHeader :: "u8 list \<Rightarrow> nat \<Rightarrow> audio_frame_header option" where
  "decodeAudioFrameHeader p off = do {
     c \<leftarrow> byte_at p off;
     s \<leftarrow> readBE16 p (off + 1);
     Some \<lparr>ah_ctrlIdx = c, ah_seq = s\<rparr>
   }"

definition encodeAudioFrameHeader :: "u8 \<Rightarrow> u16 \<Rightarrow> u8 list" where
  "encodeAudioFrameHeader ctrlIdx seq = [ctrlIdx] @ writeBE16 seq"

definition decodeMotionReport :: "u8 list \<Rightarrow> nat \<Rightarrow> motion_report option" where
  "decodeMotionReport p off = do {
     gx \<leftarrow> readLE16s p (off + 0);
     gy \<leftarrow> readLE16s p (off + 2);
     gz \<leftarrow> readLE16s p (off + 4);
     ax \<leftarrow> readLE16s p (off + 6);
     ay \<leftarrow> readLE16s p (off + 8);
     az \<leftarrow> readLE16s p (off + 10);
     t \<leftarrow> readLE32 p (off + 12);
     Some \<lparr>gyroX = gx, gyroY = gy, gyroZ = gz, accelX = ax, accelY = ay, accelZ = az,
           timestampDeltaUs = t\<rparr>
   }"

definition decodeTouchpadReportV1 :: "u8 list \<Rightarrow> nat \<Rightarrow> touchpad_report option" where
  "decodeTouchpadReportV1 p off = do {
     flags \<leftarrow> byte_at p off;
     id0 \<leftarrow> byte_at p (off + 1);
     x0 \<leftarrow> readLE16s p (off + 2);
     y0 \<leftarrow> readLE16s p (off + 4);
     id1 \<leftarrow> byte_at p (off + 6);
     x1 \<leftarrow> readLE16s p (off + 7);
     y1 \<leftarrow> readLE16s p (off + 9);
     t \<leftarrow> readLE32 p (off + 11);
     Some \<lparr>finger0 = \<lparr>tf_active = (flags AND 1 \<noteq> 0), tf_trackingId = id0, tf_x = x0, tf_y = y0\<rparr>,
           finger1 = \<lparr>tf_active = (flags AND 2 \<noteq> 0), tf_trackingId = id1, tf_x = x1, tf_y = y1\<rparr>,
           buttonPressed = (flags AND 4 \<noteq> 0), rightPressed = False, middlePressed = False,
           eventTimeMs = t, scrollV = 0\<rparr>
   }"

definition decodeTouchpadReportV2 :: "u8 list \<Rightarrow> nat \<Rightarrow> touchpad_report option" where
  "decodeTouchpadReportV2 p off = do {
     fingers \<leftarrow> byte_at p off;
     buttons \<leftarrow> byte_at p (off + 1);
     id0 \<leftarrow> byte_at p (off + 2);
     x0 \<leftarrow> readLE16s p (off + 3);
     y0 \<leftarrow> readLE16s p (off + 5);
     id1 \<leftarrow> byte_at p (off + 7);
     x1 \<leftarrow> readLE16s p (off + 8);
     y1 \<leftarrow> readLE16s p (off + 10);
     t \<leftarrow> readLE32 p (off + 12);
     s \<leftarrow> readLE16s p (off + 16);
     Some \<lparr>finger0 = \<lparr>tf_active = (fingers AND 1 \<noteq> 0), tf_trackingId = id0, tf_x = x0, tf_y = y0\<rparr>,
           finger1 = \<lparr>tf_active = (fingers AND 2 \<noteq> 0), tf_trackingId = id1, tf_x = x1, tf_y = y1\<rparr>,
           buttonPressed = (buttons AND 1 \<noteq> 0), rightPressed = (buttons AND 2 \<noteq> 0),
           middlePressed = (buttons AND 4 \<noteq> 0), eventTimeMs = t, scrollV = s\<rparr>
   }"

section \<open>Touchpad coordinates\<close>

definition DS4_TOUCHPAD_RES_X :: int where "DS4_TOUCHPAD_RES_X = 1920"
definition DS4_TOUCHPAD_RES_Y :: int where "DS4_TOUCHPAD_RES_Y = 943"

definition touchpadWireToRange :: "i16 \<Rightarrow> int \<Rightarrow> int" where
  "touchpadWireToRange v res =
     (if res \<le> 1 then 0
      else (let u = sint v + 32768; scaled = (u * res) div 65536 in
        if scaled < 0 then 0 else if scaled > res - 1 then res - 1 else scaled))"

definition ds4PackTouchFinger :: "touchpad_finger \<Rightarrow> u8 \<Rightarrow> u8 list" where
  "ds4PackTouchFinger f trackingId =
     (let x = touchpadWireToRange (tf_x f) DS4_TOUCHPAD_RES_X;
          y = touchpadWireToRange (tf_y f) DS4_TOUCHPAD_RES_Y
      in [(if tf_active f then 0 else 128) OR (trackingId AND 127),
          word_of_int (x AND 255),
          word_of_int (push_bit 4 (y AND 15) OR (drop_bit 8 x AND 15)),
          word_of_int (drop_bit 4 y AND 255)])"

section \<open>Reads: in range exactly when the bytes are there\<close>

lemma readBE16_None [simp]: "readBE16 p off = None \<longleftrightarrow> length p < off + 2"
  by (auto simp: readBE16_def byte_at_def split: bind_splits)

lemma readBE32_None [simp]: "readBE32 p off = None \<longleftrightarrow> length p < off + 4"
  by (auto simp: readBE32_def byte_at_def split: bind_splits)

lemma readLE16_None [simp]: "readLE16 p off = None \<longleftrightarrow> length p < off + 2"
  by (auto simp: readLE16_def byte_at_def split: bind_splits)

lemma readLE16s_None [simp]: "readLE16s p off = None \<longleftrightarrow> length p < off + 2"
  by (simp add: readLE16s_def)

lemma readLE32_None [simp]: "readLE32 p off = None \<longleftrightarrow> length p < off + 4"
  by (auto simp: readLE32_def byte_at_def split: bind_splits)

lemmas read_None =
  readBE16_None readBE32_None readLE16_None readLE16s_None readLE32_None byte_at_eq_None

lemma loadGamepadReport_None [simp]: "loadGamepadReport p off = None \<longleftrightarrow> length p < off + 12"
  by (auto simp: loadGamepadReport_def bind_eq_None_conv)

lemma decodeAudioFrameHeader_None [simp]:
  "decodeAudioFrameHeader p off = None \<longleftrightarrow> length p < off + 3"
  by (auto simp: decodeAudioFrameHeader_def bind_eq_None_conv)

lemma decodeMotionReport_None [simp]: "decodeMotionReport p off = None \<longleftrightarrow> length p < off + 16"
  by (auto simp: decodeMotionReport_def bind_eq_None_conv)

lemma decodeTouchpadReportV1_None [simp]:
  "decodeTouchpadReportV1 p off = None \<longleftrightarrow> length p < off + 15"
  by (auto simp: decodeTouchpadReportV1_def bind_eq_None_conv)

lemma decodeTouchpadReportV2_None [simp]:
  "decodeTouchpadReportV2 p off = None \<longleftrightarrow> length p < off + 18"
  by (auto simp: decodeTouchpadReportV2_def bind_eq_None_conv)

section \<open>Round trips of the byte order\<close>

lemma join_BE16: "(push_bit 8 (ucast (ucast (drop_bit 8 v) :: u8)) OR ucast (ucast v :: u8)) = (v :: u16)"
  by (rule u16_eqI) (auto simp: bit_simps)

lemma join_BE32:
  "(push_bit 24 (ucast (ucast (drop_bit 24 v) :: u8)) OR push_bit 16 (ucast (ucast (drop_bit 16 v) :: u8))
    OR push_bit 8 (ucast (ucast (drop_bit 8 v) :: u8)) OR ucast (ucast v :: u8)) = (v :: u32)"
proof (rule u32_eqI)
  fix n :: nat
  assume "n < 32"
  then consider "n < 8" | "8 \<le> n" "n < 16" | "16 \<le> n" "n < 24" | "24 \<le> n" "n < 32" by linarith
  then show "bit (push_bit 24 (ucast (ucast (drop_bit 24 v) :: u8))
      OR push_bit 16 (ucast (ucast (drop_bit 16 v) :: u8))
      OR push_bit 8 (ucast (ucast (drop_bit 8 v) :: u8)) OR ucast (ucast v :: u8) :: u32) n = bit v n"
    by cases (auto simp: bit_simps)
qed

lemma join_LE16: "(ucast (ucast v :: u8) OR push_bit 8 (ucast (ucast (drop_bit 8 v) :: u8))) = (v :: u16)"
  using join_BE16 [of v] by (simp add: or.commute)

lemma join_LE32:
  "(ucast (ucast v :: u8) OR push_bit 8 (ucast (ucast (drop_bit 8 v) :: u8))
    OR push_bit 16 (ucast (ucast (drop_bit 16 v) :: u8))
    OR push_bit 24 (ucast (ucast (drop_bit 24 v) :: u8))) = (v :: u32)"
  using join_BE32 [of v] by (simp add: or.commute or.left_commute)

lemma split_16:
  "ucast (drop_bit 8 (push_bit 8 (ucast a) OR ucast b :: u16)) = (a :: u8)"
  "ucast (push_bit 8 (ucast a) OR ucast b :: u16) = (b :: u8)"
  by (rule u8_eqI; auto simp: bit_simps sat_simps)+

lemma split_32:
  "ucast (drop_bit 24 (push_bit 24 (ucast a) OR push_bit 16 (ucast b) OR push_bit 8 (ucast c) OR ucast d :: u32)) = (a :: u8)"
  "ucast (drop_bit 16 (push_bit 24 (ucast a) OR push_bit 16 (ucast b) OR push_bit 8 (ucast c) OR ucast d :: u32)) = (b :: u8)"
  "ucast (drop_bit 8 (push_bit 24 (ucast a) OR push_bit 16 (ucast b) OR push_bit 8 (ucast c) OR ucast d :: u32)) = (c :: u8)"
  "ucast (push_bit 24 (ucast a) OR push_bit 16 (ucast b) OR push_bit 8 (ucast c) OR ucast d :: u32) = (d :: u8)"
  by (rule u8_eqI; auto simp: bit_simps sat_simps)+

lemmas split_words = split_16 split_32 split_16 [unfolded drop_bit_or] split_32 [unfolded drop_bit_or]

lemma length_writes [simp]:
  "length (writeBE16 v) = 2" "length (writeBE32 w) = 4"
  "length (writeLE16 v) = 2" "length (writeLE32 w) = 4"
  by (simp_all add: writeBE16_def writeBE32_def writeLE16_def writeLE32_def)

text \<open>Reading a written integer, wherever it stands in the buffer.\<close>

lemma readBE16_write [simp]: "length pre = off \<Longrightarrow> readBE16 (pre @ writeBE16 v @ post) off = Some v"
  by (auto simp: readBE16_def writeBE16_def byte_at_def nth_append join_BE16)

lemma readBE32_write [simp]: "length pre = off \<Longrightarrow> readBE32 (pre @ writeBE32 v @ post) off = Some v"
  by (auto simp: readBE32_def writeBE32_def byte_at_def nth_append join_BE32 or.assoc)

lemma readLE16_write [simp]: "length pre = off \<Longrightarrow> readLE16 (pre @ writeLE16 v @ post) off = Some v"
  by (auto simp: readLE16_def writeLE16_def byte_at_def nth_append join_LE16)

lemma readLE16s_write [simp]: "length pre = off \<Longrightarrow> readLE16s (pre @ writeLE16 v @ post) off = Some v"
  by (simp add: readLE16s_def)

lemma readLE32_write [simp]: "length pre = off \<Longrightarrow> readLE32 (pre @ writeLE32 v @ post) off = Some v"
  by (auto simp: readLE32_def writeLE32_def byte_at_def nth_append join_LE32 or.assoc)

text \<open>Writing a read integer gives back the bytes.\<close>

lemma writeBE16_read: "readBE16 p off = Some v \<Longrightarrow> writeBE16 v = [p ! off, p ! (off + 1)]"
  by (auto simp: readBE16_def writeBE16_def byte_at_def split_words split: bind_splits if_splits)

lemma writeBE32_read:
  "readBE32 p off = Some v \<Longrightarrow> writeBE32 v = [p ! off, p ! (off + 1), p ! (off + 2), p ! (off + 3)]"
  by (auto simp: readBE32_def writeBE32_def byte_at_def split_words split: bind_splits if_splits)

section \<open>Frames: the layout the decoders read\<close>

text \<open>
  The wire layouts as the comments of \<^verbatim>\<open>types.h\<close> list them, written as the bytes a sender
  produces.  Decoding such a frame at any offset gives back its fields.
\<close>

definition gamepadWire :: "gamepad_report \<Rightarrow> u8 list" where
  "gamepadWire r = writeLE16 (wButtons r) @ [bLeftTrigger r, bRightTrigger r] @
     writeLE16 (sThumbLX r) @ writeLE16 (sThumbLY r) @ writeLE16 (sThumbRX r) @ writeLE16 (sThumbRY r)"

definition motionWire :: "motion_report \<Rightarrow> u8 list" where
  "motionWire r = writeLE16 (gyroX r) @ writeLE16 (gyroY r) @ writeLE16 (gyroZ r) @
     writeLE16 (accelX r) @ writeLE16 (accelY r) @ writeLE16 (accelZ r) @
     writeLE32 (timestampDeltaUs r)"

definition flag_bits :: "bool \<Rightarrow> bool \<Rightarrow> bool \<Rightarrow> u8" where
  "flag_bits a b c = (if a then 1 else 0) OR (if b then 2 else 0) OR (if c then 4 else 0)"

definition fingerWire :: "touchpad_finger \<Rightarrow> u8 list" where
  "fingerWire f = [tf_trackingId f] @ writeLE16 (tf_x f) @ writeLE16 (tf_y f)"

definition touchpadWireV1 :: "touchpad_report \<Rightarrow> u8 list" where
  "touchpadWireV1 r =
     [flag_bits (tf_active (finger0 r)) (tf_active (finger1 r)) (buttonPressed r)] @
     fingerWire (finger0 r) @ fingerWire (finger1 r) @ writeLE32 (eventTimeMs r)"

definition touchpadWireV2 :: "touchpad_report \<Rightarrow> u8 list" where
  "touchpadWireV2 r =
     [flag_bits (tf_active (finger0 r)) (tf_active (finger1 r)) False,
      flag_bits (buttonPressed r) (rightPressed r) (middlePressed r)] @
     fingerWire (finger0 r) @ fingerWire (finger1 r) @ writeLE32 (eventTimeMs r) @
     writeLE16 (scrollV r)"

lemma flag_bits_AND [simp]:
  "flag_bits a b c AND 1 \<noteq> 0 \<longleftrightarrow> a"
  "flag_bits a b c AND 2 \<noteq> 0 \<longleftrightarrow> b"
  "flag_bits a b c AND 4 \<noteq> 0 \<longleftrightarrow> c"
  "flag_bits a b c AND 1 = 0 \<longleftrightarrow> \<not> a"
  "flag_bits a b c AND 2 = 0 \<longleftrightarrow> \<not> b"
  "flag_bits a b c AND 4 = 0 \<longleftrightarrow> \<not> c"
  by (cases a; cases b; cases c; simp add: flag_bits_def)+

text \<open>The value of a 16- or 32-bit little-endian field at an index, for buffers written out in full.\<close>

lemma readLE16_nth:
  "off + 1 < length p \<Longrightarrow> p ! off = ucast v \<Longrightarrow> p ! (off + 1) = ucast (drop_bit 8 v) \<Longrightarrow>
   readLE16 p off = Some v"
  by (simp add: readLE16_def join_LE16)

lemma readLE32_nth:
  "off + 3 < length p \<Longrightarrow> p ! off = ucast v \<Longrightarrow> p ! (off + 1) = ucast (drop_bit 8 v) \<Longrightarrow>
   p ! (off + 2) = ucast (drop_bit 16 v) \<Longrightarrow> p ! (off + 3) = ucast (drop_bit 24 v) \<Longrightarrow>
   readLE32 p off = Some v"
  by (simp add: readLE32_def join_LE32 or.assoc)

lemmas wire_layout =
  writeLE16_def writeLE32_def fingerWire_def readLE16s_def nth_append readLE16_nth readLE32_nth

lemma loadGamepadReport_wire:
  "length pre = off \<Longrightarrow> loadGamepadReport (pre @ gamepadWire r @ post) off = Some r"
  by (auto simp: loadGamepadReport_def gamepadWire_def byte_at_def wire_layout)

lemma decodeMotionReport_wire:
  "length pre = off \<Longrightarrow> decodeMotionReport (pre @ motionWire r @ post) off = Some r"
  by (auto simp: decodeMotionReport_def motionWire_def byte_at_def wire_layout)

lemma decodeTouchpadReportV1_wire:
  "length pre = off \<Longrightarrow> decodeTouchpadReportV1 (pre @ touchpadWireV1 r @ post) off =
     Some (r\<lparr>rightPressed := False, middlePressed := False, scrollV := 0\<rparr>)"
  by (auto simp: decodeTouchpadReportV1_def touchpadWireV1_def byte_at_def wire_layout)

lemma decodeTouchpadReportV2_wire:
  "length pre = off \<Longrightarrow> decodeTouchpadReportV2 (pre @ touchpadWireV2 r @ post) off = Some r"
  by (auto simp: decodeTouchpadReportV2_def touchpadWireV2_def byte_at_def wire_layout)

lemma decodeAudioFrameHeader_encode:
  "length pre = off \<Longrightarrow> decodeAudioFrameHeader (pre @ encodeAudioFrameHeader c s @ post) off =
     Some \<lparr>ah_ctrlIdx = c, ah_seq = s\<rparr>"
  by (auto simp: decodeAudioFrameHeader_def encodeAudioFrameHeader_def readBE16_def writeBE16_def
      byte_at_def nth_append join_BE16)

section \<open>Hexadecimal and IPv4 text\<close>

definition hex_pair :: "u8 \<Rightarrow> string" where
  "hex_pair b = [HEX_DIGITS ! unat (drop_bit 4 b), HEX_DIGITS ! unat (b AND 15)]"

lemma appendHexByte_pair: "appendHexByte out b = out @ hex_pair b"
  by (simp add: appendHexByte_def hex_pair_def)

lemma hexEncode_concat: "hexEncode bs = concat (map hex_pair bs)"
proof -
  have "foldl appendHexByte out bs = out @ concat (map hex_pair bs)" for out
    by (induction bs arbitrary: out) (simp_all add: appendHexByte_pair)
  then show ?thesis by (simp add: hexEncode_def)
qed

lemma hexEncode_length [simp]: "length (hexEncode bs) = 2 * length bs"
  by (simp add: hexEncode_concat length_concat comp_def hex_pair_def sum_list_triv)

lemma hexEncode_Cons: "hexEncode (b # bs) = hex_pair b @ hexEncode bs"
  by (simp add: hexEncode_concat)

lemma nibble_less:
  "unat (drop_bit 4 (b :: u8)) < 16" "unat ((b :: u8) AND 15) < 16"
proof -
  have "unat (drop_bit 4 b) = unat b div 16"
    by (simp only: unat_drop_bit_eq) (simp add: drop_bit_eq_div)
  then show "unat (drop_bit 4 b) < 16" using unat_u8_less [of b] by linarith
  show "unat (b AND 15) < 16"
    by (simp only: and_masks unsigned_take_bit_eq) (simp add: take_bit_eq_mod)
qed

lemma nibble_join: "push_bit 4 (drop_bit 4 b) OR (b AND 15) = (b :: u8)"
  by (rule u8_eqI) (auto simp: bit_simps and_masks)

lemma hexEncodeSeparated_from_shift:
  "hexEncodeSeparated_from out bs sep (Suc i) = out @ concat (map (\<lambda>b. sep # hex_pair b) bs)"
  by (induction bs arbitrary: out i) (simp_all add: appendHexByte_pair)

lemma hexEncodeSeparated_Cons:
  "hexEncodeSeparated (b # bs) sep = hex_pair b @ concat (map (\<lambda>c. sep # hex_pair c) bs)"
  by (simp add: hexEncodeSeparated_def appendHexByte_pair hexEncodeSeparated_from_shift)

lemma parseIPv4_loop_digit:
  "d < 10 \<Longrightarrow> parseIPv4_loop (digit_char d # cs) parts val any =
     (if val * 10 + d > 255 then 0 else parseIPv4_loop cs parts (val * 10 + d) True)"
  by (simp add: Let_def)

lemma parseIPv4_loop_dec:
  assumes "n < 256"
  shows "parseIPv4_loop (dec_string n @ cs) parts 0 False = parseIPv4_loop cs parts n True"
proof -
  consider "n < 10" | "10 \<le> n" "n < 100" | "100 \<le> n" by linarith
  then show ?thesis
  proof cases
    case 1
    with assms show ?thesis by (simp add: dec_string_small parseIPv4_loop_digit)
  next
    case 2
    then have "dec_string n = [digit_char (n div 10), digit_char (n mod 10)]"
      by (simp add: dec_string_step dec_string_small)
    moreover have "n div 10 < 10" "n div 10 * 10 + n mod 10 = n" using 2 by (simp_all add: div_mult_mod_eq)
    ultimately show ?thesis using assms by (simp add: parseIPv4_loop_digit del: parseIPv4_loop.simps)
  next
    case 3
    then have "dec_string n = [digit_char (n div 10 div 10), digit_char (n div 10 mod 10), digit_char (n mod 10)]"
      using assms by (simp add: dec_string_step dec_string_small)
    moreover have "n div 10 div 10 * 10 + n div 10 mod 10 = n div 10" "n div 10 * 10 + n mod 10 = n"
      by (rule div_mult_mod_eq)+
    moreover have "n div 10 div 10 < 10" "n div 10 < 100" "n div 10 mod 10 < 10" "n mod 10 < 10"
      using assms by simp_all
    ultimately show ?thesis using assms by (simp add: parseIPv4_loop_digit del: parseIPv4_loop.simps div_mult2_eq)
  qed
qed

lemma parseIPv4_loop_dot:
  "length parts < 3 \<Longrightarrow> parseIPv4_loop (CHR ''.'' # cs) parts v True =
     parseIPv4_loop cs (parts @ [of_nat v]) 0 False"
  by simp

lemma nbo_octets:
  "ucast (ucast (nbo AND 255) :: u8) OR push_bit 8 (ucast (ucast (drop_bit 8 nbo AND 255) :: u8))
    OR push_bit 16 (ucast (ucast (drop_bit 16 nbo AND 255) :: u8))
    OR push_bit 24 (ucast (ucast (drop_bit 24 nbo AND 255) :: u8)) = (nbo :: u32)"
proof -
  have "(ucast (w AND 255) :: u8) = ucast w" for w :: u32
    by (rule u8_eqI) (auto simp: bit_simps and_masks)
  then show ?thesis by (simp add: join_LE32)
qed

lemma format_parse_IPv4: "parseIPv4Nbo (formatIPv4Nbo nbo) = nbo"
proof -
  note step = parseIPv4_loop_dec parseIPv4_loop_dot
  have last: "parseIPv4_loop (dec_string n) ps 0 False = parseIPv4_loop [] ps n True" if "n < 256" for n ps
    using parseIPv4_loop_dec [OF that, of "[]"] by simp
  show ?thesis
    by (simp add: parseIPv4Nbo_def formatIPv4Nbo_def Let_def step last nbo_octets
        del: parseIPv4_loop.simps) (simp add: nbo_octets)
qed

section \<open>Touchpad coordinates\<close>

lemma touchpadWireToRange_bounds:
  "1 \<le> res \<Longrightarrow> 0 \<le> touchpadWireToRange v res \<and> touchpadWireToRange v res \<le> res - 1"
  by (auto simp: touchpadWireToRange_def Let_def)

lemma sint_i16_bounds: "- 32768 \<le> sint (v :: i16)" "sint (v :: i16) \<le> 32767"
  using sint_greater_eq [of v] sint_less [of v] by simp_all

text \<open>The clamps of the source never fire: the scaled value is already in range.\<close>

lemma touchpadWireToRange_exact:
  assumes res: "1 < res"
  shows "touchpadWireToRange v res = (sint v + 32768) * res div 65536"
proof -
  let ?u = "sint v + 32768"
  have u: "0 \<le> ?u" "?u \<le> 65535" using sint_i16_bounds [of v] by linarith+
  have "0 \<le> ?u * res" using u(1) res by (intro mult_nonneg_nonneg) linarith+
  moreover have "?u * res \<le> 65535 * res" using u res by (intro mult_right_mono) linarith+
  ultimately have "0 \<le> ?u * res div 65536 \<and> ?u * res div 65536 \<le> res - 1" using res by linarith
  then show ?thesis using res by (simp add: touchpadWireToRange_def Let_def)
qed

lemma touchpadWireToRange_mono:
  "1 < res \<Longrightarrow> sint v \<le> sint w \<Longrightarrow> touchpadWireToRange v res \<le> touchpadWireToRange w res"
  by (simp add: touchpadWireToRange_exact zdiv_mono1 mult_right_mono)

lemma touchpadWireToRange_edges:
  "touchpadWireToRange 0x8000 res = 0"
  "1 < res \<Longrightarrow> res \<le> 65536 \<Longrightarrow> touchpadWireToRange 0x7FFF res = res - 1"
proof -
  show "touchpadWireToRange 0x8000 res = 0" by (simp add: touchpadWireToRange_def)
  assume "1 < res" "res \<le> 65536"
  then show "touchpadWireToRange 0x7FFF res = res - 1" by (simp add: touchpadWireToRange_exact)
qed

text \<open>The packed DS4 slot, read back: the lifted bit, the tracking id and both 12-bit coordinates.\<close>

definition ds4_unpack_x :: "u8 list \<Rightarrow> int" where
  "ds4_unpack_x b = uint (b ! 1) + 256 * (uint (b ! 2) mod 16)"

definition ds4_unpack_y :: "u8 list \<Rightarrow> int" where
  "ds4_unpack_y b = uint (b ! 2) div 16 + 16 * uint (b ! 3)"

lemma ds4_low_byte: "0 \<le> x \<Longrightarrow> uint (word_of_int (x AND 255) :: u8) = x mod 256"
  by (simp add: int_and_masks take_bit_eq_mod uint_word_of_int)

lemma ds4_mid_byte:
  assumes "0 \<le> x" "0 \<le> y"
  shows "uint (word_of_int (push_bit 4 (y AND 15) OR (drop_bit 8 x AND 15)) :: u8)
    = 16 * (y mod 16) + (x div 256) mod 16"
proof -
  have "push_bit 4 (take_bit 4 y) OR take_bit 4 (drop_bit 8 x)
      = push_bit 4 (take_bit 4 y) + take_bit 4 (drop_bit 8 x)"
    by (rule disjunctive_add [symmetric]) (auto simp: bit_simps)
  then have "push_bit 4 (y AND 15) OR (drop_bit 8 x AND 15) = 16 * (y mod 16) + (x div 256) mod 16"
    by (simp add: int_and_masks take_bit_eq_mod push_bit_eq_mult drop_bit_eq_div)
  moreover have "16 * (y mod 16) + (x div 256) mod 16 < 256" by linarith
  moreover have "0 \<le> 16 * (y mod 16) + (x div 256) mod 16" by simp
  ultimately show ?thesis by (simp only: uint_word_of_int) (simp add: take_bit_eq_mod)
qed

lemma ds4_nibbles:
  assumes "0 \<le> x" "x < 4096" "0 \<le> y" "y < 4096"
  shows "x mod 256 + 256 * ((16 * (y mod 16) + x div 256 mod 16) mod 16) = (x :: int)"
    and "(16 * (y mod 16) + x div 256 mod 16) div 16 + 16 * (y div 16 mod 256) = (y :: int)"
proof -
  have "x div 256 < 16" "0 \<le> x div 256" "y div 16 < 256" "0 \<le> y div 16" using assms by linarith+
  then have m: "x div 256 mod 16 = x div 256" "y div 16 mod 256 = y div 16" by simp_all
  have "(16 * (y mod 16) + x div 256) mod 16 = x div 256" "(16 * (y mod 16) + x div 256) div 16 = y mod 16"
    using \<open>x div 256 < 16\<close> \<open>0 \<le> x div 256\<close> by simp_all
  then show "x mod 256 + 256 * ((16 * (y mod 16) + x div 256 mod 16) mod 16) = x"
    "(16 * (y mod 16) + x div 256 mod 16) div 16 + 16 * (y div 16 mod 256) = y"
    by (simp_all only: m) (simp_all add: mult.commute)
qed

lemma ds4_high_byte: "0 \<le> y \<Longrightarrow> uint (word_of_int (drop_bit 4 y AND 255) :: u8) = (y div 16) mod 256"
  by (simp add: int_and_masks take_bit_eq_mod drop_bit_eq_div uint_word_of_int)

lemma ds4PackTouchFinger_unpack:
  "ds4_unpack_x (ds4PackTouchFinger f t) = touchpadWireToRange (tf_x f) DS4_TOUCHPAD_RES_X"
  "ds4_unpack_y (ds4PackTouchFinger f t) = touchpadWireToRange (tf_y f) DS4_TOUCHPAD_RES_Y"
  "ds4PackTouchFinger f t ! 0 AND 127 = t AND 127"
  "ds4PackTouchFinger f t ! 0 AND 128 = 0 \<longleftrightarrow> tf_active f"
  "length (ds4PackTouchFinger f t) = 4"
proof -
  let ?x = "touchpadWireToRange (tf_x f) DS4_TOUCHPAD_RES_X"
  let ?y = "touchpadWireToRange (tf_y f) DS4_TOUCHPAD_RES_Y"
  have x: "0 \<le> ?x" "?x \<le> 1919" and y: "0 \<le> ?y" "?y \<le> 942"
    using touchpadWireToRange_bounds [of DS4_TOUCHPAD_RES_X "tf_x f"]
      touchpadWireToRange_bounds [of DS4_TOUCHPAD_RES_Y "tf_y f"]
    by (simp_all add: DS4_TOUCHPAD_RES_X_def DS4_TOUCHPAD_RES_Y_def)
  note bytes = ds4_low_byte [OF x(1)] ds4_mid_byte [OF x(1) y(1)] ds4_high_byte [OF y(1)]
  have lim: "?x < 4096" "?y < 4096" using x y by linarith+
  note eq = ds4_nibbles [OF x(1) lim(1) y(1) lim(2)]
  show "ds4_unpack_x (ds4PackTouchFinger f t) = ?x"
    by (simp only: ds4_unpack_x_def ds4PackTouchFinger_def Let_def nth_Cons_Suc nth_Cons_0
        One_nat_def numeral_2_eq_2 bytes eq)
  show "ds4_unpack_y (ds4PackTouchFinger f t) = ?y"
    by (simp only: ds4_unpack_y_def ds4PackTouchFinger_def Let_def nth_Cons_Suc nth_Cons_0
        One_nat_def numeral_2_eq_2 numeral_3_eq_3 bytes eq)
  show "length (ds4PackTouchFinger f t) = 4" by (simp add: ds4PackTouchFinger_def Let_def)
  show "ds4PackTouchFinger f t ! 0 AND 127 = t AND 127"
    by (simp add: ds4PackTouchFinger_def Let_def and.assoc bit.conj_disj_distrib2)
  show "ds4PackTouchFinger f t ! 0 AND 128 = 0 \<longleftrightarrow> tf_active f"
    by (simp add: ds4PackTouchFinger_def Let_def and.assoc bit.conj_disj_distrib2)
qed

section \<open>The codecs as contracts\<close>

text \<open>
  C40.  Every report survives the wire: wherever it lies in a datagram, decoding the bytes of a gamepad,
  motion or version 2 touchpad report or of an audio frame header gives back exactly what was encoded;
  a version 1 touchpad report gives back the report without the fields that version does not carry.
\<close>

theorem reports_round_trip:
  "loadGamepadReport (pre @ gamepadWire g @ suf) (length pre) = Some g \<and>
   decodeMotionReport (pre @ motionWire m @ suf) (length pre) = Some m \<and>
   decodeTouchpadReportV2 (pre @ touchpadWireV2 t @ suf) (length pre) = Some t \<and>
   decodeTouchpadReportV1 (pre @ touchpadWireV1 t @ suf) (length pre) =
     Some (t\<lparr>rightPressed := False, middlePressed := False, scrollV := 0\<rparr>) \<and>
   decodeAudioFrameHeader (pre @ encodeAudioFrameHeader c q @ suf) (length pre) = Some \<lparr>ah_ctrlIdx = c, ah_seq = q\<rparr>"
  by (intro conjI loadGamepadReport_wire decodeMotionReport_wire decodeTouchpadReportV2_wire
      decodeTouchpadReportV1_wire decodeAudioFrameHeader_encode refl)

text \<open>
  No decoder reads past its buffer: each fails exactly when the bytes of its layout are not all
  there.
\<close>

theorem decoders_refuse_short:
  "(loadGamepadReport p off = None \<longleftrightarrow> length p < off + 12) \<and>
   (decodeMotionReport p off = None \<longleftrightarrow> length p < off + 16) \<and>
   (decodeTouchpadReportV1 p off = None \<longleftrightarrow> length p < off + 15) \<and>
   (decodeTouchpadReportV2 p off = None \<longleftrightarrow> length p < off + 18) \<and>
   (decodeAudioFrameHeader p off = None \<longleftrightarrow> length p < off + 3)"
  by simp

text \<open>
  Printing an address and parsing the text gives the address back, for all addresses.
\<close>

theorem ipv4_text_round_trip: "parseIPv4Nbo (formatIPv4Nbo nbo) = nbo"
  by (rule format_parse_IPv4)

text \<open>
  A finger is packed without loss: from the four bytes of a DualShock 4 touch point the two 12-bit
  coordinates read back as the scaled position, which lies on the pad, with the low seven bits of the
  tracking id and the inverted contact bit.
\<close>

theorem touch_point_packed:
  "ds4_unpack_x (ds4PackTouchFinger f t) = touchpadWireToRange (tf_x f) DS4_TOUCHPAD_RES_X \<and>
   ds4_unpack_y (ds4PackTouchFinger f t) = touchpadWireToRange (tf_y f) DS4_TOUCHPAD_RES_Y \<and>
   ds4_unpack_x (ds4PackTouchFinger f t) \<in> {0..<1920} \<and> ds4_unpack_y (ds4PackTouchFinger f t) \<in> {0..<943} \<and>
   ds4PackTouchFinger f t ! 0 AND 127 = t AND 127 \<and> (ds4PackTouchFinger f t ! 0 AND 128 = 0 \<longleftrightarrow> tf_active f) \<and>
   length (ds4PackTouchFinger f t) = 4"
  using touchpadWireToRange_bounds [of DS4_TOUCHPAD_RES_X "tf_x f"]
    touchpadWireToRange_bounds [of DS4_TOUCHPAD_RES_Y "tf_y f"]
  by (simp add: ds4PackTouchFinger_unpack DS4_TOUCHPAD_RES_X_def DS4_TOUCHPAD_RES_Y_def)

end
