(* ===== verification/Domain_Types.thy ===== *)
theory Domain_Types
  imports Wire_Codec
begin

text \<open>
  The domain types of \<^verbatim>\<open>core/types.h\<close>: enumerations with their wire names, the capability word,
  the declarative controller descriptor, the per-controller and per-connection rows of the session
  service and the results its operations return.  Serials, slot and controller indices are natural
  numbers (the C++ code bounds them by 16 and 32 before it uses them); tokens, epochs, counters,
  generations and capability words keep their width.
\<close>

section \<open>Limits and codes\<close>

abbreviation (input) "PROTOCOL_VERSION \<equiv> 3 :: int"
abbreviation (input) "PROTOCOL_VERSION_MIN \<equiv> 1 :: int"

abbreviation (input) "MSG_GAMEPAD_DATA \<equiv> 0x0001 :: u16"
abbreviation (input) "MSG_HEARTBEAT_PING \<equiv> 0x0002 :: u16"
abbreviation (input) "MSG_HEARTBEAT_ACK \<equiv> 0x0003 :: u16"
abbreviation (input) "MSG_RUMBLE \<equiv> 0x0009 :: u16"
abbreviation (input) "MSG_MOTION \<equiv> 0x000A :: u16"
abbreviation (input) "MSG_BATTERY \<equiv> 0x000B :: u16"
abbreviation (input) "MSG_TOUCHPAD \<equiv> 0x000C :: u16"
abbreviation (input) "MSG_LIGHTBAR \<equiv> 0x000D :: u16"
abbreviation (input) "MSG_SESSION_CLOSE \<equiv> 0x000F :: u16"
abbreviation (input) "MSG_TRIGGER_EFFECTS \<equiv> 0x0010 :: u16"
abbreviation (input) "MSG_PLAYER_LEDS \<equiv> 0x0011 :: u16"
abbreviation (input) "MSG_MIC_AUDIO \<equiv> 0x0012 :: u16"
abbreviation (input) "MSG_SPEAKER_AUDIO \<equiv> 0x0013 :: u16"
abbreviation (input) "MSG_MIC_LED \<equiv> 0x0014 :: u16"
abbreviation (input) "MSG_HAPTIC_AUDIO \<equiv> 0x0015 :: u16"

abbreviation (input) "CLOSE_REASON_SHUTDOWN \<equiv> 0 :: u8"
abbreviation (input) "CLOSE_REASON_KICKED \<equiv> 1 :: u8"
abbreviation (input) "CLOSE_REASON_REPLACED \<equiv> 2 :: u8"
abbreviation (input) "CLOSE_REASON_UNPAIRED \<equiv> 3 :: u8"

abbreviation (input) "CAP_ANALOG_TRIGGERS \<equiv> 0x0001 :: u16"
abbreviation (input) "CAP_RUMBLE \<equiv> 0x0002 :: u16"
abbreviation (input) "CAP_MOTION \<equiv> 0x0004 :: u16"
abbreviation (input) "CAP_LIGHTBAR \<equiv> 0x0008 :: u16"
abbreviation (input) "CAP_TRIGGER_EFFECTS \<equiv> 0x0010 :: u16"
abbreviation (input) "CAP_PLAYER_LEDS \<equiv> 0x0020 :: u16"
abbreviation (input) "CAP_MIC \<equiv> 0x0040 :: u16"
abbreviation (input) "CAP_SPEAKER \<equiv> 0x0080 :: u16"
abbreviation (input) "CAP_HAPTIC_AUDIO \<equiv> 0x0100 :: u16"

abbreviation (input) "APPLY_OK \<equiv> 0 :: u8"
abbreviation (input) "APPLY_ERR_NO_SLOTS \<equiv> 1 :: u8"
abbreviation (input) "APPLY_ERR_PLUGIN_FAIL \<equiv> 2 :: u8"
abbreviation (input) "APPLY_ERR_REPLUG_FAIL \<equiv> 3 :: u8"
abbreviation (input) "APPLY_ERR_BACKEND_UNAVAIL \<equiv> 4 :: u8"
abbreviation (input) "APPLY_ERR_INVALID_TYPE \<equiv> 5 :: u8"
abbreviation (input) "APPLY_ERR_INVALID_INDEX \<equiv> 6 :: u8"

abbreviation (input) "HEADER_SIZE \<equiv> 8 :: nat"
abbreviation (input) "INNER_HEADER_SIZE \<equiv> 4 :: nat"
abbreviation (input) "AUTH_TAG_SIZE \<equiv> 16 :: nat"
abbreviation (input) "CRYPTO_KEY_SIZE \<equiv> 32 :: nat"
abbreviation (input) "CRYPTO_NONCE_SIZE \<equiv> 12 :: nat"
abbreviation (input) "SESSION_SALT_SIZE \<equiv> 8 :: nat"
abbreviation (input) "UDP_DATAGRAM_MAX_BYTES \<equiv> 1500 :: nat"
abbreviation (input) "MAX_INNER_MESSAGE_BYTES \<equiv> 1476 :: nat"
abbreviation (input) "MAX_INNER_PAYLOAD_BYTES \<equiv> 1472 :: nat"

abbreviation (input) "HEARTBEAT_INTERVAL_SEC \<equiv> 2 :: int"
abbreviation (input) "HEARTBEAT_MISS_MAX \<equiv> 5 :: int"
abbreviation (input) "HEARTBEAT_STALL_FACTOR \<equiv> 2 :: int"
abbreviation (input) "REST_LIVENESS_GRACE_SEC \<equiv> 15 :: int"
abbreviation (input) "MAX_CONTROLLERS_PER_CONN \<equiv> 16 :: nat"
abbreviation (input) "MAX_BACKEND_CONTROLLERS \<equiv> 16 :: nat"
abbreviation (input) "MAX_SESSIONS \<equiv> 32 :: nat"

abbreviation (input) "CONTROLLER_TYPE_XBOX \<equiv> 0 :: u8"
abbreviation (input) "CONTROLLER_TYPE_PLAYSTATION \<equiv> 1 :: u8"
abbreviation (input) "CONTROLLER_TYPE_DUALSENSE \<equiv> 2 :: u8"
abbreviation (input) "CONTROLLER_TYPE_SWITCHPRO \<equiv> 3 :: u8"
abbreviation (input) "CONTROLLER_TYPE_COUNT \<equiv> 4 :: u8"

abbreviation (input) "RUMBLE_WIRE_DURATION_MS \<equiv> 500 :: u16"
abbreviation (input) "RUMBLE_REFRESH_MS \<equiv> 200 :: int"

abbreviation (input) "AUDIO_FRAME_SAMPLES \<equiv> 960 :: nat"
abbreviation (input) "AUDIO_WIRE_HEADER_BYTES \<equiv> 3 :: nat"
abbreviation (input) "AUDIO_WIRE_MIN_PAYLOAD_BYTES \<equiv> 4 :: nat"
abbreviation (input) "MIC_AUDIO_MAX_PACKETS_PER_SEC \<equiv> 75 :: nat"

abbreviation (input) "MIC_LED_STATE_OFF \<equiv> 0 :: u8"
abbreviation (input) "MIC_LED_STATE_COUNT \<equiv> 3 :: u8"

abbreviation (input) "MIC_DROP_LOG_NO_CONTROLLER \<equiv> 0x01 :: u8"
abbreviation (input) "MIC_DROP_LOG_NO_CAP \<equiv> 0x02 :: u8"
abbreviation (input) "MIC_DROP_LOG_RATE_LIMIT \<equiv> 0x04 :: u8"
abbreviation (input) "MIC_DROP_LOG_HOST_DISABLED \<equiv> 0x08 :: u8"
abbreviation (input) "MIC_DROP_LOG_NO_SINK \<equiv> 0x10 :: u8"

abbreviation (input) "BATTERY_LEVEL_UNKNOWN \<equiv> 0xFF :: u8"
abbreviation (input) "BATTERY_STATUS_UNKNOWN \<equiv> 0 :: u8"
abbreviation (input) "BATTERY_STATUS_DISCHARGING \<equiv> 1 :: u8"
abbreviation (input) "BATTERY_STATUS_CHARGING \<equiv> 2 :: u8"
abbreviation (input) "BATTERY_STATUS_FULL \<equiv> 3 :: u8"
abbreviation (input) "BATTERY_STATUS_WIRED \<equiv> 4 :: u8"
abbreviation (input) "BATTERY_STATUS_COUNT \<equiv> 5 :: u8"

abbreviation (input) "TOUCHPAD_MODE_DS4 \<equiv> 0 :: u8"
abbreviation (input) "TOUCHPAD_MODE_MOUSE \<equiv> 1 :: u8"
abbreviation (input) "TOUCHPAD_MODE_OFF \<equiv> 2 :: u8"
abbreviation (input) "TOUCHPAD_MODE_COUNT \<equiv> 3 :: u8"

section \<open>Enumerations and their wire names\<close>

datatype device_link_state = Paired | Linking | Active | NotResponding

datatype pin_state = PinActive | PinPaired

datatype controller_state =
  Source | Registering | Allocating | Live | Quiet | Detached | Failed

datatype gamepad_identity = Xbox | DS4 | DualSense | SwitchPro

datatype log_level = INFO | WARN | ERR

fun deviceLinkStateName :: "device_link_state \<Rightarrow> string" where
  "deviceLinkStateName Paired = ''paired''"
| "deviceLinkStateName Linking = ''linking''"
| "deviceLinkStateName Active = ''active''"
| "deviceLinkStateName NotResponding = ''notResponding''"

fun pinStateName :: "pin_state \<Rightarrow> string" where
  "pinStateName PinActive = ''active''"
| "pinStateName PinPaired = ''paired''"

fun controllerStateName :: "controller_state \<Rightarrow> string" where
  "controllerStateName Source = ''source''"
| "controllerStateName Registering = ''registering''"
| "controllerStateName Allocating = ''allocating''"
| "controllerStateName Live = ''live''"
| "controllerStateName Quiet = ''quiet''"
| "controllerStateName Detached = ''detached''"
| "controllerStateName Failed = ''failed''"

definition closeReasonName :: "u8 \<Rightarrow> string" where
  "closeReasonName reason =
     (if reason = CLOSE_REASON_SHUTDOWN then ''shutdown''
      else if reason = CLOSE_REASON_KICKED then ''kicked''
      else if reason = CLOSE_REASON_REPLACED then ''replaced''
      else if reason = CLOSE_REASON_UNPAIRED then ''unpaired''
      else ''shutdown'')"

definition applyResultName :: "u8 \<Rightarrow> string" where
  "applyResultName code =
     (if code = APPLY_OK then ''ok''
      else if code = APPLY_ERR_NO_SLOTS then ''noSlots''
      else if code = APPLY_ERR_PLUGIN_FAIL then ''pluginFailed''
      else if code = APPLY_ERR_REPLUG_FAIL then ''replugFailed''
      else if code = APPLY_ERR_BACKEND_UNAVAIL then ''backendUnavailable''
      else if code = APPLY_ERR_INVALID_TYPE then ''invalidType''
      else if code = APPLY_ERR_INVALID_INDEX then ''invalidIndex''
      else ''pluginFailed'')"

definition controllerTypeName :: "u8 \<Rightarrow> string" where
  "controllerTypeName type =
     (if type = CONTROLLER_TYPE_XBOX then ''xbox''
      else if type = CONTROLLER_TYPE_PLAYSTATION then ''playstation''
      else if type = CONTROLLER_TYPE_DUALSENSE then ''dualsense''
      else if type = CONTROLLER_TYPE_SWITCHPRO then ''switchpro''
      else ''xbox'')"

definition controllerTypeCatalogSlug :: "u8 \<Rightarrow> string" where
  "controllerTypeCatalogSlug type =
     (if type = CONTROLLER_TYPE_XBOX then ''xbox360''
      else if type = CONTROLLER_TYPE_PLAYSTATION then ''ds4''
      else if type = CONTROLLER_TYPE_DUALSENSE then ''dualsense''
      else if type = CONTROLLER_TYPE_SWITCHPRO then ''switchpro''
      else ''xbox360'')"

definition controllerTypeLabel :: "u8 \<Rightarrow> string" where
  "controllerTypeLabel type =
     (if type = CONTROLLER_TYPE_XBOX then ''Xbox''
      else if type = CONTROLLER_TYPE_PLAYSTATION then ''PlayStation''
      else if type = CONTROLLER_TYPE_DUALSENSE then ''DualSense''
      else if type = CONTROLLER_TYPE_SWITCHPRO then ''Switch Pro''
      else ''Xbox'')"

definition controllerIdentity :: "u8 \<Rightarrow> gamepad_identity" where
  "controllerIdentity type =
     (if type = CONTROLLER_TYPE_PLAYSTATION then DS4
      else if type = CONTROLLER_TYPE_DUALSENSE then DualSense
      else if type = CONTROLLER_TYPE_SWITCHPRO then SwitchPro
      else Xbox)"

definition controllerTypeHasMotion :: "u8 \<Rightarrow> bool" where
  "controllerTypeHasMotion type \<longleftrightarrow>
     type = CONTROLLER_TYPE_PLAYSTATION \<or> type = CONTROLLER_TYPE_DUALSENSE \<or>
     type = CONTROLLER_TYPE_SWITCHPRO"

definition controllerTypeHasTouchpad :: "u8 \<Rightarrow> bool" where
  "controllerTypeHasTouchpad type \<longleftrightarrow>
     type = CONTROLLER_TYPE_PLAYSTATION \<or> type = CONTROLLER_TYPE_DUALSENSE"

definition isDigitalSilence :: "i16 list \<Rightarrow> bool" where
  "isDigitalSilence pcm \<longleftrightarrow> list_all (\<lambda>s. s = 0) pcm"

definition TOUCHPAD_MODE_NAMES :: "(string \<times> u8) list" where
  "TOUCHPAD_MODE_NAMES =
     [(''ds4'', TOUCHPAD_MODE_DS4), (''mouse'', TOUCHPAD_MODE_MOUSE), (''off'', TOUCHPAD_MODE_OFF)]"

definition touchpadModeName :: "u8 \<Rightarrow> string" where
  "touchpadModeName mode =
     (case List.find (\<lambda>e. snd e = mode) TOUCHPAD_MODE_NAMES of
        Some e \<Rightarrow> fst e | None \<Rightarrow> ''ds4'')"

definition touchpadModeFromName :: "string \<Rightarrow> u8" where
  "touchpadModeFromName name =
     (case List.find (\<lambda>e. name = fst e) TOUCHPAD_MODE_NAMES of
        Some e \<Rightarrow> snd e | None \<Rightarrow> TOUCHPAD_MODE_OFF)"

definition batteryStatusName :: "u8 \<Rightarrow> string" where
  "batteryStatusName status =
     (if status = BATTERY_STATUS_DISCHARGING then ''discharging''
      else if status = BATTERY_STATUS_CHARGING then ''charging''
      else if status = BATTERY_STATUS_FULL then ''full''
      else if status = BATTERY_STATUS_WIRED then ''wired''
      else ''unknown'')"

section \<open>Reports on the return path\<close>

record rumble_report =
  strongMagnitude :: u16
  weakMagnitude :: u16
  durationMs :: u16

definition no_rumble :: rumble_report where
  "no_rumble = \<lparr>strongMagnitude = 0, weakMagnitude = 0, durationMs = 0\<rparr>"

record trigger_effects_report =
  te_left :: "u8 list"
  te_right :: "u8 list"

definition no_trigger_effects :: trigger_effects_report where
  "no_trigger_effects = \<lparr>te_left = replicate 11 0, te_right = replicate 11 0\<rparr>"

section \<open>Desired and applied state\<close>

record mouse_buttons =
  mb_left :: bool
  mb_right :: bool
  mb_middle :: bool

definition no_buttons :: mouse_buttons where
  "no_buttons = \<lparr>mb_left = False, mb_right = False, mb_middle = False\<rparr>"

record controller_descriptor =
  d_ctrlIdx :: nat
  d_type :: u8
  d_caps :: u16
  d_touchpadMode :: u8
  d_preferredBackend :: string

record controller_apply_result =
  ar_ctrlIdx :: nat
  ar_result :: u8
  ar_appliedType :: u8
  ar_motionSinkSupportedForType :: bool
  ar_motionBackendOk :: bool
  ar_backendId :: string

record controller =
  ctrl_index :: nat
  serialNo :: nat
  active :: bool
  controllerType :: u8
  identity :: gamepad_identity
  caps :: u16
  touchpadMode :: u8
  preferredBackend :: string
  lastRumble :: rumble_report
  lastRumbleValid :: bool
  lastRumbleSentAt :: ticks
  lastRumbleExpiresAt :: ticks
  hidRumble :: rumble_report
  hapticRumble :: rumble_report
  hapticRumbleSentAt :: ticks
  hapticRumbleExpiresAt :: ticks
  plugGen :: u32
  pointerStamp :: u32
  lightbarR :: u8
  lightbarG :: u8
  lightbarB :: u8
  lastLightbarValid :: bool
  lastTriggerEffects :: trigger_effects_report
  lastTriggerEffectsValid :: bool
  playerLeds :: u8
  lastPlayerLedsValid :: bool
  micLedState :: u8
  lastMicLedValid :: bool

definition default_controller :: controller where
  "default_controller =
     \<lparr>ctrl_index = 0, serialNo = 0, active = False, controllerType = CONTROLLER_TYPE_XBOX,
      identity = Xbox, caps = 0, touchpadMode = TOUCHPAD_MODE_OFF, preferredBackend = [],
      lastRumble = no_rumble, lastRumbleValid = False, lastRumbleSentAt = 0,
      lastRumbleExpiresAt = 0, hidRumble = no_rumble, hapticRumble = no_rumble,
      hapticRumbleSentAt = 0, hapticRumbleExpiresAt = 0, plugGen = 0, pointerStamp = 0,
      lightbarR = 0, lightbarG = 0, lightbarB = 0, lastLightbarValid = False,
      lastTriggerEffects = no_trigger_effects, lastTriggerEffectsValid = False,
      playerLeds = 0, lastPlayerLedsValid = False, micLedState = MIC_LED_STATE_OFF,
      lastMicLedValid = False\<rparr>"

definition motionCapable :: "controller \<Rightarrow> bool" where
  "motionCapable c \<longleftrightarrow> caps c AND CAP_MOTION \<noteq> 0"
definition lightbarCapable :: "controller \<Rightarrow> bool" where
  "lightbarCapable c \<longleftrightarrow> caps c AND CAP_LIGHTBAR \<noteq> 0"
definition triggerEffectsCapable :: "controller \<Rightarrow> bool" where
  "triggerEffectsCapable c \<longleftrightarrow> caps c AND CAP_TRIGGER_EFFECTS \<noteq> 0"
definition playerLedsCapable :: "controller \<Rightarrow> bool" where
  "playerLedsCapable c \<longleftrightarrow> caps c AND CAP_PLAYER_LEDS \<noteq> 0"
definition micCapable :: "controller \<Rightarrow> bool" where
  "micCapable c \<longleftrightarrow> caps c AND CAP_MIC \<noteq> 0"
definition speakerCapable :: "controller \<Rightarrow> bool" where
  "speakerCapable c \<longleftrightarrow> caps c AND CAP_SPEAKER \<noteq> 0"
definition hapticAudioCapable :: "controller \<Rightarrow> bool" where
  "hapticAudioCapable c \<longleftrightarrow> caps c AND CAP_HAPTIC_AUDIO \<noteq> 0"
definition rumbleCapable :: "controller \<Rightarrow> bool" where
  "rumbleCapable c \<longleftrightarrow> caps c AND CAP_RUMBLE \<noteq> 0"

text \<open>
  A connection row.  \<open>slot\<close> is the index of its entry in the hot table; the C++ row also caches the
  address of that entry in \<^verbatim>\<open>hot\<close>, which is the same slot.
\<close>

record connection =
  connectionId :: string
  token :: u32
  deviceId :: string
  deviceName :: string
  slot :: nat
  row :: u32
  clientIP :: string
  sessionKey :: "u8 list"
  sessionSalt :: "u8 list"
  epoch :: u16
  connectedAt :: ticks
  graceUntil :: ticks
  controllers :: "controller list"
  activeControllerCount :: int
  mouseControlGranted :: bool
  protocolVersion :: int
  stallLogged :: bool

definition default_connection :: connection where
  "default_connection =
     \<lparr>connectionId = [], token = 0, deviceId = [], deviceName = [], slot = 0, row = 0,
      clientIP = [], sessionKey = replicate CRYPTO_KEY_SIZE 0,
      sessionSalt = replicate SESSION_SALT_SIZE 0, epoch = 0, connectedAt = 0, graceUntil = 0,
      controllers = replicate MAX_CONTROLLERS_PER_CONN default_controller,
      activeControllerCount = 0, mouseControlGranted = False,
      protocolVersion = PROTOCOL_VERSION, stallLogged = False\<rparr>"

record session_endpoint =
  ep_token :: u32
  ep_key :: "u8 list"
  ep_slot :: nat

record controller_audio_policy =
  pol_mic :: bool
  pol_speaker :: bool
  pol_haptics :: bool

record session_upsert_result =
  ur_ok :: bool
  ur_error :: string
  ur_connectionId :: string
  ur_token :: u32
  ur_sessionSalt :: "u8 list"
  ur_epoch :: u16
  ur_maxControllers :: nat
  ur_controllers :: "controller_apply_result list"
  ur_mouseControlGranted :: bool
  ur_mouseControlDenyReason :: string
  ur_protocolVersion :: int

definition UPSERT_ERROR_TOO_MANY_SESSIONS :: string where
  "UPSERT_ERROR_TOO_MANY_SESSIONS = ''tooManySessions''"

definition HOST_FEATURE_DENY_NOT_SUPPORTED :: string where
  "HOST_FEATURE_DENY_NOT_SUPPORTED = ''notSupported''"

section \<open>Names are unambiguous\<close>

lemma u8_less_3: "(w :: u8) < 3 \<Longrightarrow> w = 0 \<or> w = 1 \<or> w = 2"
proof -
  assume "w < 3"
  then have "unat w < 3" by (simp add: word_less_nat_alt)
  then have "unat w = 0 \<or> unat w = 1 \<or> unat w = 2" by linarith
  then show ?thesis by (auto simp: word_unat_eq_iff)
qed

lemma u8_less_4: "(w :: u8) < 4 \<Longrightarrow> w = 0 \<or> w = 1 \<or> w = 2 \<or> w = 3"
proof -
  assume "w < 4"
  then have "unat w < 4" by (simp add: word_less_nat_alt)
  then have "unat w = 0 \<or> unat w = 1 \<or> unat w = 2 \<or> unat w = 3" by linarith
  then show ?thesis by (auto simp: word_unat_eq_iff)
qed

lemma touchpadModeFromName_Name:
  "mode < TOUCHPAD_MODE_COUNT \<Longrightarrow> touchpadModeFromName (touchpadModeName mode) = mode"
  using u8_less_3 [of mode]
  by (auto simp: touchpadModeFromName_def touchpadModeName_def TOUCHPAD_MODE_NAMES_def)

lemma controllerIdentity_inj:
  "s < CONTROLLER_TYPE_COUNT \<Longrightarrow> t < CONTROLLER_TYPE_COUNT \<Longrightarrow>
   controllerIdentity s = controllerIdentity t \<Longrightarrow> s = t"
  using u8_less_4 [of s] u8_less_4 [of t] by (auto simp: controllerIdentity_def)

lemma controller_features_identity:
  "controllerTypeHasTouchpad t \<Longrightarrow> controllerTypeHasMotion t"
  "controllerTypeHasMotion t \<Longrightarrow> controllerIdentity t \<noteq> Xbox"
  by (auto simp: controllerTypeHasTouchpad_def controllerTypeHasMotion_def controllerIdentity_def)

lemma length_default_controllers [simp]: "length (controllers default_connection) = 16"
  by (simp add: default_connection_def)

end
