(* ===== verification/Hot_Table.thy ===== *)
theory Hot_Table
  imports Domain_Types
begin

text \<open>
  \<^verbatim>\<open>core/hot_table.h\<close>: the lock-free mirror of the session rows that the receive path reads.  The
  packed words, the slot with its key and name stores, the receive-side pad cache and the table's
  find, free-slot search, publish and retire.  The atomics are plain fields here: this theory is the
  single-threaded reading of the data structure; the theory \<open>Hot_Protocol\<close> treats the
  interleaving of one writer with many readers.
\<close>

section \<open>Packed words\<close>

abbreviation (input) "HOT_CTRL_ACTIVE \<equiv> 0x80000000 :: u32"
abbreviation (input) "HOT_CTRL_SERIAL_MASK \<equiv> 0xFF :: u32"
abbreviation (input) "HOT_SESSION_MOUSE \<equiv> 0x10000 :: u32"
abbreviation (input) "HOT_KEY_WORDS \<equiv> 4 :: nat"
abbreviation (input) "HOT_NAME_WORDS \<equiv> 16 :: nat"
abbreviation (input) "HOT_NAME_BYTES \<equiv> 128 :: nat"

definition hotCtrlWord :: "bool \<Rightarrow> u32 \<Rightarrow> u32" where
  "hotCtrlWord act serial =
     (if act then HOT_CTRL_ACTIVE OR (serial AND HOT_CTRL_SERIAL_MASK) else 0)"

definition hotPadInfo :: "u16 \<Rightarrow> u8 \<Rightarrow> u8 \<Rightarrow> u32" where
  "hotPadInfo cps type mode = ucast cps OR push_bit 16 (ucast type) OR push_bit 24 (ucast mode)"

definition hotPadCaps :: "u32 \<Rightarrow> u16" where
  "hotPadCaps info = ucast info"

definition hotPadType :: "u32 \<Rightarrow> u8" where
  "hotPadType info = ucast (drop_bit 16 info)"

definition hotPadMode :: "u32 \<Rightarrow> u8" where
  "hotPadMode info = ucast (drop_bit 24 info)"

definition hotSessionWord :: "u16 \<Rightarrow> bool \<Rightarrow> u32" where
  "hotSessionWord ep mouse = ucast ep OR (if mouse then HOT_SESSION_MOUSE else 0)"

definition hotSessionEpoch :: "u32 \<Rightarrow> u16" where
  "hotSessionEpoch w = ucast w"

definition hotSessionMouse :: "u32 \<Rightarrow> bool" where
  "hotSessionMouse w \<longleftrightarrow> w AND HOT_SESSION_MOUSE \<noteq> 0"

definition hotPadOwner :: "nat \<Rightarrow> nat \<Rightarrow> u32" where
  "hotPadOwner s ctrlIdx = push_bit 8 (of_nat (s + 1)) OR ucast (of_nat ctrlIdx :: u8)"

text \<open>The slot of an owner word, \<^verbatim>\<open>-1\<close> for the word 0.\<close>

definition hotOwnerSlot :: "u32 \<Rightarrow> int" where
  "hotOwnerSlot owner = uint (drop_bit 8 owner) - 1"

definition hotOwnerIndex :: "u32 \<Rightarrow> nat" where
  "hotOwnerIndex owner = unat (ucast owner :: u8)"

definition packClientAddr :: "u32 \<Rightarrow> u16 \<Rightarrow> u64" where
  "packClientAddr ip port = push_bit 16 (ucast ip) OR ucast port"

definition clientAddrIPv4 :: "u64 \<Rightarrow> u32" where
  "clientAddrIPv4 addr = ucast (drop_bit 16 addr)"

definition clientAddrPort :: "u64 \<Rightarrow> u16" where
  "clientAddrPort addr = ucast addr"

section \<open>Names and keys\<close>

text \<open>
  \<^verbatim>\<open>utf8Prefix\<close>: the longest prefix of at most \<open>limit\<close> bytes that does not end inside a UTF-8
  sequence.  \<open>utf8_cut\<close> is its loop; \<^verbatim>\<open>text[cut]\<close> is read only for \<^verbatim>\<open>cut > 0\<close>.
\<close>

fun utf8_cut :: "u8 list \<Rightarrow> nat \<Rightarrow> nat" where
  "utf8_cut str 0 = 0"
| "utf8_cut str (Suc n) =
     (if str ! Suc n AND 0xC0 = 0x80 then utf8_cut str n else Suc n)"

definition utf8Prefix :: "u8 list \<Rightarrow> nat \<Rightarrow> nat" where
  "utf8Prefix str limit = (if length str \<le> limit then length str else utf8_cut str limit)"

text \<open>Eight bytes as one 64-bit word and back, the \<^verbatim>\<open>memcpy\<close> of a little-endian host.\<close>

definition word_of_bytes :: "u8 list \<Rightarrow> u64" where
  "word_of_bytes bs = foldr (\<lambda>b w. ucast b OR push_bit 8 w) bs 0"

definition bytes_of_word :: "u64 \<Rightarrow> u8 list" where
  "bytes_of_word w = map (\<lambda>i. ucast (drop_bit (8 * i) w)) [0..<8]"

section \<open>The slot\<close>

record hot_slot =
  hs_gen :: u32
  hs_token :: u32
  hs_keyEpoch :: u32
  hs_key :: "u64 list"
  hs_ctrl :: "u32 list"
  hs_padInfo :: "u32 list"
  hs_padGen :: "u32 list"
  hs_padStamp :: "u32 list"
  hs_session :: u32
  hs_row :: u32
  hs_nameLength :: u32
  hs_name :: "u64 list"
  hs_replayKeyEpoch :: u32
  hs_lastCounter :: u32
  hs_lastPacketTicks :: ticks
  hs_clientAddr :: u64
  hs_txCounter :: u32
  hs_feedbackPending :: bool
  hs_txGate :: u32
  hs_txDeferredAck :: u64

definition default_hot_slot :: hot_slot where
  "default_hot_slot =
     \<lparr>hs_gen = 0, hs_token = 0, hs_keyEpoch = 0, hs_key = replicate 4 0,
      hs_ctrl = replicate 16 0, hs_padInfo = replicate 16 0, hs_padGen = replicate 16 0,
      hs_padStamp = replicate 16 0, hs_session = 0, hs_row = 0, hs_nameLength = 0,
      hs_name = replicate 16 0, hs_replayKeyEpoch = 0, hs_lastCounter = 0,
      hs_lastPacketTicks = 0, hs_clientAddr = 0, hs_txCounter = 0, hs_feedbackPending = False,
      hs_txGate = 0, hs_txDeferredAck = 0\<rparr>"

definition hs_beginWrite :: "hot_slot \<Rightarrow> hot_slot" where
  "hs_beginWrite h = h\<lparr>hs_gen := hs_gen h + 1\<rparr>"

definition hs_endWrite :: "hot_slot \<Rightarrow> hot_slot" where
  "hs_endWrite h = h\<lparr>hs_gen := hs_gen h + 1\<rparr>"

definition hs_writing :: "hot_slot \<Rightarrow> bool" where
  "hs_writing h \<longleftrightarrow> hs_gen h AND 1 \<noteq> 0"

text \<open>A read with no writer between its two looks at the generation: refused while it is odd.\<close>

definition hs_read :: "hot_slot \<Rightarrow> (hot_slot \<Rightarrow> 'a) \<Rightarrow> 'a option" where
  "hs_read h load = (if hs_gen h AND 1 \<noteq> 0 then None else Some (load h))"

definition hs_storeKey :: "u8 list \<Rightarrow> hot_slot \<Rightarrow> hot_slot" where
  "hs_storeKey bytes h =
     h\<lparr>hs_key := map (\<lambda>i. word_of_bytes (take 8 (drop (i * 8) bytes))) [0..<HOT_KEY_WORDS]\<rparr>"

definition hs_loadKey :: "hot_slot \<Rightarrow> u8 list" where
  "hs_loadKey h = concat (map bytes_of_word (hs_key h))"

definition hs_storeName :: "u8 list \<Rightarrow> hot_slot \<Rightarrow> hot_slot" where
  "hs_storeName str h =
     (let len = utf8Prefix str HOT_NAME_BYTES;
          raw = take len str @ replicate (HOT_NAME_BYTES - len) 0
      in h\<lparr>hs_name := map (\<lambda>i. word_of_bytes (take 8 (drop (i * 8) raw))) [0..<HOT_NAME_WORDS],
           hs_nameLength := of_nat len\<rparr>)"

definition hs_loadName :: "hot_slot \<Rightarrow> u8 list" where
  "hs_loadName h =
     (let raw = concat (map bytes_of_word (hs_name h));
          len = min (unat (hs_nameLength h)) HOT_NAME_BYTES
      in take len raw)"

section \<open>The receive-side pad cache\<close>

abbreviation (input) "RX_PAD_MOTION \<equiv> 1 :: u32"
abbreviation (input) "RX_PAD_MOTION_SINK \<equiv> 2 :: u32"
abbreviation (input) "RX_PAD_BATTERY \<equiv> 4 :: u32"
abbreviation (input) "RX_PAD_TOUCHPAD \<equiv> 8 :: u32"

definition no_motion :: motion_report where
  "no_motion = \<lparr>gyroX = 0, gyroY = 0, gyroZ = 0, accelX = 0, accelY = 0, accelZ = 0,
     timestampDeltaUs = 0\<rparr>"

definition no_finger :: touchpad_finger where
  "no_finger = \<lparr>tf_active = False, tf_trackingId = 0, tf_x = 0, tf_y = 0\<rparr>"

definition no_touchpad :: touchpad_report where
  "no_touchpad = \<lparr>finger0 = no_finger, finger1 = no_finger, buttonPressed = False,
     rightPressed = False, middlePressed = False, eventTimeMs = 0, scrollV = 0\<rparr>"

text \<open>
  The report words are stored as the report they are copied from: \<^verbatim>\<open>storeWords\<close> and \<^verbatim>\<open>loadWords\<close>
  are one \<^verbatim>\<open>memcpy\<close> of a trivially copyable struct each way.
\<close>

record rx_pad =
  rp_seq :: u32
  rp_gen :: u32
  rp_flags :: u32
  rp_touchpadMode :: u32
  rp_touchpadKeyEpoch :: u32
  rp_battery :: u32
  rp_motion :: motion_report
  rp_touchpad :: touchpad_report
  rp_ownGen :: u32
  rp_ownFlags :: u32
  rp_micWindowStart :: ticks
  rp_micPacketsInWindow :: u16

definition default_rx_pad :: rx_pad where
  "default_rx_pad =
     \<lparr>rp_seq = 0, rp_gen = 0, rp_flags = 0, rp_touchpadMode = 0, rp_touchpadKeyEpoch = 0,
      rp_battery = 0, rp_motion = no_motion, rp_touchpad = no_touchpad, rp_ownGen = 0,
      rp_ownFlags = 0, rp_micWindowStart = 0, rp_micPacketsInWindow = 0\<rparr>"

record rx_pad_view =
  rv_gen :: u32
  rv_flags :: u32
  rv_touchpadMode :: u8
  rv_touchpadKeyEpoch :: u32
  rv_motion :: motion_report
  rv_battery :: battery_report
  rv_touchpad :: touchpad_report

definition rp_beginWrite :: "rx_pad \<Rightarrow> rx_pad" where
  "rp_beginWrite r = r\<lparr>rp_seq := rp_seq r + 1\<rparr>"

definition rp_endWrite :: "rx_pad \<Rightarrow> rx_pad" where
  "rp_endWrite r = r\<lparr>rp_seq := rp_seq r + 1\<rparr>"

definition rp_read :: "rx_pad \<Rightarrow> rx_pad_view option" where
  "rp_read r =
     (if rp_seq r AND 1 \<noteq> 0 then None
      else Some \<lparr>rv_gen = rp_gen r, rv_flags = rp_flags r,
                 rv_touchpadMode = ucast (rp_touchpadMode r),
                 rv_touchpadKeyEpoch = rp_touchpadKeyEpoch r, rv_motion = rp_motion r,
                 rv_battery = \<lparr>bat_level = ucast (rp_battery r),
                               bat_status = ucast (drop_bit 8 (rp_battery r))\<rparr>,
                 rv_touchpad = rp_touchpad r\<rparr>)"

record rx_session =
  rxs_keyEpoch :: u32
  rxs_micDropLogged :: u8

section \<open>The table\<close>

record hot_table =
  tokens :: "u32 list"
  slots :: "hot_slot list"
  padOwners :: "u32 list"

definition default_hot_table :: hot_table where
  "default_hot_table =
     \<lparr>tokens = replicate MAX_SESSIONS 0, slots = replicate MAX_SESSIONS default_hot_slot,
      padOwners = replicate (MAX_BACKEND_CONTROLLERS + 1) 0\<rparr>"

text \<open>The scans return the first index that matches, \<^const>\<open>None\<close> for the source's \<^verbatim>\<open>-1\<close>.\<close>

definition hot_find :: "hot_table \<Rightarrow> u32 \<Rightarrow> nat option" where
  "hot_find t tok =
     (if tok = 0 then None
      else List.find (\<lambda>i. tokens t ! i = tok) [0..<length (tokens t)])"

definition hot_findFree :: "hot_table \<Rightarrow> nat option" where
  "hot_findFree t =
     List.find (\<lambda>i. tokens t ! i = 0 \<and> \<not> hs_writing (slots t ! i)) [0..<length (tokens t)]"

definition hot_publish :: "nat \<Rightarrow> u32 \<Rightarrow> hot_table \<Rightarrow> hot_table" where
  "hot_publish i tok t = t\<lparr>tokens := (tokens t)[i := tok]\<rparr>"

definition hot_retire :: "nat \<Rightarrow> hot_table \<Rightarrow> hot_table" where
  "hot_retire i t = t\<lparr>tokens := (tokens t)[i := 0]\<rparr>"

definition upd_slot :: "nat \<Rightarrow> (hot_slot \<Rightarrow> hot_slot) \<Rightarrow> hot_table \<Rightarrow> hot_table" where
  "upd_slot i f t = t\<lparr>slots := (slots t)[i := f (slots t ! i)]\<rparr>"

section \<open>Packed words read back what was packed\<close>

lemma hotCtrlWord_active [simp]:
  "hotCtrlWord act s AND HOT_CTRL_ACTIVE \<noteq> 0 \<longleftrightarrow> act"
  "hotCtrlWord act s AND HOT_CTRL_ACTIVE = 0 \<longleftrightarrow> \<not> act"
  by (auto simp: hotCtrlWord_def bit.conj_disj_distrib2 and.assoc)

lemma hotCtrlWord_serial: "hotCtrlWord True s AND HOT_CTRL_SERIAL_MASK = s AND HOT_CTRL_SERIAL_MASK"
  by (simp add: hotCtrlWord_def bit.conj_disj_distrib2 and.assoc)

lemma hotCtrlWord_inactive [simp]: "hotCtrlWord False s = 0"
  by (simp add: hotCtrlWord_def)

lemma serial_masked: "s < 256 \<Longrightarrow> (of_nat s :: u32) AND HOT_CTRL_SERIAL_MASK = of_nat s"
  by (simp add: and_masks take_bit_eq_mod word_unat_eq_iff unat_of_nat unat_mod)

lemma hotPadInfo_read [simp]:
  "hotPadCaps (hotPadInfo c t m) = c"
  "hotPadType (hotPadInfo c t m) = t"
  "hotPadMode (hotPadInfo c t m) = m"
  by (auto simp: hotPadCaps_def hotPadType_def hotPadMode_def hotPadInfo_def bit_simps sat_simps
      intro!: u16_eqI u8_eqI)

lemma bit_mouse: "bit (0x10000 :: int) n \<longleftrightarrow> n = 16"
proof -
  have "bit (push_bit 16 1 :: int) n \<longleftrightarrow> n = 16" by (simp only: bit_simps) auto
  then show ?thesis by simp
qed

lemma hotSessionWord_read [simp]:
  "hotSessionEpoch (hotSessionWord e m) = e"
  "hotSessionMouse (hotSessionWord e m) = m"
proof -
  show "hotSessionEpoch (hotSessionWord e m) = e"
    by (rule u16_eqI) (auto simp: hotSessionEpoch_def hotSessionWord_def bit_simps bit_mouse)
  have "ucast e AND (0x10000 :: u32) = 0"
  proof (rule u32_eqI)
    fix n :: nat
    show "bit (ucast e AND (0x10000 :: u32)) n = bit (0 :: u32) n"
      using bit_u16_ge [of n e] by (auto simp: bit_simps bit_mouse)
  qed
  then show "hotSessionMouse (hotSessionWord e m) = m"
    by (simp add: hotSessionMouse_def hotSessionWord_def bit.conj_disj_distrib2)
qed

lemma hotPadOwner_nat: "i < 256 \<Longrightarrow> hotPadOwner s i = of_nat ((s + 1) * 256 + i)"
proof -
  assume i: "i < 256"
  have "hotPadOwner s i = push_bit 8 (of_nat (s + 1)) + ucast (of_nat i :: u8)"
    unfolding hotPadOwner_def
    by (rule disjunctive_add [symmetric]) (auto simp: bit_simps sat_simps)
  moreover have "ucast (of_nat i :: u8) = (of_nat i :: u32)"
    using i by (simp add: word_unat_eq_iff unat_of_nat unsigned_ucast_eq take_bit_eq_mod)
  ultimately show ?thesis by (simp add: push_bit_eq_mult algebra_simps)
qed

lemma hotPadOwner_read:
  assumes "s < 1000" "i < 256"
  shows "hotOwnerSlot (hotPadOwner s i) = int s" and "hotOwnerIndex (hotPadOwner s i) = i"
    and "hotPadOwner s i \<noteq> 0"
proof -
  have u: "unat (hotPadOwner s i) = (s + 1) * 256 + i"
    unfolding hotPadOwner_nat [OF assms(2)] unat_of_nat using assms by simp
  have "unat (drop_bit 8 (hotPadOwner s i)) = s + 1"
    unfolding unat_drop_bit_eq u using assms(2) by (simp add: drop_bit_eq_div)
  then show slot: "hotOwnerSlot (hotPadOwner s i) = int s" by (simp add: hotOwnerSlot_def uint_nat)
  have "unat (ucast (hotPadOwner s i) :: u8) = unat (hotPadOwner s i) mod 256"
    by (simp add: unsigned_ucast_eq take_bit_eq_mod)
  then show "hotOwnerIndex (hotPadOwner s i) = i"
    using assms(2) by (simp add: hotOwnerIndex_def u mod_add_left_eq [symmetric])
  show "hotPadOwner s i \<noteq> 0" using u by auto
qed

lemma clientAddr_read [simp]:
  "clientAddrIPv4 (packClientAddr ip port) = ip"
  "clientAddrPort (packClientAddr ip port) = port"
  by (auto simp: clientAddrIPv4_def clientAddrPort_def packClientAddr_def bit_simps sat_simps
      intro!: u32_eqI u16_eqI)

section \<open>Keys and names survive the word store\<close>

lemma length_bytes_of_word [simp]: "length (bytes_of_word w) = 8"
  by (simp add: bytes_of_word_def)

lemma bit_word_of_bytes:
  "length bs \<le> 8 \<Longrightarrow> bit (word_of_bytes bs) n \<longleftrightarrow> n div 8 < length bs \<and> bit (bs ! (n div 8)) (n mod 8)"
proof (induction bs arbitrary: n)
  case Nil
  then show ?case by (simp add: word_of_bytes_def)
next
  case (Cons b bs)
  have step: "word_of_bytes (b # bs) = ucast b OR push_bit 8 (word_of_bytes bs)"
    by (simp add: word_of_bytes_def)
  show ?case
  proof (cases "n < 8")
    case True
    then show ?thesis by (simp add: step bit_simps)
  next
    case False
    then have d: "n div 8 = Suc ((n - 8) div 8)" "n mod 8 = (n - 8) mod 8"
      by (simp_all add: le_div_geq le_mod_geq)
    have lim: "n < 64" if "(n - 8) div 8 < length bs" using that Cons.prems False by auto
    show ?thesis
      using False Cons.prems lim bit_u8_ge [of n b] by (auto simp: step bit_simps d Cons.IH)
  qed
qed

lemma bytes_word_bytes [simp]: "length bs = 8 \<Longrightarrow> bytes_of_word (word_of_bytes bs) = bs"
proof (rule nth_equalityI)
  fix i
  assume len: "length bs = 8" and "i < length (bytes_of_word (word_of_bytes bs))"
  then have i: "i < 8" by simp
  show "bytes_of_word (word_of_bytes bs) ! i = bs ! i"
  proof (rule u8_eqI)
    fix n :: nat
    assume n: "n < 8"
    then have "(8 * i + n) div 8 = i" "(8 * i + n) mod 8 = n" by simp_all
    then show "bit (bytes_of_word (word_of_bytes bs) ! i) n = bit (bs ! i) n"
      using i n len by (simp add: bytes_of_word_def bit_simps bit_word_of_bytes)
  qed
qed simp

lemma concat_chunks8:
  "length bs = 8 * k \<Longrightarrow> concat (map (\<lambda>i. take 8 (drop (i * 8) bs)) [0..<k]) = bs"
proof (induction k arbitrary: bs)
  case 0
  then show ?case by simp
next
  case (Suc k)
  have "map (\<lambda>i. take 8 (drop (i * 8) bs)) [0..<Suc k]
      = take 8 bs # map (\<lambda>i. take 8 (drop (i * 8) (drop 8 bs))) [0..<k]"
    by (simp add: upt_conv_Cons map_Suc_upt [symmetric] comp_def add.commute del: upt_Suc)
  moreover have "length (drop 8 bs) = 8 * k" using Suc.prems by simp
  ultimately show ?case using Suc.IH [of "drop 8 bs"] by simp
qed

lemma concat_stored_words:
  assumes "length bs = 8 * k"
  shows "concat (map bytes_of_word (map (\<lambda>i. word_of_bytes (take 8 (drop (i * 8) bs))) [0..<k])) = bs"
proof -
  have "map bytes_of_word (map (\<lambda>i. word_of_bytes (take 8 (drop (i * 8) bs))) [0..<k])
      = map (\<lambda>i. take 8 (drop (i * 8) bs)) [0..<k]"
    using assms by auto
  then show ?thesis using concat_chunks8 [OF assms] by (simp only:)
qed

lemma hs_loadKey_storeKey [simp]:
  "length key = CRYPTO_KEY_SIZE \<Longrightarrow> hs_loadKey (hs_storeKey key h) = key"
  using concat_stored_words [of key 4] by (simp add: hs_loadKey_def hs_storeKey_def)

lemma utf8_cut_le: "utf8_cut str n \<le> n"
  by (induction n) auto

lemma utf8_cut_boundary: "utf8_cut str n = 0 \<or> str ! utf8_cut str n AND 0xC0 \<noteq> 0x80"
  by (induction n) auto

lemma utf8_cut_maximal: "utf8_cut str n < j \<Longrightarrow> j \<le> n \<Longrightarrow> str ! j AND 0xC0 = 0x80"
  by (induction n) (auto simp: le_Suc_eq split: if_splits)

lemma utf8Prefix_le: "utf8Prefix str m \<le> m" "utf8Prefix str m \<le> length str"
  using utf8_cut_le [of str m] by (auto simp: utf8Prefix_def)

lemma hs_loadName_storeName: "hs_loadName (hs_storeName str h) = take (utf8Prefix str HOT_NAME_BYTES) str"
proof -
  let ?len = "utf8Prefix str HOT_NAME_BYTES"
  let ?raw = "take ?len str @ replicate (HOT_NAME_BYTES - ?len) 0"
  have len: "?len \<le> 128" "?len \<le> length str" by (rule utf8Prefix_le)+
  then have raw: "length ?raw = 8 * HOT_NAME_WORDS" by simp
  have "unat (of_nat ?len :: u32) = ?len" using len by (simp add: unat_of_nat)
  then show ?thesis
    using len concat_stored_words [OF raw] by (simp add: hs_loadName_def hs_storeName_def Let_def)
qed

section \<open>The table's scans\<close>

lemma hot_find_Some:
  "hot_find t tok = Some i \<Longrightarrow> tok \<noteq> 0 \<and> i < length (tokens t) \<and> tokens t ! i = tok"
  by (auto simp: hot_find_def dest: find_Some_set split: if_splits)

lemma hot_find_None:
  "hot_find t tok = None \<Longrightarrow> tok = 0 \<or> tok \<notin> set (tokens t)"
  by (auto simp: hot_find_def in_set_conv_nth find_None_iff split: if_splits)

lemma hot_findFree_Some:
  "hot_findFree t = Some i \<Longrightarrow>
     i < length (tokens t) \<and> tokens t ! i = 0 \<and> \<not> hs_writing (slots t ! i)"
  by (auto simp: hot_findFree_def dest: find_Some_set)

lemma hot_findFree_None:
  "hot_findFree t = None \<Longrightarrow> i < length (tokens t) \<Longrightarrow> tokens t ! i \<noteq> 0 \<or> hs_writing (slots t ! i)"
  by (auto simp: hot_findFree_def find_None_iff)

text \<open>With at most one slot per token, the scan finds a published slot exactly.\<close>

lemma hot_find_unique:
  assumes "tokens t ! i = tok" "i < length (tokens t)" "tok \<noteq> 0"
    and "\<And>j. j < length (tokens t) \<Longrightarrow> tokens t ! j = tok \<Longrightarrow> j = i"
  shows "hot_find t tok = Some i"
proof (cases "hot_find t tok")
  case None
  then have "tok \<notin> set (tokens t)" using assms(3) hot_find_None by blast
  then show ?thesis using assms(1,2) nth_mem by blast
next
  case (Some j)
  then show ?thesis using assms(4) hot_find_Some [OF Some] by simp
qed

end
