(* ===== verification/Serial_Pool.thy ===== *)
theory Serial_Pool
  imports Domain_Types
begin

text \<open>
  The pool of backend serials of \<^verbatim>\<open>SessionService\<close> (\<^verbatim>\<open>core/session_service.cpp\<close>): sixteen serials,
  each free, in use or quarantined, handed out by a round-robin scan, with the motor word that each
  serial's backend last wrote.  The locale \<open>serial_allocator\<close> is the contract that the topology
  code relies on; it is interpreted on the pool's own operations.
\<close>

section \<open>The pool\<close>

record serial_pool =
  serialInUse :: "bool list"
  serialQuarantined :: "bool list"
  serialScanStart :: nat
  hidMotors :: "u32 list"

definition default_serial_pool :: serial_pool where
  "default_serial_pool =
     \<lparr>serialInUse = replicate MAX_BACKEND_CONTROLLERS False,
      serialQuarantined = replicate MAX_BACKEND_CONTROLLERS False,
      serialScanStart = 0, hidMotors = replicate (MAX_BACKEND_CONTROLLERS + 1) 0\<rparr>"

definition serial_free :: "serial_pool \<Rightarrow> nat \<Rightarrow> bool" where
  "serial_free p i \<longleftrightarrow> \<not> serialInUse p ! i \<and> \<not> serialQuarantined p ! i"

text \<open>The scan visits every index once, from \<^const>\<open>serialScanStart\<close> on; 0 is "no serial".\<close>

definition allocateSerial :: "serial_pool \<Rightarrow> nat \<times> serial_pool" where
  "allocateSerial p =
     (case List.find (serial_free p)
             (map (\<lambda>step. (serialScanStart p + step) mod MAX_BACKEND_CONTROLLERS)
                [0..<MAX_BACKEND_CONTROLLERS]) of
        None \<Rightarrow> (0, p)
      | Some i \<Rightarrow>
          (i + 1, p\<lparr>hidMotors := (hidMotors p)[i + 1 := 0],
                    serialInUse := (serialInUse p)[i := True],
                    serialScanStart := (i + 1) mod MAX_BACKEND_CONTROLLERS\<rparr>))"

definition releaseSerial :: "nat \<Rightarrow> serial_pool \<Rightarrow> serial_pool" where
  "releaseSerial serial p =
     (if serial = 0 \<or> serial > MAX_BACKEND_CONTROLLERS then p
      else p\<lparr>hidMotors := (hidMotors p)[serial := 0],
             serialInUse := (serialInUse p)[serial - 1 := False]\<rparr>)"

definition quarantineSerial :: "nat \<Rightarrow> serial_pool \<Rightarrow> serial_pool" where
  "quarantineSerial serial p =
     (if serial = 0 \<or> serial > MAX_BACKEND_CONTROLLERS then p
      else p\<lparr>hidMotors := (hidMotors p)[serial := 0],
             serialInUse := (serialInUse p)[serial - 1 := False],
             serialQuarantined := (serialQuarantined p)[serial - 1 := True]\<rparr>)"

definition claimSerialLocked :: "nat \<Rightarrow> serial_pool \<Rightarrow> bool \<times> serial_pool" where
  "claimSerialLocked serial p =
     (if serial = 0 \<or> serial > MAX_BACKEND_CONTROLLERS then (False, p)
      else if serialInUse p ! (serial - 1) \<or> serialQuarantined p ! (serial - 1) then (False, p)
      else (True, p\<lparr>hidMotors := (hidMotors p)[serial := 0],
                    serialInUse := (serialInUse p)[serial - 1 := True]\<rparr>))"

text \<open>The two \<^verbatim>\<open>memset\<close>s of the service: \<^verbatim>\<open>serialQuarantined_\<close> and \<^verbatim>\<open>serialInUse_\<close> back to zero.\<close>

definition clearQuarantine :: "serial_pool \<Rightarrow> serial_pool" where
  "clearQuarantine p = p\<lparr>serialQuarantined := replicate MAX_BACKEND_CONTROLLERS False\<rparr>"

definition clearInUse :: "serial_pool \<Rightarrow> serial_pool" where
  "clearInUse p = p\<lparr>serialInUse := replicate MAX_BACKEND_CONTROLLERS False\<rparr>"

definition setMotors :: "nat \<Rightarrow> u32 \<Rightarrow> serial_pool \<Rightarrow> serial_pool" where
  "setMotors serial motors p = p\<lparr>hidMotors := (hidMotors p)[serial := motors]\<rparr>"

definition pool_availableSlots :: "serial_pool \<Rightarrow> nat" where
  "pool_availableSlots p = length (filter (serial_free p) [0..<MAX_BACKEND_CONTROLLERS])"

section \<open>The contract\<close>

text \<open>
  A provider of serials: \<open>used\<close> are the serials handed out, \<open>blocked\<close> those that must not be handed
  out again before the bus closes, \<open>all\<close> every serial there is.
\<close>

locale serial_allocator =
  fixes wf :: "'p \<Rightarrow> bool"
    and used :: "'p \<Rightarrow> nat set"
    and blocked :: "'p \<Rightarrow> nat set"
    and every :: "nat set"
    and alloc :: "'p \<Rightarrow> nat \<times> 'p"
    and rel :: "nat \<Rightarrow> 'p \<Rightarrow> 'p"
    and quar :: "nat \<Rightarrow> 'p \<Rightarrow> 'p"
    and claim :: "nat \<Rightarrow> 'p \<Rightarrow> bool \<times> 'p"
  assumes every_finite: "finite every" and every_pos: "0 \<notin> every"
    and used_every: "wf p \<Longrightarrow> used p \<subseteq> every"
    and blocked_every: "wf p \<Longrightarrow> blocked p \<subseteq> every"
    and apart: "wf p \<Longrightarrow> used p \<inter> blocked p = {}"
    and alloc_some: "wf p \<Longrightarrow> alloc p = (s, p') \<Longrightarrow> s \<noteq> 0 \<Longrightarrow>
       wf p' \<and> s \<in> every \<and> s \<notin> used p \<and> s \<notin> blocked p \<and> used p' = insert s (used p) \<and>
       blocked p' = blocked p"
    and alloc_none: "wf p \<Longrightarrow> alloc p = (0, p') \<Longrightarrow> p' = p \<and> used p \<union> blocked p = every"
    and rel_law: "wf p \<Longrightarrow>
       wf (rel s p) \<and> used (rel s p) = used p - {s} \<and> blocked (rel s p) = blocked p"
    and quar_law: "wf p \<Longrightarrow> s \<in> every \<Longrightarrow>
       wf (quar s p) \<and> used (quar s p) = used p - {s} \<and> blocked (quar s p) = insert s (blocked p)"
    and claim_law: "wf p \<Longrightarrow> claim s p = (b, p') \<Longrightarrow>
       wf p' \<and> blocked p' = blocked p \<and>
       (if b then s \<in> every \<and> s \<notin> used p \<and> s \<notin> blocked p \<and> used p' = insert s (used p)
        else p' = p)"
begin

text \<open>The serials in use as a multiset, which is how the topology proofs count them.\<close>

definition inuse :: "'p \<Rightarrow> nat multiset" where
  "inuse p = mset_set (used p)"

lemma used_finite: "wf p \<Longrightarrow> finite (used p)"
  using used_every every_finite finite_subset by blast

lemma set_inuse [simp]: "wf p \<Longrightarrow> set_mset (inuse p) = used p"
  by (simp add: inuse_def used_finite)

lemma inuse_count: "wf p \<Longrightarrow> count (inuse p) s \<le> 1"
  by (simp add: inuse_def used_finite count_mset_set')

lemma alloc_inuse:
  assumes "wf p" "alloc p = (s, p')"
  shows "wf p' \<and> inuse p' = (if s = 0 then inuse p else add_mset s (inuse p))"
proof (cases "s = 0")
  case True
  then show ?thesis using assms alloc_none by auto
next
  case False
  then show ?thesis
    using alloc_some [OF assms False] assms(1) by (simp add: inuse_def used_finite)
qed

lemma rel_inuse:
  assumes "wf p" "s \<in> used p"
  shows "wf (rel s p) \<and> inuse p = add_mset s (inuse (rel s p))"
  using assms rel_law [of p s]
  by (simp add: inuse_def used_finite mset_set.remove [of "used p" s])

lemma rel_zero_inuse: "wf p \<Longrightarrow> wf (rel 0 p) \<and> inuse (rel 0 p) = inuse p"
proof -
  assume wf: "wf p"
  then have "used p - {0} = used p" using used_every every_pos by blast
  then show ?thesis using rel_law [OF wf, of 0] by (simp add: inuse_def)
qed

lemma quar_inuse:
  assumes "wf p" "s \<in> used p"
  shows "wf (quar s p) \<and> inuse p = add_mset s (inuse (quar s p))"
proof -
  have "s \<in> every" using assms used_every by blast
  then show ?thesis
    using assms quar_law [of p s]
    by (simp add: inuse_def used_finite mset_set.remove [of "used p" s])
qed

lemma claim_inuse:
  assumes "wf p" "claim s p = (b, p')"
  shows "wf p' \<and> inuse p' = (if b then add_mset s (inuse p) else inuse p)"
  using claim_law [OF assms] assms(1) by (auto simp: inuse_def used_finite)

text \<open>
  A serial taken from the pool and not given back is not handed out again, whatever else is
  allocated in between.
\<close>

primrec allocs :: "nat \<Rightarrow> 'p \<Rightarrow> nat list \<times> 'p" where
  "allocs 0 p = ([], p)"
| "allocs (Suc n) p =
     (case alloc p of (s, p1) \<Rightarrow> case allocs n p1 of (ss, p2) \<Rightarrow> (s # ss, p2))"

lemma allocs_fresh:
  "wf p \<Longrightarrow> allocs n p = (ss, p') \<Longrightarrow>
     wf p' \<and> used p' = used p \<union> (set ss - {0}) \<and> (set ss - {0}) \<inter> (used p \<union> blocked p) = {} \<and>
     distinct (filter (\<lambda>s. s \<noteq> 0) ss)"
proof (induction n arbitrary: p ss p')
  case 0
  then show ?case by simp
next
  case (Suc n)
  obtain s p1 where a: "alloc p = (s, p1)" by force
  obtain ss1 p2 where r: "allocs n p1 = (ss1, p2)" by force
  have eq: "ss = s # ss1" "p' = p2" using Suc.prems(2) a r by simp_all
  show ?case
  proof (cases "s = 0")
    case True
    then have "p1 = p" using alloc_none [OF Suc.prems(1)] a by simp
    then show ?thesis using Suc.IH [OF Suc.prems(1)] r eq True by simp
  next
    case False
    note got = alloc_some [OF Suc.prems(1) a False]
    note rest = Suc.IH [of p1, OF _ r]
    show ?thesis using got rest eq False by auto
  qed
qed

end

section \<open>The pool keeps the contract\<close>

definition pool_wf :: "serial_pool \<Rightarrow> bool" where
  "pool_wf p \<longleftrightarrow>
     length (serialInUse p) = MAX_BACKEND_CONTROLLERS \<and>
     length (serialQuarantined p) = MAX_BACKEND_CONTROLLERS \<and>
     length (hidMotors p) = MAX_BACKEND_CONTROLLERS + 1 \<and>
     serialScanStart p < MAX_BACKEND_CONTROLLERS \<and>
     (\<forall>i<MAX_BACKEND_CONTROLLERS. \<not> (serialInUse p ! i \<and> serialQuarantined p ! i))"

definition pool_used :: "serial_pool \<Rightarrow> nat set" where
  "pool_used p = {s. 1 \<le> s \<and> s \<le> MAX_BACKEND_CONTROLLERS \<and> serialInUse p ! (s - 1)}"

definition pool_blocked :: "serial_pool \<Rightarrow> nat set" where
  "pool_blocked p = {s. 1 \<le> s \<and> s \<le> MAX_BACKEND_CONTROLLERS \<and> serialQuarantined p ! (s - 1)}"

definition all_serials :: "nat set" where
  "all_serials = {1..MAX_BACKEND_CONTROLLERS}"

lemma scan_covers:
  assumes "i < 16"
  shows "i \<in> set (map (\<lambda>step. (start + step) mod 16) [0..<16])"
proof -
  let ?r = "start mod 16"
  let ?k = "if ?r \<le> i then i - ?r else i + 16 - ?r"
  have r: "?r < 16" by simp
  have "?r + ?k = (if ?r \<le> i then i else i + 16)" using r by auto
  then have "(?r + ?k) mod 16 = i" using assms by auto
  then have k: "i = (start + ?k) mod 16" by (simp only: mod_add_left_eq)
  have "?k \<in> set [0..<16]" using assms r by auto
  then show ?thesis unfolding set_map using k by (rule rev_image_eqI)
qed

lemma allocateSerial_some:
  assumes "pool_wf p" "allocateSerial p = (s, p')" "s \<noteq> 0"
  shows "pool_wf p' \<and> s \<in> all_serials \<and> s \<notin> pool_used p \<and> s \<notin> pool_blocked p \<and>
    pool_used p' = insert s (pool_used p) \<and> pool_blocked p' = pool_blocked p"
proof -
  obtain i where f: "List.find (serial_free p)
        (map (\<lambda>step. (serialScanStart p + step) mod 16) [0..<16]) = Some i"
      and s: "s = i + 1"
      and p': "p' = p\<lparr>hidMotors := (hidMotors p)[i + 1 := 0],
                    serialInUse := (serialInUse p)[i := True],
                    serialScanStart := (i + 1) mod 16\<rparr>"
    using assms(2,3) by (auto simp: allocateSerial_def split: option.splits)
  have i: "i < 16" "serial_free p i" using find_Some_set [OF f] by auto
  show ?thesis
    using i assms(1) unfolding s p'
    by (auto simp: pool_wf_def serial_free_def all_serials_def pool_used_def pool_blocked_def
        nth_list_update split: if_splits)
qed

lemma allocateSerial_none:
  assumes "pool_wf p" "allocateSerial p = (0, p')"
  shows "p' = p \<and> pool_used p \<union> pool_blocked p = all_serials"
proof -
  have f: "List.find (serial_free p)
        (map (\<lambda>step. (serialScanStart p + step) mod 16) [0..<16]) = None" and p': "p' = p"
    using assms(2) by (auto simp: allocateSerial_def split: option.splits)
  have "\<not> serial_free p i" if "i < 16" for i
    using find_None_set [OF f] scan_covers [OF that] by blast
  then have free: "serialInUse p ! i \<or> serialQuarantined p ! i" if "i < 16" for i
    using that by (auto simp: serial_free_def)
  have "pool_used p \<union> pool_blocked p = all_serials"
  proof (rule set_eqI)
    fix s
    show "s \<in> pool_used p \<union> pool_blocked p \<longleftrightarrow> s \<in> all_serials"
      using free [of "s - 1"] by (auto simp: pool_used_def pool_blocked_def all_serials_def)
  qed
  then show ?thesis using p' by simp
qed

lemma claimSerialLocked_law:
  assumes "pool_wf p" "claimSerialLocked s p = (b, p')"
  shows "pool_wf p' \<and> pool_blocked p' = pool_blocked p \<and>
    (if b then s \<in> all_serials \<and> s \<notin> pool_used p \<and> s \<notin> pool_blocked p \<and>
       pool_used p' = insert s (pool_used p) else p' = p)"
proof (cases b)
  case False
  then show ?thesis using assms by (auto simp: claimSerialLocked_def split: if_splits)
next
  case True
  then have s: "1 \<le> s" "s \<le> 16" "\<not> serialInUse p ! (s - 1)" "\<not> serialQuarantined p ! (s - 1)"
      and p': "p' = p\<lparr>hidMotors := (hidMotors p)[s := 0],
                    serialInUse := (serialInUse p)[s - 1 := True]\<rparr>"
    using assms(2) by (auto simp: claimSerialLocked_def split: if_splits)
  have "pool_used p' = insert s (pool_used p)"
    using s assms(1) unfolding p' by (auto simp: pool_used_def pool_wf_def nth_list_update)
  then show ?thesis
    using s assms(1) True unfolding p'
    by (simp add: pool_wf_def pool_used_def pool_blocked_def all_serials_def 
        nth_list_update)
qed

lemma serial_Suc: "s \<in> all_serials \<Longrightarrow> \<exists>j. s = Suc j \<and> j < 16"
  by (cases s) (auto simp: all_serials_def)

lemma pool_used_Suc: "Suc j \<in> pool_used p \<longleftrightarrow> j < 16 \<and> serialInUse p ! j" "0 \<notin> pool_used p"
  by (auto simp: pool_used_def)

lemma pool_blocked_Suc:
  "Suc j \<in> pool_blocked p \<longleftrightarrow> j < 16 \<and> serialQuarantined p ! j" "0 \<notin> pool_blocked p"
  by (auto simp: pool_blocked_def)

lemma pool_set_eqI: "0 \<notin> A \<Longrightarrow> 0 \<notin> B \<Longrightarrow> (\<And>j. Suc j \<in> A \<longleftrightarrow> Suc j \<in> B) \<Longrightarrow> A = B"
  by (rule set_eqI) (metis not0_implies_Suc)

lemma releaseSerial_law:
  assumes "pool_wf p"
  shows "pool_wf (releaseSerial s p) \<and> pool_used (releaseSerial s p) = pool_used p - {s} \<and>
    pool_blocked (releaseSerial s p) = pool_blocked p"
proof (cases "s \<in> all_serials")
  case False
  then show ?thesis using assms by (auto simp: releaseSerial_def pool_used_def all_serials_def)
next
  case True
  then obtain j where j: "s = Suc j" "j < 16" using serial_Suc by blast
  have "pool_used (releaseSerial s p) = pool_used p - {s}"
    using j assms
    by (intro pool_set_eqI) (auto simp: pool_used_Suc releaseSerial_def pool_wf_def nth_list_update)
  then show ?thesis
    using j assms
    by (auto simp: releaseSerial_def pool_wf_def pool_blocked_def nth_list_update)
qed

lemma quarantineSerial_law:
  assumes "pool_wf p" "s \<in> all_serials"
  shows "pool_wf (quarantineSerial s p) \<and>
    pool_used (quarantineSerial s p) = pool_used p - {s} \<and>
    pool_blocked (quarantineSerial s p) = insert s (pool_blocked p)"
proof -
  obtain j where j: "s = Suc j" "j < 16" using assms(2) serial_Suc by blast
  have "pool_used (quarantineSerial s p) = pool_used p - {s}"
    using j assms
    by (intro pool_set_eqI)
      (auto simp: pool_used_Suc quarantineSerial_def pool_wf_def nth_list_update)
  moreover have "pool_blocked (quarantineSerial s p) = insert s (pool_blocked p)"
    using j assms
    by (intro pool_set_eqI)
      (auto simp: pool_blocked_Suc quarantineSerial_def pool_wf_def nth_list_update)
  moreover have "pool_wf (quarantineSerial s p)"
    using j assms by (auto simp: quarantineSerial_def pool_wf_def nth_list_update)
  ultimately show ?thesis by blast
qed

interpretation pool: serial_allocator pool_wf pool_used pool_blocked all_serials
    allocateSerial releaseSerial quarantineSerial claimSerialLocked
proof
  show "finite all_serials" "0 \<notin> all_serials" by (simp_all add: all_serials_def)
next
  fix p assume wf: "pool_wf p"
  then show "pool_used p \<subseteq> all_serials" "pool_blocked p \<subseteq> all_serials"
    by (auto simp: pool_used_def pool_blocked_def all_serials_def)
  show "pool_used p \<inter> pool_blocked p = {}"
    using wf by (auto simp: pool_used_def pool_blocked_def pool_wf_def)
next
  fix p s p'
  assume "pool_wf p" "allocateSerial p = (s, p')" "s \<noteq> 0"
  then show "pool_wf p' \<and> s \<in> all_serials \<and> s \<notin> pool_used p \<and> s \<notin> pool_blocked p \<and>
    pool_used p' = insert s (pool_used p) \<and> pool_blocked p' = pool_blocked p"
    by (rule allocateSerial_some)
next
  fix p p'
  assume "pool_wf p" "allocateSerial p = (0, p')"
  then show "p' = p \<and> pool_used p \<union> pool_blocked p = all_serials" by (rule allocateSerial_none)
next
  fix p s
  assume "pool_wf p"
  then show "pool_wf (releaseSerial s p) \<and> pool_used (releaseSerial s p) = pool_used p - {s} \<and>
    pool_blocked (releaseSerial s p) = pool_blocked p"
    by (rule releaseSerial_law)
next
  fix p s
  assume "pool_wf p" "s \<in> all_serials"
  then show "pool_wf (quarantineSerial s p) \<and>
    pool_used (quarantineSerial s p) = pool_used p - {s} \<and>
    pool_blocked (quarantineSerial s p) = insert s (pool_blocked p)"
    by (rule quarantineSerial_law)
next
  fix p s b p'
  assume "pool_wf p" "claimSerialLocked s p = (b, p')"
  then show "pool_wf p' \<and> pool_blocked p' = pool_blocked p \<and>
    (if b then s \<in> all_serials \<and> s \<notin> pool_used p \<and> s \<notin> pool_blocked p \<and>
       pool_used p' = insert s (pool_used p) else p' = p)"
    by (rule claimSerialLocked_law)
qed

lemma pool_wf_default [simp]: "pool_wf default_serial_pool"
  by (auto simp: pool_wf_def default_serial_pool_def)

lemma pool_used_default [simp]: "pool_used default_serial_pool = {}"
  by (auto simp: pool_used_def default_serial_pool_def)

lemma clearQuarantine_law:
  "pool_wf p \<Longrightarrow> pool_wf (clearQuarantine p) \<and> pool_used (clearQuarantine p) = pool_used p \<and>
     pool_blocked (clearQuarantine p) = {}"
  by (auto simp: clearQuarantine_def pool_wf_def pool_used_def pool_blocked_def)

lemma clearInUse_law:
  "pool_wf p \<Longrightarrow> pool_wf (clearInUse p) \<and> pool_used (clearInUse p) = {} \<and>
     pool_blocked (clearInUse p) = pool_blocked p"
  by (auto simp: clearInUse_def pool_wf_def pool_used_def pool_blocked_def)

lemma setMotors_law:
  "pool_wf (setMotors s m p) = pool_wf p" "pool_used (setMotors s m p) = pool_used p"
  "pool_blocked (setMotors s m p) = pool_blocked p"
  by (auto simp: setMotors_def pool_wf_def pool_used_def pool_blocked_def)

text \<open>The count that the status page shows is the number of serials neither used nor blocked.\<close>

lemma pool_availableSlots_card:
  "pool_availableSlots p = card (all_serials - pool_used p - pool_blocked p)"
proof -
  have "all_serials - pool_used p - pool_blocked p = Suc ` {i. i < 16 \<and> serial_free p i}"
  proof (rule set_eqI)
    fix x
    show "x \<in> all_serials - pool_used p - pool_blocked p
        \<longleftrightarrow> x \<in> Suc ` {i. i < 16 \<and> serial_free p i}"
      by (cases x) (auto simp: all_serials_def pool_used_def pool_blocked_def serial_free_def)
  qed
  then have "card (all_serials - pool_used p - pool_blocked p) = card {i. i < 16 \<and> serial_free p i}"
    by (simp add: card_image)
  moreover have "card (set (filter (serial_free p) [0..<16])) = pool_availableSlots p"
    unfolding pool_availableSlots_def by (rule distinct_card) (rule distinct_filter, rule distinct_upt)
  moreover have "set (filter (serial_free p) [0..<16]) = {i. i < 16 \<and> serial_free p i}"
    by (simp only: set_filter set_upt atLeastLessThan_iff) simp
  ultimately show ?thesis by simp
qed

end
