(* ===== verification/Session_State.thy ===== *)
theory Session_State
  imports Hot_Table Serial_Pool
begin

text \<open>
  The state of \<^verbatim>\<open>SessionService\<close> and the helpers its operations share: pointer releases, the
  controller words written to the hot table, the rumble forward and the teardown of one row.

  The backend, the key derivation and the random source are ports of the program.  They are
  parameters here: the backend is a record of functions over a state of type \<open>'b\<close>, random tokens
  are a list of the values still to be drawn.  Calls to the client port and the log append to
  \<open>s_out\<close>.  Every clock read of one operation returns the instant \<open>now\<close> that is its argument.
\<close>

section \<open>Ports\<close>

record 'b gamepad_port =
  gp_ensureBusOpen :: "'b \<Rightarrow> bool \<times> 'b"
  gp_closeBus :: "'b \<Rightarrow> 'b"
  gp_isBusOpen :: "'b \<Rightarrow> bool"
  gp_pluginDevicePreferring :: "nat \<Rightarrow> gamepad_identity \<Rightarrow> string \<Rightarrow> 'b \<Rightarrow> bool \<times> 'b"
  gp_backendIdForSerial :: "nat \<Rightarrow> 'b \<Rightarrow> string"
  gp_supportsIdentity :: "gamepad_identity \<Rightarrow> 'b \<Rightarrow> bool"
  gp_unplugDevice :: "nat \<Rightarrow> 'b \<Rightarrow> bool \<times> 'b"
  gp_isDevicePlugged :: "nat \<Rightarrow> 'b \<Rightarrow> bool"
  gp_submitReport :: "nat \<Rightarrow> gamepad_report \<Rightarrow> 'b \<Rightarrow> bool \<times> 'b"
  gp_refreshIdleInput :: "'b \<Rightarrow> 'b"
  gp_submitMotion :: "nat \<Rightarrow> motion_report \<Rightarrow> 'b \<Rightarrow> bool \<times> 'b"
  gp_supportsMotionForType :: "u8 \<Rightarrow> 'b \<Rightarrow> bool"
  gp_motionBackendOk :: "nat \<Rightarrow> 'b \<Rightarrow> bool"
  gp_submitBattery :: "nat \<Rightarrow> battery_report \<Rightarrow> 'b \<Rightarrow> bool \<times> 'b"
  gp_submitTouchpad :: "nat \<Rightarrow> touchpad_report \<Rightarrow> 'b \<Rightarrow> bool \<times> 'b"
  gp_submitRelativeMouse :: "int \<Rightarrow> int \<Rightarrow> mouse_buttons \<Rightarrow> int \<Rightarrow> 'b \<Rightarrow> bool \<times> 'b"
  gp_supportsRelativeMouse :: "'b \<Rightarrow> bool"
  gp_submitMicAudioPcm :: "nat \<Rightarrow> i16 list \<Rightarrow> 'b \<Rightarrow> bool \<times> 'b"

text \<open>What leaves the service: messages handed to the client port, and log lines.\<close>

datatype effect =
    SendHeartbeatAck session_endpoint bool u8 u16 u16
  | SendSessionClose session_endpoint u8
  | SendRumble session_endpoint nat rumble_report
  | SendLightbar session_endpoint nat u8 u8 u8
  | SendTriggerEffects session_endpoint nat trigger_effects_report
  | SendPlayerLeds session_endpoint nat u8
  | SendSpeakerAudio session_endpoint nat u16 "u8 list"
  | SendHapticAudio session_endpoint nat u16 "u8 list"
  | SendMicLed session_endpoint nat u8
  | LogMsg log_level string

text \<open>The messages of the two workers (\<^verbatim>\<open>core/pointer_worker.h\<close>, \<^verbatim>\<open>core/mic_worker.h\<close>).\<close>

record pointer_frame =
  pf_serial :: nat
  pf_stamp :: u32
  pf_slot :: nat
  pf_row :: u32
  pf_report :: touchpad_report

datatype pointer_kind = Release | Retry | BackdateRefusalLog

record pointer_command =
  pc_kind :: pointer_kind
  pc_serial :: nat
  pc_stamp :: u32
  pc_slot :: int
  pc_row :: u32
  pc_seconds :: int

definition default_pointer_command :: pointer_command where
  "default_pointer_command =
     \<lparr>pc_kind = Retry, pc_serial = 0, pc_stamp = 0, pc_slot = -1, pc_row = 0, pc_seconds = 0\<rparr>"

record mic_packet =
  mp_serial :: nat
  mp_gen :: u32
  mp_slot :: nat
  mp_ctrlIdx :: nat
  mp_keyEpoch :: u32
  mp_seq :: u16
  mp_bytes :: "u8 list"

abbreviation (input) "POINTER_FRAME_CAPACITY \<equiv> 256 :: nat"
abbreviation (input) "MIC_PACKET_CAPACITY \<equiv> 64 :: nat"
abbreviation (input) "MIC_PACKET_MAX_BYTES \<equiv> 1500 :: nat"
abbreviation (input) "HAPTIC_RUMBLE_WIRE_DURATION_MS \<equiv> 100 :: u16"
abbreviation (input) "HAPTIC_RUMBLE_REFRESH_MS \<equiv> 50 :: int"

record audio_counters =
  micDropped :: u64
  speakerSent :: u64
  speakerSilenceSuppressed :: u64
  speakerEncodeFailed :: u64
  hapticSent :: u64
  hapticSilenceSuppressed :: u64
  hapticEncodeFailed :: u64
  hapticReducedToRumble :: u64

definition no_audio_counters :: audio_counters where
  "no_audio_counters =
     \<lparr>micDropped = 0, speakerSent = 0, speakerSilenceSuppressed = 0, speakerEncodeFailed = 0,
      hapticSent = 0, hapticSilenceSuppressed = 0, hapticEncodeFailed = 0,
      hapticReducedToRumble = 0\<rparr>"

section \<open>The service state\<close>

text \<open>
  \<open>s_conns\<close> is \<^verbatim>\<open>connections_\<close>, its iteration order the list's order; \<open>s_frames\<close>, \<open>s_commands\<close> and
  \<open>s_micQueue\<close> hold what the workers have not taken yet.
\<close>

record 'b svc =
  s_port :: "'b gamepad_port"
  s_backend :: 'b
  s_keyDeriver :: "(u8 list \<Rightarrow> u8 list \<Rightarrow> u32 \<Rightarrow> u8 list) option"
  s_policy :: "controller_audio_policy option"
  s_rng :: "u32 list"
  s_conns :: "(u32 \<times> connection) list"
  s_hot :: hot_table
  s_pool :: serial_pool
  s_nextPlugGen :: u32
  s_nextRow :: u32
  s_nextPointerStamp :: u32
  s_activePads :: int
  s_rxPads :: "rx_pad list"
  s_rxSessions :: "rx_session list"
  s_frames :: "pointer_frame list"
  s_commands :: "pointer_command list"
  s_retryPending :: bool
  s_micQueue :: "mic_packet list"
  s_micLate :: u64
  s_audio :: audio_counters
  s_out :: "effect list"

definition init_svc ::
  "'b gamepad_port \<Rightarrow> 'b \<Rightarrow> (u8 list \<Rightarrow> u8 list \<Rightarrow> u32 \<Rightarrow> u8 list) option \<Rightarrow> u32 list \<Rightarrow> 'b svc" where
  "init_svc prt b kd rs =
     \<lparr>s_port = prt, s_backend = b, s_keyDeriver = kd, s_policy = None, s_rng = rs, s_conns = [],
      s_hot = default_hot_table, s_pool = default_serial_pool, s_nextPlugGen = 0, s_nextRow = 0,
      s_nextPointerStamp = 0, s_activePads = 0,
      s_rxPads = replicate (MAX_BACKEND_CONTROLLERS + 1) default_rx_pad,
      s_rxSessions = replicate MAX_SESSIONS \<lparr>rxs_keyEpoch = 0, rxs_micDropLogged = 0\<rparr>,
      s_frames = [], s_commands = [], s_retryPending = False, s_micQueue = [], s_micLate = 0,
      s_audio = no_audio_counters, s_out = []\<rparr>"

definition emit :: "effect \<Rightarrow> 'b svc \<Rightarrow> 'b svc" where
  "emit e s = s\<lparr>s_out := s_out s @ [e]\<rparr>"

definition logMsg :: "log_level \<Rightarrow> string \<Rightarrow> 'b svc \<Rightarrow> 'b svc" where
  "logMsg lvl msg s = emit (LogMsg lvl msg) s"

definition setAudioPolicy :: "controller_audio_policy option \<Rightarrow> 'b svc \<Rightarrow> 'b svc" where
  "setAudioPolicy fn s = s\<lparr>s_policy := fn\<rparr>"

definition audioPolicy :: "'b svc \<Rightarrow> controller_audio_policy" where
  "audioPolicy s =
     (case s_policy s of Some pol \<Rightarrow> pol
      | None \<Rightarrow> \<lparr>pol_mic = True, pol_speaker = True, pol_haptics = True\<rparr>)"

text \<open>The endpoint that the client adapter takes from a row.\<close>

definition conn_endpoint :: "connection \<Rightarrow> session_endpoint" where
  "conn_endpoint r = \<lparr>ep_token = token r, ep_key = sessionKey r, ep_slot = slot r\<rparr>"

section \<open>Rows\<close>

definition findByDeviceId :: "string \<Rightarrow> 'b svc \<Rightarrow> connection option" where
  "findByDeviceId dev s = map_option snd (List.find (\<lambda>e. deviceId (snd e) = dev) (s_conns s))"

definition findByConnectionId :: "string \<Rightarrow> 'b svc \<Rightarrow> connection option" where
  "findByConnectionId cid s =
     map_option snd (List.find (\<lambda>e. connectionId (snd e) = cid) (s_conns s))"

definition find_conn :: "u32 \<Rightarrow> 'b svc \<Rightarrow> connection option" where
  "find_conn tok s = map_of (s_conns s) tok"

text \<open>
  A row is read and changed through its reference: the entry under its token.
\<close>

definition deref :: "u32 \<Rightarrow> 'b svc \<Rightarrow> connection" where
  "deref tok s = the (find_conn tok s)"

definition put_row :: "connection \<Rightarrow> 'b svc \<Rightarrow> 'b svc" where
  "put_row r s = s\<lparr>s_conns := map (\<lambda>e. if fst e = token r then (fst e, r) else e) (s_conns s)\<rparr>"

definition erase_row :: "u32 \<Rightarrow> 'b svc \<Rightarrow> 'b svc" where
  "erase_row tok s = s\<lparr>s_conns := filter (\<lambda>e. fst e \<noteq> tok) (s_conns s)\<rparr>"

text \<open>The first row with an active controller on the serial, and the controller's place in it.\<close>

definition findBySerialLocked :: "nat \<Rightarrow> 'b svc \<Rightarrow> (connection \<times> nat) option" where
  "findBySerialLocked serial s =
     List.find (\<lambda>(r, i). active (controllers r ! i) \<and> serialNo (controllers r ! i) = serial)
       (concat (map (\<lambda>e. map (\<lambda>i. (snd e, i)) [0..<length (controllers (snd e))]) (s_conns s)))"

definition set_ctrl :: "nat \<Rightarrow> controller \<Rightarrow> connection \<Rightarrow> connection" where
  "set_ctrl i c r = r\<lparr>controllers := (controllers r)[i := c]\<rparr>"

definition countGlobalActiveControllers :: "'b svc \<Rightarrow> int" where
  "countGlobalActiveControllers s = sum_list (map (\<lambda>e. activeControllerCount (snd e)) (s_conns s))"

definition adjustActivePadsLocked :: "int \<Rightarrow> connection \<Rightarrow> 'b svc \<Rightarrow> connection \<times> 'b svc" where
  "adjustActivePadsLocked delta r s =
     (r\<lparr>activeControllerCount := activeControllerCount r + delta\<rparr>,
      s\<lparr>s_activePads := s_activePads s + delta\<rparr>)"

section \<open>Pointer stamps\<close>

text \<open>
  \<^verbatim>\<open>PointerWorker::post\<close> waits until the queue has room, so a command is always queued.
\<close>

definition post :: "pointer_command \<Rightarrow> 'b svc \<Rightarrow> 'b svc" where
  "post cmd s = s\<lparr>s_commands := s_commands s @ [cmd]\<rparr>"

definition takePointerStampLocked :: "'b svc \<Rightarrow> u32 \<times> 'b svc" where
  "takePointerStampLocked s =
     (let n = s_nextPointerStamp s + 1;
          n' = (if n = 0 then n + 1 else n)
      in (n', s\<lparr>s_nextPointerStamp := n'\<rparr>))"

definition releasePointerLocked :: "controller \<Rightarrow> 'b svc \<Rightarrow> controller \<times> 'b svc" where
  "releasePointerLocked c s =
     (if serialNo c = 0 \<or> serialNo c > MAX_BACKEND_CONTROLLERS then (c, s)
      else case takePointerStampLocked s of (stamp, s1) \<Rightarrow>
        (c\<lparr>pointerStamp := stamp\<rparr>,
         post (default_pointer_command
           \<lparr>pc_kind := Release, pc_serial := serialNo c, pc_stamp := stamp\<rparr>) s1))"

definition releaseConnectionPointerLocked :: "connection \<Rightarrow> 'b svc \<Rightarrow> connection \<times> 'b svc" where
  "releaseConnectionPointerLocked r s =
     (case mapS (\<lambda>c t. if active c then releasePointerLocked c t else (c, t)) (controllers r) s of
        (cs, s1) \<Rightarrow> (r\<lparr>controllers := cs\<rparr>, s1))"

section \<open>Publishing controllers\<close>

definition padInfoWord :: "controller \<Rightarrow> u32" where
  "padInfoWord c =
     (if active c then hotPadInfo (caps c) (controllerType c) (touchpadMode c) else 0)"

definition padGenWord :: "controller \<Rightarrow> u32" where
  "padGenWord c = (if active c then plugGen c else 0)"

definition padStampWord :: "controller \<Rightarrow> u32" where
  "padStampWord c = (if active c then pointerStamp c else 0)"

definition sessionWord :: "connection \<Rightarrow> u32" where
  "sessionWord r = hotSessionWord (epoch r) (mouseControlGranted r)"

definition ctrlWord :: "controller \<Rightarrow> u32" where
  "ctrlWord c = hotCtrlWord (active c) (of_nat (serialNo c))"

definition packMotors :: "rumble_report \<Rightarrow> u32" where
  "packMotors report = ucast (strongMagnitude report) OR push_bit 16 (ucast (weakMagnitude report))"

text \<open>The first loop: owner words of this slot whose controller is gone or moved are cleared.\<close>

definition clear_owners :: "connection \<Rightarrow> u32 list \<Rightarrow> u32 list" where
  "clear_owners r po =
     map (\<lambda>serial.
       let owner = po ! serial; c = controllers r ! hotOwnerIndex owner in
       if serial = 0 \<or> owner = 0 \<or> hotOwnerSlot owner \<noteq> int (slot r) then owner
       else if \<not> active c \<or> serialNo c \<noteq> serial then 0 else owner)
     [0..<length po]"

text \<open>The second loop: every bound controller's serial gets this slot and index.\<close>

definition set_owners :: "connection \<Rightarrow> u32 list \<Rightarrow> u32 list" where
  "set_owners r po =
     fold (\<lambda>i po. let c = controllers r ! i in
         if \<not> active c \<or> serialNo c = 0 \<or> serialNo c > MAX_BACKEND_CONTROLLERS then po
         else po[serialNo c := hotPadOwner (slot r) i])
       [0..<MAX_CONTROLLERS_PER_CONN] po"

definition publish_words :: "connection \<Rightarrow> hot_slot \<Rightarrow> hot_slot" where
  "publish_words r h =
     h\<lparr>hs_ctrl := map ctrlWord (controllers r), hs_padInfo := map padInfoWord (controllers r),
       hs_padGen := map padGenWord (controllers r), hs_padStamp := map padStampWord (controllers r),
       hs_session := sessionWord r\<rparr>"

definition publishControllers :: "connection \<Rightarrow> hot_table \<Rightarrow> hot_table" where
  "publishControllers r t =
     upd_slot (slot r) (publish_words r)
       (t\<lparr>padOwners := set_owners r (clear_owners r (padOwners t))\<rparr>)"

definition controllersPublished :: "connection \<Rightarrow> hot_table \<Rightarrow> bool" where
  "controllersPublished r t \<longleftrightarrow>
     (let h = slots t ! slot r in
      hs_ctrl h = map ctrlWord (controllers r) \<and> hs_padInfo h = map padInfoWord (controllers r) \<and>
      hs_padGen h = map padGenWord (controllers r) \<and>
      hs_padStamp h = map padStampWord (controllers r) \<and> hs_session h = sessionWord r)"

definition safeTouchpadMode :: "u8 \<Rightarrow> u8" where
  "safeTouchpadMode mode = (if mode < TOUCHPAD_MODE_COUNT then mode else TOUCHPAD_MODE_OFF)"

text \<open>
  \<^verbatim>\<open>ConnectionWrite\<close>: the slot's generation is made odd, the body writes, the controllers are
  published, the generation is made even again.
\<close>

definition ConnectionWrite ::
  "connection \<Rightarrow> (hot_table \<Rightarrow> hot_table) \<Rightarrow> hot_table \<Rightarrow> hot_table" where
  "ConnectionWrite r body t =
     upd_slot (slot r) hs_endWrite
       (publishControllers r (body (upd_slot (slot r) hs_beginWrite t)))"

section \<open>Rumble\<close>

definition TIME_MAX :: ticks where
  "TIME_MAX = 0x7FFFFFFFFFFFFFFF"

definition same_motors :: "rumble_report \<Rightarrow> rumble_report \<Rightarrow> bool" where
  "same_motors a b \<longleftrightarrow> strongMagnitude a = strongMagnitude b \<and> weakMagnitude a = weakMagnitude b"

definition motors_held :: "rumble_report \<Rightarrow> bool" where
  "motors_held r \<longleftrightarrow> strongMagnitude r \<noteq> 0 \<or> weakMagnitude r \<noteq> 0"

text \<open>Per motor the larger of the HID level and the haptic level, the latter while it lives.\<close>

definition mix_rumble :: "ticks \<Rightarrow> controller \<Rightarrow> rumble_report" where
  "mix_rumble now c =
     (let live = now < hapticRumbleExpiresAt c in
      \<lparr>strongMagnitude = max (strongMagnitude (hidRumble c))
         (if live then strongMagnitude (hapticRumble c) else 0),
       weakMagnitude = max (weakMagnitude (hidRumble c))
         (if live then weakMagnitude (hapticRumble c) else 0),
       durationMs = 0\<rparr>)"

definition forwardRumbleLocked ::
  "ticks \<Rightarrow> connection \<Rightarrow> controller \<Rightarrow> u16 \<Rightarrow> bool \<Rightarrow> 'b svc \<Rightarrow> bool \<times> controller \<times> 'b svc" where
  "forwardRumbleLocked now r c wireDurationMs force s =
     (let lastExpired = lastRumbleValid c \<and> now \<ge> lastRumbleExpiresAt c;
          mixed = mix_rumble now c;
          stamped = mixed\<lparr>durationMs := wireDurationMs\<rparr>
      in if \<not> force \<and> lastRumbleValid c \<and> \<not> lastExpired \<and> same_motors (lastRumble c) mixed
         then (False, c, s)
         else (True,
           c\<lparr>lastRumble := stamped, lastRumbleValid := True, lastRumbleSentAt := now,
             lastRumbleExpiresAt :=
               (if wireDurationMs = 0 then TIME_MAX else now + msec (int (unat wireDurationMs)))\<rparr>,
           emit (SendRumble (conn_endpoint r) (ctrl_index c) stamped) s))"

definition seedRumbleLocked :: "serial_pool \<Rightarrow> controller \<Rightarrow> controller" where
  "seedRumbleLocked p c =
     (let motors = hidMotors p ! serialNo c in
      c\<lparr>hidRumble := (hidRumble c)\<lparr>strongMagnitude := ucast motors,
                                   weakMagnitude := ucast (drop_bit 16 motors)\<rparr>\<rparr>)"

definition sendSeededRumbleLocked :: "ticks \<Rightarrow> connection \<Rightarrow> 'b svc \<Rightarrow> connection \<times> 'b svc" where
  "sendSeededRumbleLocked now r s =
     (case mapS (\<lambda>c t.
         if active c \<and> motors_held (hidRumble c) \<and> \<not> lastRumbleValid c
         then case forwardRumbleLocked now r c RUMBLE_WIRE_DURATION_MS False t of
                (_, c', t') \<Rightarrow> (c', t')
         else (c, t)) (controllers r) s of
       (cs, s1) \<Rightarrow> (r\<lparr>controllers := cs\<rparr>, s1))"

section \<open>Publishing a session\<close>

definition publishSessionKeyLocked :: "ticks \<Rightarrow> connection \<Rightarrow> hot_slot \<Rightarrow> hot_slot" where
  "publishSessionKeyLocked now r h =
     hs_storeName (string_bytes (deviceName r))
       ((hs_storeKey (sessionKey r) (h\<lparr>hs_token := token r, hs_keyEpoch := hs_keyEpoch h + 1\<rparr>))
          \<lparr>hs_txCounter := 0, hs_clientAddr := 0, hs_feedbackPending := False,
           hs_lastPacketTicks := now, hs_row := row r\<rparr>)"

definition publishSessionLocked :: "ticks \<Rightarrow> connection \<Rightarrow> 'b svc \<Rightarrow> connection \<times> 'b svc" where
  "publishSessionLocked now r s =
     sendSeededRumbleLocked now r
       (s\<lparr>s_hot := hot_publish (slot r) (token r)
            (ConnectionWrite r (upd_slot (slot r) (publishSessionKeyLocked now r)) (s_hot s))\<rparr>)"

definition publishControllersLocked :: "ticks \<Rightarrow> connection \<Rightarrow> 'b svc \<Rightarrow> connection \<times> 'b svc" where
  "publishControllersLocked now r s =
     (if controllersPublished r (s_hot s) then (r, s)
      else sendSeededRumbleLocked now r (s\<lparr>s_hot := ConnectionWrite r (\<lambda>t. t) (s_hot s)\<rparr>))"

section \<open>Stream state of a fresh pad\<close>

definition next_nonzero :: "u32 \<Rightarrow> u32" where
  "next_nonzero n = (if n + 1 = 0 then n + 1 + 1 else n + 1)"

definition resetControllerStreamState :: "controller \<Rightarrow> 'b svc \<Rightarrow> controller \<times> 'b svc" where
  "resetControllerStreamState c s =
     (let gen = next_nonzero (s_nextPlugGen s) in
      case takePointerStampLocked (s\<lparr>s_nextPlugGen := gen\<rparr>) of (stamp, s1) \<Rightarrow>
        (c\<lparr>lastRumble := no_rumble, lastRumbleValid := False, lastRumbleSentAt := 0,
           lastRumbleExpiresAt := 0, hidRumble := no_rumble, hapticRumble := no_rumble,
           hapticRumbleSentAt := 0, hapticRumbleExpiresAt := 0, lightbarR := 0, lightbarG := 0,
           lightbarB := 0, lastLightbarValid := False, lastTriggerEffects := no_trigger_effects,
           lastTriggerEffectsValid := False, playerLeds := 0, lastPlayerLedsValid := False,
           micLedState := MIC_LED_STATE_OFF, lastMicLedValid := False, plugGen := gen,
           pointerStamp := stamp\<rparr>, s1))"

end
