(* ===== verification/Session_Topology.thy ===== *)
theory Session_Topology
  imports Session_State
begin

text \<open>
  The topology operations of \<^verbatim>\<open>SessionService\<close> (\<^verbatim>\<open>core/session_service.cpp\<close>): the plan of one declarative
  change, the plug rounds, the commits under the lock, the settling of retired serials, and the
  entry points built from them: upsert, apply, remove, close and reap.  A reference to a row that an
  operation keeps from one locked section to the next is the row's token; each section reads the row
  with \<^const>\<open>deref\<close> and writes it back with \<^const>\<open>put_row\<close>.
\<close>

section \<open>Plans\<close>

datatype pad_kind = Refuse | Update | Add | Replug | ReplugInPlace | Remove

record pad_change =
  pd_kind :: pad_kind
  pd_desc :: controller_descriptor
  pd_result :: u8
  pd_appliedType :: u8
  pd_serial :: nat
  pd_retiring :: nat
  pd_waits :: bool
  pd_busDown :: bool
  pd_plugged :: bool

definition default_descriptor :: controller_descriptor where
  "default_descriptor =
     \<lparr>d_ctrlIdx = 0, d_type = CONTROLLER_TYPE_XBOX, d_caps = 0,
      d_touchpadMode = TOUCHPAD_MODE_OFF, d_preferredBackend = []\<rparr>"

definition default_pad_change :: pad_change where
  "default_pad_change =
     \<lparr>pd_kind = Refuse, pd_desc = default_descriptor, pd_result = APPLY_OK,
      pd_appliedType = CONTROLLER_TYPE_XBOX, pd_serial = 0, pd_retiring = 0, pd_waits = False,
      pd_busDown = False, pd_plugged = False\<rparr>"

record retired_serial =
  rt_serial :: nat
  rt_unplugged :: bool

record topology_change =
  tc_pads :: "pad_change list"
  tc_retired :: "retired_serial list"
  tc_busReopened :: bool

definition empty_change :: topology_change where
  "empty_change = \<lparr>tc_pads = [], tc_retired = [], tc_busReopened = False\<rparr>"

record session_mint =
  m_row :: connection
  m_token :: u32
  m_salt :: "u8 list"
  m_key :: "u8 list"

definition dedup_insert ::
  "controller_descriptor list \<Rightarrow> controller_descriptor \<Rightarrow> controller_descriptor list" where
  "dedup_insert deduped d =
     (case List.find (\<lambda>i. d_ctrlIdx (deduped ! i) = d_ctrlIdx d) [0..<length deduped] of
        Some i \<Rightarrow> deduped[i := d]
      | None \<Rightarrow> deduped @ [d])"

definition dedupDescriptors :: "controller_descriptor list \<Rightarrow> controller_descriptor list" where
  "dedupDescriptors ds = foldl dedup_insert [] ds"

text \<open>The plan of one descriptor may take a serial from the pool; the row is only read.\<close>

definition planPadLocked ::
  "connection \<Rightarrow> controller_descriptor \<Rightarrow> 'b svc \<Rightarrow> pad_change \<times> 'b svc" where
  "planPadLocked r d s =
     (let pad = default_pad_change\<lparr>pd_desc := d\<rparr> in
      if d_ctrlIdx d \<ge> MAX_CONTROLLERS_PER_CONN
      then (pad\<lparr>pd_result := APPLY_ERR_INVALID_INDEX\<rparr>, s)
      else let c = controllers r ! d_ctrlIdx d in
        if d_type d \<ge> CONTROLLER_TYPE_COUNT \<or>
           \<not> gp_supportsIdentity (s_port s) (controllerIdentity (d_type d)) (s_backend s)
        then (pad\<lparr>pd_result := APPLY_ERR_INVALID_TYPE,
                  pd_appliedType := (if active c then controllerType c else CONTROLLER_TYPE_XBOX)\<rparr>, s)
        else let pad = pad\<lparr>pd_appliedType := d_type d\<rparr> in
          if \<not> active c
          then case allocateSerial (s_pool s) of (serial, p) \<Rightarrow>
            (pad\<lparr>pd_kind := Add, pd_serial := serial\<rparr>, s\<lparr>s_pool := p\<rparr>)
          else if controllerIdentity (d_type d) = identity c
          then (pad\<lparr>pd_kind := Update\<rparr>, s)
          else if \<not> gp_isBusOpen (s_port s) (s_backend s)
          then (pad\<lparr>pd_kind := Replug\<rparr>, s)
          else case allocateSerial (s_pool s) of (serial, p) \<Rightarrow>
            if serial \<noteq> 0
            then (pad\<lparr>pd_kind := Replug, pd_serial := serial\<rparr>, s\<lparr>s_pool := p\<rparr>)
            else (pad\<lparr>pd_kind := ReplugInPlace, pd_retiring := serialNo c, pd_waits := True\<rparr>,
                  s\<lparr>s_pool := p\<rparr>))"

definition planRemoval :: "nat \<Rightarrow> pad_change" where
  "planRemoval ctrlIdx =
     default_pad_change\<lparr>pd_kind := Remove, pd_desc := default_descriptor\<lparr>d_ctrlIdx := ctrlIdx\<rparr>\<rparr>"

definition pad_retires :: "pad_change \<Rightarrow> bool" where
  "pad_retires pad \<longleftrightarrow>
     (pd_kind pad = Replug \<and> pd_serial pad \<noteq> 0) \<or> pd_kind pad = ReplugInPlace \<or> pd_kind pad = Remove"

definition deferUnservedAdds :: "pad_change list \<Rightarrow> pad_change list" where
  "deferUnservedAdds pads =
     (let retires = list_ex pad_retires pads in
      map (\<lambda>pad. if pd_kind pad = Add \<and> pd_serial pad = 0 then pad\<lparr>pd_waits := retires\<rparr> else pad) pads)"

definition planSessionPadsLocked ::
  "connection \<Rightarrow> controller_descriptor list \<Rightarrow> 'b svc \<Rightarrow> pad_change list \<times> 'b svc" where
  "planSessionPadsLocked r desired s =
     (let removals = map planRemoval
            (filter (\<lambda>i. active (controllers r ! i) \<and> i \<notin> d_ctrlIdx ` set desired)
               [0..<MAX_CONTROLLERS_PER_CONN])
      in case mapS (planPadLocked r) desired s of (planned, s1) \<Rightarrow>
           (deferUnservedAdds (removals @ planned), s1))"

section \<open>Plug rounds\<close>

definition plugsInRound :: "bool \<Rightarrow> pad_change \<Rightarrow> bool" where
  "plugsInRound secondRound pad \<longleftrightarrow>
     (pd_kind pad = Add \<or> pd_kind pad = Replug \<or> pd_kind pad = ReplugInPlace) \<and>
     pd_serial pad \<noteq> 0 \<and> pd_waits pad = secondRound"

definition plug_pad :: "bool \<Rightarrow> bool \<Rightarrow> pad_change \<Rightarrow> 'b svc \<Rightarrow> pad_change \<times> 'b svc" where
  "plug_pad secondRound busOpen pad s =
     (if \<not> plugsInRound secondRound pad then (pad, s)
      else if \<not> busOpen then (pad\<lparr>pd_busDown := True\<rparr>, s)
      else case gp_pluginDevicePreferring (s_port s) (pd_serial pad)
                  (controllerIdentity (d_type (pd_desc pad))) (d_preferredBackend (pd_desc pad))
                  (s_backend s) of
        (ok, b) \<Rightarrow> (pad\<lparr>pd_busDown := False, pd_plugged := ok\<rparr>, s\<lparr>s_backend := b\<rparr>))"

definition open_bus :: "'b svc \<Rightarrow> bool \<times> 'b svc" where
  "open_bus s =
     (if gp_isBusOpen (s_port s) (s_backend s) then (False, s)
      else case gp_ensureBusOpen (s_port s) (s_backend s) of (ok, b) \<Rightarrow> (ok, s\<lparr>s_backend := b\<rparr>))"

definition plugPads :: "bool \<Rightarrow> topology_change \<Rightarrow> 'b svc \<Rightarrow> topology_change \<times> 'b svc" where
  "plugPads secondRound change s =
     (if \<not> list_ex (plugsInRound secondRound) (tc_pads change) then (change, s)
      else case open_bus s of (reopened, s1) \<Rightarrow>
        let busOpen = gp_isBusOpen (s_port s1) (s_backend s1) in
        case mapS (plug_pad secondRound busOpen) (tc_pads change) s1 of (pads, s2) \<Rightarrow>
          (change\<lparr>tc_pads := pads, tc_busReopened := (reopened \<or> tc_busReopened change)\<rparr>, s2))"

section \<open>Commits\<close>

text \<open>A commit works on the held row, the list of retired serials and the service.\<close>

type_synonym 'b commit_state = "connection \<times> retired_serial list \<times> 'b svc"

definition vacatePadLocked :: "nat \<Rightarrow> 'b commit_state \<Rightarrow> 'b commit_state" where
  "vacatePadLocked i = (\<lambda>(r, retired, s).
     let c = controllers r ! i;
         (c1, s1) = (if serialNo c \<noteq> 0 then releasePointerLocked c s else (c, s));
         retired1 = (if serialNo c \<noteq> 0
                     then retired @ [\<lparr>rt_serial = serialNo c, rt_unplugged = False\<rparr>] else retired);
         r1 = set_ctrl i (c1\<lparr>active := False, serialNo := 0\<rparr>) r;
         (r2, s2) = adjustActivePadsLocked (-1) r1 s1
     in (r2\<lparr>epoch := epoch r2 + 1\<rparr>, retired1, s2))"

definition removePadLocked :: "nat \<Rightarrow> 'b commit_state \<Rightarrow> 'b commit_state" where
  "removePadLocked i = (\<lambda>(r, retired, s).
     vacatePadLocked i (r, retired,
       logMsg INFO (''Controller #'' @ dec_string (ctrl_index (controllers r ! i)) @
                    '' removed from '' @ deviceName r) s))"

definition updatePadLocked :: "controller_descriptor \<Rightarrow> controller \<Rightarrow> 'b svc \<Rightarrow> controller \<times> 'b svc" where
  "updatePadLocked d c s =
     (let mode = safeTouchpadMode (d_touchpadMode d);
          (c1, s1) = (if mode \<noteq> touchpadMode c then releasePointerLocked c s else (c, s))
      in (c1\<lparr>controllerType := d_type d, caps := d_caps d, touchpadMode := mode,
             preferredBackend := d_preferredBackend d\<rparr>, s1))"

definition takeDescriptorLocked ::
  "controller_descriptor \<Rightarrow> controller \<Rightarrow> 'b svc \<Rightarrow> controller \<times> 'b svc" where
  "takeDescriptorLocked d c s =
     resetControllerStreamState
       (c\<lparr>controllerType := d_type d, identity := controllerIdentity (d_type d), caps := d_caps d,
          touchpadMode := safeTouchpadMode (d_touchpadMode d),
          preferredBackend := d_preferredBackend d\<rparr>) s"

definition bindPadLocked :: "nat \<Rightarrow> pad_change \<Rightarrow> connection \<Rightarrow> 'b svc \<Rightarrow> connection \<times> 'b svc" where
  "bindPadLocked i pad r s =
     (let c = (controllers r ! i)\<lparr>ctrl_index := d_ctrlIdx (pd_desc pad), serialNo := pd_serial pad,
                                  active := True\<rparr>;
          (c1, s1) = takeDescriptorLocked (pd_desc pad) c s;
          (r2, s2) = adjustActivePadsLocked 1 (set_ctrl i (seedRumbleLocked (s_pool s1) c1) r) s1
      in (r2\<lparr>epoch := epoch r2 + 1\<rparr>, s2))"

definition addPadLocked ::
  "nat \<Rightarrow> pad_change \<Rightarrow> 'b commit_state \<Rightarrow> pad_change \<times> 'b commit_state" where
  "addPadLocked i pad = (\<lambda>(r, retired, s).
     if pd_plugged pad
     then let (r1, s1) = bindPadLocked i pad r s in
       (pad, r1, retired,
        logMsg INFO (''Controller #'' @ dec_string (d_ctrlIdx (pd_desc pad)) @ '' plugged as '' @
          controllerTypeLabel (d_type (pd_desc pad)) @ '' (serial '' @ dec_string (pd_serial pad) @
          '') for '' @ deviceName r1) s1)
     else let s1 = s\<lparr>s_pool := releaseSerial (pd_serial pad) (s_pool s)\<rparr> in
       if pd_serial pad = 0 then (pad\<lparr>pd_result := APPLY_ERR_NO_SLOTS\<rparr>, r, retired, s1)
       else if pd_busDown pad
       then (pad\<lparr>pd_result := APPLY_ERR_BACKEND_UNAVAIL\<rparr>, r, retired,
             logMsg ERR ''Controller apply failed: backend bus unavailable'' s1)
       else (pad\<lparr>pd_result := APPLY_ERR_PLUGIN_FAIL\<rparr>, r, retired, s1))"

definition replugPadLocked ::
  "nat \<Rightarrow> pad_change \<Rightarrow> 'b commit_state \<Rightarrow> pad_change \<times> 'b commit_state" where
  "replugPadLocked i pad = (\<lambda>(r0, retired, s).
     let r = r0\<lparr>epoch := epoch r0 + 1\<rparr>;
         c = controllers r ! i in
     if \<not> pd_plugged pad
     then let pad1 = pad\<lparr>pd_result := APPLY_ERR_REPLUG_FAIL, pd_appliedType := controllerType c\<rparr> in
       if pd_serial pad = 0 then (pad1, r, retired, s)
       else (pad1, r, retired,
         logMsg ERR (''Failed to replug controller #'' @ dec_string (d_ctrlIdx (pd_desc pad)) @
           '' as '' @ controllerTypeLabel (d_type (pd_desc pad)) @ ''; keeping existing '' @
           controllerTypeLabel (controllerType c))
           (s\<lparr>s_pool := releaseSerial (pd_serial pad) (s_pool s)\<rparr>))
     else let (c1, s1) = releasePointerLocked c s;
              retired1 = retired @ [\<lparr>rt_serial = serialNo c1, rt_unplugged = False\<rparr>];
              (c2, s2) = takeDescriptorLocked (pd_desc pad) (c1\<lparr>serialNo := pd_serial pad\<rparr>) s1;
              c3 = seedRumbleLocked (s_pool s2) c2
       in (pad, set_ctrl i c3 r, retired1,
           logMsg INFO (''Replugged controller #'' @ dec_string (d_ctrlIdx (pd_desc pad)) @ '' as '' @
             controllerTypeLabel (d_type (pd_desc pad)) @ '' (serial '' @ dec_string (serialNo c3) @
             '')'') s2))"

definition refitPadLocked ::
  "nat \<Rightarrow> pad_change \<Rightarrow> 'b commit_state \<Rightarrow> pad_change \<times> 'b commit_state" where
  "refitPadLocked i pad = (\<lambda>(r, retired, s).
     let idx = dec_string (d_ctrlIdx (pd_desc pad)) in
     if pd_plugged pad
     then let (r1, s1) = bindPadLocked i pad r s in
       (pad, r1, retired,
        logMsg INFO (''Replugged controller #'' @ idx @ '' as '' @
          controllerTypeLabel (d_type (pd_desc pad)) @ '' (serial '' @ dec_string (pd_serial pad) @
          '')'') s1)
     else (pad\<lparr>pd_result := APPLY_ERR_PLUGIN_FAIL\<rparr>, r, retired,
        logMsg ERR (if pd_serial pad = 0
             then ''Replug fallback failed to unplug controller #'' @ idx @ ''; slot lost''
             else ''Replug fallback plug failed for controller #'' @ idx @ ''; slot lost'')
          (s\<lparr>s_pool := releaseSerial (pd_serial pad) (s_pool s)\<rparr>)))"

definition commitPadLocked ::
  "bool \<Rightarrow> pad_change \<Rightarrow> 'b commit_state \<Rightarrow> pad_change \<times> 'b commit_state" where
  "commitPadLocked secondRound pad cst =
     (let i = d_ctrlIdx (pd_desc pad) in
      case pd_kind pad of
        Refuse \<Rightarrow> (pad, cst)
      | Update \<Rightarrow> (case cst of (r, retired, s) \<Rightarrow>
          let (c, s1) = updatePadLocked (pd_desc pad) (controllers r ! i) s in
          (pad, set_ctrl i c r, retired, s1))
      | Remove \<Rightarrow> (pad, removePadLocked i cst)
      | Replug \<Rightarrow> replugPadLocked i pad cst
      | ReplugInPlace \<Rightarrow> if \<not> secondRound then (pad, vacatePadLocked i cst) else refitPadLocked i pad cst
      | Add \<Rightarrow> if secondRound \<or> \<not> pd_waits pad then addPadLocked i pad cst else (pad, cst))"

definition clear_reopened :: "topology_change \<Rightarrow> 'b svc \<Rightarrow> topology_change \<times> 'b svc" where
  "clear_reopened change s =
     (if tc_busReopened change
      then (change\<lparr>tc_busReopened := False\<rparr>,
            logMsg INFO ''Backend bus opened on demand'' (s\<lparr>s_pool := clearQuarantine (s_pool s)\<rparr>))
      else (change, s))"

definition commitPadsLocked ::
  "bool \<Rightarrow> connection \<Rightarrow> topology_change \<Rightarrow> 'b svc \<Rightarrow> connection \<times> topology_change \<times> 'b svc" where
  "commitPadsLocked secondRound r change s =
     (case clear_reopened change s of (change1, s1) \<Rightarrow>
      case mapS (\<lambda>pad cst. if secondRound \<and> \<not> pd_waits pad then (pad, cst)
                           else commitPadLocked secondRound pad cst)
             (tc_pads change1) (r, tc_retired change1, s1) of
        (pads, r2, retired, s2) \<Rightarrow> (r2, change1\<lparr>tc_pads := pads, tc_retired := retired\<rparr>, s2))"

section \<open>Retired serials\<close>

definition unplugRetired :: "retired_serial list \<Rightarrow> 'b svc \<Rightarrow> retired_serial list \<times> 'b svc" where
  "unplugRetired retired s =
     mapS (\<lambda>rt t. case gp_unplugDevice (s_port t) (rt_serial rt) (s_backend t) of
                    (ok, b) \<Rightarrow> (rt\<lparr>rt_unplugged := ok\<rparr>, t\<lparr>s_backend := b\<rparr>)) retired s"

definition settle_one :: "retired_serial \<Rightarrow> 'b svc \<Rightarrow> 'b svc" where
  "settle_one rt s =
     (if rt_unplugged rt then s\<lparr>s_pool := releaseSerial (rt_serial rt) (s_pool s)\<rparr>
      else logMsg WARN (''Unplug of serial '' @ dec_string (rt_serial rt) @
             '' unconfirmed; serial quarantined until the bus closes'')
             (s\<lparr>s_pool := quarantineSerial (rt_serial rt) (s_pool s)\<rparr>))"

definition settleRetiredLocked :: "retired_serial list \<Rightarrow> 'b svc \<Rightarrow> 'b svc" where
  "settleRetiredLocked retired s = fold settle_one retired s"

definition wait_in_place :: "pad_change \<Rightarrow> serial_pool \<Rightarrow> pad_change \<times> serial_pool" where
  "wait_in_place pad p =
     (if pd_kind pad \<noteq> ReplugInPlace then (pad, p)
      else case claimSerialLocked (pd_retiring pad) p of (ok, p1) \<Rightarrow>
        if ok then (pad\<lparr>pd_serial := pd_retiring pad\<rparr>, p1)
        else case allocateSerial p1 of (serial, p2) \<Rightarrow> (pad\<lparr>pd_serial := serial\<rparr>, p2))"

definition wait_add :: "pad_change \<Rightarrow> serial_pool \<Rightarrow> pad_change \<times> serial_pool" where
  "wait_add pad p =
     (if pd_kind pad \<noteq> Add \<or> \<not> pd_waits pad then (pad, p)
      else case allocateSerial p of (serial, p1) \<Rightarrow> (pad\<lparr>pd_serial := serial\<rparr>, p1))"

definition pad_waiting :: "pad_change \<Rightarrow> bool" where
  "pad_waiting pad \<longleftrightarrow> pd_kind pad = ReplugInPlace \<or> (pd_kind pad = Add \<and> pd_waits pad)"

definition allocateWaitingLocked :: "topology_change \<Rightarrow> 'b svc \<Rightarrow> bool \<times> topology_change \<times> 'b svc" where
  "allocateWaitingLocked change s =
     (case mapS wait_in_place (tc_pads change) (s_pool s) of (pads1, p1) \<Rightarrow>
      case mapS wait_add pads1 p1 of (pads2, p2) \<Rightarrow>
        (list_ex pad_waiting (tc_pads change), change\<lparr>tc_pads := pads2\<rparr>, s\<lparr>s_pool := p2\<rparr>))"

text \<open>
  The locked sections of \<^verbatim>\<open>convergePads\<close> and \<^verbatim>\<open>settlePadChange\<close>, and the two functions composed from
  them with the unlocked plug and unplug calls in between.
\<close>

definition commit_and_publish ::
  "bool \<Rightarrow> ticks \<Rightarrow> u32 \<Rightarrow> topology_change \<Rightarrow> 'b svc \<Rightarrow> topology_change \<times> 'b svc" where
  "commit_and_publish secondRound now tok change s =
     (case commitPadsLocked secondRound (deref tok s) change s of (r1, change1, s1) \<Rightarrow>
      case publishControllersLocked now r1 s1 of (r2, s2) \<Rightarrow> (change1, put_row r2 s2))"

definition settle_and_allocate ::
  "retired_serial list \<Rightarrow> topology_change \<Rightarrow> 'b svc \<Rightarrow> bool \<times> topology_change \<times> 'b svc" where
  "settle_and_allocate retired change s =
     allocateWaitingLocked (change\<lparr>tc_retired := []\<rparr>) (settleRetiredLocked retired s)"

definition settlePadChange ::
  "ticks \<Rightarrow> u32 \<Rightarrow> topology_change \<Rightarrow> 'b svc \<Rightarrow> topology_change \<times> 'b svc" where
  "settlePadChange now tok change s =
     (case unplugRetired (tc_retired change) s of (retired, s1) \<Rightarrow>
      case settle_and_allocate retired change s1 of (waiting, change2, s2) \<Rightarrow>
        if \<not> waiting then (change2, s2)
        else case plugPads True change2 s2 of (change3, s3) \<Rightarrow>
          commit_and_publish True now tok change3 s3)"

definition convergePads ::
  "ticks \<Rightarrow> u32 \<Rightarrow> topology_change \<Rightarrow> 'b svc \<Rightarrow> topology_change \<times> 'b svc" where
  "convergePads now tok change s =
     (case plugPads False change s of (change1, s1) \<Rightarrow>
      case commit_and_publish False now tok change1 s1 of (change2, s2) \<Rightarrow>
        settlePadChange now tok change2 s2)"

section \<open>Bus and teardown\<close>

definition busIdleLocked :: "'b svc \<Rightarrow> bool" where
  "busIdleLocked s \<longleftrightarrow>
     gp_isBusOpen (s_port s) (s_backend s) \<and> countGlobalActiveControllers s = 0"

definition closeBusIfIdle :: "bool \<Rightarrow> 'b svc \<Rightarrow> 'b svc" where
  "closeBusIfIdle idle s =
     (if \<not> idle then s
      else logMsg INFO ''Backend bus closed (no active controllers)''
        (s\<lparr>s_backend := gp_closeBus (s_port s) (s_backend s),
           s_pool := clearQuarantine (s_pool s)\<rparr>))"

definition retire_ctrl ::
  "controller \<Rightarrow> retired_serial list \<times> 'b svc \<Rightarrow> controller \<times> retired_serial list \<times> 'b svc" where
  "retire_ctrl c = (\<lambda>(retired, s).
     if active c \<and> serialNo c \<noteq> 0
     then case releasePointerLocked c s of (c1, s1) \<Rightarrow>
       (c1\<lparr>active := False, serialNo := 0\<rparr>,
        retired @ [\<lparr>rt_serial = serialNo c, rt_unplugged = False\<rparr>], s1)
     else (c, retired, s))"

definition retireConnectionLocked :: "connection \<Rightarrow> retired_serial list \<Rightarrow> 'b svc \<Rightarrow>
    connection \<times> retired_serial list \<times> 'b svc" where
  "retireConnectionLocked r retired s =
     (case mapS retire_ctrl (controllers r) (retired, s) of (cs, retired1, s1) \<Rightarrow>
      case adjustActivePadsLocked (- activeControllerCount r) (r\<lparr>controllers := cs\<rparr>) s1 of (r2, s2) \<Rightarrow>
        (r2, retired1,
         s2\<lparr>s_hot := ConnectionWrite r2
              (upd_slot (slot r2)
                 (\<lambda>h. hs_storeKey (replicate CRYPTO_KEY_SIZE 0) (h\<lparr>hs_token := 0\<rparr>)))
              (hot_retire (slot r2) (s_hot s2))\<rparr>))"

definition finishTeardown :: "retired_serial list \<Rightarrow> 'b svc \<Rightarrow> 'b svc" where
  "finishTeardown retired s =
     (case unplugRetired retired s of (retired1, s1) \<Rightarrow>
      let s2 = settleRetiredLocked retired1 s1 in closeBusIfIdle (busIdleLocked s2) s2)"

section \<open>Applied state\<close>

definition applyResultLocked :: "connection \<Rightarrow> pad_change \<Rightarrow> 'b svc \<Rightarrow> controller_apply_result" where
  "applyResultLocked r pad s =
     (let c = controllers r ! d_ctrlIdx (pd_desc pad);
          bound = d_ctrlIdx (pd_desc pad) < MAX_CONTROLLERS_PER_CONN \<and> active c
      in \<lparr>ar_ctrlIdx = d_ctrlIdx (pd_desc pad), ar_result = pd_result pad,
          ar_appliedType = pd_appliedType pad,
          ar_motionSinkSupportedForType =
            (bound \<and> gp_supportsMotionForType (s_port s) (controllerType c) (s_backend s)),
          ar_motionBackendOk = (bound \<and> gp_motionBackendOk (s_port s) (serialNo c) (s_backend s)),
          ar_backendId =
            (if bound then gp_backendIdForSerial (s_port s) (serialNo c) (s_backend s) else [])\<rparr>)"

definition activeBitmapLocked :: "connection \<Rightarrow> u16" where
  "activeBitmapLocked r =
     fold (\<lambda>i bm. if active (controllers r ! i) then bm OR push_bit i 1 else bm)
       [0..<MAX_CONTROLLERS_PER_CONN] 0"

section \<open>Minting\<close>

text \<open>
  The two rejection loops draw until a value is unused.  A list of draws that runs out is a loop
  that has not returned: \<^const>\<open>None\<close>.
\<close>

fun draw_unused :: "(u32 \<Rightarrow> bool) \<Rightarrow> u32 list \<Rightarrow> (u32 \<times> u32 list) option" where
  "draw_unused taken [] = None"
| "draw_unused taken (x # xs) = (if taken x then draw_unused taken xs else Some (x, xs))"

definition CONNECTION_ID_PREFIX :: string where
  "CONNECTION_ID_PREFIX = ''conn_''"

definition generateUniqueToken :: "'b svc \<Rightarrow> (u32 \<times> 'b svc) option" where
  "generateUniqueToken s =
     (case draw_unused (\<lambda>tok. tok \<in> fst ` set (s_conns s)) (s_rng s) of
        None \<Rightarrow> None
      | Some (tok, rs) \<Rightarrow> Some (tok, s\<lparr>s_rng := rs\<rparr>))"

definition reserveSessionLocked :: "ticks \<Rightarrow> string \<Rightarrow> string \<Rightarrow> session_mint \<Rightarrow> 'b svc \<Rightarrow>
    (bool \<times> session_mint \<times> 'b svc) option" where
  "reserveSessionLocked now dev name mint s =
     (case hot_findFree (s_hot s) of
        None \<Rightarrow> Some (False, mint, logMsg WARN (''Session refused for '' @ name @ '': all '' @
                  dec_string MAX_SESSIONS @ '' session slots are in use'') s)
      | Some slt \<Rightarrow>
          (case draw_unused
              (\<lambda>x. findByConnectionId (CONNECTION_ID_PREFIX @ hexEncodeBE32 x) s \<noteq> None) (s_rng s) of
             None \<Rightarrow> None
           | Some (x, rs) \<Rightarrow>
               let n = s_nextRow s + 1 in
               Some (True, mint\<lparr>m_row := (m_row mint)
                   \<lparr>connectionId := CONNECTION_ID_PREFIX @ hexEncodeBE32 x, deviceId := dev,
                    slot := slt, row := n, connectedAt := now\<rparr>\<rparr>,
                 s\<lparr>s_rng := rs, s_nextRow := n\<rparr>)))"

fun draw_salt :: "nat \<Rightarrow> u32 list \<Rightarrow> (u8 list \<times> u32 list) option" where
  "draw_salt 0 rs = Some ([], rs)"
| "draw_salt (Suc n) [] = None"
| "draw_salt (Suc n) (x # rs) =
     (case draw_salt n rs of None \<Rightarrow> None | Some (salt, rs') \<Rightarrow> Some (writeLE32 x @ salt, rs'))"

definition mintSessionKeyLocked ::
  "u8 list \<Rightarrow> session_mint \<Rightarrow> 'b svc \<Rightarrow> (session_mint \<times> 'b svc) option" where
  "mintSessionKeyLocked pairingKey mint s =
     do { (tok, s1) \<leftarrow> generateUniqueToken s;
          (salt, rs) \<leftarrow> draw_salt (SESSION_SALT_SIZE div 4) (s_rng s1);
          Some (mint\<lparr>m_token := tok, m_salt := salt,
                     m_key := (case s_keyDeriver s1 of
                         Some kd \<Rightarrow> kd pairingKey salt tok | None \<Rightarrow> pairingKey)\<rparr>,
                s1\<lparr>s_rng := rs\<rparr>) }"

text \<open>
  A new row enters the map under its token; a known row is re-keyed after its client has been told
  that the session was replaced.
\<close>

definition adoptSessionLocked ::
  "u32 option \<Rightarrow> string \<Rightarrow> session_mint \<Rightarrow> 'b svc \<Rightarrow> connection \<times> 'b svc" where
  "adoptSessionLocked existing name mint s =
     (case existing of
        None \<Rightarrow>
          let r = (m_row mint)\<lparr>token := m_token mint\<rparr> in
          (r, logMsg INFO (''Session created for '' @ name @ '' ('' @ connectionId r @ '')'')
                (s\<lparr>s_conns := s_conns s @ [(m_token mint, r)]\<rparr>))
      | Some tok \<Rightarrow>
          let r0 = deref tok s in
          case releaseConnectionPointerLocked r0
                 (emit (SendSessionClose (conn_endpoint r0) CLOSE_REASON_REPLACED) s) of (r1, s1) \<Rightarrow>
          let r2 = r1\<lparr>token := m_token mint\<rparr> in
          (r2, logMsg INFO (''Session rotated for '' @ name @ '' ('' @ connectionId r2 @ '')'')
                 (s1\<lparr>s_conns := filter (\<lambda>e. fst e \<noteq> token r1) (s_conns s1) @
                                [(m_token mint, r2)]\<rparr>)))"

section \<open>The entry points\<close>

definition empty_mint :: session_mint where
  "empty_mint = \<lparr>m_row = default_connection, m_token = 0, m_salt = replicate SESSION_SALT_SIZE 0,
     m_key = replicate CRYPTO_KEY_SIZE 0\<rparr>"

definition empty_upsert_result :: session_upsert_result where
  "empty_upsert_result =
     \<lparr>ur_ok = False, ur_error = [], ur_connectionId = [], ur_token = 0,
      ur_sessionSalt = replicate SESSION_SALT_SIZE 0, ur_epoch = 0,
      ur_maxControllers = MAX_BACKEND_CONTROLLERS, ur_controllers = [],
      ur_mouseControlGranted = False, ur_mouseControlDenyReason = [],
      ur_protocolVersion = PROTOCOL_VERSION\<rparr>"

text \<open>The first locked section of the upsert: find or reserve the row, mint, plan.\<close>

definition upsert_plan :: "ticks \<Rightarrow> string \<Rightarrow> string \<Rightarrow> u8 list \<Rightarrow> controller_descriptor list \<Rightarrow> 'b svc \<Rightarrow>
    (bool \<times> session_mint \<times> u32 option \<times> topology_change \<times> 'b svc) option" where
  "upsert_plan now dev name pairingKey desired s =
     (let existing = map_option token (findByDeviceId dev s) in
      do { (ok, mint, s1) \<leftarrow> (case existing of
               Some _ \<Rightarrow> Some (True, empty_mint, s)
             | None \<Rightarrow> reserveSessionLocked now dev name empty_mint s);
           if \<not> ok then Some (False, mint, existing, empty_change, s1)
           else do { (mint2, s2) \<leftarrow> mintSessionKeyLocked pairingKey mint s1;
                     let (pads, s3) = planSessionPadsLocked
                           (case existing of Some tok \<Rightarrow> deref tok s2 | None \<Rightarrow> m_row mint2) desired s2;
                     Some (True, mint2, existing, empty_change\<lparr>tc_pads := pads\<rparr>, s3) } })"

text \<open>The second: adopt the row, take the request's fields, commit the pads and publish.\<close>

definition upsert_commit :: "ticks \<Rightarrow> u32 option \<Rightarrow> string \<Rightarrow> string \<Rightarrow> bool \<Rightarrow> int \<Rightarrow>
    session_mint \<Rightarrow> topology_change \<Rightarrow> 'b svc \<Rightarrow> topology_change \<times> 'b svc" where
  "upsert_commit now existing name ip mouse version mint change s =
     (case adoptSessionLocked existing name mint s of (r0, s0) \<Rightarrow>
      let r1 = r0\<lparr>deviceName := name, clientIP := ip, sessionSalt := m_salt mint,
                  sessionKey := m_key mint, graceUntil := now + sec REST_LIVENESS_GRACE_SEC,
                  protocolVersion := version,
                  mouseControlGranted :=
                    (mouse \<and> gp_supportsRelativeMouse (s_port s0) (s_backend s0))\<rparr> in
      case commitPadsLocked False r1 change s0 of (r2, change2, s2) \<Rightarrow>
      case publishSessionLocked now r2 s2 of (r3, s3) \<Rightarrow> (change2, put_row r3 s3))"

definition upsert_result ::
  "connection \<Rightarrow> topology_change \<Rightarrow> bool \<Rightarrow> 'b svc \<Rightarrow> session_upsert_result" where
  "upsert_result r change mouse s =
     \<lparr>ur_ok = True, ur_error = [], ur_connectionId = connectionId r, ur_token = token r,
      ur_sessionSalt = sessionSalt r, ur_epoch = epoch r,
      ur_maxControllers = MAX_BACKEND_CONTROLLERS,
      ur_controllers = map (\<lambda>pad. applyResultLocked r pad s)
         (filter (\<lambda>pad. pd_kind pad \<noteq> Remove) (tc_pads change)),
      ur_mouseControlGranted = mouseControlGranted r,
      ur_mouseControlDenyReason =
        (if mouse \<and> \<not> mouseControlGranted r then HOST_FEATURE_DENY_NOT_SUPPORTED else []),
      ur_protocolVersion = protocolVersion r\<rparr>"

text \<open>\<open>now0\<close>, \<open>now1\<close> and \<open>now2\<close> are the clock in the three locked sections.\<close>

definition upsertSession :: "ticks \<Rightarrow> ticks \<Rightarrow> ticks \<Rightarrow> string \<Rightarrow> string \<Rightarrow> string \<Rightarrow> u8 list \<Rightarrow>
    controller_descriptor list \<Rightarrow> bool \<Rightarrow> int \<Rightarrow> 'b svc \<Rightarrow> (session_upsert_result \<times> 'b svc) option" where
  "upsertSession now0 now1 now2 dev name ip pairingKey descriptors mouse version s =
     do { (ok, mint, existing, change, s1) \<leftarrow>
            upsert_plan now0 dev name pairingKey (dedupDescriptors descriptors) s;
          if \<not> ok
          then Some (empty_upsert_result\<lparr>ur_error := UPSERT_ERROR_TOO_MANY_SESSIONS\<rparr>, s1)
          else let (change2, s2) = plugPads False change s1;
                   (change3, s3) =
                     upsert_commit now1 existing name ip mouse version mint change2 s2;
                   (change4, s4) = settlePadChange now2 (m_token mint) change3 s3
               in Some (upsert_result (deref (m_token mint) s4) change4 mouse s4,
                        closeBusIfIdle (busIdleLocked s4) s4) }"

definition applyController :: "ticks \<Rightarrow> string \<Rightarrow> string \<Rightarrow> controller_descriptor \<Rightarrow> 'b svc \<Rightarrow>
    (controller_apply_result \<times> u16) option \<times> 'b svc" where
  "applyController now cid dev d s =
     (case findByConnectionId cid s of
        None \<Rightarrow> (None, s)
      | Some r \<Rightarrow>
          if deviceId r \<noteq> dev then (None, s)
          else let (pad, s1) = planPadLocked r d s;
                   (change2, s2) =
                     convergePads now (token r) (empty_change\<lparr>tc_pads := deferUnservedAdds [pad]\<rparr>) s1;
                   r2 = deref (token r) s2
               in (Some (applyResultLocked r2 (hd (tc_pads change2)) s2, epoch r2),
                   closeBusIfIdle (busIdleLocked s2) s2))"

definition removeController ::
  "ticks \<Rightarrow> string \<Rightarrow> string \<Rightarrow> nat \<Rightarrow> 'b svc \<Rightarrow> u16 option \<times> 'b svc" where
  "removeController now cid dev ctrlIdx s =
     (case findByConnectionId cid s of
        None \<Rightarrow> (None, s)
      | Some r \<Rightarrow>
          if deviceId r \<noteq> dev then (None, s)
          else let present =
                     ctrlIdx < MAX_CONTROLLERS_PER_CONN \<and> active (controllers r ! ctrlIdx);
                   (change2, s2) = convergePads now (token r)
                     (empty_change\<lparr>tc_pads := (if present then [planRemoval ctrlIdx] else [])\<rparr>) s
               in (Some (epoch (deref (token r) s2)), closeBusIfIdle (busIdleLocked s2) s2))"

definition closeSessionById :: "string \<Rightarrow> string \<Rightarrow> u8 \<Rightarrow> bool \<Rightarrow> 'b svc \<Rightarrow> int \<times> 'b svc" where
  "closeSessionById cid dev reason notify s =
     (case findByConnectionId cid s of
        None \<Rightarrow> (-1, s)
      | Some r \<Rightarrow>
          if dev \<noteq> [] \<and> deviceId r \<noteq> dev then (-1, s)
          else let s1 = (if notify then emit (SendSessionClose (conn_endpoint r) reason) s else s);
                   removed = activeControllerCount r;
                   s2 = logMsg INFO (''Connection closed for '' @ deviceName r @ '' ('' @
                          int_string removed @ '' controllers removed, '' @
                          closeReasonName reason @ '')'') s1;
                   (r3, retired, s3) = retireConnectionLocked r [] s2
               in (removed, finishTeardown retired (erase_row (token r) s3)))"

text \<open>The loops over the map collect the retired serials of every row they erase.\<close>

definition close_row :: "u8 \<Rightarrow> connection \<Rightarrow> retired_serial list \<times> 'b svc \<Rightarrow>
    retired_serial list \<times> 'b svc" where
  "close_row reason r = (\<lambda>(retired, s).
     let s1 = emit (SendSessionClose (conn_endpoint r) reason) s;
         s2 = logMsg INFO (''Connection closed for '' @ deviceName r @ '' ('' @
                closeReasonName reason @ '')'') s1;
         (r3, retired3, s3) = retireConnectionLocked r retired s2
     in (retired3, erase_row (token r) s3))"

definition closeSessionsForDevice :: "string \<Rightarrow> u8 \<Rightarrow> 'b svc \<Rightarrow> nat \<times> 'b svc" where
  "closeSessionsForDevice dev reason s =
     (let rows = filter (\<lambda>r. deviceId r = dev) (map snd (s_conns s));
          (retired, s1) = fold (close_row reason) rows ([], s)
      in (length rows, if rows \<noteq> [] then finishTeardown retired s1 else s1))"

definition closeAllSessions :: "u8 \<Rightarrow> 'b svc \<Rightarrow> 'b svc" where
  "closeAllSessions reason s =
     (let rows = map snd (s_conns s);
          s1 = fold (\<lambda>r t. emit (SendSessionClose (conn_endpoint r) reason) t) rows s;
          (retired, s2) = fold (\<lambda>r (retired, t).
              case retireConnectionLocked r retired t of (_, retired', t') \<Rightarrow> (retired', t'))
            rows ([], s1);
          s3 = s2\<lparr>s_conns := []\<rparr>;
          (retired4, s4) = unplugRetired retired s3;
          s5 = settleRetiredLocked retired4 s4;
          s6 = s5\<lparr>s_pool := clearQuarantine (clearInUse (s_pool s5))\<rparr>
      in closeBusIfIdle (busIdleLocked s6) s6)"

section \<open>Liveness\<close>

definition lastPacketAt :: "connection \<Rightarrow> 'b svc \<Rightarrow> ticks" where
  "lastPacketAt r s = hs_lastPacketTicks (slots (s_hot s) ! slot r)"

definition linkStateAt :: "ticks \<Rightarrow> connection \<Rightarrow> 'b svc \<Rightarrow> device_link_state" where
  "linkStateAt now r s =
     (let stalled = \<not> now < graceUntil r \<and>
            now - lastPacketAt r s > sec (HEARTBEAT_INTERVAL_SEC * HEARTBEAT_STALL_FACTOR)
      in if stalled then NotResponding else Active)"

text \<open>\<^verbatim>\<open>duration_cast\<close> to seconds truncates towards zero.\<close>

definition whole_seconds :: "ticks \<Rightarrow> int" where
  "whole_seconds d = (if d < 0 then - ((- d) div sec 1) else d div sec 1)"

definition reap_row :: "ticks \<Rightarrow> connection \<Rightarrow> nat \<times> retired_serial list \<times> 'b svc \<Rightarrow>
    nat \<times> retired_serial list \<times> 'b svc" where
  "reap_row now r = (\<lambda>(reaped, retired, s).
     let silent = now - lastPacketAt r s;
         timeout = sec (HEARTBEAT_INTERVAL_SEC * HEARTBEAT_MISS_MAX) in
     if silent > timeout \<and> now > graceUntil r
     then let s1 = logMsg INFO (''Reaper: timed out connection for '' @ deviceName r @ '' after '' @
                     int_string (whole_seconds silent) @ '' s without a packet'') s;
              (r2, retired2, s2) = retireConnectionLocked r retired s1
          in (reaped + 1, retired2, erase_row (token r) s2)
     else if linkStateAt now r s = NotResponding
     then if stallLogged r then (reaped, retired, s)
          else (reaped, retired,
            logMsg WARN (''Link to '' @ deviceName r @ '' has gone silent: no packet for '' @
              int_string (whole_seconds silent) @ '' s (reaper in '' @
              int_string (HEARTBEAT_INTERVAL_SEC * HEARTBEAT_MISS_MAX - whole_seconds silent) @
              '' s)'') (put_row (r\<lparr>stallLogged := True\<rparr>) s))
     else (reaped, retired, put_row (r\<lparr>stallLogged := False\<rparr>) s))"

text \<open>\<open>topoFree\<close> is the outcome of \<^verbatim>\<open>try_to_lock\<close> on the topology mutex.\<close>

definition reapTimedOut :: "bool \<Rightarrow> ticks \<Rightarrow> 'b svc \<Rightarrow> nat \<times> 'b svc" where
  "reapTimedOut topoFree now s =
     (if \<not> topoFree then (0, s)
      else case fold (reap_row now) (map snd (s_conns s)) (0, [], s) of (reaped, retired, s1) \<Rightarrow>
        (reaped, if reaped > 0 then finishTeardown retired s1 else s1))"

end
