(* ===== verification/Session_Rows.thy ===== *)
theory Session_Rows
  imports Session_Topology
begin

text \<open>
  What one row and one planned change keep.  A row holds the serials of its active controllers; a
  commit moves serials between the row, the plan and the list of retired serials and never loses
  or duplicates one.  The lemmas here are about a row held by an operation; the theory
  \<open>Session_Invariant\<close> puts the rows back into the map and the hot table.
\<close>

section \<open>Rows\<close>

definition held :: "connection \<Rightarrow> nat multiset" where
  "held r = mset (map serialNo (filter active (controllers r)))"

definition ctrl_ok :: "nat \<Rightarrow> controller \<Rightarrow> bool" where
  "ctrl_ok i c \<longleftrightarrow>
     (if active c
      then ctrl_index c = i \<and> 1 \<le> serialNo c \<and> serialNo c \<le> MAX_BACKEND_CONTROLLERS \<and>
           controllerType c < CONTROLLER_TYPE_COUNT \<and>
           identity c = controllerIdentity (controllerType c) \<and>
           touchpadMode c < TOUCHPAD_MODE_COUNT \<and> plugGen c \<noteq> 0
      else serialNo c = 0)"

definition row_ok :: "connection \<Rightarrow> bool" where
  "row_ok r \<longleftrightarrow>
     length (controllers r) = MAX_CONTROLLERS_PER_CONN \<and>
     (\<forall>i<MAX_CONTROLLERS_PER_CONN. ctrl_ok i (controllers r ! i)) \<and>
     activeControllerCount r = int (length (filter active (controllers r)))"

lemma row_ok_default [simp]: "row_ok default_connection"
proof -
  have "\<not> active default_controller" "serialNo default_controller = 0"
    by (simp_all add: default_controller_def)
  then show ?thesis
    unfolding row_ok_def default_connection_def connection.simps by (simp add: ctrl_ok_def filter_False)
qed

lemma held_default [simp]: "held default_connection = {#}"
  by (simp add: held_def default_connection_def default_controller_def)

text \<open>Replacing one controller, seen by what the row holds and by its count.\<close>

definition one_held :: "controller \<Rightarrow> nat multiset" where
  "one_held c = (if active c then {#serialNo c#} else {#})"

lemma mset_held: "mset (map serialNo (filter active cs)) = sum_list (map one_held cs)"
  by (induction cs) (auto simp: one_held_def)

lemma held_set_ctrl:
  assumes "i < length (controllers r)"
  shows "held (set_ctrl i c r) + one_held (controllers r ! i) = held r + one_held c"
proof -
  have "sum_list (map one_held (xs[i := c])) + one_held (xs ! i)
      = sum_list (map one_held xs) + one_held c" if "i < length xs" for xs
    using that by (induction xs arbitrary: i) (auto split: nat.splits simp: ac_simps)
  then show ?thesis using assms unfolding held_def mset_held set_ctrl_def by simp
qed

lemma count_active: "int (length (filter active xs)) = sum_list (map (\<lambda>c. if active c then 1 else 0) xs)"
  by (induction xs) auto

lemma count_set_ctrl:
  assumes "i < length xs"
  shows "int (length (filter active (xs[i := c]))) =
    int (length (filter active xs)) - (if active (xs ! i) then 1 else 0) + (if active c then 1 else 0)"
  using assms unfolding count_active map_update by (simp add: sum_list_update_int)

lemma set_ctrl_simps [simp]:
  "controllers (set_ctrl i c r) = (controllers r)[i := c]"
  "slot (set_ctrl i c r) = slot r" "token (set_ctrl i c r) = token r"
  "deviceId (set_ctrl i c r) = deviceId r" "connectionId (set_ctrl i c r) = connectionId r"
  "sessionKey (set_ctrl i c r) = sessionKey r" "deviceName (set_ctrl i c r) = deviceName r"
  "row (set_ctrl i c r) = row r" "epoch (set_ctrl i c r) = epoch r"
  "activeControllerCount (set_ctrl i c r) = activeControllerCount r"
  "graceUntil (set_ctrl i c r) = graceUntil r" "clientIP (set_ctrl i c r) = clientIP r"
  "mouseControlGranted (set_ctrl i c r) = mouseControlGranted r"
  "protocolVersion (set_ctrl i c r) = protocolVersion r"
  "sessionSalt (set_ctrl i c r) = sessionSalt r" "connectedAt (set_ctrl i c r) = connectedAt r"
  "stallLogged (set_ctrl i c r) = stallLogged r"
  by (simp_all add: set_ctrl_def)

text \<open>The fields of a row that its controllers and counters do not touch.\<close>

definition same_session :: "connection \<Rightarrow> connection \<Rightarrow> bool" where
  "same_session r r' \<longleftrightarrow>
     token r' = token r \<and> deviceId r' = deviceId r \<and> connectionId r' = connectionId r \<and>
     slot r' = slot r \<and> sessionKey r' = sessionKey r \<and> deviceName r' = deviceName r \<and>
     row r' = row r \<and> graceUntil r' = graceUntil r \<and>
     mouseControlGranted r' = mouseControlGranted r \<and> sessionSalt r' = sessionSalt r \<and>
     protocolVersion r' = protocolVersion r \<and> clientIP r' = clientIP r \<and>
     connectedAt r' = connectedAt r \<and> stallLogged r' = stallLogged r"

lemma same_session_refl [simp]: "same_session r r"
  by (simp add: same_session_def)

lemma same_session_trans: "same_session r r' \<Longrightarrow> same_session r' r'' \<Longrightarrow> same_session r r''"
  by (simp add: same_session_def)

lemma same_sessionI [intro]:
  "same_session r (set_ctrl i c r)"
  "same_session r (r\<lparr>epoch := e\<rparr>)"
  "same_session r (r\<lparr>controllers := cs\<rparr>)"
  "same_session r (r\<lparr>activeControllerCount := n\<rparr>)"
  by (simp_all add: same_session_def)

lemmas same_sessionD = same_session_def [THEN iffD1]

section \<open>Changes of the service that leave rows, table and backend alone\<close>

text \<open>Every queued release names a serial of the pointer worker's table.\<close>

definition command_ok :: "pointer_command \<Rightarrow> bool" where
  "command_ok c \<longleftrightarrow>
     (pc_kind c = Release \<longrightarrow> 1 \<le> pc_serial c \<and> pc_serial c \<le> MAX_BACKEND_CONTROLLERS)"

definition commands_ok :: "'b svc \<Rightarrow> bool" where
  "commands_ok s \<longleftrightarrow> (\<forall>c\<in>set (s_commands s). command_ok c)"

definition same_rows :: "'b svc \<Rightarrow> 'b svc \<Rightarrow> bool" where
  "same_rows s s' \<longleftrightarrow>
     s_conns s' = s_conns s \<and> s_hot s' = s_hot s \<and> s_port s' = s_port s \<and>
     s_backend s' = s_backend s \<and> s_rng s' = s_rng s \<and> s_keyDeriver s' = s_keyDeriver s \<and>
     s_policy s' = s_policy s \<and> s_nextRow s' = s_nextRow s \<and> s_rxPads s' = s_rxPads s \<and>
     s_rxSessions s' = s_rxSessions s \<and> s_frames s' = s_frames s \<and> s_micQueue s' = s_micQueue s \<and>
     s_micLate s' = s_micLate s \<and> s_audio s' = s_audio s \<and> s_retryPending s' = s_retryPending s \<and>
     (commands_ok s \<longrightarrow> commands_ok s')"

lemma same_rows_refl [simp]: "same_rows s s"
  by (simp add: same_rows_def)

lemma same_rows_trans: "same_rows s s' \<Longrightarrow> same_rows s' s'' \<Longrightarrow> same_rows s s''"
  by (auto simp: same_rows_def)

lemma same_rowsI [intro]:
  "same_rows s (s\<lparr>s_pool := p\<rparr>)" "same_rows s (s\<lparr>s_activePads := n\<rparr>)"
  "same_rows s (emit e s)" "same_rows s (logMsg l m s)" "command_ok c \<Longrightarrow> same_rows s (post c s)"
  "same_rows s (snd (takePointerStampLocked s))" "same_rows s (s\<lparr>s_nextPlugGen := g\<rparr>)"
  by (simp_all add: same_rows_def commands_ok_def emit_def logMsg_def post_def
      takePointerStampLocked_def Let_def)

lemmas same_rowsD = same_rows_def [THEN iffD1]

text \<open>Changes that leave the pool and the pad count alone too.\<close>

definition quiet :: "'b svc \<Rightarrow> 'b svc \<Rightarrow> bool" where
  "quiet s s' \<longleftrightarrow>
     same_rows s s' \<and> s_pool s' = s_pool s \<and> s_activePads s' = s_activePads s"

lemma quiet_refl [simp]: "quiet s s"
  by (simp add: quiet_def)

lemma quiet_trans: "quiet s s' \<Longrightarrow> quiet s' s'' \<Longrightarrow> quiet s s''"
  by (auto simp: quiet_def intro: same_rows_trans)

lemma quietI [intro]:
  "quiet s (emit e s)" "quiet s (logMsg l m s)" "command_ok c \<Longrightarrow> quiet s (post c s)"
  "quiet s (snd (takePointerStampLocked s))" "quiet s (s\<lparr>s_nextPlugGen := g\<rparr>)"
  by (auto simp: quiet_def same_rowsI)
    (simp_all add: emit_def logMsg_def post_def takePointerStampLocked_def Let_def)

lemma quiet_same_rows: "quiet s s' \<Longrightarrow> same_rows s s'"
  by (simp add: quiet_def)

lemma releasePointerLocked_quiet:
  assumes "releasePointerLocked c s = (c', s')"
  shows "quiet s s'" and "c' = c\<lparr>pointerStamp := pointerStamp c'\<rparr>"
proof -
  obtain st s1 where t: "takePointerStampLocked s = (st, s1)" by force
  have q: "quiet s s1" using quietI(4) [of s] t by simp
  show "quiet s s'"
    using assms t quiet_trans [OF q quietI(3)]
    by (auto simp: releasePointerLocked_def command_ok_def split: if_splits)
  show "c' = c\<lparr>pointerStamp := pointerStamp c'\<rparr>"
    using assms t by (auto simp: releasePointerLocked_def split: if_splits)
qed

lemma next_nonzero: "next_nonzero n \<noteq> 0"
proof (cases "n + 1 = 0")
  case True
  then show ?thesis by (simp add: next_nonzero_def)
qed (simp add: next_nonzero_def)

text \<open>What taking a descriptor fixes of the controller.\<close>

lemma takeDescriptorLocked_spec:
  assumes "takeDescriptorLocked d c s = (c', s')"
  shows "quiet s s'"
    and "active c' = active c" "serialNo c' = serialNo c" "ctrl_index c' = ctrl_index c"
    and "controllerType c' = d_type d" "identity c' = controllerIdentity (d_type d)"
    and "caps c' = d_caps d" "touchpadMode c' = safeTouchpadMode (d_touchpadMode d)"
    and "plugGen c' \<noteq> 0" "lastRumbleValid c' = False" "lastLightbarValid c' = False"
    and "lastTriggerEffectsValid c' = False" "lastPlayerLedsValid c' = False"
    and "lastMicLedValid c' = False"
proof -
  let ?g = "next_nonzero (s_nextPlugGen s)"
  obtain st s1 where t: "takePointerStampLocked (s\<lparr>s_nextPlugGen := ?g\<rparr>) = (st, s1)" by force
  have "quiet s s1" using quiet_trans [OF quietI(5) quietI(4)] t by (metis snd_conv)
  then show "quiet s s'"
    using assms t by (auto simp: takeDescriptorLocked_def resetControllerStreamState_def Let_def)
  show "active c' = active c" "serialNo c' = serialNo c" "ctrl_index c' = ctrl_index c"
    "controllerType c' = d_type d" "identity c' = controllerIdentity (d_type d)"
    "caps c' = d_caps d" "touchpadMode c' = safeTouchpadMode (d_touchpadMode d)"
    "plugGen c' \<noteq> 0" "lastRumbleValid c' = False" "lastLightbarValid c' = False"
    "lastTriggerEffectsValid c' = False" "lastPlayerLedsValid c' = False"
    "lastMicLedValid c' = False"
    using assms t next_nonzero [of "s_nextPlugGen s"]
    by (auto simp: takeDescriptorLocked_def resetControllerStreamState_def Let_def)
qed

lemma seedRumbleLocked_simps [simp]:
  "active (seedRumbleLocked p c) = active c" "serialNo (seedRumbleLocked p c) = serialNo c"
  "ctrl_index (seedRumbleLocked p c) = ctrl_index c"
  "controllerType (seedRumbleLocked p c) = controllerType c"
  "identity (seedRumbleLocked p c) = identity c" "caps (seedRumbleLocked p c) = caps c"
  "touchpadMode (seedRumbleLocked p c) = touchpadMode c"
  "plugGen (seedRumbleLocked p c) = plugGen c"
  "lastRumbleValid (seedRumbleLocked p c) = lastRumbleValid c"
  by (simp_all add: seedRumbleLocked_def Let_def)

lemma safeTouchpadMode_less [simp]: "safeTouchpadMode m < TOUCHPAD_MODE_COUNT"
  by (simp add: safeTouchpadMode_def)

section \<open>Serials are conserved\<close>

text \<open>
  \<open>focus O K\<close>: the row is well formed, every serial in use is held by this row, waits in the retired
  list or is one of \<open>O\<close> (held elsewhere or still in the plan), each exactly once; the global pad
  count is \<open>K\<close> and this row's own.
\<close>

fun focus :: "nat multiset \<Rightarrow> int \<Rightarrow> 'b commit_state \<Rightarrow> bool" where
  "focus O' K (r, retired, s) \<longleftrightarrow>
     row_ok r \<and> pool_wf (s_pool s) \<and>
     O' + held r + mset (map rt_serial retired) = pool.inuse (s_pool s) \<and>
     s_activePads s = K + activeControllerCount r"

declare focus.simps [simp del]

definition only_at :: "nat \<Rightarrow> connection \<Rightarrow> connection \<Rightarrow> bool" where
  "only_at i r r' \<longleftrightarrow>
     same_session r r' \<and> length (controllers r') = length (controllers r) \<and>
     (\<forall>j. j \<noteq> i \<longrightarrow> controllers r' ! j = controllers r ! j)"

lemma focus_quiet: "focus O' K (r, ret, s) \<Longrightarrow> quiet s s' \<Longrightarrow> focus O' K (r, ret, s')"
  by (simp add: focus.simps quiet_def)

text \<open>A controller changed in place: the row stays well formed and the serials balance.\<close>

lemma focus_set_ctrl:
  assumes f: "focus (O' + one_held c) K (r, ret, s)" and i: "i < MAX_CONTROLLERS_PER_CONN"
    and ok: "ctrl_ok i c"
    and n: "n = activeControllerCount r - (if active (controllers r ! i) then 1 else 0)
                                        + (if active c then 1 else 0)"
    and ret: "mset (map rt_serial ret') = mset (map rt_serial ret) + one_held (controllers r ! i)"
    and s: "s_pool s' = s_pool s" "s_activePads s' = s_activePads s + n - activeControllerCount r"
  shows "focus O' K ((set_ctrl i c r)\<lparr>activeControllerCount := n, epoch := e\<rparr>, ret', s')"
proof -
  have row: "row_ok r" using f by (simp add: focus.simps)
  then have i': "i < length (controllers r)" using i by (simp add: row_ok_def)
  let ?r = "(set_ctrl i c r)\<lparr>activeControllerCount := n, epoch := e\<rparr>"
  have held: "held ?r = held (set_ctrl i c r)" by (simp add: held_def)
  have bal: "held (set_ctrl i c r) + one_held (controllers r ! i) = held r + one_held c"
    by (rule held_set_ctrl [OF i'])
  have cnt: "n = int (length (filter active ((controllers r)[i := c])))"
    using count_set_ctrl [OF i', of c] row n by (simp add: row_ok_def)
  have "row_ok ?r"
    using row i ok cnt by (auto simp: row_ok_def nth_list_update)
  moreover have "O' + held ?r + mset (map rt_serial ret') = pool.inuse (s_pool s')"
  proof -
    have "O' + held ?r + mset (map rt_serial ret')
        = O' + (held (set_ctrl i c r) + one_held (controllers r ! i)) + mset (map rt_serial ret)"
      unfolding held ret by (simp add: ac_simps)
    also have "\<dots> = O' + one_held c + held r + mset (map rt_serial ret)"
      unfolding bal by (simp add: ac_simps)
    also have "\<dots> = pool.inuse (s_pool s')" using f s by (simp add: focus.simps)
    finally show ?thesis .
  qed
  ultimately show ?thesis using f s by (simp add: focus.simps)
qed

lemma only_at_set_ctrl [intro]:
  "only_at i r ((set_ctrl i c r)\<lparr>activeControllerCount := n, epoch := e\<rparr>)"
  "only_at i r (set_ctrl i c r)" "only_at i r (r\<lparr>epoch := e\<rparr>)" "only_at i r r"
  by (auto simp: only_at_def same_session_def)

lemma focus_serial_range:
  assumes "focus (add_mset x O') K (r, ret, s)"
  shows "1 \<le> x \<and> x \<le> MAX_BACKEND_CONTROLLERS" and "x \<in> pool_used (s_pool s)"
proof -
  have wf: "pool_wf (s_pool s)" using assms by (simp add: focus.simps)
  have "x \<in># pool.inuse (s_pool s)"
    using assms unfolding focus.simps by (metis add_mset_add_single union_iff union_single_eq_member)
  then show u: "x \<in> pool_used (s_pool s)" using pool.set_inuse [OF wf] by simp
  then show "1 \<le> x \<and> x \<le> MAX_BACKEND_CONTROLLERS" by (simp add: pool_used_def)
qed

lemma focus_release:
  assumes "focus (add_mset x O') K (r, ret, s)"
  shows "focus O' K (r, ret, s\<lparr>s_pool := releaseSerial x (s_pool s)\<rparr>)"
proof -
  have wf: "pool_wf (s_pool s)" using assms by (simp add: focus.simps)
  note rel = pool.rel_inuse [OF wf focus_serial_range(2) [OF assms]]
  have "add_mset x (O' + held r + mset (map rt_serial ret))
      = add_mset x (pool.inuse (releaseSerial x (s_pool s)))"
    using assms rel by (simp add: focus.simps)
  then show ?thesis using assms rel by (simp add: focus.simps)
qed

section \<open>Commits keep the balance\<close>

text \<open>
  The result of one commit step: the balance without the serial that the pad brought in, the row
  changed at one index only, rows and table of the service untouched.
\<close>

definition stepped ::
  "nat multiset \<Rightarrow> int \<Rightarrow> nat \<Rightarrow> 'b commit_state \<Rightarrow> 'b commit_state \<Rightarrow> bool" where
  "stepped O' K i = (\<lambda>(r, ret, s) (r', ret', s').
     focus O' K (r', ret', s') \<and> only_at i r r' \<and> same_rows s s')"

lemma vacatePadLocked_stepped:
  assumes f: "focus O' K (r, ret, s)" and i: "i < MAX_CONTROLLERS_PER_CONN"
    and act: "active (controllers r ! i)"
    and v: "vacatePadLocked i (r, ret, s) = (r', ret', s')"
  shows "stepped O' K i (r, ret, s) (r', ret', s')" and "\<not> active (controllers r' ! i)"
proof -
  let ?c = "controllers r ! i"
  have row: "row_ok r" using f by (simp add: focus.simps)
  then have ser: "serialNo ?c \<noteq> 0" using i act by (auto simp: row_ok_def ctrl_ok_def)
  obtain c1 s1 where p: "releasePointerLocked ?c s = (c1, s1)" by force
  note q = releasePointerLocked_quiet [OF p]
  let ?c2 = "c1\<lparr>active := False, serialNo := 0\<rparr>"
  have eq: "r' = (set_ctrl i ?c2 r)\<lparr>activeControllerCount := activeControllerCount r - 1,
                 epoch := epoch r + 1\<rparr>"
      "ret' = ret @ [\<lparr>rt_serial = serialNo ?c, rt_unplugged = False\<rparr>]"
      "s' = s1\<lparr>s_activePads := s_activePads s1 - 1\<rparr>"
    using v ser p by (simp_all add: vacatePadLocked_def adjustActivePadsLocked_def Let_def)
  have f2: "focus (O' + one_held ?c2) K (r, ret, s)" using f by (simp add: one_held_def)
  have "focus O' K (r', ret', s')"
    unfolding eq(1)
    by (rule focus_set_ctrl [OF f2 i])
      (use act q(1) in \<open>auto simp: ctrl_ok_def eq one_held_def quiet_def\<close>)
  moreover have "same_rows s s'"
    unfolding eq by (rule same_rows_trans [OF quiet_same_rows [OF q(1)] same_rowsI(2)])
  ultimately show "stepped O' K i (r, ret, s) (r', ret', s')"
    unfolding stepped_def by (simp add: eq(1) only_at_set_ctrl)
  show "\<not> active (controllers r' ! i)" using row i by (simp add: eq(1) row_ok_def)
qed

lemma removePadLocked_stepped:
  assumes f: "focus O' K (r, ret, s)" and i: "i < MAX_CONTROLLERS_PER_CONN"
    and act: "active (controllers r ! i)"
    and v: "removePadLocked i (r, ret, s) = (r', ret', s')"
  shows "stepped O' K i (r, ret, s) (r', ret', s')"
proof -
  obtain m where v': "vacatePadLocked i (r, ret, logMsg INFO m s) = (r', ret', s')"
    using v by (auto simp: removePadLocked_def)
  show ?thesis
    using vacatePadLocked_stepped(1) [OF focus_quiet [OF f quietI(2)] i act v']
      same_rows_trans [OF same_rowsI(4)] by (auto simp: stepped_def)
qed

lemma bindPadLocked_stepped:
  assumes f: "focus (add_mset (pd_serial pad) O') K (r, ret, s)"
    and i: "i < MAX_CONTROLLERS_PER_CONN" "d_ctrlIdx (pd_desc pad) = i"
    and act: "\<not> active (controllers r ! i)" and t: "d_type (pd_desc pad) < CONTROLLER_TYPE_COUNT"
    and b: "bindPadLocked i pad r s = (r', s')"
  shows "stepped O' K i (r, ret, s) (r', ret, s')"
proof -
  let ?c = "(controllers r ! i)\<lparr>ctrl_index := i, serialNo := pd_serial pad, active := True\<rparr>"
  obtain c1 s1 where d: "takeDescriptorLocked (pd_desc pad) ?c s = (c1, s1)" by force
  note d' = takeDescriptorLocked_spec [OF d]
  let ?c2 = "seedRumbleLocked (s_pool s1) c1"
  have eq: "r' = (set_ctrl i ?c2 r)\<lparr>activeControllerCount := activeControllerCount r + 1,
                 epoch := epoch r + 1\<rparr>"
      "s' = s1\<lparr>s_activePads := s_activePads s1 + 1\<rparr>"
    using b d i(2) by (simp_all add: bindPadLocked_def adjustActivePadsLocked_def Let_def)
  have f2: "focus (O' + one_held ?c2) K (r, ret, s)" using f d'(2,3) by (simp add: one_held_def)
  have "focus O' K (r', ret, s')"
    unfolding eq(1)
    by (rule focus_set_ctrl [OF f2 i(1)])
      (use act d' t focus_serial_range(1) [OF f] i(1) in
        \<open>auto simp: ctrl_ok_def eq one_held_def quiet_def\<close>)
  moreover have "same_rows s s'"
    unfolding eq by (rule same_rows_trans [OF quiet_same_rows [OF d'(1)] same_rowsI(2)])
  ultimately show ?thesis unfolding stepped_def by (simp add: eq(1) only_at_set_ctrl)
qed

text \<open>The serial that a planned pad carries.\<close>

definition pser :: "pad_change \<Rightarrow> nat multiset" where
  "pser pad = (if pd_serial pad = 0 then {#} else {#pd_serial pad#})"

lemma focus_release_pser:
  assumes "focus (O' + pser pad) K (r, ret, s)"
  shows "focus O' K (r, ret, s\<lparr>s_pool := releaseSerial (pd_serial pad) (s_pool s)\<rparr>)"
proof (cases "pd_serial pad = 0")
  case True
  then show ?thesis using assms by (simp add: pser_def releaseSerial_def)
next
  case False
  then show ?thesis using assms focus_release [of "pd_serial pad" O'] by (simp add: pser_def)
qed

lemma stepped_quiet:
  "stepped O' K i cst (r', ret', s') \<Longrightarrow> quiet s' s'' \<Longrightarrow> stepped O' K i cst (r', ret', s'')"
  using focus_quiet same_rows_trans quiet_same_rows unfolding stepped_def by (cases cst) blast

lemma stepped_released:
  assumes "focus (O' + pser pad) K (r, ret, s)"
  shows "stepped O' K i (r, ret, s) (r, ret, s\<lparr>s_pool := releaseSerial (pd_serial pad) (s_pool s)\<rparr>)"
  using focus_release_pser [OF assms] by (auto simp: stepped_def)

text \<open>What a commit leaves of the plan itself.\<close>

definition same_plan :: "pad_change \<Rightarrow> pad_change \<Rightarrow> bool" where
  "same_plan p p' \<longleftrightarrow>
     pd_kind p' = pd_kind p \<and> pd_desc p' = pd_desc p \<and> pd_serial p' = pd_serial p \<and>
     pd_retiring p' = pd_retiring p \<and> pd_waits p' = pd_waits p \<and> pd_plugged p' = pd_plugged p"

lemma same_plan_refl [simp]: "same_plan p p"
  by (simp add: same_plan_def)

lemma addPadLocked_stepped:
  assumes f: "focus (O' + pser pad) K (r, ret, s)"
    and i: "i < MAX_CONTROLLERS_PER_CONN" "d_ctrlIdx (pd_desc pad) = i"
    and act: "\<not> active (controllers r ! i)" and t: "d_type (pd_desc pad) < CONTROLLER_TYPE_COUNT"
    and p: "pd_plugged pad \<Longrightarrow> pd_serial pad \<noteq> 0"
    and a: "addPadLocked i pad (r, ret, s) = (pad', r', ret', s')"
  shows "stepped O' K i (r, ret, s) (r', ret', s') \<and> same_plan pad pad'"
proof (cases "pd_plugged pad")
  case True
  obtain r1 s1 where b: "bindPadLocked i pad r s = (r1, s1)" by force
  have "focus (add_mset (pd_serial pad) O') K (r, ret, s)" using f p True by (simp add: pser_def)
  note st = bindPadLocked_stepped [OF this i act t b]
  show ?thesis
    using a b True stepped_quiet [OF st quietI(2)] by (auto simp: addPadLocked_def)
next
  case False
  note st = stepped_released [OF f, of i]
  show ?thesis
    using a False st stepped_quiet [OF st quietI(2)]
    by (auto simp: addPadLocked_def same_plan_def Let_def split: if_splits)
qed

lemma refitPadLocked_stepped:
  assumes f: "focus (O' + pser pad) K (r, ret, s)"
    and i: "i < MAX_CONTROLLERS_PER_CONN" "d_ctrlIdx (pd_desc pad) = i"
    and act: "\<not> active (controllers r ! i)" and t: "d_type (pd_desc pad) < CONTROLLER_TYPE_COUNT"
    and p: "pd_plugged pad \<Longrightarrow> pd_serial pad \<noteq> 0"
    and a: "refitPadLocked i pad (r, ret, s) = (pad', r', ret', s')"
  shows "stepped O' K i (r, ret, s) (r', ret', s') \<and> same_plan pad pad'"
proof (cases "pd_plugged pad")
  case True
  obtain r1 s1 where b: "bindPadLocked i pad r s = (r1, s1)" by force
  have "focus (add_mset (pd_serial pad) O') K (r, ret, s)" using f p True by (simp add: pser_def)
  note st = bindPadLocked_stepped [OF this i act t b]
  show ?thesis
    using a b True stepped_quiet [OF st quietI(2)] by (auto simp: refitPadLocked_def Let_def)
next
  case False
  note st = stepped_released [OF f, of i]
  show ?thesis
    using a False stepped_quiet [OF st quietI(2)]
    by (auto simp: refitPadLocked_def same_plan_def Let_def)
qed

lemma updatePadLocked_stepped:
  assumes f: "focus O' K (r, ret, s)" and i: "i < MAX_CONTROLLERS_PER_CONN"
    and act: "active (controllers r ! i)" and t: "d_type d < CONTROLLER_TYPE_COUNT"
    and idn: "identity (controllers r ! i) = controllerIdentity (d_type d)"
    and u: "updatePadLocked d (controllers r ! i) s = (c', s')"
  shows "stepped O' K i (r, ret, s) (set_ctrl i c' r, ret, s')"
proof -
  let ?c = "controllers r ! i"
  let ?m = "safeTouchpadMode (d_touchpadMode d)"
  obtain c1 s1 where p: "(if ?m \<noteq> touchpadMode ?c then releasePointerLocked ?c s else (?c, s)) = (c1, s1)"
    by force
  have q: "quiet s s1" "c1 = ?c\<lparr>pointerStamp := pointerStamp c1\<rparr>"
    using p releasePointerLocked_quiet [of ?c s] by (auto split: if_splits)
  have same: "active c1 = active ?c" "serialNo c1 = serialNo ?c" "ctrl_index c1 = ctrl_index ?c"
      "identity c1 = identity ?c" "plugGen c1 = plugGen ?c"
    by (subst q(2), simp)+
  have eq: "c' = c1\<lparr>controllerType := d_type d, caps := d_caps d, touchpadMode := ?m,
      preferredBackend := d_preferredBackend d\<rparr>" "s' = s1"
    using u p by (simp_all add: updatePadLocked_def Let_def)
  have row: "row_ok r" using f by (simp add: focus.simps)
  have ok: "ctrl_ok i ?c" using row i by (simp add: row_ok_def)
  have held: "one_held c' = one_held ?c" by (simp add: eq same one_held_def)
  have i': "i < length (controllers r)" using row i by (simp add: row_ok_def)
  have "held (set_ctrl i c' r) = held r" using held_set_ctrl [OF i', of c'] held by simp
  moreover have "row_ok (set_ctrl i c' r)"
    using row i i' ok act t idn count_set_ctrl [OF i', of c']
    by (auto simp: row_ok_def nth_list_update ctrl_ok_def eq same)
  ultimately have "focus O' K (set_ctrl i c' r, ret, s')"
    using f q(1) by (simp add: focus.simps eq quiet_def)
  then show ?thesis
    unfolding stepped_def using quiet_same_rows [OF q(1)] by (simp add: eq only_at_set_ctrl)
qed

lemma replugPadLocked_stepped:
  assumes f: "focus (O' + pser pad) K (r, ret, s)"
    and i: "i < MAX_CONTROLLERS_PER_CONN" "d_ctrlIdx (pd_desc pad) = i"
    and act: "active (controllers r ! i)" and t: "d_type (pd_desc pad) < CONTROLLER_TYPE_COUNT"
    and p: "pd_plugged pad \<Longrightarrow> pd_serial pad \<noteq> 0"
    and a: "replugPadLocked i pad (r, ret, s) = (pad', r', ret', s')"
  shows "stepped O' K i (r, ret, s) (r', ret', s') \<and> same_plan pad pad'"
proof (cases "pd_plugged pad")
  case False
  have ep: "focus O' K (r\<lparr>epoch := e\<rparr>, ret, t') = focus O' K (r, ret, t')" for e and t' :: "'a svc"
    by (simp add: focus.simps row_ok_def held_def)
  have "r' = r\<lparr>epoch := epoch r + 1\<rparr>" "ret' = ret" "same_plan pad pad'"
    using a False by (auto simp: replugPadLocked_def same_plan_def Let_def split: if_splits)
  moreover have "focus O' K (r, ret, s') \<and> same_rows s s'"
  proof (cases "pd_serial pad = 0")
    case True
    then show ?thesis using a f False by (auto simp: replugPadLocked_def pser_def Let_def)
  next
    case nz: False
    note rel = focus_release_pser [OF f]
    show ?thesis
      using a nz False focus_quiet [OF rel quietI(2)]
        same_rows_trans [OF same_rowsI(1) same_rowsI(4)]
      by (auto simp: replugPadLocked_def Let_def)
  qed
  ultimately show ?thesis by (auto simp: stepped_def ep)
next
  case True
  let ?c = "controllers r ! i"
  obtain c1 s1 where rp: "releasePointerLocked ?c s = (c1, s1)" by force
  note q = releasePointerLocked_quiet [OF rp]
  have same: "active c1 = active ?c" "serialNo c1 = serialNo ?c" "ctrl_index c1 = ctrl_index ?c"
    by (subst q(2), simp)+
  obtain c2 s2 where d: "takeDescriptorLocked (pd_desc pad) (c1\<lparr>serialNo := pd_serial pad\<rparr>) s1 = (c2, s2)"
    by force
  note d' = takeDescriptorLocked_spec [OF d]
  let ?c3 = "seedRumbleLocked (s_pool s2) c2"
  have eq: "r' = (set_ctrl i ?c3 r)\<lparr>activeControllerCount := activeControllerCount r,
                 epoch := epoch r + 1\<rparr>"
      "ret' = ret @ [\<lparr>rt_serial = serialNo ?c, rt_unplugged = False\<rparr>]" "pad' = pad"
      "\<exists>m. s' = logMsg INFO m s2"
    using a True rp d same by (auto simp: replugPadLocked_def set_ctrl_def Let_def)
  then obtain m where s': "s' = logMsg INFO m s2" by blast
  have qs: "quiet s s'"
    using quiet_trans [OF q(1) quiet_trans [OF d'(1) quietI(2)]] by (simp add: s')
  have f': "focus (add_mset (pd_serial pad) O') K (r, ret, s)" using f p True by (simp add: pser_def)
  have f2: "focus (O' + one_held ?c3) K (r, ret, s)" using f' d'(2,3) act same by (simp add: one_held_def)
  have ci: "ctrl_index ?c = i" using f i(1) act by (simp add: focus.simps row_ok_def ctrl_ok_def)
  have "focus O' K (r', ret', s')"
    unfolding eq(1)
    by (rule focus_set_ctrl [OF f2 i(1)])
      (use act d' t focus_serial_range(1) [OF f'] qs same ci in
        \<open>auto simp: ctrl_ok_def eq(2) one_held_def quiet_def\<close>)
  then show ?thesis
    using quiet_same_rows [OF qs] by (auto simp: stepped_def eq(1,3) only_at_set_ctrl)
qed

section \<open>Plans\<close>

text \<open>
  What the plan of a pad promises of the row when its round commits.  Only pads that wait take part
  in the second round; by then their controller is vacant.
\<close>

definition pad_ok :: "bool \<Rightarrow> connection \<Rightarrow> pad_change \<Rightarrow> bool" where
  "pad_ok secondRound r pad \<longleftrightarrow>
     (let i = d_ctrlIdx (pd_desc pad);
          bound = i < MAX_CONTROLLERS_PER_CONN \<and> active (controllers r ! i);
          vacant = i < MAX_CONTROLLERS_PER_CONN \<and> \<not> active (controllers r ! i);
          known = d_type (pd_desc pad) < CONTROLLER_TYPE_COUNT
      in (pd_plugged pad \<longrightarrow> pd_serial pad \<noteq> 0) \<and>
         (if secondRound
          then (pd_kind pad = Add \<or> pd_kind pad = ReplugInPlace) \<and> vacant \<and> known
          else (pd_waits pad \<longrightarrow> (pd_kind pad = Add \<or> pd_kind pad = ReplugInPlace) \<and> pd_serial pad = 0) \<and>
               (case pd_kind pad of
                  Refuse \<Rightarrow> pd_serial pad = 0
                | Update \<Rightarrow> bound \<and> known \<and> pd_serial pad = 0 \<and>
                    identity (controllers r ! i) = controllerIdentity (d_type (pd_desc pad))
                | Remove \<Rightarrow> bound \<and> pd_serial pad = 0
                | Replug \<Rightarrow> bound \<and> known
                | ReplugInPlace \<Rightarrow> bound \<and> known \<and> pd_serial pad = 0 \<and> pd_waits pad
                | Add \<Rightarrow> vacant \<and> known)))"

definition takes_part :: "bool \<Rightarrow> pad_change \<Rightarrow> bool" where
  "takes_part secondRound pad \<longleftrightarrow> (secondRound \<longrightarrow> pd_waits pad)"

definition pads_ok :: "bool \<Rightarrow> connection \<Rightarrow> pad_change list \<Rightarrow> bool" where
  "pads_ok secondRound r pads \<longleftrightarrow>
     distinct (map (\<lambda>pad. d_ctrlIdx (pd_desc pad)) pads) \<and>
     (\<forall>pad\<in>set pads. takes_part secondRound pad \<longrightarrow> pad_ok secondRound r pad)"

text \<open>The serials that the pads of a round bring in.\<close>

definition pend :: "bool \<Rightarrow> pad_change list \<Rightarrow> nat multiset" where
  "pend secondRound pads = sum_list (map pser (filter (takes_part secondRound) pads))"

lemma pend_Nil [simp]: "pend b [] = {#}"
  by (simp add: pend_def)

lemma pend_Cons [simp]:
  "pend b (pad # pads) = (if takes_part b pad then pser pad else {#}) + pend b pads"
  by (simp add: pend_def)

lemma pend_append [simp]: "pend b (xs @ ys) = pend b xs + pend b ys"
  by (simp add: pend_def)

lemma pad_ok_only_at:
  assumes "only_at i r r'" "d_ctrlIdx (pd_desc pad) \<noteq> i"
  shows "pad_ok b r' pad = pad_ok b r pad"
proof -
  have "controllers r' ! d_ctrlIdx (pd_desc pad) = controllers r ! d_ctrlIdx (pd_desc pad)"
    using assms by (simp add: only_at_def)
  then show ?thesis by (simp only: pad_ok_def Let_def)
qed

lemma commitPadLocked_stepped:
  assumes f: "focus (O' + pser pad) K (r, ret, s)" and ok: "pad_ok b r pad"
    and c: "commitPadLocked b pad (r, ret, s) = (pad', r', ret', s')"
  shows "stepped O' K (d_ctrlIdx (pd_desc pad)) (r, ret, s) (r', ret', s') \<and> same_plan pad pad' \<and>
    (\<not> b \<and> pd_waits pad \<longrightarrow> d_ctrlIdx (pd_desc pad) < MAX_CONTROLLERS_PER_CONN \<and>
       \<not> active (controllers r' ! d_ctrlIdx (pd_desc pad)) \<and>
       d_type (pd_desc pad) < CONTROLLER_TYPE_COUNT)"
proof -
  let ?i = "d_ctrlIdx (pd_desc pad)"
  have stay: "stepped O' K ?i (r, ret, s) (r, ret, s)" if "pd_serial pad = 0"
    using f that by (auto simp: stepped_def pser_def)
  have p: "pd_plugged pad \<Longrightarrow> pd_serial pad \<noteq> 0" using ok by (simp add: pad_ok_def Let_def)
  have f0: "focus O' K (r, ret, s)" if "pd_serial pad = 0" using f that by (simp add: pser_def)
  show ?thesis
  proof (cases "pd_kind pad")
    case Refuse
    then show ?thesis
      using c ok stay by (auto simp: commitPadLocked_def pad_ok_def Let_def split: if_splits)
  next
    case Update
    then have u: "?i < 16" "active (controllers r ! ?i)" "d_type (pd_desc pad) < 4"
        "identity (controllers r ! ?i) = controllerIdentity (d_type (pd_desc pad))"
        "pd_serial pad = 0" "\<not> b" "\<not> pd_waits pad"
      using ok by (auto simp: pad_ok_def Let_def split: if_splits)
    obtain c' s1 where up: "updatePadLocked (pd_desc pad) (controllers r ! ?i) s = (c', s1)" by force
    show ?thesis
      using updatePadLocked_stepped [OF f0 [OF u(5)] u(1,2,3,4) up] c up Update u
      by (auto simp: commitPadLocked_def Let_def)
  next
    case Remove
    then have u: "?i < 16" "active (controllers r ! ?i)" "pd_serial pad = 0" "\<not> b" "\<not> pd_waits pad"
      using ok by (auto simp: pad_ok_def Let_def split: if_splits)
    have rm: "removePadLocked ?i (r, ret, s) = (r', ret', s')" "pad' = pad"
      using c Remove by (auto simp: commitPadLocked_def Let_def)
    show ?thesis
      using removePadLocked_stepped [OF f0 [OF u(3)] u(1,2) rm(1)] rm(2) u by auto
  next
    case Replug
    then have u: "?i < 16" "active (controllers r ! ?i)" "d_type (pd_desc pad) < 4" "\<not> b"
        "\<not> pd_waits pad"
      using ok by (auto simp: pad_ok_def Let_def split: if_splits)
    have "replugPadLocked ?i pad (r, ret, s) = (pad', r', ret', s')"
      using c Replug by (auto simp: commitPadLocked_def Let_def)
    from replugPadLocked_stepped [OF f u(1) refl u(2,3) p this] u show ?thesis by auto
  next
    case ReplugInPlace
    show ?thesis
    proof (cases b)
      case False
      then have u: "?i < 16" "active (controllers r ! ?i)" "pd_serial pad = 0"
          "d_type (pd_desc pad) < 4"
        using ok ReplugInPlace by (auto simp: pad_ok_def Let_def)
      have v: "vacatePadLocked ?i (r, ret, s) = (r', ret', s')" "pad' = pad"
        using c ReplugInPlace False by (auto simp: commitPadLocked_def Let_def)
      show ?thesis using vacatePadLocked_stepped [OF f0 [OF u(3)] u(1,2) v(1)] v(2) u by auto
    next
      case True
      then have u: "?i < 16" "\<not> active (controllers r ! ?i)" "d_type (pd_desc pad) < 4"
        using ok by (auto simp: pad_ok_def Let_def)
      have "refitPadLocked ?i pad (r, ret, s) = (pad', r', ret', s')"
        using c ReplugInPlace True by (auto simp: commitPadLocked_def Let_def)
      from refitPadLocked_stepped [OF f u(1) refl u(2,3) p this] True show ?thesis by auto
    qed
  next
    case Add
    then have u: "?i < 16" "\<not> active (controllers r ! ?i)" "d_type (pd_desc pad) < 4"
      using ok by (auto simp: pad_ok_def Let_def split: if_splits)
    show ?thesis
    proof (cases "b \<or> \<not> pd_waits pad")
      case True
      then have "addPadLocked ?i pad (r, ret, s) = (pad', r', ret', s')"
        using c Add by (auto simp: commitPadLocked_def Let_def)
      from addPadLocked_stepped [OF f u(1) refl u(2,3) p this] True show ?thesis by auto
    next
      case False
      then have "pd_serial pad = 0" using ok by (auto simp: pad_ok_def Let_def)
      then show ?thesis using c Add False stay u by (auto simp: commitPadLocked_def Let_def)
    qed
  qed
qed

text \<open>The loop over the pads of a change.\<close>

definition commit_one :: "bool \<Rightarrow> pad_change \<Rightarrow> 'b commit_state \<Rightarrow> pad_change \<times> 'b commit_state" where
  "commit_one b pad cst = (if b \<and> \<not> pd_waits pad then (pad, cst) else commitPadLocked b pad cst)"

lemma commit_loop:
  assumes "focus (O' + pend b pads) K (r, ret, s)" "pads_ok b r pads"
    and "mapS (commit_one b) pads (r, ret, s) = (pads', r', ret', s')"
  shows "focus O' K (r', ret', s') \<and> same_session r r' \<and> same_rows s s' \<and>
    list_all2 same_plan pads pads' \<and>
    (\<forall>j. j \<notin> (\<lambda>pad. d_ctrlIdx (pd_desc pad)) ` set pads \<longrightarrow> controllers r' ! j = controllers r ! j) \<and>
    (\<not> b \<longrightarrow> (\<forall>pad\<in>set pads. pd_waits pad \<longrightarrow> d_ctrlIdx (pd_desc pad) < MAX_CONTROLLERS_PER_CONN \<and>
       \<not> active (controllers r' ! d_ctrlIdx (pd_desc pad)) \<and>
       d_type (pd_desc pad) < CONTROLLER_TYPE_COUNT))"
  using assms
proof (induction pads arbitrary: r ret s pads')
  case Nil
  then show ?case by simp
next
  case (Cons pad pads)
  let ?i = "d_ctrlIdx (pd_desc pad)"
  obtain pad1 r1 ret1 s1 where c: "commit_one b pad (r, ret, s) = (pad1, r1, ret1, s1)"
    by (metis prod_cases4)
  obtain pads1 where m: "mapS (commit_one b) pads (r1, ret1, s1) = (pads1, r', ret', s')"
      and pads': "pads' = pad1 # pads1"
    using Cons.prems(3) c by (auto split: prod.splits)
  let ?own = "if takes_part b pad then pser pad else {#}"
  have f: "focus ((O' + pend b pads) + ?own) K (r, ret, s)"
    using Cons.prems(1) by (simp add: ac_simps)
  have one: "stepped (O' + pend b pads) K ?i (r, ret, s) (r1, ret1, s1) \<and> same_plan pad pad1 \<and>
    (\<not> b \<and> pd_waits pad \<longrightarrow> ?i < 16 \<and> \<not> active (controllers r1 ! ?i) \<and> d_type (pd_desc pad) < 4)"
  proof (cases "takes_part b pad")
    case True
    then have "pad_ok b r pad" using Cons.prems(2) by (simp add: pads_ok_def)
    moreover have "commitPadLocked b pad (r, ret, s) = (pad1, r1, ret1, s1)"
      using c True by (simp add: commit_one_def takes_part_def split: if_splits)
    ultimately show ?thesis using commitPadLocked_stepped [of "O' + pend b pads"] f True by simp
  next
    case False
    then show ?thesis using c f by (auto simp: commit_one_def takes_part_def stepped_def)
  qed
  then have f1: "focus (O' + pend b pads) K (r1, ret1, s1)" and o: "only_at ?i r r1"
      and sr: "same_rows s s1" by (auto simp: stepped_def)
  have "d_ctrlIdx (pd_desc p) \<noteq> ?i" if "p \<in> set pads" for p
    using Cons.prems(2) that by (fastforce simp: pads_ok_def image_iff)
  then have "pads_ok b r1 pads"
    using Cons.prems(2) pad_ok_only_at [OF o] by (simp add: pads_ok_def)
  note rest = Cons.IH [OF f1 this m]
  have at: "controllers r' ! ?i = controllers r1 ! ?i"
    using rest Cons.prems(2) by (auto simp: pads_ok_def)
  show ?case
    using rest one o sr at same_session_trans [of r r1 r'] same_rows_trans [OF sr]
    by (auto simp: pads' only_at_def)
qed

lemma clear_reopened_focus:
  assumes f: "focus (O' + pend b (tc_pads change)) K (r, tc_retired change, s)"
    and cl: "clear_reopened change s = (ch1, s1)"
  shows "focus (O' + pend b (tc_pads ch1)) K (r, tc_retired ch1, s1)" "same_rows s s1"
    "tc_pads ch1 = tc_pads change" "tc_retired ch1 = tc_retired change"
proof -
  show ch1: "tc_pads ch1 = tc_pads change" "tc_retired ch1 = tc_retired change"
    using cl by (auto simp: clear_reopened_def split: if_splits)
  show sr: "same_rows s s1"
    using cl same_rows_trans [OF same_rowsI(1) same_rowsI(4)]
    by (auto simp: clear_reopened_def split: if_splits)
  have wf: "pool_wf (s_pool s)" using f by (simp add: focus.simps)
  have "pool.inuse (clearQuarantine (s_pool s)) = pool.inuse (s_pool s)"
    using clearQuarantine_law [OF wf] by (simp add: pool.inuse_def)
  then show "focus (O' + pend b (tc_pads ch1)) K (r, tc_retired ch1, s1)"
    using f cl clearQuarantine_law [OF wf] unfolding ch1
    by (auto simp: clear_reopened_def focus.simps logMsg_def emit_def split: if_splits)
qed

lemma commitPadsLocked_balance:
  assumes f: "focus (O' + pend b (tc_pads change)) K (r, tc_retired change, s)"
    and ok: "pads_ok b r (tc_pads change)"
    and c: "commitPadsLocked b r change s = (r', change', s')"
  shows "focus O' K (r', tc_retired change', s') \<and> same_session r r' \<and> same_rows s s' \<and>
    list_all2 same_plan (tc_pads change) (tc_pads change') \<and>
    (\<not> b \<longrightarrow> (\<forall>pad\<in>set (tc_pads change). pd_waits pad \<longrightarrow>
       d_ctrlIdx (pd_desc pad) < MAX_CONTROLLERS_PER_CONN \<and>
       \<not> active (controllers r' ! d_ctrlIdx (pd_desc pad)) \<and>
       d_type (pd_desc pad) < CONTROLLER_TYPE_COUNT))"
proof -
  obtain ch1 s1 where cl: "clear_reopened change s = (ch1, s1)" by force
  note f1 = clear_reopened_focus(1) [OF f cl] and sr = clear_reopened_focus(2) [OF f cl]
  note ch1 = clear_reopened_focus(3,4) [OF f cl]
  obtain pads' ret' where m: "mapS (commit_one b) (tc_pads ch1) (r, tc_retired ch1, s1)
      = (pads', r', ret', s')" and ch': "change' = ch1\<lparr>tc_pads := pads', tc_retired := ret'\<rparr>"
    using c cl unfolding commitPadsLocked_def commit_one_def [abs_def]
    by (auto split: prod.splits)
  show ?thesis
    using commit_loop [OF f1 _ m] ok same_rows_trans [OF sr] unfolding ch1 by (simp add: ch')
qed

end
