(* ===== verification/Session_Plan.thy ===== *)
theory Session_Plan
  imports Session_Rows
begin

text \<open>
  The steps around a commit: the deduplication of the request, the plan that reserves serials, the
  plug rounds, the settling of retired serials and the second allocation for the pads that waited.
  Each keeps the account of serials and hands the next step the plan it needs.
\<close>

section \<open>The account of serials\<close>

definition bal :: "nat multiset \<Rightarrow> 'b svc \<Rightarrow> bool" where
  "bal O' s \<longleftrightarrow> pool_wf (s_pool s) \<and> O' = pool.inuse (s_pool s)"

lemma bal_pool_cong: "s_pool s' = s_pool s \<Longrightarrow> bal O' s' = bal O' s"
  by (simp add: bal_def)

section \<open>Deduplication: the last descriptor of an index wins\<close>

definition idxs :: "controller_descriptor list \<Rightarrow> nat list" where
  "idxs ds = map d_ctrlIdx ds"

lemma dedup_insert_cases:
  assumes "distinct (idxs ds)"
  shows "distinct (idxs (dedup_insert ds d))"
    and "set (dedup_insert ds d) = {e \<in> set ds. d_ctrlIdx e \<noteq> d_ctrlIdx d} \<union> {d}"
proof -
  let ?f = "List.find (\<lambda>i. d_ctrlIdx (ds ! i) = d_ctrlIdx d) [0..<length ds]"
  have "distinct (idxs (dedup_insert ds d)) \<and>
      set (dedup_insert ds d) = {e \<in> set ds. d_ctrlIdx e \<noteq> d_ctrlIdx d} \<union> {d}"
  proof (cases ?f)
    case None
    then have "\<forall>i<length ds. d_ctrlIdx (ds ! i) \<noteq> d_ctrlIdx d" by (auto simp: find_None_iff)
    then have "\<forall>e\<in>set ds. d_ctrlIdx e \<noteq> d_ctrlIdx d" by (auto simp: in_set_conv_nth)
    then show ?thesis using None assms by (auto simp: dedup_insert_def idxs_def)
  next
    case (Some i)
    then have i: "i < length ds" "d_ctrlIdx (ds ! i) = d_ctrlIdx d"
      using find_Some_set [OF Some] by auto
    have eq: "dedup_insert ds d = ds[i := d]" using Some by (simp add: dedup_insert_def)
    have "idxs (ds[i := d]) = idxs ds"
      using i by (simp add: idxs_def map_update list_update_same_conv)
    moreover have "set (ds[i := d]) = {e \<in> set ds. d_ctrlIdx e \<noteq> d_ctrlIdx d} \<union> {d}"
    proof (intro equalityI subsetI)
      fix e assume "e \<in> set (ds[i := d])"
      then obtain j where j: "j < length ds" "e = (ds[i := d]) ! j" by (auto simp: in_set_conv_nth)
      have "j = i \<or> d_ctrlIdx (ds ! j) \<noteq> d_ctrlIdx d"
        using distinct_map_inj_nth [OF assms [unfolded idxs_def] j(1) i(1)] i(2) by auto
      then show "e \<in> {e \<in> set ds. d_ctrlIdx e \<noteq> d_ctrlIdx d} \<union> {d}"
        using j i by (cases "j = i") auto
    next
      fix e assume "e \<in> {e \<in> set ds. d_ctrlIdx e \<noteq> d_ctrlIdx d} \<union> {d}"
      then consider "e = d" | j where "j < length ds" "e = ds ! j" "d_ctrlIdx e \<noteq> d_ctrlIdx d"
        by (auto simp: in_set_conv_nth)
      then show "e \<in> set (ds[i := d])"
      proof cases
        case 1
        then show ?thesis using i(1) by (simp add: set_update_memI)
      next
        case 2
        then have "(ds[i := d]) ! j = e" using i by (cases "j = i") auto
        then show ?thesis using 2(1) by (metis length_list_update nth_mem)
      qed
    qed
    ultimately show ?thesis using assms by (simp add: eq)
  qed
  then show "distinct (idxs (dedup_insert ds d))"
    and "set (dedup_insert ds d) = {e \<in> set ds. d_ctrlIdx e \<noteq> d_ctrlIdx d} \<union> {d}" by blast+
qed

text \<open>The descriptor that a request asks for at an index: the last one it names.\<close>

fun last_at :: "nat \<Rightarrow> controller_descriptor list \<Rightarrow> controller_descriptor option" where
  "last_at i [] = None"
| "last_at i (d # ds) =
     (case last_at i ds of Some e \<Rightarrow> Some e | None \<Rightarrow> if d_ctrlIdx d = i then Some d else None)"

lemma last_at_snoc:
  "last_at i (ds @ [d]) = (if d_ctrlIdx d = i then Some d else last_at i ds)"
  by (induction ds) (auto split: option.splits)

lemma last_at_idx: "last_at i ds = Some d \<Longrightarrow> d_ctrlIdx d = i"
  by (induction ds) (auto split: option.splits if_splits)

lemma dedupDescriptors_spec:
  "distinct (idxs (dedupDescriptors ds)) \<and>
   set (dedupDescriptors ds) = {d. last_at (d_ctrlIdx d) ds = Some d}"
proof (induction ds rule: rev_induct)
  case Nil
  then show ?case by (simp add: dedupDescriptors_def idxs_def)
next
  case (snoc d ds)
  have step: "dedupDescriptors (ds @ [d]) = dedup_insert (dedupDescriptors ds) d"
    by (simp add: dedupDescriptors_def)
  show ?case
    unfolding step using dedup_insert_cases [of "dedupDescriptors ds" d] snoc
    by (auto simp: last_at_snoc)
qed

section \<open>The plan\<close>

lemma allocate_bal:
  assumes "bal O' s" "allocateSerial (s_pool s) = (x, p)"
  shows "bal (O' + (if x = 0 then {#} else {#x#})) (s\<lparr>s_pool := p\<rparr>)"
  using assms pool.alloc_inuse [of "s_pool s" x p] by (auto simp: bal_def)

lemma planPadLocked_ok:
  assumes b: "bal O' s" and pl: "planPadLocked r d s = (pad, s1)"
  shows "bal (O' + pser pad) s1 \<and> pad_ok False r pad \<and> pd_desc pad = d \<and> same_rows s s1 \<and>
    s_activePads s1 = s_activePads s"
proof -
  obtain x p where a: "allocateSerial (s_pool s) = (x, p)" by force
  let ?c = "controllers r ! d_ctrlIdx d"
  let ?bad = "d_type d \<ge> CONTROLLER_TYPE_COUNT \<or>
    \<not> gp_supportsIdentity (s_port s) (controllerIdentity (d_type d)) (s_backend s)"
  note al = allocate_bal [OF b a]
  note defs = planPadLocked_def Let_def default_pad_change_def pad_ok_def pser_def
  consider "\<not> d_ctrlIdx d < 16"
    | "d_ctrlIdx d < 16" ?bad
    | "d_ctrlIdx d < 16" "\<not> ?bad" "\<not> active ?c"
    | "d_ctrlIdx d < 16" "\<not> ?bad" "active ?c" "controllerIdentity (d_type d) = identity ?c"
    | "d_ctrlIdx d < 16" "\<not> ?bad" "active ?c" "controllerIdentity (d_type d) \<noteq> identity ?c"
        "\<not> gp_isBusOpen (s_port s) (s_backend s)"
    | "d_ctrlIdx d < 16" "\<not> ?bad" "active ?c" "controllerIdentity (d_type d) \<noteq> identity ?c"
        "gp_isBusOpen (s_port s) (s_backend s)"
    by blast
  then show ?thesis
  proof cases
    case 1
    then show ?thesis using pl b by (auto simp: defs)
  next
    case 2
    then show ?thesis using pl b by (auto simp: defs)
  next
    case 3
    then show ?thesis using pl b a al by (auto simp: defs same_rowsI)
  next
    case 4
    then show ?thesis using pl b by (auto simp: defs)
  next
    case 5
    then show ?thesis using pl b by (auto simp: defs)
  next
    case 6
    then show ?thesis using pl b a al by (auto simp: defs same_rowsI split: if_splits)
  qed
qed

lemma plan_loop:
  assumes "bal O' s" "mapS (planPadLocked r) ds s = (pads, s1)"
  shows "bal (O' + pend False pads) s1 \<and> (\<forall>pad\<in>set pads. pad_ok False r pad) \<and>
    map pd_desc pads = ds \<and> same_rows s s1 \<and> s_activePads s1 = s_activePads s"
  using assms
proof (induction ds arbitrary: O' s pads)
  case Nil
  then show ?case by simp
next
  case (Cons d ds)
  obtain pad s2 where p: "planPadLocked r d s = (pad, s2)" by force
  obtain pads2 where m: "mapS (planPadLocked r) ds s2 = (pads2, s1)" and pads: "pads = pad # pads2"
    using Cons.prems(2) p by (auto split: prod.splits)
  note one = planPadLocked_ok [OF Cons.prems(1) p]
  note rest = Cons.IH [of "O' + pser pad" s2, OF _ m]
  show ?case
    using one rest same_rows_trans [of s s2 s1] unfolding pads
    by (auto simp: takes_part_def add.assoc)
qed

lemma deferUnservedAdds_map:
  "list_all2 (\<lambda>p p'. p' = p \<or> (pd_kind p = Add \<and> pd_serial p = 0 \<and> (\<exists>w. p' = p\<lparr>pd_waits := w\<rparr>)))
     pads (deferUnservedAdds pads)"
  unfolding deferUnservedAdds_def Let_def list_all2_map2 by (rule list_all2_refl) auto

lemma pend_pointwise:
  assumes "list_all2 (\<lambda>p p'. pser p' = pser p \<and> takes_part b p' = takes_part b p) pads pads'"
  shows "pend b pads' = pend b pads"
  using assms by (induction rule: list_all2_induct) auto

lemma deferUnservedAdds_ok:
  assumes "pads_ok False r pads"
  shows "pads_ok False r (deferUnservedAdds pads)"
    and "pend False (deferUnservedAdds pads) = pend False pads"
proof -
  note l2 = deferUnservedAdds_map [of pads]
  have idx: "map (\<lambda>pad. d_ctrlIdx (pd_desc pad)) (deferUnservedAdds pads)
      = map (\<lambda>pad. d_ctrlIdx (pd_desc pad)) pads"
    by (auto simp: deferUnservedAdds_def Let_def)
  have "pad_ok False r p'" if p': "p' \<in> set (deferUnservedAdds pads)" for p'
  proof -
    obtain p where p: "p \<in> set pads"
        "p' = p \<or> (pd_kind p = Add \<and> pd_serial p = 0 \<and> (\<exists>w. p' = p\<lparr>pd_waits := w\<rparr>))"
      using list_all2_memD [OF l2 p'] by blast
    then have "pad_ok False r p" using assms by (simp add: pads_ok_def takes_part_def)
    then show ?thesis using p(2) by (auto simp: pad_ok_def Let_def)
  qed
  then show "pads_ok False r (deferUnservedAdds pads)"
    using assms by (simp add: pads_ok_def idx)
  show "pend False (deferUnservedAdds pads) = pend False pads"
    by (rule pend_pointwise, rule list_all2_mono [OF l2]) (auto simp: pser_def takes_part_def)
qed

lemma planSessionPadsLocked_ok:
  assumes b: "bal O' s" and ds: "distinct (idxs desired)"
    and p: "planSessionPadsLocked r desired s = (pads, s1)"
  shows "bal (O' + pend False pads) s1 \<and> pads_ok False r pads \<and> same_rows s s1 \<and>
    s_activePads s1 = s_activePads s"
proof -
  obtain planned s2 where m: "mapS (planPadLocked r) desired s = (planned, s2)" by force
  let ?gone = "filter (\<lambda>i. active (controllers r ! i) \<and> i \<notin> d_ctrlIdx ` set desired) [0..<16]"
  have pads: "pads = deferUnservedAdds (map planRemoval ?gone @ planned)" and s1: "s1 = s2"
    using p m unfolding planSessionPadsLocked_def by (simp_all add: Let_def)
  note lp = plan_loop [OF b m]
  have rem: "pad_ok False r (planRemoval i) \<and> pser (planRemoval i) = {#} \<and>
      d_ctrlIdx (pd_desc (planRemoval i)) = i" if "i \<in> set ?gone" for i
    using that
    by (auto simp: planRemoval_def default_pad_change_def pad_ok_def pser_def Let_def
        simp del: upt_rec_numeral)
  have idx: "map (\<lambda>pad. d_ctrlIdx (pd_desc pad)) planned = idxs desired"
    using lp by (auto simp: idxs_def comp_def)
  have "distinct (?gone @ idxs desired)"
    using ds by (auto simp: idxs_def simp del: upt_rec_numeral)
  moreover have "map (\<lambda>pad. d_ctrlIdx (pd_desc pad)) (map planRemoval ?gone @ planned)
      = ?gone @ idxs desired"
    unfolding map_append idx map_map comp_def using rem by (simp only: map_idI)
  ultimately have ok: "pads_ok False r (map planRemoval ?gone @ planned)"
    unfolding pads_ok_def using rem lp by (auto simp del: upt_rec_numeral map_append)
  have "pend False (map planRemoval xs) = {#}" if "set xs \<subseteq> set ?gone" for xs
    using that rem by (induction xs) auto
  then have "pend False (map planRemoval ?gone @ planned) = pend False planned" by simp
  then show ?thesis
    using lp deferUnservedAdds_ok [OF ok] unfolding pads s1 by simp
qed

section \<open>Plug rounds\<close>

text \<open>A plug round changes the backend and the outcome flags of the pads it plugs, nothing else.\<close>

definition same_but_backend :: "'b svc \<Rightarrow> 'b svc \<Rightarrow> bool" where
  "same_but_backend s s' \<longleftrightarrow> s' = s\<lparr>s_backend := s_backend s'\<rparr>"

lemma same_but_backend_refl [simp]: "same_but_backend s s"
  by (simp add: same_but_backend_def)

lemma same_but_backend_trans:
  "same_but_backend s s' \<Longrightarrow> same_but_backend s' s'' \<Longrightarrow> same_but_backend s s''"
  unfolding same_but_backend_def
proof -
  assume a: "s' = s\<lparr>s_backend := s_backend s'\<rparr>" and b: "s'' = s'\<lparr>s_backend := s_backend s''\<rparr>"
  show "s'' = s\<lparr>s_backend := s_backend s''\<rparr>" by (subst b, subst a) simp
qed

lemma same_but_backendI [intro]: "same_but_backend s (s\<lparr>s_backend := b\<rparr>)"
  by (simp add: same_but_backend_def)

lemma same_but_backendD:
  assumes "same_but_backend s s'"
  shows "s_conns s' = s_conns s" "s_hot s' = s_hot s" "s_port s' = s_port s" "s_rng s' = s_rng s"
    "s_pool s' = s_pool s" "s_activePads s' = s_activePads s" "s_rxPads s' = s_rxPads s"
    "s_rxSessions s' = s_rxSessions s" "s_keyDeriver s' = s_keyDeriver s" "s_out s' = s_out s"
    "s_nextRow s' = s_nextRow s" "s_commands s' = s_commands s" "s_frames s' = s_frames s"
    "s_micQueue s' = s_micQueue s"
proof -
  have *: "s' = s\<lparr>s_backend := s_backend s'\<rparr>" using assms by (simp add: same_but_backend_def)
  show "s_conns s' = s_conns s" "s_hot s' = s_hot s" "s_port s' = s_port s" "s_rng s' = s_rng s"
    "s_pool s' = s_pool s" "s_activePads s' = s_activePads s" "s_rxPads s' = s_rxPads s"
    "s_rxSessions s' = s_rxSessions s" "s_keyDeriver s' = s_keyDeriver s" "s_out s' = s_out s"
    "s_nextRow s' = s_nextRow s" "s_commands s' = s_commands s" "s_frames s' = s_frames s"
    "s_micQueue s' = s_micQueue s"
    by (subst *, simp)+
qed

definition plug_outcome :: "pad_change \<Rightarrow> pad_change \<Rightarrow> bool" where
  "plug_outcome p p' \<longleftrightarrow>
     p' = p\<lparr>pd_busDown := pd_busDown p', pd_plugged := pd_plugged p'\<rparr> \<and>
     (pd_plugged p' \<longrightarrow> pd_plugged p \<or> pd_serial p \<noteq> 0)"

lemma plug_outcomeD:
  assumes "plug_outcome p p'"
  shows "pd_kind p' = pd_kind p" "pd_desc p' = pd_desc p" "pd_serial p' = pd_serial p"
    "pd_waits p' = pd_waits p" "pd_retiring p' = pd_retiring p"
proof -
  have *: "p' = p\<lparr>pd_busDown := pd_busDown p', pd_plugged := pd_plugged p'\<rparr>"
    using assms by (simp add: plug_outcome_def)
  show "pd_kind p' = pd_kind p" "pd_desc p' = pd_desc p" "pd_serial p' = pd_serial p"
    "pd_waits p' = pd_waits p" "pd_retiring p' = pd_retiring p"
    by (subst *, simp)+
qed

lemma plug_pad_step:
  "same_but_backend s t \<Longrightarrow>
   same_but_backend s (snd (plug_pad b bus pad t)) \<and> plug_outcome pad (fst (plug_pad b bus pad t))"
  by (auto simp: plug_pad_def plug_outcome_def plugsInRound_def split: prod.splits
      intro: same_but_backend_trans)

lemma plugPads_spec:
  assumes "plugPads b change s = (change', s')"
  shows "same_but_backend s s' \<and> tc_retired change' = tc_retired change \<and>
    list_all2 plug_outcome (tc_pads change) (tc_pads change')"
proof (cases "list_ex (plugsInRound b) (tc_pads change)")
  case False
  then show ?thesis
    using assms by (auto simp: plugPads_def plug_outcome_def intro: list_all2_refl)
next
  case True
  obtain ro s1 where o: "open_bus s = (ro, s1)" by force
  have ob: "same_but_backend s s1" using o by (auto simp: open_bus_def split: if_splits prod.splits)
  let ?bus = "gp_isBusOpen (s_port s1) (s_backend s1)"
  obtain pads s2 where m: "mapS (plug_pad b ?bus) (tc_pads change) s1 = (pads, s2)" by force
  have "same_but_backend s1 s2 \<and> list_all2 plug_outcome (tc_pads change) pads"
    using mapS_inv [of "same_but_backend s1" s1 "tc_pads change" "plug_pad b ?bus" plug_outcome]
      plug_pad_step m by fastforce
  then show ?thesis
    using assms True o m same_but_backend_trans [OF ob] by (auto simp: plugPads_def Let_def)
qed

lemma pad_ok_cong:
  assumes "pd_kind p' = pd_kind p" "pd_desc p' = pd_desc p" "pd_serial p' = pd_serial p"
    "pd_waits p' = pd_waits p" "pd_plugged p' \<longrightarrow> pd_serial p \<noteq> 0" "pad_ok b r p"
  shows "pad_ok b r p'"
  using assms(5,6) unfolding pad_ok_def Let_def assms(1-4) by blast

lemma plug_outcome_pads_ok:
  assumes l2: "list_all2 plug_outcome pads pads'" and ok: "pads_ok b r pads"
  shows "pads_ok b r pads'" and "pend b pads' = pend b pads"
proof -
  have idx: "map (\<lambda>pad. d_ctrlIdx (pd_desc pad)) pads' = map (\<lambda>pad. d_ctrlIdx (pd_desc pad)) pads"
    using l2 by (induction rule: list_all2_induct) (auto dest: plug_outcomeD)
  have "takes_part b p' \<longrightarrow> pad_ok b r p'" if m: "p' \<in> set pads'" for p'
  proof -
    obtain p where p: "p \<in> set pads" "plug_outcome p p'"
      using list_all2_memD [OF l2 m] by blast
    have "takes_part b p \<longrightarrow> pad_ok b r p" using ok p(1) by (simp add: pads_ok_def)
    moreover have "takes_part b p' = takes_part b p"
      using plug_outcomeD [OF p(2)] by (simp add: takes_part_def)
    moreover have "pad_ok b r p'" if pok: "pad_ok b r p"
    proof (rule pad_ok_cong [OF plug_outcomeD(1,2,3,4) [OF p(2)] _ pok])
      have "pd_plugged p \<longrightarrow> pd_serial p \<noteq> 0" using pok unfolding pad_ok_def Let_def by (rule conjunct1)
      then show "pd_plugged p' \<longrightarrow> pd_serial p \<noteq> 0" using p(2) unfolding plug_outcome_def by blast
    qed
    ultimately show ?thesis by blast
  qed
  then show "pads_ok b r pads'" using ok by (simp add: pads_ok_def idx)
  show "pend b pads' = pend b pads"
    by (rule pend_pointwise, rule list_all2_mono [OF l2])
      (auto simp: pser_def takes_part_def dest: plug_outcomeD)
qed

section \<open>Retired serials\<close>

lemma unplugRetired_spec:
  assumes "unplugRetired retired s = (retired', s')"
  shows "same_but_backend s s' \<and> map rt_serial retired' = map rt_serial retired"
proof -
  let ?f = "\<lambda>rt t. case gp_unplugDevice (s_port t) (rt_serial rt) (s_backend t) of
      (ok, b) \<Rightarrow> (rt\<lparr>rt_unplugged := ok\<rparr>, t\<lparr>s_backend := b\<rparr>)"
  have "same_but_backend s (snd (mapS ?f retired s)) \<and>
      list_all2 (\<lambda>x y. rt_serial y = rt_serial x) retired (fst (mapS ?f retired s))"
    by (rule mapS_inv) (auto split: prod.splits intro: same_but_backend_trans)
  then show ?thesis
    using assms unfolding unplugRetired_def
    by (auto simp: list_all2_conv_all_nth intro!: nth_equalityI)
qed

lemma settle_one_bal:
  assumes "bal (add_mset (rt_serial rt) O') s"
  shows "bal O' (settle_one rt s) \<and> same_rows s (settle_one rt s) \<and>
    s_activePads (settle_one rt s) = s_activePads s"
proof -
  have wf: "pool_wf (s_pool s)" and eq: "add_mset (rt_serial rt) O' = pool.inuse (s_pool s)"
    using assms by (simp_all add: bal_def)
  have "rt_serial rt \<in># pool.inuse (s_pool s)" using eq [symmetric] by simp
  then have u: "rt_serial rt \<in> pool_used (s_pool s)" using pool.set_inuse [OF wf] by simp
  show ?thesis
    using pool.rel_inuse [OF wf u] pool.quar_inuse [OF wf u] eq
    by (auto simp: settle_one_def bal_def logMsg_def emit_def same_rows_def commands_ok_def)
qed

lemma settleRetiredLocked_bal:
  assumes "bal (mset (map rt_serial retired) + O') s"
  shows "bal O' (settleRetiredLocked retired s) \<and> same_rows s (settleRetiredLocked retired s) \<and>
    s_activePads (settleRetiredLocked retired s) = s_activePads s"
  using assms
proof (induction retired arbitrary: s)
  case Nil
  then show ?case by (simp add: settleRetiredLocked_def)
next
  case (Cons rt retired)
  have "bal (add_mset (rt_serial rt) (mset (map rt_serial retired) + O')) s"
    using Cons.prems by simp
  note one = settle_one_bal [OF this]
  show ?case
    using Cons.IH [of "settle_one rt s"] one same_rows_trans [of s "settle_one rt s"]
    by (auto simp: settleRetiredLocked_def)
qed

section \<open>The second allocation\<close>

definition waits_ok :: "pad_change \<Rightarrow> bool" where
  "waits_ok pad \<longleftrightarrow>
     (pd_waits pad \<longrightarrow> pd_kind pad = Add \<or> pd_kind pad = ReplugInPlace) \<and>
     (pd_kind pad = ReplugInPlace \<longrightarrow> pd_waits pad)"

definition given_serial :: "pad_change \<Rightarrow> pad_change \<Rightarrow> bool" where
  "given_serial p p' \<longleftrightarrow>
     p' = p\<lparr>pd_serial := pd_serial p'\<rparr> \<and> (pd_serial p' = pd_serial p \<or> pd_waits p)"

lemma given_serialD:
  assumes "given_serial p p'"
  shows "pd_kind p' = pd_kind p" "pd_desc p' = pd_desc p" "pd_waits p' = pd_waits p"
    "pd_plugged p' = pd_plugged p"
proof -
  have *: "p' = p\<lparr>pd_serial := pd_serial p'\<rparr>" using assms by (simp add: given_serial_def)
  show "pd_kind p' = pd_kind p" "pd_desc p' = pd_desc p" "pd_waits p' = pd_waits p"
    "pd_plugged p' = pd_plugged p"
    by (subst *, simp)+
qed

lemma wait_in_place_inuse:
  assumes "pool_wf p" "wait_in_place pad p = (pad', p')" "waits_ok pad"
    and "pd_kind pad = ReplugInPlace \<Longrightarrow> pd_serial pad = 0"
  shows "pool_wf p' \<and> given_serial pad pad' \<and> (pd_kind pad \<noteq> ReplugInPlace \<longrightarrow> pad' = pad) \<and>
    pool.inuse p' + pser pad = pool.inuse p + pser pad'"
proof (cases "pd_kind pad = ReplugInPlace")
  case False
  then show ?thesis using assms by (auto simp: wait_in_place_def given_serial_def)
next
  case True
  obtain ok p1 where c: "claimSerialLocked (pd_retiring pad) p = (ok, p1)" by force
  obtain x p2 where a: "allocateSerial p1 = (x, p2)" by force
  note ci = pool.claim_inuse [OF assms(1) c]
  have ai: "pool_wf p2 \<and> pool.inuse p2 = (if x = 0 then pool.inuse p1 else add_mset x (pool.inuse p1))"
    using pool.alloc_inuse [OF _ a] ci by blast
  have nz: "ok \<Longrightarrow> pd_retiring pad \<noteq> 0"
    using pool.claim_law [OF assms(1) c] by (auto simp: all_serials_def)
  show ?thesis
    using assms True c a ci ai nz
    by (auto simp: wait_in_place_def given_serial_def waits_ok_def pser_def split: if_splits)
qed

lemma wait_add_inuse:
  assumes "pool_wf p" "wait_add pad p = (pad', p')"
    and "pd_kind pad = Add \<Longrightarrow> pd_waits pad \<Longrightarrow> pd_serial pad = 0"
  shows "pool_wf p' \<and> given_serial pad pad' \<and>
    pool.inuse p' + pser pad = pool.inuse p + pser pad'"
proof (cases "pd_kind pad = Add \<and> pd_waits pad")
  case False
  then show ?thesis using assms by (auto simp: wait_add_def given_serial_def)
next
  case True
  obtain x p1 where a: "allocateSerial p = (x, p1)" by force
  show ?thesis
    using assms True a pool.alloc_inuse [OF assms(1) a]
    by (auto simp: wait_add_def given_serial_def pser_def)
qed

text \<open>A pass over the pads, each taking what its step gives it.\<close>

lemma wait_pass:
  assumes "\<And>pad p pad' p'. pad \<in> set pads \<Longrightarrow> pool_wf p \<Longrightarrow> f pad p = (pad', p') \<Longrightarrow>
      pool_wf p' \<and> given_serial pad pad' \<and> pool.inuse p' + pser pad = pool.inuse p + pser pad'"
    and "pool_wf p" "mapS f pads p = (pads', p')"
  shows "pool_wf p' \<and> list_all2 given_serial pads pads' \<and>
    pool.inuse p' + pend True pads = pool.inuse p + pend True pads'"
  using assms
proof (induction pads arbitrary: p pads')
  case Nil
  then show ?case by simp
next
  case (Cons pad pads)
  obtain pad1 p1 where one: "f pad p = (pad1, p1)" by force
  obtain pads1 where m: "mapS f pads p1 = (pads1, p')" and pads': "pads' = pad1 # pads1"
    using Cons.prems(3) one by (auto split: prod.splits)
  have o: "pool_wf p1" "given_serial pad pad1" "pool.inuse p1 + pser pad = pool.inuse p + pser pad1"
    using Cons.prems(1) [OF _ Cons.prems(2) one] by auto
  have rest: "pool_wf p'" "list_all2 given_serial pads pads1"
      "pool.inuse p' + pend True pads = pool.inuse p1 + pend True pads1"
    using Cons.IH [OF _ o(1) m] Cons.prems(1) by auto
  have tp: "takes_part True pad1 = takes_part True pad"
    using given_serialD [OF o(2)] by (simp add: takes_part_def)
  have "pool.inuse p' + pend True (pad # pads) = pool.inuse p + pend True (pad1 # pads1)"
  proof (cases "takes_part True pad")
    case True
    have "pool.inuse p' + pend True (pad # pads) = (pool.inuse p' + pend True pads) + pser pad"
      using True by (simp add: ac_simps)
    also have "\<dots> = (pool.inuse p1 + pser pad) + pend True pads1" by (simp add: rest(3) ac_simps)
    also have "\<dots> = pool.inuse p + pend True (pad1 # pads1)"
      unfolding o(3) using True tp by (simp add: ac_simps)
    finally show ?thesis .
  next
    case False
    then have "pser pad1 = pser pad" using o(2) by (simp add: given_serial_def takes_part_def pser_def)
    then have "pool.inuse p1 = pool.inuse p" using o(3) by simp
    then show ?thesis using False tp rest(3) by simp
  qed
  then show ?case using o rest by (simp add: pads')
qed

text \<open>What the first round leaves of the plan for the second.\<close>

definition waiting_ok :: "connection \<Rightarrow> pad_change list \<Rightarrow> bool" where
  "waiting_ok r pads \<longleftrightarrow>
     distinct (map (\<lambda>pad. d_ctrlIdx (pd_desc pad)) pads) \<and>
     (\<forall>pad\<in>set pads. waits_ok pad \<and>
        (pd_waits pad \<longrightarrow> pd_serial pad = 0 \<and> \<not> pd_plugged pad \<and>
           d_ctrlIdx (pd_desc pad) < MAX_CONTROLLERS_PER_CONN \<and>
           \<not> active (controllers r ! d_ctrlIdx (pd_desc pad)) \<and>
           d_type (pd_desc pad) < CONTROLLER_TYPE_COUNT))"

lemma given_serial_trans: "given_serial p q \<Longrightarrow> given_serial q w \<Longrightarrow> given_serial p w"
proof -
  assume a: "given_serial p q" and b: "given_serial q w"
  have "w = q\<lparr>pd_serial := pd_serial w\<rparr>" "q = p\<lparr>pd_serial := pd_serial q\<rparr>"
    using a b by (simp_all add: given_serial_def)
  then have "w = p\<lparr>pd_serial := pd_serial w\<rparr>" by (metis (no_types, lifting) pad_change.surjective
        pad_change.update_convs(5) pad_change.select_convs)
  then show ?thesis using a b given_serialD [OF a] by (auto simp: given_serial_def)
qed

lemma pend_zero:
  "(\<And>pad. pad \<in> set pads \<Longrightarrow> takes_part b pad \<Longrightarrow> pd_serial pad = 0) \<Longrightarrow> pend b pads = {#}"
  by (induction pads) (auto simp: pser_def)

lemma allocateWaitingLocked_ok:
  assumes b: "bal O' s" and w: "waiting_ok r (tc_pads change)"
    and a: "allocateWaitingLocked change s = (waiting, change', s')"
  shows "bal (O' + pend True (tc_pads change')) s' \<and> pads_ok True r (tc_pads change') \<and>
    same_rows s s' \<and> s_activePads s' = s_activePads s \<and> tc_retired change' = tc_retired change \<and>
    (\<not> waiting \<longrightarrow> pend True (tc_pads change') = {#})"
proof -
  let ?pads = "tc_pads change"
  obtain pads1 p1 where m1: "mapS wait_in_place ?pads (s_pool s) = (pads1, p1)" by force
  obtain pads2 p2 where m2: "mapS wait_add pads1 p1 = (pads2, p2)" by force
  have eq: "change' = change\<lparr>tc_pads := pads2\<rparr>" "s' = s\<lparr>s_pool := p2\<rparr>"
      "waiting = list_ex pad_waiting ?pads"
    using a m1 m2 by (auto simp: allocateWaitingLocked_def)
  have wf: "pool_wf (s_pool s)" and inuse: "O' = pool.inuse (s_pool s)" using b by (auto simp: bal_def)
  have wo: "waits_ok pad" "pd_waits pad \<Longrightarrow> pd_serial pad = 0" if "pad \<in> set ?pads" for pad
    using w that by (auto simp: waiting_ok_def)
  have in_place: "pool_wf p' \<and> given_serial pad pad' \<and> (pd_kind pad \<noteq> ReplugInPlace \<longrightarrow> pad' = pad) \<and>
      pool.inuse p' + pser pad = pool.inuse p + pser pad'"
    if "pad \<in> set ?pads" "pool_wf p" "wait_in_place pad p = (pad', p')" for pad p pad' p'
    using that wo [OF that(1)] by (intro wait_in_place_inuse) (auto simp: waits_ok_def)
  have pass1: "pool_wf p1 \<and> list_all2 given_serial ?pads pads1 \<and>
      pool.inuse p1 + pend True ?pads = pool.inuse (s_pool s) + pend True pads1"
    by (rule wait_pass [OF _ wf m1]) (use in_place in blast)
  have kept: "list_all2 (\<lambda>p p'. given_serial p p' \<and> (pd_kind p \<noteq> ReplugInPlace \<longrightarrow> p' = p)) ?pads pads1"
  proof -
    have "pool_wf (snd (mapS wait_in_place ?pads (s_pool s))) \<and>
        list_all2 (\<lambda>p p'. given_serial p p' \<and> (pd_kind p \<noteq> ReplugInPlace \<longrightarrow> p' = p)) ?pads
          (fst (mapS wait_in_place ?pads (s_pool s)))"
    proof (rule mapS_inv [where I = pool_wf, OF wf])
      fix x t assume "x \<in> set ?pads" "pool_wf t"
      then show "pool_wf (snd (wait_in_place x t)) \<and> given_serial x (fst (wait_in_place x t)) \<and>
          (pd_kind x \<noteq> ReplugInPlace \<longrightarrow> fst (wait_in_place x t) = x)"
        using in_place [of x t "fst (wait_in_place x t)" "snd (wait_in_place x t)"] by simp
    qed
    then show ?thesis using m1 by simp
  qed
  have add: "pool_wf p' \<and> given_serial pad pad' \<and> pool.inuse p' + pser pad = pool.inuse p + pser pad'"
    if pad: "pad \<in> set pads1" and p: "pool_wf p" "wait_add pad p = (pad', p')" for pad p pad' p'
  proof (rule wait_add_inuse [OF p])
    assume k: "pd_kind pad = Add" "pd_waits pad"
    obtain q where q: "q \<in> set ?pads" "given_serial q pad" "pd_kind q \<noteq> ReplugInPlace \<longrightarrow> pad = q"
      using list_all2_memD [OF kept pad] by blast
    then have "pad = q" using k given_serialD [OF q(2)] by simp
    then show "pd_serial pad = 0" using wo(2) [OF q(1)] k by simp
  qed
  have pass2: "pool_wf p2 \<and> list_all2 given_serial pads1 pads2 \<and>
      pool.inuse p2 + pend True pads1 = pool.inuse p1 + pend True pads2"
    by (rule wait_pass [OF _ _ m2]) (use add pass1 in blast)+
  have l2: "list_all2 given_serial ?pads pads2"
    using list_all2_trans [of given_serial given_serial given_serial] given_serial_trans pass1 pass2
    by blast
  have z: "pend True ?pads = {#}" by (rule pend_zero) (use wo in \<open>auto simp: takes_part_def\<close>)
  have "pool.inuse p2 + pend True pads1 = pool.inuse (s_pool s) + pend True pads2 + pend True pads1"
    using pass1 pass2 z by (simp add: ac_simps)
  then have bal': "bal (O' + pend True pads2) s'" using pass2 inuse by (simp add: bal_def eq)
  have idx: "map (\<lambda>pad. d_ctrlIdx (pd_desc pad)) pads2 = map (\<lambda>pad. d_ctrlIdx (pd_desc pad)) ?pads"
    using l2 by (induction rule: list_all2_induct) (auto dest: given_serialD)
  have "pad_ok True r pad" if in2: "pad \<in> set pads2" "pd_waits pad" for pad
  proof -
    obtain q where q: "q \<in> set ?pads" "given_serial q pad" using list_all2_memD [OF l2 in2(1)] by blast
    then have "waits_ok q" "pd_waits q" "\<not> pd_plugged q" "d_ctrlIdx (pd_desc q) < 16"
        "\<not> active (controllers r ! d_ctrlIdx (pd_desc q))" "d_type (pd_desc q) < 4"
      using w in2(2) given_serialD [OF q(2)] by (auto simp: waiting_ok_def)
    then show ?thesis
      using given_serialD [OF q(2)] by (auto simp: pad_ok_def waits_ok_def Let_def)
  qed
  then have "pads_ok True r pads2" using w by (simp add: pads_ok_def idx waiting_ok_def takes_part_def)
  moreover have "pend True pads2 = {#}" if "\<not> waiting"
  proof (rule pend_zero)
    fix pad assume p: "pad \<in> set pads2" "takes_part True pad"
    obtain q where q: "q \<in> set ?pads" "given_serial q pad" using list_all2_memD [OF l2 p(1)] by blast
    have "\<not> pad_waiting q" using that q(1) by (auto simp: eq list_ex_iff)
    then show "pd_serial pad = 0"
      using p(2) given_serialD [OF q(2)] wo(1) [OF q(1)]
      by (auto simp: pad_waiting_def takes_part_def waits_ok_def)
  qed
  ultimately show ?thesis using bal' by (auto simp: eq)
qed

lemma commit_first_waiting_ok:
  assumes ok: "pads_ok False r pads" and l2: "list_all2 same_plan pads pads'"
    and v: "\<forall>pad\<in>set pads. pd_waits pad \<longrightarrow> d_ctrlIdx (pd_desc pad) < MAX_CONTROLLERS_PER_CONN \<and>
       \<not> active (controllers r' ! d_ctrlIdx (pd_desc pad)) \<and>
       d_type (pd_desc pad) < CONTROLLER_TYPE_COUNT"
  shows "waiting_ok r' pads'"
proof -
  have idx: "map (\<lambda>pad. d_ctrlIdx (pd_desc pad)) pads' = map (\<lambda>pad. d_ctrlIdx (pd_desc pad)) pads"
    using l2 by (induction rule: list_all2_induct) (auto simp: same_plan_def)
  have one: "waits_ok p \<and> (pd_waits p \<longrightarrow> pd_serial p = 0 \<and> \<not> pd_plugged p)" if "p \<in> set pads" for p
  proof -
    have "pad_ok False r p" using ok that by (simp add: pads_ok_def takes_part_def)
    then show ?thesis by (auto simp: pad_ok_def waits_ok_def Let_def)
  qed
  show ?thesis
    unfolding waiting_ok_def idx
  proof (intro conjI ballI)
    show "distinct (map (\<lambda>pad. d_ctrlIdx (pd_desc pad)) pads)" using ok by (simp add: pads_ok_def)
  next
    fix p' assume "p' \<in> set pads'"
    then obtain p where p: "p \<in> set pads" "same_plan p p'" using list_all2_memD [OF l2] by blast
    show "waits_ok p'" using one [OF p(1)] p(2) by (simp add: waits_ok_def same_plan_def)
    show "pd_waits p' \<longrightarrow> pd_serial p' = 0 \<and> \<not> pd_plugged p' \<and>
        d_ctrlIdx (pd_desc p') < MAX_CONTROLLERS_PER_CONN \<and>
        \<not> active (controllers r' ! d_ctrlIdx (pd_desc p')) \<and>
        d_type (pd_desc p') < CONTROLLER_TYPE_COUNT"
      using one [OF p(1)] v p by (simp add: same_plan_def)
  qed
qed

end
