(* ===== verification/Session_Mirror.thy ===== *)
theory Session_Mirror
  imports Session_Plan
begin

text \<open>
  The hot table as a mirror of the rows: what publishing a row does to its slot and to the owner
  words of the serials, and that changes of a row outside the published fields leave the mirror
  intact.
\<close>

section \<open>The published part of a row\<close>

definition pad_core :: "controller \<Rightarrow>
    bool \<times> nat \<times> nat \<times> u8 \<times> gamepad_identity \<times> u16 \<times> u8 \<times> string \<times> u32 \<times> u32" where
  "pad_core c =
     (active c, serialNo c, ctrl_index c, controllerType c, identity c, caps c, touchpadMode c,
      preferredBackend c, plugGen c, pointerStamp c)"

definition same_core :: "connection \<Rightarrow> connection \<Rightarrow> bool" where
  "same_core r r' \<longleftrightarrow>
     same_session r r' \<and> epoch r' = epoch r \<and>
     activeControllerCount r' = activeControllerCount r \<and>
     map pad_core (controllers r') = map pad_core (controllers r)"

lemma same_core_refl [simp]: "same_core r r"
  by (simp add: same_core_def)

lemma same_core_trans: "same_core r r' \<Longrightarrow> same_core r' r'' \<Longrightarrow> same_core r r''"
  by (simp add: same_core_def same_session_def)

lemma map_eq_length: "map f xs = map g ys \<Longrightarrow> length xs = length ys"
  by (drule arg_cong [of _ _ length]) simp

lemma same_core_length: "same_core r r' \<Longrightarrow> length (controllers r') = length (controllers r)"
  using map_eq_length [of pad_core "controllers r'" pad_core "controllers r"]
  by (simp add: same_core_def)

lemma same_core_nth:
  assumes "same_core r r'" "i < length (controllers r)"
  shows "pad_core (controllers r' ! i) = pad_core (controllers r ! i)"
proof -
  have "map pad_core (controllers r') ! i = map pad_core (controllers r) ! i"
    using assms(1) by (simp only: same_core_def)
  then show ?thesis using assms(2) same_core_length [OF assms(1)] by simp
qed

lemma same_coreI:
  assumes "list_all2 (\<lambda>c c'. pad_core c' = pad_core c) (controllers r) cs"
  shows "same_core r (r\<lparr>controllers := cs\<rparr>)"
proof -
  have "map pad_core cs = map pad_core (controllers r)"
    using assms by (induction rule: list_all2_induct) simp_all
  then show ?thesis by (simp add: same_core_def same_sessionI)
qed

lemma same_core_set_ctrl:
  assumes "i < length (controllers r)" "pad_core c = pad_core (controllers r ! i)"
  shows "same_core r (set_ctrl i c r)"
proof -
  have "map pad_core ((controllers r)[i := c]) = map pad_core (controllers r)"
    using assms by (simp add: map_update list_update_same_conv)
  then show ?thesis by (simp add: same_core_def same_sessionI)
qed

lemma map_of_core:
  assumes m: "map pad_core cs' = map pad_core cs"
    and f: "\<And>c c'. pad_core c' = pad_core c \<Longrightarrow> f c' = f c"
  shows "map f cs' = map f cs"
proof (rule nth_equalityI)
  show len: "length (map f cs') = length (map f cs)" using map_eq_length [OF m] by simp
  fix i assume "i < length (map f cs')"
  then have i: "i < length cs'" "i < length cs" using len by simp_all
  have "map pad_core cs' ! i = map pad_core cs ! i" by (simp only: m)
  then have "f (cs' ! i) = f (cs ! i)" using i by (intro f) simp
  then show "map f cs' ! i = map f cs ! i" using i by simp
qed

lemma same_core_map:
  assumes "same_core r r'" "\<And>c c'. pad_core c' = pad_core c \<Longrightarrow> f c' = f c"
  shows "map f (controllers r') = map f (controllers r)"
proof -
  have "map pad_core (controllers r') = map pad_core (controllers r)"
    using assms(1) by (simp only: same_core_def)
  then show ?thesis by (rule map_of_core) (rule assms(2))
qed

lemma same_core_held: "same_core r r' \<Longrightarrow> held r' = held r"
  unfolding held_def mset_held
  by (rule arg_cong [of _ _ sum_list], erule same_core_map) (simp add: one_held_def pad_core_def)

lemma same_core_row_ok:
  assumes "same_core r r'"
  shows "row_ok r' = row_ok r"
proof -
  have len: "length (controllers r') = length (controllers r)" by (rule same_core_length [OF assms])
  have ok: "ctrl_ok i (controllers r' ! i) = ctrl_ok i (controllers r ! i)"
    if "i < length (controllers r)" for i
    using same_core_nth [OF assms that] by (simp add: ctrl_ok_def pad_core_def)
  have "map (\<lambda>c. if active c then 1 else (0 :: int)) (controllers r')
      = map (\<lambda>c. if active c then 1 else 0) (controllers r)"
    by (rule same_core_map [OF assms]) (simp add: pad_core_def)
  then have cnt: "int (length (filter active (controllers r')))
      = int (length (filter active (controllers r)))"
    unfolding count_active by (rule arg_cong)
  have "activeControllerCount r' = activeControllerCount r" using assms by (simp only: same_core_def)
  then show ?thesis unfolding row_ok_def len cnt using ok by auto
qed

lemma same_core_pad_ok:
  assumes "same_core r r'" "length (controllers r) = MAX_CONTROLLERS_PER_CONN"
  shows "pad_ok b r' pad = pad_ok b r pad"
proof (cases "d_ctrlIdx (pd_desc pad) < 16")
  case True
  then have e: "active (controllers r' ! d_ctrlIdx (pd_desc pad)) = active (controllers r ! d_ctrlIdx (pd_desc pad))"
      "identity (controllers r' ! d_ctrlIdx (pd_desc pad)) = identity (controllers r ! d_ctrlIdx (pd_desc pad))"
    using same_core_nth [OF assms(1)] assms(2) by (auto simp: pad_core_def)
  show ?thesis unfolding pad_ok_def Let_def e by (rule refl)
next
  case False
  then show ?thesis by (cases "pd_kind pad") (simp_all add: pad_ok_def Let_def)
qed

section \<open>The mirror of one row\<close>

definition mirrors :: "connection \<Rightarrow> hot_slot \<Rightarrow> bool" where
  "mirrors r h \<longleftrightarrow>
     hs_token h = token r \<and> hs_loadKey h = sessionKey r \<and> hs_row h = row r \<and>
     hs_loadName h = take (utf8Prefix (string_bytes (deviceName r)) HOT_NAME_BYTES)
       (string_bytes (deviceName r)) \<and>
     hs_ctrl h = map ctrlWord (controllers r) \<and> hs_padInfo h = map padInfoWord (controllers r) \<and>
     hs_padGen h = map padGenWord (controllers r) \<and>
     hs_padStamp h = map padStampWord (controllers r) \<and> hs_session h = sessionWord r"

lemma same_core_words:
  assumes "same_core r r'"
  shows "map ctrlWord (controllers r') = map ctrlWord (controllers r)"
    "map padInfoWord (controllers r') = map padInfoWord (controllers r)"
    "map padGenWord (controllers r') = map padGenWord (controllers r)"
    "map padStampWord (controllers r') = map padStampWord (controllers r)"
    "sessionWord r' = sessionWord r"
proof -
  show "map ctrlWord (controllers r') = map ctrlWord (controllers r)"
    "map padInfoWord (controllers r') = map padInfoWord (controllers r)"
    "map padGenWord (controllers r') = map padGenWord (controllers r)"
    "map padStampWord (controllers r') = map padStampWord (controllers r)"
    by (rule same_core_map [OF assms]; simp add: ctrlWord_def padInfoWord_def padGenWord_def
        padStampWord_def pad_core_def)+
  show "sessionWord r' = sessionWord r"
    using assms unfolding sessionWord_def same_core_def same_session_def by simp
qed

lemma same_core_mirrors: "same_core r r' \<Longrightarrow> mirrors r' h = mirrors r h"
  by (simp add: mirrors_def same_core_words) (simp add: same_core_def same_session_def)

lemma hs_writing_odd: "hs_writing h \<longleftrightarrow> odd (hs_gen h)"
  by (simp add: hs_writing_def and_one_eq odd_iff_mod_2_eq_one)

section \<open>Owner words\<close>

text \<open>\<open>holds r x i\<close>: controller \<open>i\<close> of the row is bound to serial \<open>x\<close>.\<close>

definition holds :: "connection \<Rightarrow> nat \<Rightarrow> nat \<Rightarrow> bool" where
  "holds r x i \<longleftrightarrow>
     i < length (controllers r) \<and> active (controllers r ! i) \<and> serialNo (controllers r ! i) = x"

lemma holds_in_held: "x \<in># held r \<longleftrightarrow> (\<exists>i. holds r x i)"
  by (auto simp: held_def holds_def in_set_conv_nth)

lemma same_core_holds: "same_core r r' \<Longrightarrow> holds r' x i = holds r x i"
  using same_core_nth [of r r' i] same_core_length [of r r'] by (auto simp: holds_def pad_core_def)

definition owners_ok :: "connection set \<Rightarrow> u32 list \<Rightarrow> bool" where
  "owners_ok R po \<longleftrightarrow>
     length po = MAX_BACKEND_CONTROLLERS + 1 \<and>
     (\<forall>x. 1 \<le> x \<and> x \<le> MAX_BACKEND_CONTROLLERS \<longrightarrow>
        (\<forall>r\<in>R. \<forall>i. holds r x i \<longrightarrow> po ! x = hotPadOwner (slot r) i) \<and>
        (po ! x \<noteq> 0 \<longrightarrow> (\<exists>r\<in>R. \<exists>i. holds r x i)))"

lemma length_clear_owners [simp]: "length (clear_owners r po) = length po"
  by (simp add: clear_owners_def)

lemma set_owners_fold:
  assumes "x < length po" "\<And>i. i \<in> set is \<Longrightarrow> i < length (controllers r)"
    and "\<And>i. holds r x i \<Longrightarrow> i \<in> set is \<Longrightarrow> i = k" "1 \<le> x" "x \<le> MAX_BACKEND_CONTROLLERS"
  shows "length (fold (\<lambda>i po. let c = controllers r ! i in
         if \<not> active c \<or> serialNo c = 0 \<or> serialNo c > MAX_BACKEND_CONTROLLERS then po
         else po[serialNo c := hotPadOwner (slot r) i]) is po) = length po \<and>
    fold (\<lambda>i po. let c = controllers r ! i in
         if \<not> active c \<or> serialNo c = 0 \<or> serialNo c > MAX_BACKEND_CONTROLLERS then po
         else po[serialNo c := hotPadOwner (slot r) i]) is po ! x =
    (if holds r x k \<and> k \<in> set is then hotPadOwner (slot r) k else po ! x)"
  using assms
proof (induction "is" arbitrary: po)
  case Nil
  then show ?case by simp
next
  case (Cons i "is")
  let ?c = "controllers r ! i"
  let ?po = "if \<not> active ?c \<or> serialNo ?c = 0 \<or> serialNo ?c > 16 then po
         else po[serialNo ?c := hotPadOwner (slot r) i]"
  have i: "i < length (controllers r)" using Cons.prems(2) by simp
  have step: "?po ! x = (if holds r x i then hotPadOwner (slot r) i else po ! x)"
    using i Cons.prems(1,4,5) by (auto simp: holds_def)
  have "x < length ?po" using Cons.prems(1) by simp
  then have IH: "length (fold (\<lambda>i po. let c = controllers r ! i in
         if \<not> active c \<or> serialNo c = 0 \<or> serialNo c > 16 then po
         else po[serialNo c := hotPadOwner (slot r) i]) is ?po) = length ?po \<and>
    fold (\<lambda>i po. let c = controllers r ! i in
         if \<not> active c \<or> serialNo c = 0 \<or> serialNo c > 16 then po
         else po[serialNo c := hotPadOwner (slot r) i]) is ?po ! x =
    (if holds r x k \<and> k \<in> set is then hotPadOwner (slot r) k else ?po ! x)"
    using Cons.prems by (intro Cons.IH) auto
  have "holds r x i \<Longrightarrow> i = k" using Cons.prems(3) by simp
  then show ?case using IH step by (auto simp: Let_def)
qed

lemma set_owners_nth:
  assumes "row_ok r" "length po = 17" "1 \<le> x" "x \<le> 16"
    and uniq: "\<And>i j. holds r x i \<Longrightarrow> holds r x j \<Longrightarrow> i = j"
  shows "length (set_owners r po) = 17"
    and "holds r x i \<Longrightarrow> set_owners r po ! x = hotPadOwner (slot r) i"
    and "\<not> (\<exists>i. holds r x i) \<Longrightarrow> set_owners r po ! x = po ! x"
proof -
  let ?k = "THE i. holds r x i"
  have k: "i = ?k" if "holds r x i" for i using uniq that by (metis the_equality)
  have len: "length (controllers r) = 16" using assms(1) by (simp add: row_ok_def)
  note f = set_owners_fold [of x po "[0..<16]" r ?k, folded set_owners_def]
  have F: "length (set_owners r po) = length po \<and>
      set_owners r po ! x = (if holds r x ?k \<and> ?k \<in> set [0..<16] then hotPadOwner (slot r) ?k else po ! x)"
    by (rule f) (use assms k len in \<open>auto simp del: upt_rec_numeral\<close>)
  then show "length (set_owners r po) = 17" using assms(2) by simp
  show "set_owners r po ! x = hotPadOwner (slot r) i" if h: "holds r x i"
  proof -
    have "i < 16" using h len by (simp add: holds_def)
    then have "holds r x ?k \<and> ?k \<in> set [0..<16]" using h k [OF h] by (simp del: upt_rec_numeral)
    then show ?thesis using F k [OF h] by simp
  qed
  show "set_owners r po ! x = po ! x" if "\<not> (\<exists>i. holds r x i)" using F that by auto
qed

lemma clear_owners_nth:
  assumes "x < length po" "1 \<le> x"
  shows "clear_owners r po ! x =
    (if po ! x \<noteq> 0 \<and> hotOwnerSlot (po ! x) = int (slot r) \<and>
        (\<not> active (controllers r ! hotOwnerIndex (po ! x)) \<or>
         serialNo (controllers r ! hotOwnerIndex (po ! x)) \<noteq> x)
     then 0 else po ! x)"
  using assms by (auto simp: clear_owners_def Let_def)

text \<open>
  Publishing the new version of a row: the owner words are right for it and for every other row.
\<close>

lemma publish_owners_ok:
  assumes old: "owners_ok (insert r0 R) po" and row: "row_ok r" "row_ok r0"
    and sl: "slot r = slot r0" "slot r < MAX_SESSIONS"
    and apart: "\<And>r'. r' \<in> R \<Longrightarrow> slot r' \<noteq> slot r \<and> slot r' < MAX_SESSIONS \<and> row_ok r'"
    and free: "\<And>r' x i j. r' \<in> R \<Longrightarrow> holds r x i \<Longrightarrow> \<not> holds r' x j"
    and uniq: "\<And>x i j. holds r x i \<Longrightarrow> holds r x j \<Longrightarrow> i = j"
  shows "owners_ok (insert r R) (set_owners r (clear_owners r po))"
proof -
  have len: "length po = 17" using old by (simp add: owners_ok_def)
  note so = set_owners_nth [OF row(1) _ _ _ uniq, of "clear_owners r po"]
  have idx: "i < 256" if "holds r' x i" "row_ok r'" for r' x i
    using that by (simp add: holds_def row_ok_def)
  show ?thesis
    unfolding owners_ok_def
  proof (intro conjI allI impI)
    show "length (set_owners r (clear_owners r po)) = 16 + 1" using so(1) [of 1] len by simp
  next
    fix x :: nat
    assume x: "1 \<le> x \<and> x \<le> 16"
    let ?w = "set_owners r (clear_owners r po) ! x"
    have po: "\<And>r' i. r' \<in> insert r0 R \<Longrightarrow> holds r' x i \<Longrightarrow> po ! x = hotPadOwner (slot r') i"
        "po ! x \<noteq> 0 \<Longrightarrow> \<exists>r'\<in>insert r0 R. \<exists>i. holds r' x i"
      using old x by (auto simp: owners_ok_def)
    have mine: "holds r x i \<Longrightarrow> ?w = hotPadOwner (slot r) i" for i using so(2) len x by simp
    have other: "?w = po ! x" if h: "r' \<in> R" "holds r' x i" for r' i
    proof -
      have nr: "\<not> (\<exists>i. holds r x i)" using free [OF h(1)] h(2) by blast
      have "hotOwnerSlot (po ! x) = int (slot r')"
        using po(1) [of r' i] h hotPadOwner_read(1) [of "slot r'" i] apart [OF h(1)] idx [OF h(2)]
        by simp
      then have "clear_owners r po ! x = po ! x"
        using clear_owners_nth [of x po r] x len apart [OF h(1)] by simp
      then show ?thesis using so(3) nr len x by simp
    qed
    show "\<forall>r'\<in>insert r R. \<forall>i. holds r' x i \<longrightarrow> ?w = hotPadOwner (slot r') i"
      using mine other po(1) by auto
    show "\<exists>r'\<in>insert r R. \<exists>i. holds r' x i" if w: "?w \<noteq> 0"
    proof (rule ccontr)
      assume n: "\<not> (\<exists>r'\<in>insert r R. \<exists>i. holds r' x i)"
      then have eq: "?w = clear_owners r po ! x" using so(3) len x by simp
      then have nz: "po ! x \<noteq> 0" using w clear_owners_nth [of x po r] x len by (auto split: if_splits)
      then obtain i where h0: "holds r0 x i" using po(2) n by auto
      have rd: "hotOwnerSlot (po ! x) = int (slot r)" "hotOwnerIndex (po ! x) = i"
        using po(1) [of r0 i] h0 hotPadOwner_read [of "slot r0" i] sl idx [OF h0 row(2)] by auto
      have "\<not> holds r x i" using n by blast
      moreover have "i < length (controllers r)"
        using h0 row by (simp add: holds_def row_ok_def)
      ultimately have "clear_owners r po ! x = 0"
        using clear_owners_nth [of x po r] x len nz rd by (auto simp: holds_def)
      then show False using w eq by simp
    qed
  qed
qed

section \<open>The mirror of the table\<close>

text \<open>A slot that no row has shows no controller, so a reader that kept its place finds nothing there.\<close>

definition vacant :: "hot_slot \<Rightarrow> bool" where
  "vacant h \<longleftrightarrow> (\<forall>i<MAX_CONTROLLERS_PER_CONN. hs_ctrl h ! i = 0)"

definition hot_ok :: "connection set \<Rightarrow> hot_table \<Rightarrow> bool" where
  "hot_ok R t \<longleftrightarrow>
     length (tokens t) = MAX_SESSIONS \<and> length (slots t) = MAX_SESSIONS \<and>
     (\<forall>i<MAX_SESSIONS. \<not> hs_writing (slots t ! i)) \<and>
     (\<forall>i<MAX_SESSIONS. tokens t ! i \<noteq> 0 \<longrightarrow> (\<exists>r\<in>R. slot r = i)) \<and>
     (\<forall>i<MAX_SESSIONS. vacant (slots t ! i) \<or> (\<exists>r\<in>R. slot r = i)) \<and>
     (\<forall>r\<in>R. tokens t ! slot r = token r \<and> mirrors r (slots t ! slot r)) \<and>
     owners_ok R (padOwners t)"

lemma owners_ok_empty: "owners_ok {} (replicate (MAX_BACKEND_CONTROLLERS + 1) 0)"
  by (auto simp: owners_ok_def nth_Cons' simp del: replicate.simps)

lemma hot_ok_default [simp]: "hot_ok {} default_hot_table"
proof -
  have "\<not> hs_writing default_hot_slot" "vacant default_hot_slot"
    by (simp_all add: hs_writing_odd default_hot_slot_def vacant_def)
  then show ?thesis
    unfolding hot_ok_def default_hot_table_def hot_table.simps
    using owners_ok_empty by simp
qed

lemma upd_slot_same: "i < length (slots t) \<Longrightarrow> upd_slot i (\<lambda>h. h) t = t"
  by (simp add: upd_slot_def)

lemma ConnectionWrite_upd:
  assumes "slot r < length (slots t)"
  shows "ConnectionWrite r (upd_slot (slot r) g) t =
    t\<lparr>slots := (slots t)[slot r :=
          hs_endWrite (publish_words r (g (hs_beginWrite (slots t ! slot r))))],
      padOwners := set_owners r (clear_owners r (padOwners t))\<rparr>"
  using assms by (simp add: ConnectionWrite_def publishControllers_def upd_slot_def)

lemma ConnectionWrite_id:
  assumes "slot r < length (slots t)"
  shows "ConnectionWrite r (\<lambda>t. t) t =
    t\<lparr>slots := (slots t)[slot r :=
          hs_endWrite (publish_words r (hs_beginWrite (slots t ! slot r)))],
      padOwners := set_owners r (clear_owners r (padOwners t))\<rparr>"
  using assms by (simp add: ConnectionWrite_def publishControllers_def upd_slot_def)

text \<open>The slot after a write: its generation is even again, its words are the row's.\<close>

lemma written_slot:
  assumes "hs_gen (g (hs_beginWrite h)) = hs_gen (hs_beginWrite h)"
  shows "hs_writing (hs_endWrite (publish_words r (g (hs_beginWrite h)))) = hs_writing h"
  using assms
  by (simp add: hs_writing_odd hs_endWrite_def publish_words_def hs_beginWrite_def)

lemma publish_words_simps [simp]:
  "hs_gen (publish_words r h) = hs_gen h" "hs_token (publish_words r h) = hs_token h"
  "hs_loadKey (publish_words r h) = hs_loadKey h" "hs_row (publish_words r h) = hs_row h"
  "hs_loadName (publish_words r h) = hs_loadName h"
  "hs_keyEpoch (publish_words r h) = hs_keyEpoch h"
  "hs_replayKeyEpoch (publish_words r h) = hs_replayKeyEpoch h"
  "hs_lastCounter (publish_words r h) = hs_lastCounter h"
  "hs_txCounter (publish_words r h) = hs_txCounter h"
  "hs_clientAddr (publish_words r h) = hs_clientAddr h"
  "hs_lastPacketTicks (publish_words r h) = hs_lastPacketTicks h"
  "hs_feedbackPending (publish_words r h) = hs_feedbackPending h"
  by (simp_all add: publish_words_def hs_loadKey_def hs_loadName_def)

lemma gen_write_simps [simp]:
  "hs_token (hs_endWrite h) = hs_token h" "hs_loadKey (hs_endWrite h) = hs_loadKey h"
  "hs_row (hs_endWrite h) = hs_row h" "hs_loadName (hs_endWrite h) = hs_loadName h"
  "hs_ctrl (hs_endWrite h) = hs_ctrl h" "hs_padInfo (hs_endWrite h) = hs_padInfo h"
  "hs_padGen (hs_endWrite h) = hs_padGen h" "hs_padStamp (hs_endWrite h) = hs_padStamp h"
  "hs_session (hs_endWrite h) = hs_session h" "hs_keyEpoch (hs_endWrite h) = hs_keyEpoch h"
  "hs_replayKeyEpoch (hs_endWrite h) = hs_replayKeyEpoch h"
  "hs_txCounter (hs_endWrite h) = hs_txCounter h" "hs_clientAddr (hs_endWrite h) = hs_clientAddr h"
  "hs_lastPacketTicks (hs_endWrite h) = hs_lastPacketTicks h"
  "hs_feedbackPending (hs_endWrite h) = hs_feedbackPending h"
  "hs_token (hs_beginWrite h) = hs_token h" "hs_loadKey (hs_beginWrite h) = hs_loadKey h"
  "hs_row (hs_beginWrite h) = hs_row h" "hs_loadName (hs_beginWrite h) = hs_loadName h"
  "hs_keyEpoch (hs_beginWrite h) = hs_keyEpoch h"
  "hs_replayKeyEpoch (hs_beginWrite h) = hs_replayKeyEpoch h"
  "hs_txCounter (hs_beginWrite h) = hs_txCounter h" "hs_clientAddr (hs_beginWrite h) = hs_clientAddr h"
  "hs_lastPacketTicks (hs_beginWrite h) = hs_lastPacketTicks h"
  "hs_feedbackPending (hs_beginWrite h) = hs_feedbackPending h"
  by (simp_all add: hs_endWrite_def hs_beginWrite_def hs_loadKey_def hs_loadName_def)

lemma mirrors_written:
  "mirrors r (hs_endWrite (publish_words r h)) \<longleftrightarrow>
     hs_token h = token r \<and> hs_loadKey h = sessionKey r \<and> hs_row h = row r \<and>
     hs_loadName h = take (utf8Prefix (string_bytes (deviceName r)) HOT_NAME_BYTES)
       (string_bytes (deviceName r))"
  by (simp add: mirrors_def) (simp add: publish_words_def)

text \<open>
  Everything a table needs for the other rows \<open>R\<close> while one slot is being rewritten.
\<close>

definition hot_except :: "nat \<Rightarrow> connection set \<Rightarrow> hot_table \<Rightarrow> bool" where
  "hot_except k R t \<longleftrightarrow>
     length (tokens t) = MAX_SESSIONS \<and> length (slots t) = MAX_SESSIONS \<and>
     (\<forall>i<MAX_SESSIONS. \<not> hs_writing (slots t ! i)) \<and>
     (\<forall>i<MAX_SESSIONS. i \<noteq> k \<longrightarrow> tokens t ! i \<noteq> 0 \<longrightarrow> (\<exists>r\<in>R. slot r = i)) \<and>
     (\<forall>i<MAX_SESSIONS. i \<noteq> k \<longrightarrow> vacant (slots t ! i) \<or> (\<exists>r\<in>R. slot r = i)) \<and>
     (\<forall>r\<in>R. slot r \<noteq> k \<and> slot r < MAX_SESSIONS \<and> row_ok r \<and>
        tokens t ! slot r = token r \<and> mirrors r (slots t ! slot r))"

lemma hot_ok_rewritten:
  assumes ex: "hot_except (slot r) R t" and sl: "slot r < MAX_SESSIONS"
    and tok: "tokens t' = (tokens t)[slot r := token r]"
    and slt: "slots t' = (slots t)[slot r := h]" "\<not> hs_writing h" "mirrors r h"
    and own: "owners_ok (insert r R) (padOwners t')"
  shows "hot_ok (insert r R) t'"
  using assms unfolding hot_ok_def hot_except_def by (auto simp: nth_list_update)

lemma hot_ok_dropped:
  assumes ex: "hot_except (slot r) R t" and sl: "slot r < MAX_SESSIONS"
    and tok: "tokens t' = (tokens t)[slot r := 0]"
    and slt: "slots t' = (slots t)[slot r := h]" "\<not> hs_writing h" "vacant h"
    and own: "owners_ok (insert r R) (padOwners t')" and none: "held r = {#}"
  shows "hot_ok R t'"
proof -
  have "\<not> holds r x i" for x i using holds_in_held [of x r] none by auto
  then have "owners_ok R (padOwners t')" using own by (auto simp: owners_ok_def)
  then show ?thesis
    using assms(1-6) unfolding hot_ok_def hot_except_def by (auto simp: nth_list_update)
qed

end
