(* ===== verification/Session_Invariant.thy ===== *)
theory Session_Invariant
  imports Session_Mirror
begin

text \<open>
  The invariant of \<^verbatim>\<open>SessionService\<close>: distinct rows under their tokens, every serial in use held by
  exactly one controller or by the operation in flight, pad counts that add up, and a hot table that
  mirrors the rows.  One lemma per locked section shows that it keeps the invariant for the serials
  it has in flight; the entry points follow by composition.
\<close>

section \<open>The invariant\<close>

definition held_rows :: "(u32 \<times> connection) list \<Rightarrow> nat multiset" where
  "held_rows es = sum_list (map (\<lambda>e. held (snd e)) es)"

definition count_rows :: "(u32 \<times> connection) list \<Rightarrow> int" where
  "count_rows es = sum_list (map (\<lambda>e. activeControllerCount (snd e)) es)"

definition rows_ok :: "(u32 \<times> connection) list \<Rightarrow> bool" where
  "rows_ok es \<longleftrightarrow>
     distinct (map fst es) \<and> distinct (map (\<lambda>e. deviceId (snd e)) es) \<and>
     distinct (map (\<lambda>e. connectionId (snd e)) es) \<and> distinct (map (\<lambda>e. slot (snd e)) es) \<and>
     (\<forall>e\<in>set es. fst e = token (snd e) \<and> fst e \<noteq> 0 \<and> row_ok (snd e) \<and>
        slot (snd e) < MAX_SESSIONS \<and> length (sessionKey (snd e)) = CRYPTO_KEY_SIZE)"

text \<open>
  What the receive thread keeps of its pad cache: no write is open, the published generation and
  flags are its own, and the microphone allowance is not overdrawn.
\<close>

definition rx_ok :: "rx_pad \<Rightarrow> bool" where
  "rx_ok rx \<longleftrightarrow>
     even (rp_seq rx) \<and> rp_gen rx = rp_ownGen rx \<and> rp_flags rx = rp_ownFlags rx \<and>
     unat (rp_micPacketsInWindow rx) \<le> MIC_AUDIO_MAX_PACKETS_PER_SEC"

text \<open>Every queued item indexes inside the workers' tables, and the rings are within capacity.\<close>

definition queues_ok :: "'b svc \<Rightarrow> bool" where
  "queues_ok s \<longleftrightarrow>
     length (s_frames s) \<le> POINTER_FRAME_CAPACITY \<and> length (s_micQueue s) \<le> MIC_PACKET_CAPACITY \<and>
     (\<forall>f\<in>set (s_frames s). 1 \<le> pf_serial f \<and> pf_serial f \<le> MAX_BACKEND_CONTROLLERS \<and>
        pf_slot f < MAX_SESSIONS) \<and>
     (\<forall>p\<in>set (s_micQueue s). 1 \<le> mp_serial p \<and> mp_serial p \<le> MAX_BACKEND_CONTROLLERS \<and>
        mp_slot p < MAX_SESSIONS \<and> mp_ctrlIdx p < MAX_CONTROLLERS_PER_CONN \<and>
        length (mp_bytes p) \<le> MIC_PACKET_MAX_BYTES)"

definition env_ok :: "'b svc \<Rightarrow> bool" where
  "env_ok s \<longleftrightarrow>
     0 \<notin> set (s_rng s) \<and>
     (\<forall>kd. s_keyDeriver s = Some kd \<longrightarrow> (\<forall>k salt tok. length (kd k salt tok) = CRYPTO_KEY_SIZE)) \<and>
     length (s_rxPads s) = MAX_BACKEND_CONTROLLERS + 1 \<and> length (s_rxSessions s) = MAX_SESSIONS \<and>
     (\<forall>rx\<in>set (s_rxPads s). rx_ok rx) \<and> queues_ok s \<and> commands_ok s"

text \<open>\<open>svc_inv F s\<close>: the invariant with the serials \<open>F\<close> in the hands of a running operation.\<close>

definition svc_inv :: "nat multiset \<Rightarrow> 'b svc \<Rightarrow> bool" where
  "svc_inv F s \<longleftrightarrow>
     rows_ok (s_conns s) \<and> bal (held_rows (s_conns s) + F) s \<and>
     s_activePads s = count_rows (s_conns s) \<and>
     hot_ok (snd ` set (s_conns s)) (s_hot s) \<and> env_ok s"

section \<open>One row and the others\<close>

definition others :: "u32 \<Rightarrow> (u32 \<times> connection) list \<Rightarrow> (u32 \<times> connection) list" where
  "others tok es = filter (\<lambda>e. fst e \<noteq> tok) es"

lemma sum_others:
  fixes f :: "u32 \<times> connection \<Rightarrow> 'a :: comm_monoid_add"
  assumes "distinct (map fst es)" "(tok, r) \<in> set es"
  shows "sum_list (map f es) = sum_list (map f (others tok es)) + f (tok, r)"
  using assms
proof (induction es)
  case Nil
  then show ?case by simp
next
  case (Cons e es)
  show ?case
  proof (cases "fst e = tok")
    case True
    then have "\<forall>x\<in>set es. fst x \<noteq> tok" using Cons.prems(1) by (auto simp: image_iff)
    then have "others tok es = es" by (simp add: others_def)
    moreover have "e = (tok, r)" using Cons.prems True by (auto simp: image_iff)
    ultimately show ?thesis by (simp add: others_def add.commute)
  next
    case False
    then have "(tok, r) \<in> set es" using Cons.prems(2) by auto
    then have "sum_list (map f es) = sum_list (map f (others tok es)) + f (tok, r)"
      using Cons by simp
    then show ?thesis using False by (simp add: others_def add.assoc)
  qed
qed

lemma deref_in:
  assumes "rows_ok (s_conns s)" "tok \<in> fst ` set (s_conns s)"
  shows "(tok, deref tok s) \<in> set (s_conns s)"
proof -
  obtain r where r: "(tok, r) \<in> set (s_conns s)" using assms(2) by auto
  have "map_of (s_conns s) tok = Some r" using assms(1) r by (simp add: rows_ok_def)
  then show ?thesis using r by (simp add: deref_def find_conn_def)
qed

lemma deref_eq:
  assumes "rows_ok (s_conns s)" "(tok, r) \<in> set (s_conns s)"
  shows "deref tok s = r"
  using assms by (simp add: rows_ok_def deref_def find_conn_def)

lemma put_row_conns:
  assumes "(tok, r0) \<in> set (s_conns s)" "token r = tok"
  shows "fst ` set (s_conns (put_row r s)) = fst ` set (s_conns s)"
    "set (s_conns (put_row r s)) = insert (tok, r) (set (others tok (s_conns s)))"
    "others tok (s_conns (put_row r s)) = others tok (s_conns s)"
    "map fst (s_conns (put_row r s)) = map fst (s_conns s)"
proof -
  let ?g = "\<lambda>e. if fst e = tok then (fst e, r) else e"
  have c: "s_conns (put_row r s) = map ?g (s_conns s)" by (simp add: put_row_def assms(2))
  show "set (s_conns (put_row r s)) = insert (tok, r) (set (others tok (s_conns s)))"
  proof (intro equalityI subsetI)
    fix e assume "e \<in> set (s_conns (put_row r s))"
    then show "e \<in> insert (tok, r) (set (others tok (s_conns s)))"
      unfolding c others_def by auto
  next
    fix e assume "e \<in> insert (tok, r) (set (others tok (s_conns s)))"
    then have "e = ?g (if e = (tok, r) then (tok, r0) else e) \<and>
        (if e = (tok, r) then (tok, r0) else e) \<in> set (s_conns s)"
      using assms(1) unfolding others_def by auto
    then show "e \<in> set (s_conns (put_row r s))"
      unfolding c set_map by (intro image_eqI [of _ _ "if e = (tok, r) then (tok, r0) else e"]) blast+
  qed
  have "filter (\<lambda>e. fst e \<noteq> tok) (map ?g es) = filter (\<lambda>e. fst e \<noteq> tok) es" for es
    by (induction es) auto
  then show "others tok (s_conns (put_row r s)) = others tok (s_conns s)"
    unfolding c others_def by blast
  show "map fst (s_conns (put_row r s)) = map fst (s_conns s)" unfolding c by simp
  then show "fst ` set (s_conns (put_row r s)) = fst ` set (s_conns s)"
    by (metis list.set_map)
qed

lemma put_row_simps [simp]:
  "s_hot (put_row r s) = s_hot s" "s_pool (put_row r s) = s_pool s"
  "s_activePads (put_row r s) = s_activePads s" "s_rng (put_row r s) = s_rng s"
  "s_keyDeriver (put_row r s) = s_keyDeriver s" "s_rxPads (put_row r s) = s_rxPads s"
  "s_rxSessions (put_row r s) = s_rxSessions s" "s_port (put_row r s) = s_port s"
  "s_backend (put_row r s) = s_backend s" "s_out (put_row r s) = s_out s"
  "s_nextRow (put_row r s) = s_nextRow s" "s_policy (put_row r s) = s_policy s"
  "s_frames (put_row r s) = s_frames s" "s_micQueue (put_row r s) = s_micQueue s"
  "s_commands (put_row r s) = s_commands s"
  by (simp_all add: put_row_def)

text \<open>A row replaced by one with the same identity.\<close>

lemma rows_ok_put:
  assumes ok: "rows_ok (s_conns s)" and r0: "(tok, r0) \<in> set (s_conns s)"
    and r: "token r = tok" "deviceId r = deviceId r0" "connectionId r = connectionId r0"
      "slot r = slot r0" "row_ok r" "length (sessionKey r) = CRYPTO_KEY_SIZE"
  shows "rows_ok (s_conns (put_row r s))"
proof -
  let ?g = "\<lambda>e. if fst e = tok then (fst e, r) else e"
  have c: "s_conns (put_row r s) = map ?g (s_conns s)" by (simp add: put_row_def r(1))
  have uniq: "snd e = r0" if "e \<in> set (s_conns s)" "fst e = tok" for e
  proof -
    have "distinct (map fst (s_conns s))" using ok by (simp add: rows_ok_def)
    then have "inj_on fst (set (s_conns s))" by (simp add: distinct_map)
    from inj_onD [OF this, of e "(tok, r0)"] that r0 show ?thesis by simp
  qed
  have keep: "map (\<lambda>e. f (snd e)) (map ?g (s_conns s)) = map (\<lambda>e. f (snd e)) (s_conns s)"
    if "f r = f r0" for f :: "connection \<Rightarrow> 'x"
  proof -
    have "f (snd (?g e)) = f (snd e)" if "e \<in> set (s_conns s)" for e
      using uniq [OF that] \<open>f r = f r0\<close> by (cases "fst e = tok") simp_all
    then show ?thesis unfolding map_map comp_def by (rule map_cong [OF refl])
  qed
  have fst: "map fst (map ?g (s_conns s)) = map fst (s_conns s)" by simp
  have all: "\<forall>e\<in>set (map ?g (s_conns s)). fst e = token (snd e) \<and> fst e \<noteq> 0 \<and> row_ok (snd e) \<and>
      slot (snd e) < MAX_SESSIONS \<and> length (sessionKey (snd e)) = CRYPTO_KEY_SIZE"
    using ok r r0 by (auto simp: rows_ok_def)
  have d: "distinct (map fst (s_conns s))" "distinct (map (\<lambda>e. deviceId (snd e)) (s_conns s))"
      "distinct (map (\<lambda>e. connectionId (snd e)) (s_conns s))"
      "distinct (map (\<lambda>e. slot (snd e)) (s_conns s))"
    using ok by (simp_all only: rows_ok_def)
  show ?thesis
    unfolding c rows_ok_def fst keep [of deviceId, OF r(2)] keep [of connectionId, OF r(3)]
      keep [of slot, OF r(4)]
    by (intro conjI d all)
qed

section \<open>Serials are held once\<close>

lemma count_held_two:
  assumes "holds r x i" "holds r x j" "i \<noteq> j"
  shows "2 \<le> count (held r) x"
proof -
  let ?cs = "controllers r"
  let ?f = "\<lambda>k. count (one_held (?cs ! k)) x"
  have "held r = (\<Sum>k<length ?cs. one_held (?cs ! k))"
    unfolding held_def mset_held by (simp add: sum_list_sum_nth atLeast0LessThan)
  then have "count (held r) x = count (\<Sum>k<length ?cs. one_held (?cs ! k)) x" by (rule arg_cong)
  also have "\<dots> = (\<Sum>k<length ?cs. ?f k)" by (rule count_sum)
  finally have "count (held r) x = (\<Sum>k<length ?cs. ?f k)" .
  moreover have "(\<Sum>k\<in>{i, j}. ?f k) \<le> (\<Sum>k<length ?cs. ?f k)"
    by (rule sum_mono2) (use assms in \<open>auto simp: holds_def\<close>)
  moreover have "(\<Sum>k\<in>{i, j}. ?f k) = 2" using assms by (simp add: holds_def one_held_def)
  ultimately show ?thesis by simp
qed

lemma bal_count:
  assumes "bal O' s"
  shows "count O' x \<le> 1"
  using assms pool.inuse_count [of "s_pool s" x] by (simp add: bal_def)

lemma held_rows_member:
  assumes "e \<in> set es"
  shows "held (snd e) \<subseteq># held_rows es"
proof -
  have "\<exists>xs ys. es = xs @ e # ys" using assms by (rule split_list)
  then show ?thesis by (auto simp: held_rows_def)
qed

lemma holds_heldI: "holds r x i \<Longrightarrow> x \<in># held r"
  unfolding holds_in_held by (rule exI)

lemma serials_apart:
  assumes b: "bal (held_rows os + held r + F) s" and os: "rs = snd ` set os"
  shows "r' \<in> rs \<Longrightarrow> holds r x i \<Longrightarrow> \<not> holds r' x j"
    and "holds r x i \<Longrightarrow> holds r x j \<Longrightarrow> i = j"
proof -
  have one: "count (held_rows os) x + count (held r) x \<le> 1" for x
    using bal_count [OF b, of x] by simp
  show "\<not> holds r' x j" if h: "r' \<in> rs" "holds r x i"
  proof
    assume h': "holds r' x j"
    obtain e where e: "e \<in> set os" "r' = snd e" using h(1) unfolding os by (rule imageE)
    have "x \<in># held (snd e)" using holds_heldI [OF h'] by (simp only: e(2))
    then have m: "x \<in># held_rows os" by (rule mset_subset_eqD [OF held_rows_member [OF e(1)]])
    have "x \<in># held r" using h(2) by (rule holds_heldI)
    with m have "0 < count (held_rows os) x" "0 < count (held r) x" by (simp_all only: count_greater_zero_iff)
    then show False using one [of x] by linarith
  qed
  show "i = j" if "holds r x i" "holds r x j"
  proof (rule ccontr)
    assume "i \<noteq> j"
    then have "2 \<le> count (held r) x" by (rule count_held_two [OF that])
    then show False using one [of x] by linarith
  qed
qed

section \<open>Publishing\<close>

lemma forwardRumbleLocked_core:
  assumes "forwardRumbleLocked now r c w force s = (sent, c', s')"
  shows "pad_core c' = pad_core c" and "quiet s s'"
  using assms by (auto simp: forwardRumbleLocked_def Let_def pad_core_def quietI split: if_splits)

lemma sendSeededRumbleLocked_core:
  assumes "sendSeededRumbleLocked now r s = (r', s')"
  shows "same_core r r' \<and> quiet s s'"
proof -
  let ?f = "\<lambda>c t. if active c \<and> motors_held (hidRumble c) \<and> \<not> lastRumbleValid c
         then case forwardRumbleLocked now r c RUMBLE_WIRE_DURATION_MS False t of
                (_, c', t') \<Rightarrow> (c', t')
         else (c, t)"
  have step: "quiet s (snd (?f c t)) \<and> pad_core (fst (?f c t)) = pad_core c" if "quiet s t" for c t
  proof (cases "active c \<and> motors_held (hidRumble c) \<and> \<not> lastRumbleValid c")
    case True
    obtain sent c' t' where fw: "forwardRumbleLocked now r c RUMBLE_WIRE_DURATION_MS False t = (sent, c', t')"
      by (metis prod_cases3)
    show ?thesis
      using True fw forwardRumbleLocked_core [OF fw] quiet_trans [OF that] by simp
  next
    case False
    then show ?thesis using that by (simp only: if_False fst_conv snd_conv)
  qed
  have "quiet s (snd (mapS ?f (controllers r) s)) \<and>
      list_all2 (\<lambda>c c'. pad_core c' = pad_core c) (controllers r) (fst (mapS ?f (controllers r) s))"
    by (rule mapS_inv [where I = "quiet s"]) (simp, use step in blast)
  then show ?thesis
    using assms same_coreI [of r "fst (mapS ?f (controllers r) s)"]
    unfolding sendSeededRumbleLocked_def by (auto split: prod.splits)
qed

text \<open>Changes that only the hot table and the log see.\<close>

definition same_but_hot :: "'b svc \<Rightarrow> 'b svc \<Rightarrow> bool" where
  "same_but_hot s s' \<longleftrightarrow> quiet (s\<lparr>s_hot := s_hot s'\<rparr>) s'"

lemma same_but_hot_quiet: "quiet s s' \<Longrightarrow> same_but_hot s s'"
  by (simp add: same_but_hot_def quiet_def same_rows_def commands_ok_def)

lemma same_but_hotD:
  assumes "same_but_hot s s'"
  shows "s_conns s' = s_conns s" "s_pool s' = s_pool s" "s_activePads s' = s_activePads s"
    "s_port s' = s_port s" "s_backend s' = s_backend s" "env_ok s \<Longrightarrow> env_ok s'"
    "s_keyDeriver s' = s_keyDeriver s" "s_rng s' = s_rng s"
  using assms by (simp_all add: same_but_hot_def quiet_def same_rows_def env_ok_def queues_ok_def commands_ok_def)

lemma ctrlWord_eq:
  assumes "ctrl_ok i c" "ctrl_ok j c'" "ctrlWord c = ctrlWord c'"
  shows "active c = active c' \<and> serialNo c = serialNo c'"
proof -
  have act: "active c = active c'"
    using arg_cong [OF assms(3), of "\<lambda>w. w AND HOT_CTRL_ACTIVE \<noteq> 0"]
    unfolding ctrlWord_def hotCtrlWord_active by simp
  show ?thesis
  proof (cases "active c")
    case False
    then show ?thesis using assms act by (simp add: ctrl_ok_def)
  next
    case True
    then have small: "serialNo c < 256" "serialNo c' < 256"
      using assms(1,2) act by (simp_all add: ctrl_ok_def)
    have "hotCtrlWord True (of_nat (serialNo c)) = hotCtrlWord True (of_nat (serialNo c'))"
      using assms(3) True act by (simp only: ctrlWord_def)
    then have "hotCtrlWord True (of_nat (serialNo c)) AND HOT_CTRL_SERIAL_MASK
        = hotCtrlWord True (of_nat (serialNo c')) AND HOT_CTRL_SERIAL_MASK" by (rule arg_cong)
    then have "(of_nat (serialNo c) :: u32) = of_nat (serialNo c')"
      by (simp only: hotCtrlWord_serial serial_masked [OF small(1)] serial_masked [OF small(2)])
    then have "unat (of_nat (serialNo c) :: u32) = unat (of_nat (serialNo c') :: u32)" by (rule arg_cong)
    then show ?thesis using act small by (simp add: unat_of_nat)
  qed
qed

lemma owners_ok_cong:
  assumes "holds r' = holds r" "slot r' = slot r"
  shows "owners_ok (insert r' R) po = owners_ok (insert r R) po"
  unfolding owners_ok_def by (simp add: assms)

lemma hot_ok_same_core:
  assumes c: "same_core r r'"
  shows "hot_ok (insert r' R) t = hot_ok (insert r R) t"
proof -
  have sl: "slot r' = slot r" "token r' = token r"
    using c by (simp_all add: same_core_def same_session_def)
  have h: "holds r' = holds r" by (intro ext) (rule same_core_holds [OF c])
  show ?thesis
    unfolding hot_ok_def owners_ok_cong [OF h sl(1)] by (simp add: sl same_core_mirrors [OF c])
qed

lemma controllersPublished_owners:
  assumes ok: "hot_ok (insert r0 R) t" and rows: "row_ok r0" "row_ok r"
    and same: "same_session r0 r" and pub: "controllersPublished r t"
  shows "hot_ok (insert r R) t"
proof -
  have m: "mirrors r0 (slots t ! slot r0)" using ok by (simp add: hot_ok_def)
  have sl: "slot r = slot r0" "token r = token r0" using same by (simp_all add: same_session_def)
  have words: "map ctrlWord (controllers r) = map ctrlWord (controllers r0)"
    using m pub sl by (simp add: mirrors_def controllersPublished_def Let_def)
  have len: "length (controllers r) = 16" "length (controllers r0) = 16"
    using rows by (simp_all add: row_ok_def)
  have "active (controllers r ! i) = active (controllers r0 ! i) \<and>
      serialNo (controllers r ! i) = serialNo (controllers r0 ! i)" if "i < 16" for i
  proof (rule ctrlWord_eq)
    show "ctrl_ok i (controllers r ! i)" "ctrl_ok i (controllers r0 ! i)"
      using rows that by (simp_all add: row_ok_def)
    have "map ctrlWord (controllers r) ! i = map ctrlWord (controllers r0) ! i" by (simp only: words)
    then show "ctrlWord (controllers r ! i) = ctrlWord (controllers r0 ! i)" using len that by simp
  qed
  then have h: "holds r = holds r0" using len by (intro ext) (auto simp: holds_def)
  have "owners_ok (insert r R) (padOwners t)"
    using ok unfolding owners_ok_cong [OF h sl(1)] by (simp add: hot_ok_def)
  moreover have "mirrors r (slots t ! slot r)"
    using m pub same by (simp add: mirrors_def controllersPublished_def same_session_def Let_def)
  ultimately show ?thesis using ok sl by (auto simp: hot_ok_def)
qed

lemma hot_ok_except:
  assumes "hot_ok (insert r0 R) t"
    and "\<And>r'. r' \<in> R \<Longrightarrow> slot r' \<noteq> slot r0 \<and> slot r' < MAX_SESSIONS \<and> row_ok r'"
  shows "hot_except (slot r0) R t"
  using assms by (auto simp: hot_ok_def hot_except_def)

lemma written_hot_ok:
  assumes ok: "hot_ok (insert r0 R) t" and rows: "row_ok r0" "row_ok r" and sl: "slot r0 < MAX_SESSIONS"
    and same: "same_session r0 r"
    and apart: "\<And>r'. r' \<in> R \<Longrightarrow> slot r' \<noteq> slot r0 \<and> slot r' < MAX_SESSIONS \<and> row_ok r'"
    and free: "\<And>r' x i j. r' \<in> R \<Longrightarrow> holds r x i \<Longrightarrow> \<not> holds r' x j"
    and uniq: "\<And>x i j. holds r x i \<Longrightarrow> holds r x j \<Longrightarrow> i = j"
  shows "hot_ok (insert r R) (ConnectionWrite r (\<lambda>t. t) t)"
proof -
  have s: "slot r = slot r0" "token r = token r0" using same by (simp_all add: same_session_def)
  have len: "length (slots t) = 32" "length (tokens t) = 32" using ok by (simp_all add: hot_ok_def)
  let ?h = "slots t ! slot r"
  let ?h' = "hs_endWrite (publish_words r (hs_beginWrite ?h))"
  have cw: "ConnectionWrite r (\<lambda>t. t) t = t\<lparr>slots := (slots t)[slot r := ?h'],
      padOwners := set_owners r (clear_owners r (padOwners t))\<rparr>"
    by (rule ConnectionWrite_id) (use len sl s in simp)
  have m: "mirrors r0 ?h" and tk: "tokens t ! slot r = token r"
    using ok s by (simp_all add: hot_ok_def)
  show ?thesis
    unfolding cw
  proof (rule hot_ok_rewritten)
    show "hot_except (slot r) R t" using hot_ok_except [OF ok apart] s by simp
    show "slot r < 32" using sl s by simp
    show "tokens (t\<lparr>slots := (slots t)[slot r := ?h'],
        padOwners := set_owners r (clear_owners r (padOwners t))\<rparr>) = (tokens t)[slot r := token r]"
      using tk by (simp add: list_update_same_conv [THEN iffD2] len sl s flip: tk)
    show "slots (t\<lparr>slots := (slots t)[slot r := ?h'],
        padOwners := set_owners r (clear_owners r (padOwners t))\<rparr>) = (slots t)[slot r := ?h']" by simp
    show "\<not> hs_writing ?h'" using written_slot [of "\<lambda>h. h" ?h r] ok sl s by (simp add: hot_ok_def)
    show "mirrors r ?h'"
      unfolding mirrors_written using m same by (simp add: mirrors_def same_session_def)
    show "owners_ok (insert r R) (padOwners (t\<lparr>slots := (slots t)[slot r := ?h'],
        padOwners := set_owners r (clear_owners r (padOwners t))\<rparr>))"
      using publish_owners_ok [OF _ rows(2,1) s(1) _ _ free uniq, of R "padOwners t"] ok sl s apart
      by (simp add: hot_ok_def)
  qed
qed

lemma publishControllersLocked_ok:
  assumes ok: "hot_ok (insert r0 R) (s_hot s)" and rows: "row_ok r0" "row_ok r"
    and sl: "slot r0 < MAX_SESSIONS" and same: "same_session r0 r"
    and apart: "\<And>r'. r' \<in> R \<Longrightarrow> slot r' \<noteq> slot r0 \<and> slot r' < MAX_SESSIONS \<and> row_ok r'"
    and free: "\<And>r' x i j. r' \<in> R \<Longrightarrow> holds r x i \<Longrightarrow> \<not> holds r' x j"
    and uniq: "\<And>x i j. holds r x i \<Longrightarrow> holds r x j \<Longrightarrow> i = j"
    and p: "publishControllersLocked now r s = (r', s')"
  shows "same_core r r' \<and> same_but_hot s s' \<and> hot_ok (insert r' R) (s_hot s')"
proof (cases "controllersPublished r (s_hot s)")
  case True
  then show ?thesis
    using p controllersPublished_owners [OF ok rows same True]
    by (auto simp: publishControllersLocked_def same_but_hot_quiet)
next
  case False
  let ?t = "ConnectionWrite r (\<lambda>t. t) (s_hot s)"
  have ss: "sendSeededRumbleLocked now r (s\<lparr>s_hot := ?t\<rparr>) = (r', s')"
    using p False by (simp add: publishControllersLocked_def)
  note c = sendSeededRumbleLocked_core [OF ss]
  have "hot_ok (insert r R) ?t" by (rule written_hot_ok [OF ok rows sl same apart free uniq])
  then have "hot_ok (insert r' R) ?t" using c hot_ok_same_core by blast
  moreover have "s_hot s' = ?t" using c by (simp add: quiet_def same_rows_def)
  moreover have "same_but_hot s s'"
    unfolding same_but_hot_def calculation(2) using c by simp
  ultimately show ?thesis using c by simp
qed

section \<open>Opening and closing a row\<close>

lemma inv_open:
  assumes inv: "svc_inv F s" and tok: "tok \<in> fst ` set (s_conns s)"
  shows "(tok, deref tok s) \<in> set (s_conns s)" "token (deref tok s) = tok" "tok \<noteq> 0"
    "row_ok (deref tok s)" "slot (deref tok s) < MAX_SESSIONS"
    "length (sessionKey (deref tok s)) = CRYPTO_KEY_SIZE"
    "held_rows (s_conns s) = held_rows (others tok (s_conns s)) + held (deref tok s)"
    "count_rows (s_conns s)
       = count_rows (others tok (s_conns s)) + activeControllerCount (deref tok s)"
    "snd ` set (s_conns s) = insert (deref tok s) (snd ` set (others tok (s_conns s)))"
    "r' \<in> snd ` set (others tok (s_conns s)) \<Longrightarrow>
       slot r' \<noteq> slot (deref tok s) \<and> slot r' < MAX_SESSIONS \<and> row_ok r'"
proof -
  have rows: "rows_ok (s_conns s)" using inv by (simp add: svc_inv_def)
  show m: "(tok, deref tok s) \<in> set (s_conns s)" by (rule deref_in [OF rows tok])
  have d: "distinct (map fst (s_conns s))" "distinct (map (\<lambda>e. slot (snd e)) (s_conns s))"
    using rows by (simp_all add: rows_ok_def)
  have all: "token (snd e) = fst e \<and> fst e \<noteq> 0 \<and> row_ok (snd e) \<and> slot (snd e) < MAX_SESSIONS \<and>
      length (sessionKey (snd e)) = CRYPTO_KEY_SIZE" if "e \<in> set (s_conns s)" for e
    using rows that unfolding rows_ok_def by metis
  from all [OF m] show "token (deref tok s) = tok" "tok \<noteq> 0" "row_ok (deref tok s)"
    "slot (deref tok s) < MAX_SESSIONS" "length (sessionKey (deref tok s)) = CRYPTO_KEY_SIZE"
    by simp_all
  show "held_rows (s_conns s) = held_rows (others tok (s_conns s)) + held (deref tok s)"
    using sum_others [OF d(1) m, of "\<lambda>e. held (snd e)"] by (simp add: held_rows_def)
  show "count_rows (s_conns s)
       = count_rows (others tok (s_conns s)) + activeControllerCount (deref tok s)"
    using sum_others [OF d(1) m, of "\<lambda>e. activeControllerCount (snd e)"] by (simp add: count_rows_def)
  have only: "e = (tok, deref tok s)" if "e \<in> set (s_conns s)" "fst e = tok" for e
  proof -
    have "inj_on fst (set (s_conns s))" using d(1) by (simp add: distinct_map)
    from inj_onD [OF this, of e "(tok, deref tok s)"] that m show ?thesis by simp
  qed
  have "set (s_conns s) = insert (tok, deref tok s) (set (others tok (s_conns s)))"
  proof (rule set_eqI)
    fix e
    show "e \<in> set (s_conns s) \<longleftrightarrow> e \<in> insert (tok, deref tok s) (set (others tok (s_conns s)))"
      using m only [of e] unfolding others_def by (cases "fst e = tok") auto
  qed
  then show "snd ` set (s_conns s) = insert (deref tok s) (snd ` set (others tok (s_conns s)))"
    by simp
  show "slot r' \<noteq> slot (deref tok s) \<and> slot r' < MAX_SESSIONS \<and> row_ok r'"
    if r': "r' \<in> snd ` set (others tok (s_conns s))"
  proof -
    obtain e where e: "r' = snd e" "e \<in> set (s_conns s)" "fst e \<noteq> tok"
      using r' unfolding others_def by auto
    have "inj_on (\<lambda>e. slot (snd e)) (set (s_conns s))" using d(2) by (simp add: distinct_map)
    note inj = inj_onD [OF this, of e "(tok, deref tok s)", OF _ e(2) m]
    have "slot (snd e) \<noteq> slot (deref tok s)"
    proof
      assume "slot (snd e) = slot (deref tok s)"
      then have "e = (tok, deref tok s)" by (intro inj) simp
      then have "fst e = tok" by (metis fst_conv)
      then show False using e(3) by (rule notE [rotated])
    qed
    then show ?thesis using all [OF e(2)] unfolding e(1) by blast
  qed
qed

lemma inv_close:
  assumes inv: "svc_inv F s" and tok: "tok \<in> fst ` set (s_conns s)"
    and s': "s_conns s' = s_conns s" "env_ok s'"
    and r: "token r = tok" "deviceId r = deviceId (deref tok s)"
      "connectionId r = connectionId (deref tok s)" "slot r = slot (deref tok s)" "row_ok r"
      "length (sessionKey r) = CRYPTO_KEY_SIZE"
    and b: "bal (held_rows (others tok (s_conns s)) + held r + G) s'"
    and n: "s_activePads s' = count_rows (others tok (s_conns s)) + activeControllerCount r"
    and h: "hot_ok (insert r (snd ` set (others tok (s_conns s)))) (s_hot s')"
  shows "svc_inv G (put_row r s')" and "deref tok (put_row r s') = r"
    and "fst ` set (s_conns (put_row r s')) = fst ` set (s_conns s)"
proof -
  have rows: "rows_ok (s_conns s')" using inv s' by (simp add: svc_inv_def)
  have m: "(tok, deref tok s) \<in> set (s_conns s')" using inv_open(1) [OF inv tok] s' by simp
  have dr: "deref tok s' = deref tok s" using s' by (simp add: deref_def find_conn_def)
  have rows': "rows_ok (s_conns (put_row r s'))"
    by (rule rows_ok_put [OF rows m r])
  note pc = put_row_conns [OF m r(1)]
  have m': "(tok, r) \<in> set (s_conns (put_row r s'))" using pc(2) by simp
  have d: "distinct (map fst (s_conns (put_row r s')))" using rows' by (simp add: rows_ok_def)
  show der: "deref tok (put_row r s') = r" by (rule deref_eq [OF rows' m'])
  have "held_rows (s_conns (put_row r s')) = held_rows (others tok (s_conns s)) + held r"
    using sum_others [OF d m', of "\<lambda>e. held (snd e)"] unfolding pc(3) s'(1) by (simp add: held_rows_def)
  moreover have "count_rows (s_conns (put_row r s'))
      = count_rows (others tok (s_conns s)) + activeControllerCount r"
    using sum_others [OF d m', of "\<lambda>e. activeControllerCount (snd e)"] unfolding pc(3) s'(1)
    by (simp add: count_rows_def)
  moreover have "snd ` set (s_conns (put_row r s'))
      = insert r (snd ` set (others tok (s_conns s)))"
    unfolding pc(2) s'(1) by simp
  moreover have "bal (held_rows (others tok (s_conns s)) + held r + G) (put_row r s')"
    using b bal_pool_cong [of "put_row r s'" s'] by simp
  moreover have "env_ok (put_row r s')" using s'(2) by (simp add: env_ok_def queues_ok_def commands_ok_def)
  ultimately show "svc_inv G (put_row r s')" using rows' n h by (simp add: svc_inv_def)
  show "fst ` set (s_conns (put_row r s')) = fst ` set (s_conns s)" using pc(1) s'(1) by simp
qed

lemma same_rows_env: "same_rows s s' \<Longrightarrow> env_ok s \<Longrightarrow> env_ok s'"
  by (simp add: same_rows_def env_ok_def queues_ok_def)

section \<open>The locked sections\<close>

lemma commit_second_retired:
  assumes "commitPadsLocked True r change s = (r', change', s')" "pads_ok True r (tc_pads change)"
  shows "tc_retired change' = tc_retired change"
proof -
  have step: "fst (snd (snd (commit_one True pad (r1, ret, t)))) = ret"
    if "takes_part True pad \<longrightarrow> pd_kind pad = Add \<or> pd_kind pad = ReplugInPlace"
    for pad r1 ret and t :: "'a svc"
    using that
    by (auto simp: commit_one_def commitPadLocked_def addPadLocked_def refitPadLocked_def
        takes_part_def Let_def split: prod.splits if_splits pad_kind.splits)
  have kinds: "takes_part True pad \<longrightarrow> pd_kind pad = Add \<or> pd_kind pad = ReplugInPlace"
    if "pad \<in> set (tc_pads change)" for pad
    using assms(2) that by (auto simp: pads_ok_def pad_ok_def Let_def)
  have loop: "fst (snd (snd (mapS (commit_one True) pads (r1, ret, t)))) = ret"
    if "set pads \<subseteq> set (tc_pads change)" for pads r1 ret and t :: "'a svc"
    using that
  proof (induction pads arbitrary: r1 ret t)
    case Nil
    then show ?case by simp
  next
    case (Cons pad pads)
    obtain p2 r2 ret2 t2 where c: "commit_one True pad (r1, ret, t) = (p2, r2, ret2, t2)"
      by (metis prod_cases4)
    have "ret2 = ret" using step [OF kinds, of pad r1 ret t] Cons.prems c by simp
    then show ?case using Cons.IH [of r2 ret t2] Cons.prems c by (auto split: prod.splits)
  qed
  obtain ch1 s1 where cl: "clear_reopened change s = (ch1, s1)" by force
  have ch1: "tc_pads ch1 = tc_pads change" "tc_retired ch1 = tc_retired change"
    using cl by (auto simp: clear_reopened_def split: if_splits)
  obtain pads' ret' where m: "mapS (commit_one True) (tc_pads ch1) (r, tc_retired ch1, s1)
      = (pads', r', ret', s')" and ch': "change' = ch1\<lparr>tc_pads := pads', tc_retired := ret'\<rparr>"
    using assms(1) cl unfolding commitPadsLocked_def commit_one_def [abs_def]
    by (auto split: prod.splits)
  have "fst (snd (snd (mapS (commit_one True) (tc_pads change) (r, tc_retired change, s1))))
      = tc_retired change" by (rule loop) simp
  then show ?thesis using m unfolding ch1 by (simp add: ch')
qed

lemma commit_and_publish_inv:
  assumes inv: "svc_inv (F + pend b (tc_pads change) + mset (map rt_serial (tc_retired change))) s"
    and tok: "tok \<in> fst ` set (s_conns s)" and ok: "pads_ok b (deref tok s) (tc_pads change)"
    and c: "commit_and_publish b now tok change s = (change', s')"
  shows "svc_inv (F + mset (map rt_serial (tc_retired change'))) s' \<and>
    fst ` set (s_conns s') = fst ` set (s_conns s) \<and>
    list_all2 same_plan (tc_pads change) (tc_pads change') \<and>
    same_session (deref tok s) (deref tok s') \<and> s_backend s' = s_backend s \<and>
    (if b then tc_retired change' = tc_retired change
     else waiting_ok (deref tok s') (tc_pads change'))"
proof -
  let ?os = "others tok (s_conns s)"
  let ?r0 = "deref tok s"
  note o = inv_open [OF inv tok]
  obtain r1 s1 where cm: "commitPadsLocked b ?r0 change s = (r1, change', s1)"
    using c unfolding commit_and_publish_def by (auto split: prod.splits)
  obtain r2 s2 where pb: "publishControllersLocked now r1 s1 = (r2, s2)" by force
  have s': "s' = put_row r2 s2"
    using c cm pb unfolding commit_and_publish_def by (auto split: prod.splits)
  have bl: "bal (held_rows (s_conns s) + (F + pend b (tc_pads change) +
      mset (map rt_serial (tc_retired change)))) s" using inv by (simp add: svc_inv_def)
  have f: "focus ((held_rows ?os + F) + pend b (tc_pads change)) (count_rows ?os)
      (?r0, tc_retired change, s)"
    using bl inv o(4,7,8) by (simp add: focus.simps bal_def svc_inv_def ac_simps)
  note cb = commitPadsLocked_balance [OF f ok cm]
  have foc: "focus (held_rows ?os + F) (count_rows ?os) (r1, tc_retired change', s1)"
    and ss: "same_session ?r0 r1" and sr: "same_rows s s1"
    using cb by blast+
  let ?G = "F + mset (map rt_serial (tc_retired change'))"
  have b1: "bal (held_rows ?os + held r1 + ?G) s1"
    using foc by (simp add: focus.simps bal_def ac_simps)
  have r1: "row_ok r1" using foc by (simp add: focus.simps)
  have hot: "hot_ok (insert ?r0 (snd ` set ?os)) (s_hot s1)"
    using inv o(9) sr by (simp add: svc_inv_def same_rows_def)
  have pub: "same_core r1 r2 \<and> same_but_hot s1 s2 \<and> hot_ok (insert r2 (snd ` set ?os)) (s_hot s2)"
  proof (rule publishControllersLocked_ok [OF hot o(4) r1 o(5) ss _ _ _ pb])
    show "\<And>r'. r' \<in> snd ` set ?os \<Longrightarrow> slot r' \<noteq> slot ?r0 \<and> slot r' < 32 \<and> row_ok r'" by (rule o(10))
    show "\<And>r' x i j. r' \<in> snd ` set ?os \<Longrightarrow> holds r1 x i \<Longrightarrow> \<not> holds r' x j"
      by (rule serials_apart(1) [OF b1 refl])
    show "\<And>x i j. holds r1 x i \<Longrightarrow> holds r1 x j \<Longrightarrow> i = j"
      by (rule serials_apart(2) [OF b1 refl])
  qed
  have sc: "same_core r1 r2" and sh: "same_but_hot s1 s2" using pub by blast+
  note shD = same_but_hotD [OF sh]
  have ss2: "same_session ?r0 r2"
    using same_session_trans [OF ss] sc by (simp add: same_core_def)
  have c1: "s_conns s2 = s_conns s" "env_ok s2"
    using shD(1,6) sr same_rows_env [OF sr] inv by (simp_all add: same_rows_def svc_inv_def)
  have c2: "token r2 = tok" "deviceId r2 = deviceId ?r0" "connectionId r2 = connectionId ?r0"
      "slot r2 = slot ?r0" "row_ok r2" "length (sessionKey r2) = 32"
    using ss2 o(2,6) same_core_row_ok [OF sc] r1 by (simp_all add: same_session_def)
  have c3: "bal (held_rows ?os + held r2 + ?G) s2"
    using b1 same_core_held [OF sc] bal_pool_cong [OF shD(2)] by simp
  have c4: "s_activePads s2 = count_rows ?os + activeControllerCount r2"
    using foc shD(3) sc by (simp add: focus.simps same_core_def)
  have c5: "hot_ok (insert r2 (snd ` set ?os)) (s_hot s2)" using pub by blast
  note close = inv_close [OF inv tok c1 c2 c3 c4 c5]
  have "waiting_ok (deref tok s') (tc_pads change')" if "\<not> b"
  proof -
    have "waiting_ok r1 (tc_pads change')"
      using commit_first_waiting_ok [of ?r0 "tc_pads change" "tc_pads change'" r1] ok cb that by auto
    then show ?thesis
      using same_core_nth [OF sc] r1 close(2)
      by (auto simp: waiting_ok_def s' row_ok_def pad_core_def)
  qed
  moreover have "tc_retired change' = tc_retired change" if b
    using commit_second_retired [of ?r0 change s r1 change' s1] cm ok that by simp
  ultimately show ?thesis
    using close cb ss2 shD(5) sr unfolding s' by (simp add: same_rows_def)
qed

lemma same_but_backend_inv: "same_but_backend s s' \<Longrightarrow> svc_inv F s' = svc_inv F s"
  using same_but_backendD [of s s'] by (simp add: svc_inv_def env_ok_def queues_ok_def commands_ok_def bal_def)

lemma same_but_backend_deref: "same_but_backend s s' \<Longrightarrow> deref tok s' = deref tok s"
  using same_but_backendD(1) [of s s'] by (simp add: deref_def find_conn_def)

lemma same_rows_inv:
  assumes "same_rows s s'" "s_activePads s' = s_activePads s" "svc_inv F s"
    and "bal (held_rows (s_conns s) + G) s'"
  shows "svc_inv G s'"
  using assms same_rows_env [OF assms(1)] by (simp add: svc_inv_def same_rows_def)

lemma same_rows_deref: "same_rows s s' \<Longrightarrow> deref tok s' = deref tok s"
  by (simp add: same_rows_def deref_def find_conn_def)

end
