(* ===== verification/Session_Entry.thy ===== *)
theory Session_Entry
  imports Session_Invariant
begin

text \<open>
  The entry points of \<^verbatim>\<open>SessionService\<close> keep the invariant: the plug and settle rounds, the changes of
  one controller, the upsert of a whole session, the closes and the reaper.
\<close>
section \<open>Plug rounds and settling\<close>

lemma plugPads_inv:
  assumes "plugPads b change s = (change', s')" "svc_inv F s"
  shows "svc_inv F s'" "deref tok s' = deref tok s" "s_conns s' = s_conns s"
    "tc_retired change' = tc_retired change"
    "list_all2 plug_outcome (tc_pads change) (tc_pads change')" "same_but_backend s s'"
proof -
  have sb: "same_but_backend s s'" and r: "tc_retired change' = tc_retired change"
    and l2: "list_all2 plug_outcome (tc_pads change) (tc_pads change')"
    using plugPads_spec [OF assms(1)] by blast+
  show "svc_inv F s'" using assms(2) same_but_backend_inv [OF sb] by blast
  show "deref tok s' = deref tok s" by (rule same_but_backend_deref [OF sb])
  show "s_conns s' = s_conns s" by (rule same_but_backendD(1) [OF sb])
  show "tc_retired change' = tc_retired change"
    "list_all2 plug_outcome (tc_pads change) (tc_pads change')" "same_but_backend s s'"
    by (fact r l2 sb)+
qed

lemma settle_and_allocate_inv:
  assumes inv: "svc_inv (F + mset (map rt_serial retired)) s"
    and w: "waiting_ok (deref tok s) (tc_pads change)"
    and a: "settle_and_allocate retired change s = (waiting, change', s')"
  shows "svc_inv (F + pend True (tc_pads change')) s'" "same_rows s s'"
    "pads_ok True (deref tok s') (tc_pads change')" "tc_retired change' = []"
    "\<not> waiting \<Longrightarrow> pend True (tc_pads change') = {#}"
proof -
  let ?s1 = "settleRetiredLocked retired s"
  let ?H = "held_rows (s_conns s)"
  have "bal (mset (map rt_serial retired) + (?H + F)) s" using inv by (simp add: svc_inv_def ac_simps)
  note b1 = settleRetiredLocked_bal [OF this]
  have al: "allocateWaitingLocked (change\<lparr>tc_retired := []\<rparr>) ?s1 = (waiting, change', s')"
    using a by (simp add: settle_and_allocate_def)
  have w1: "waiting_ok (deref tok s) (tc_pads (change\<lparr>tc_retired := []\<rparr>))" using w by simp
  note ok = allocateWaitingLocked_ok [OF conjunct1 [OF b1] w1 al]
  have sr1: "same_rows s ?s1" and sr2: "same_rows ?s1 s'" using b1 ok by blast+
  show sr: "same_rows s s'" by (rule same_rows_trans [OF sr1 sr2])
  have "s_activePads s' = s_activePads s" using b1 ok by simp
  moreover have "bal (?H + (F + pend True (tc_pads change'))) s'" using ok by (simp add: ac_simps)
  ultimately show "svc_inv (F + pend True (tc_pads change')) s'"
    by (intro same_rows_inv [OF sr _ inv])
  show "pads_ok True (deref tok s') (tc_pads change')"
    using ok by (simp add: same_rows_deref [OF sr])
  show "tc_retired change' = []" "\<not> waiting \<Longrightarrow> pend True (tc_pads change') = {#}" using ok by auto
qed

lemma settlePadChange_inv:
  assumes inv: "svc_inv (F + mset (map rt_serial (tc_retired change))) s"
    and tok: "tok \<in> fst ` set (s_conns s)"
    and w: "waiting_ok (deref tok s) (tc_pads change)"
    and p: "settlePadChange now tok change s = (change', s')"
  shows "svc_inv F s' \<and> fst ` set (s_conns s') = fst ` set (s_conns s) \<and>
    same_session (deref tok s) (deref tok s')"
proof -
  obtain ret s1 where u: "unplugRetired (tc_retired change) s = (ret, s1)" by force
  have sb: "same_but_backend s s1" and rs: "map rt_serial ret = map rt_serial (tc_retired change)"
    using unplugRetired_spec [OF u] by blast+
  have i1: "svc_inv (F + mset (map rt_serial ret)) s1"
    using inv unfolding rs same_but_backend_inv [OF sb] .
  have d1: "deref tok s1 = deref tok s" "s_conns s1 = s_conns s"
    using same_but_backend_deref [OF sb] same_but_backendD(1) [OF sb] by blast+
  obtain wt ch2 s2 where sa: "settle_and_allocate ret change s1 = (wt, ch2, s2)" by (metis prod_cases3)
  have w1: "waiting_ok (deref tok s1) (tc_pads change)" using w d1 by simp
  note st = settle_and_allocate_inv [OF i1 w1 sa]
  have d2: "deref tok s2 = deref tok s" "s_conns s2 = s_conns s"
    using same_rows_deref [OF st(2)] st(2) d1 by (simp_all add: same_rows_def)
  show ?thesis
  proof (cases wt)
    case False
    then have "(change', s') = (ch2, s2)" using p u sa by (simp add: settlePadChange_def)
    then show ?thesis using st(1) st(5) [OF False] d2 by simp
  next
    case True
    obtain ch3 s3 where pl: "plugPads True ch2 s2 = (ch3, s3)" by force
    note pi = plugPads_inv [OF pl st(1)]
    have cp: "commit_and_publish True now tok ch3 s3 = (change', s')"
      using p u sa pl True by (simp add: settlePadChange_def)
    note po = plug_outcome_pads_ok [OF pi(5) st(3)]
    have ret3: "tc_retired ch3 = []" using pi(4) st(4) by simp
    have i3: "svc_inv (F + pend True (tc_pads ch3) + mset (map rt_serial (tc_retired ch3))) s3"
      using pi(1) po(2) ret3 by simp
    have t3: "tok \<in> fst ` set (s_conns s3)" using tok pi(3) d2 by simp
    have ok3: "pads_ok True (deref tok s3) (tc_pads ch3)" using po(1) pi(2) by simp
    note cc = commit_and_publish_inv [OF i3 t3 ok3 cp]
    have e: "tc_retired change' = []" using cc ret3 by simp
    have "svc_inv (F + mset (map rt_serial (tc_retired change'))) s'" using cc by blast
    then have "svc_inv F s'" unfolding e by simp
    then show ?thesis using cc pi(2,3) d2 by simp
  qed
qed

lemma convergePads_inv:
  assumes inv: "svc_inv (F + pend False (tc_pads change)) s"
    and tok: "tok \<in> fst ` set (s_conns s)" and ret: "tc_retired change = []"
    and ok: "pads_ok False (deref tok s) (tc_pads change)"
    and p: "convergePads now tok change s = (change', s')"
  shows "svc_inv F s' \<and> fst ` set (s_conns s') = fst ` set (s_conns s) \<and>
    same_session (deref tok s) (deref tok s')"
proof -
  obtain ch1 s1 where pl: "plugPads False change s = (ch1, s1)" by force
  note pi = plugPads_inv [OF pl inv]
  note po = plug_outcome_pads_ok [OF pi(5) ok]
  obtain ch2 s2 where cp: "commit_and_publish False now tok ch1 s1 = (ch2, s2)" by force
  have i1: "svc_inv (F + pend False (tc_pads ch1) + mset (map rt_serial (tc_retired ch1))) s1"
    using pi(1,4) po(2) ret by simp
  have t1: "tok \<in> fst ` set (s_conns s1)" using tok pi(3) by simp
  have ok1: "pads_ok False (deref tok s1) (tc_pads ch1)" using po(1) pi(2) by simp
  note cc = commit_and_publish_inv [OF i1 t1 ok1 cp]
  have sp: "settlePadChange now tok ch2 s2 = (change', s')"
    using p pl cp by (simp add: convergePads_def)
  have i2: "svc_inv (F + mset (map rt_serial (tc_retired ch2))) s2" using cc by blast
  have t2: "tok \<in> fst ` set (s_conns s2)" using cc t1 by simp
  have w2: "waiting_ok (deref tok s2) (tc_pads ch2)" using cc by simp
  note se = settlePadChange_inv [OF i2 t2 w2 sp]
  show ?thesis using se cc pi(2,3) same_session_trans by auto
qed

section \<open>Bus\<close>

lemma closeBusIfIdle_inv:
  assumes "svc_inv F s"
  shows "svc_inv F (closeBusIfIdle idle s)" "s_conns (closeBusIfIdle idle s) = s_conns s"
proof -
  have wf: "pool_wf (s_pool s)" using assms by (simp add: svc_inv_def bal_def)
  have "pool.inuse (clearQuarantine (s_pool s)) = pool.inuse (s_pool s)"
    using clearQuarantine_law [OF wf] by (simp add: pool.inuse_def)
  then show "svc_inv F (closeBusIfIdle idle s)"
    using assms clearQuarantine_law [OF wf]
    by (simp add: closeBusIfIdle_def svc_inv_def bal_def env_ok_def queues_ok_def commands_ok_def logMsg_def emit_def)
  show "s_conns (closeBusIfIdle idle s) = s_conns s"
    by (simp add: closeBusIfIdle_def logMsg_def emit_def)
qed

lemma findByConnectionId_mem:
  "findByConnectionId cid s = Some r \<Longrightarrow> connectionId r = cid \<and> r \<in> snd ` set (s_conns s)"
  by (auto simp: findByConnectionId_def dest!: find_Some_set intro: rev_image_eqI)

lemma findByDeviceId_mem:
  "findByDeviceId dev s = Some r \<Longrightarrow> deviceId r = dev \<and> r \<in> snd ` set (s_conns s)"
  by (auto simp: findByDeviceId_def dest!: find_Some_set intro: rev_image_eqI)

lemma row_deref:
  assumes "svc_inv F s" "r \<in> snd ` set (s_conns s)"
  shows "token r \<in> fst ` set (s_conns s)" "deref (token r) s = r" "(token r, r) \<in> set (s_conns s)"
proof -
  have rows: "rows_ok (s_conns s)" using assms(1) by (simp add: svc_inv_def)
  obtain e where e: "e \<in> set (s_conns s)" "snd e = r" using assms(2) by auto
  have "fst e = token r" using rows e by (auto simp: rows_ok_def)
  then have m: "(token r, r) \<in> set (s_conns s)" using e by (metis prod.collapse)
  then show "(token r, r) \<in> set (s_conns s)" "token r \<in> fst ` set (s_conns s)" by (auto intro: rev_image_eqI)
  show "deref (token r) s = r" by (rule deref_eq [OF rows m])
qed

section \<open>One controller\<close>

lemma applyController_inv:
  assumes inv: "svc_inv F s" and a: "applyController now cid dev d s = (res, s')"
  shows "svc_inv F s' \<and> fst ` set (s_conns s') = fst ` set (s_conns s)"
proof (cases "\<exists>r. findByConnectionId cid s = Some r \<and> deviceId r = dev")
  case False
  then have "s' = s" using a by (auto simp: applyController_def split: option.splits if_splits)
  then show ?thesis using inv by simp
next
  case True
  then obtain r where r: "findByConnectionId cid s = Some r" "deviceId r = dev" by blast
  note rd = row_deref [OF inv conjunct2 [OF findByConnectionId_mem [OF r(1)]]]
  obtain pad s1 where pp: "planPadLocked r d s = (pad, s1)" by force
  let ?ch = "empty_change\<lparr>tc_pads := deferUnservedAdds [pad]\<rparr>"
  obtain ch2 s2 where cv: "convergePads now (token r) ?ch s1 = (ch2, s2)" by force
  have s': "s' = closeBusIfIdle (busIdleLocked s2) s2"
    using a r pp cv by (simp add: applyController_def Let_def)
  have "bal (held_rows (s_conns s) + F) s" using inv by (simp add: svc_inv_def)
  note pl = planPadLocked_ok [OF this pp]
  have one: "pads_ok False r [pad]" using pl by (simp add: pads_ok_def)
  note df = deferUnservedAdds_ok [OF one]
  have sr: "same_rows s s1" using pl by blast
  have pe: "pend False (tc_pads ?ch) = pser pad" using df(2) by (simp add: takes_part_def)
  have "svc_inv (F + pend False (tc_pads ?ch)) s1"
    unfolding pe using pl by (intro same_rows_inv [OF sr _ inv]) (simp_all add: ac_simps)
  moreover have "deref (token r) s1 = r" using same_rows_deref [OF sr] rd(2) by simp
  moreover have "s_conns s1 = s_conns s" using sr by (simp add: same_rows_def)
  ultimately have "svc_inv F s2 \<and> fst ` set (s_conns s2) = fst ` set (s_conns s)"
    using convergePads_inv [OF _ _ _ _ cv, of F] rd(1) df(1) by (simp add: empty_change_def)
  then show ?thesis using closeBusIfIdle_inv [of F s2] unfolding s' by simp
qed

lemma removeController_inv:
  assumes inv: "svc_inv F s" and a: "removeController now cid dev i s = (res, s')"
  shows "svc_inv F s' \<and> fst ` set (s_conns s') = fst ` set (s_conns s)"
proof (cases "\<exists>r. findByConnectionId cid s = Some r \<and> deviceId r = dev")
  case False
  then have "s' = s" using a by (auto simp: removeController_def split: option.splits if_splits)
  then show ?thesis using inv by simp
next
  case True
  then obtain r where r: "findByConnectionId cid s = Some r" "deviceId r = dev" by blast
  note rd = row_deref [OF inv conjunct2 [OF findByConnectionId_mem [OF r(1)]]]
  let ?present = "i < MAX_CONTROLLERS_PER_CONN \<and> active (controllers r ! i)"
  let ?ch = "empty_change\<lparr>tc_pads := (if ?present then [planRemoval i] else [])\<rparr>"
  obtain ch2 s2 where cv: "convergePads now (token r) ?ch s = (ch2, s2)" by force
  have s': "s' = closeBusIfIdle (busIdleLocked s2) s2"
    using a r cv by (simp add: removeController_def Let_def)
  have ok: "pads_ok False r (tc_pads ?ch)" and pe: "pend False (tc_pads ?ch) = {#}"
    by (auto simp: pads_ok_def pad_ok_def planRemoval_def default_pad_change_def
        default_descriptor_def Let_def pser_def)
  have "svc_inv F s2 \<and> fst ` set (s_conns s2) = fst ` set (s_conns s)"
    using convergePads_inv [OF _ _ _ _ cv, of F] inv rd ok pe by (simp add: empty_change_def)
  then show ?thesis using closeBusIfIdle_inv [of F s2] unfolding s' by simp
qed
section \<open>Retiring a row\<close>

lemma retire_ctrl_step:
  assumes "retire_ctrl c (ret, s) = (c', ret', s')" "active c \<Longrightarrow> serialNo c \<noteq> 0"
    "\<not> active c \<Longrightarrow> serialNo c = 0"
  shows "quiet s s' \<and> \<not> active c' \<and> serialNo c' = 0 \<and>
    mset (map rt_serial ret') = mset (map rt_serial ret) + one_held c"
proof (cases "active c")
  case True
  obtain c1 s1 where rp: "releasePointerLocked c s = (c1, s1)" by force
  show ?thesis
    using assms(1,2) True rp releasePointerLocked_quiet(1) [OF rp]
    by (auto simp: retire_ctrl_def one_held_def)
next
  case False
  then show ?thesis using assms(1,3) by (auto simp: retire_ctrl_def one_held_def)
qed

lemma retire_loop:
  assumes "mapS retire_ctrl cs (ret, s) = (cs', ret', s')"
    and "\<And>c. c \<in> set cs \<Longrightarrow> (active c \<longrightarrow> serialNo c \<noteq> 0) \<and> (\<not> active c \<longrightarrow> serialNo c = 0)"
  shows "quiet s s' \<and> length cs' = length cs \<and> (\<forall>c\<in>set cs'. \<not> active c \<and> serialNo c = 0) \<and>
    mset (map rt_serial ret') = mset (map rt_serial ret) + mset (map serialNo (filter active cs))"
  using assms
proof (induction cs arbitrary: ret s cs')
  case Nil
  then show ?case by simp
next
  case (Cons c cs)
  obtain c1 ret1 s1 where one: "retire_ctrl c (ret, s) = (c1, ret1, s1)" by (metis prod_cases3)
  obtain cs1 where rest: "mapS retire_ctrl cs (ret1, s1) = (cs1, ret', s')" and cs': "cs' = c1 # cs1"
    using Cons.prems(1) one by (auto split: prod.splits)
  note st = retire_ctrl_step [OF one]
  have "active c \<longrightarrow> serialNo c \<noteq> 0" "\<not> active c \<longrightarrow> serialNo c = 0"
    using Cons.prems(2) [of c] by simp_all
  note st = st [OF this [THEN mp]]
  have tl: "quiet s1 s' \<and> length cs1 = length cs \<and> (\<forall>c\<in>set cs1. \<not> active c \<and> serialNo c = 0) \<and>
    mset (map rt_serial ret') = mset (map rt_serial ret1) + mset (map serialNo (filter active cs))"
    by (rule Cons.IH [OF rest]) (use Cons.prems(2) in simp)
  show ?case
    using tl st quiet_trans [of s s1 s'] by (auto simp: cs' one_held_def)
qed

lemma held_inactive: "(\<forall>c\<in>set (controllers r). \<not> active c) \<Longrightarrow> held r = {#}"
  by (simp add: held_def filter_False)

lemma rows_ok_filter: "rows_ok es \<Longrightarrow> rows_ok (filter P es)"
  unfolding rows_ok_def by (auto simp: distinct_map_filter)

lemma retireConnectionLocked_inv:
  assumes inv: "svc_inv (F + mset (map rt_serial ret)) s" and r: "r \<in> snd ` set (s_conns s)"
    and q: "retireConnectionLocked r ret s = (r', ret', s')"
  shows "svc_inv (F + mset (map rt_serial ret')) (erase_row (token r) s')"
    "s_conns s' = s_conns s" "s_backend s' = s_backend s" "s_port s' = s_port s"
proof -
  let ?tok = "token r" and ?os = "others (token r) (s_conns s)"
  note rd = row_deref [OF inv r]
  note o = inv_open [OF inv rd(1), unfolded rd(2)]
  obtain cs s1 where m: "mapS retire_ctrl (controllers r) (ret, s) = (cs, ret', s1)"
    and r': "r' = r\<lparr>controllers := cs, activeControllerCount := 0\<rparr>"
    and s': "s' = s1\<lparr>s_activePads := s_activePads s1 - activeControllerCount r,
        s_hot := ConnectionWrite r' (upd_slot (slot r) (\<lambda>h. hs_storeKey (replicate CRYPTO_KEY_SIZE 0)
          (h\<lparr>hs_token := 0\<rparr>))) (hot_retire (slot r) (s_hot s1))\<rparr>"
    using q by (auto simp: retireConnectionLocked_def adjustActivePadsLocked_def split: prod.splits)
  have cok: "(active c \<longrightarrow> serialNo c \<noteq> 0) \<and> (\<not> active c \<longrightarrow> serialNo c = 0)"
    if "c \<in> set (controllers r)" for c
    using o(4) that by (auto simp: row_ok_def ctrl_ok_def in_set_conv_nth split: if_splits)
  note lp = retire_loop [OF m cok]
  have qt: "quiet s s1" using lp by blast
  have held: "held r' = {#}" by (rule held_inactive) (use lp r' in simp)
  have len: "length cs = 16" using lp o(4) by (simp add: row_ok_def)
  have nth: "\<not> active (cs ! i) \<and> serialNo (cs ! i) = 0" if "i < 16" for i
    using lp len that by simp
  have rok: "row_ok r'"
    using len nth lp by (simp add: row_ok_def r' ctrl_ok_def filter_False)
  have none: "\<not> holds r' x i" for x i
    using holds_in_held [of x r'] held by auto
  show conns: "s_conns s' = s_conns s" "s_backend s' = s_backend s" "s_port s' = s_port s"
    using qt by (simp_all add: s' quiet_def same_rows_def)
  have hot1: "s_hot s1 = s_hot s" using qt by (simp add: quiet_def same_rows_def)
  have ok: "hot_ok (insert r (snd ` set ?os)) (s_hot s)" using inv o(9) by (simp add: svc_inv_def)
  have ex: "hot_except (slot r) (snd ` set ?os) (s_hot s)" by (rule hot_ok_except [OF ok o(10)])
  have sl: "slot r' = slot r" by (simp add: r')
  have ls: "length (slots (s_hot s)) = 32" using ok by (simp add: hot_ok_def)
  let ?g = "\<lambda>h. hs_storeKey (replicate CRYPTO_KEY_SIZE 0) (h\<lparr>hs_token := 0\<rparr>)"
  let ?h = "hs_endWrite (publish_words r' (?g (hs_beginWrite (slots (s_hot s) ! slot r))))"
  have hot': "s_hot s' = (s_hot s)\<lparr>tokens := (tokens (s_hot s))[slot r := 0],
      slots := (slots (s_hot s))[slot r := ?h],
      padOwners := set_owners r' (clear_owners r' (padOwners (s_hot s)))\<rparr>"
    using ConnectionWrite_upd [of r' "hot_retire (slot r) (s_hot s)" ?g] o(5) ls
    by (simp add: s' hot1 sl hot_retire_def)
  have "owners_ok (insert r' (snd ` set ?os)) (set_owners r' (clear_owners r' (padOwners (s_hot s))))"
    using publish_owners_ok [OF _ rok o(4) sl _ _ _ _, of "snd ` set ?os" "padOwners (s_hot s)"]
      ok o(5,10) none by (simp add: hot_ok_def sl)
  moreover have "\<not> hs_writing ?h"
    using written_slot [of ?g "slots (s_hot s) ! slot r" r'] ok o(5)
    by (simp add: hot_ok_def hs_storeKey_def)
  moreover have "vacant ?h"
    using len nth by (simp add: vacant_def publish_words_def ctrlWord_def r')
  ultimately have hk: "hot_ok (snd ` set ?os) (s_hot s')"
    using hot_ok_dropped [of r' "snd ` set ?os" "s_hot s" "s_hot s'" ?h] ex o(5) held
    by (simp add: sl hot')
  have er: "s_conns (erase_row ?tok s') = ?os" by (simp add: erase_row_def conns others_def)
  have "rows_ok ?os" unfolding others_def by (rule rows_ok_filter) (use inv in \<open>simp add: svc_inv_def\<close>)
  moreover have "bal (held_rows ?os + (F + mset (map rt_serial ret'))) (erase_row ?tok s')"
  proof -
    have "mset (map rt_serial ret') = mset (map rt_serial ret) + held r" using lp by (simp add: held_def)
    then show ?thesis
      using inv qt o(7)
      by (simp add: svc_inv_def bal_def erase_row_def s' quiet_def ac_simps)
  qed
  moreover have "s_activePads (erase_row ?tok s') = count_rows ?os"
    using inv qt o(8) by (simp add: svc_inv_def erase_row_def s' quiet_def)
  moreover have "env_ok (erase_row ?tok s')"
    using inv qt by (simp add: svc_inv_def env_ok_def queues_ok_def commands_ok_def erase_row_def s' quiet_def same_rows_def)
  moreover have "s_hot (erase_row ?tok s') = s_hot s'" by (simp add: erase_row_def)
  ultimately show "svc_inv (F + mset (map rt_serial ret')) (erase_row ?tok s')"
    unfolding svc_inv_def er using hk by simp
qed

lemma settle_inv:
  assumes inv: "svc_inv (F + mset (map rt_serial ret)) s" and u: "unplugRetired ret s = (ret', s1)"
  shows "svc_inv F (settleRetiredLocked ret' s1)"
    "s_conns (settleRetiredLocked ret' s1) = s_conns s"
proof -
  have sb: "same_but_backend s s1" and rs: "map rt_serial ret' = map rt_serial ret"
    using unplugRetired_spec [OF u] by blast+
  have i1: "svc_inv (F + mset (map rt_serial ret')) s1"
    using inv unfolding rs same_but_backend_inv [OF sb] .
  have "bal (mset (map rt_serial ret') + (held_rows (s_conns s1) + F)) s1"
    using i1 by (simp add: svc_inv_def ac_simps)
  note b = settleRetiredLocked_bal [OF this]
  show "svc_inv F (settleRetiredLocked ret' s1)"
    using b by (intro same_rows_inv [OF _ _ i1]) auto
  show "s_conns (settleRetiredLocked ret' s1) = s_conns s"
    using b same_but_backendD(1) [OF sb] by (simp add: same_rows_def)
qed

lemma finishTeardown_inv:
  assumes "svc_inv (F + mset (map rt_serial ret)) s"
  shows "svc_inv F (finishTeardown ret s)" "s_conns (finishTeardown ret s) = s_conns s"
proof -
  obtain ret' s1 where u: "unplugRetired ret s = (ret', s1)" by force
  note st = settle_inv [OF assms u]
  show "svc_inv F (finishTeardown ret s)" "s_conns (finishTeardown ret s) = s_conns s"
    using closeBusIfIdle_inv [OF st(1)] st(2) by (simp_all add: finishTeardown_def u Let_def)
qed

lemma emit_inv [simp]:
  "svc_inv F (emit e s) = svc_inv F s" "svc_inv F (logMsg l m s) = svc_inv F s"
  by (simp_all add: svc_inv_def env_ok_def queues_ok_def commands_ok_def bal_def emit_def logMsg_def)

lemma emit_conns [simp]:
  "s_conns (emit e s) = s_conns s" "s_conns (logMsg l m s) = s_conns s"
  by (simp_all add: emit_def logMsg_def)

section \<open>Closing\<close>

lemma closeSessionById_inv:
  assumes inv: "svc_inv F s" and c: "closeSessionById cid dev reason notify s = (n, s')"
  shows "svc_inv F s'"
proof (cases "\<exists>r. findByConnectionId cid s = Some r \<and> (dev = [] \<or> deviceId r = dev)")
  case False
  then have "s' = s" using c by (auto simp: closeSessionById_def split: option.splits if_splits)
  then show ?thesis using inv by simp
next
  case True
  then obtain r where r: "findByConnectionId cid s = Some r" "dev = [] \<or> deviceId r = dev" by blast
  let ?s1 = "if notify then emit (SendSessionClose (conn_endpoint r) reason) s else s"
  let ?s2 = "logMsg INFO (''Connection closed for '' @ deviceName r @ '' ('' @
      int_string (activeControllerCount r) @ '' controllers removed, '' @
      closeReasonName reason @ '')'') ?s1"
  obtain r3 ret s3 where q: "retireConnectionLocked r [] ?s2 = (r3, ret, s3)" by (metis prod_cases3)
  have s': "s' = finishTeardown ret (erase_row (token r) s3)"
    using c r q by (auto simp: closeSessionById_def Let_def split: if_splits)
  have i2: "svc_inv (F + mset (map rt_serial [])) ?s2" using inv by simp
  have m: "r \<in> snd ` set (s_conns ?s2)"
    using findByConnectionId_mem [OF r(1)] by simp
  show ?thesis
    unfolding s' using retireConnectionLocked_inv(1) [OF i2 m q] by (rule finishTeardown_inv(1))
qed

lemma close_row_inv:
  assumes inv: "svc_inv (F + mset (map rt_serial ret)) s" and r: "r \<in> snd ` set (s_conns s)"
    and q: "close_row reason r (ret, s) = (ret', s')"
  shows "svc_inv (F + mset (map rt_serial ret')) s'"
    "s_conns s' = others (token r) (s_conns s)"
proof -
  let ?s2 = "logMsg INFO (''Connection closed for '' @ deviceName r @ '' ('' @
      closeReasonName reason @ '')'') (emit (SendSessionClose (conn_endpoint r) reason) s)"
  obtain r3 ret3 s3 where rt: "retireConnectionLocked r ret ?s2 = (r3, ret3, s3)" by (metis prod_cases3)
  have eq: "ret' = ret3" "s' = erase_row (token r) s3"
    using q rt by (simp_all add: close_row_def Let_def)
  have i2: "svc_inv (F + mset (map rt_serial ret)) ?s2" using inv by simp
  have m: "r \<in> snd ` set (s_conns ?s2)" using r by simp
  note ri = retireConnectionLocked_inv [OF i2 m rt]
  show "svc_inv (F + mset (map rt_serial ret')) s'" unfolding eq by (rule ri(1))
  show "s_conns s' = others (token r) (s_conns s)"
    using ri(2) by (simp add: eq erase_row_def others_def)
qed

text \<open>A loop that visits distinct rows, each still in the map when its turn comes.\<close>

lemma close_rows_inv:
  assumes "svc_inv (F + mset (map rt_serial ret)) s" "set rs \<subseteq> snd ` set (s_conns s)"
    "distinct (map token rs)" "fold (close_row reason) rs (ret, s) = (ret', s')"
  shows "svc_inv (F + mset (map rt_serial ret')) s' \<and>
    s_conns s' = filter (\<lambda>e. fst e \<notin> token ` set rs) (s_conns s)"
  using assms
proof (induction rs arbitrary: ret s)
  case Nil
  then show ?case by simp
next
  case (Cons r rs)
  obtain ret1 s1 where c: "close_row reason r (ret, s) = (ret1, s1)" by force
  have r: "r \<in> snd ` set (s_conns s)" using Cons.prems(2) by simp
  note cr = close_row_inv [OF Cons.prems(1) r c]
  have sub: "set rs \<subseteq> snd ` set (s_conns s1)"
  proof
    fix r1 assume m: "r1 \<in> set rs"
    have "(token r1, r1) \<in> set (s_conns s)"
      using row_deref(3) [OF Cons.prems(1)] Cons.prems(2) m by auto
    moreover have "token r1 \<noteq> token r" using Cons.prems(3) imageI [OF m, of token] by auto
    ultimately show "r1 \<in> snd ` set (s_conns s1)"
      unfolding cr(2) others_def by (auto intro!: rev_image_eqI)
  qed
  have f: "fold (close_row reason) rs (ret1, s1) = (ret', s')" using Cons.prems(4) c by simp
  have d: "distinct (map token rs)" using Cons.prems(3) by simp
  have "filter (\<lambda>e. fst e \<notin> token ` set rs) (others (token r) (s_conns s))
      = filter (\<lambda>e. fst e \<notin> token ` set (r # rs)) (s_conns s)"
    unfolding others_def by (simp add: conj_commute)
  then show ?case using Cons.IH [OF cr(1) sub d f] unfolding cr(2) by simp
qed
lemma rows_tokens:
  assumes "rows_ok es"
  shows "map token (map snd es) = map fst es" "distinct (map token (map snd es))"
proof -
  show e: "map token (map snd es) = map fst es" using assms by (auto simp: rows_ok_def)
  show "distinct (map token (map snd es))" unfolding e using assms by (simp add: rows_ok_def)
qed

lemma closeSessionsForDevice_inv:
  assumes inv: "svc_inv F s" and c: "closeSessionsForDevice dev reason s = (n, s')"
  shows "svc_inv F s'" "s_conns s' = filter (\<lambda>e. deviceId (snd e) \<noteq> dev) (s_conns s)"
proof -
  let ?rs = "filter (\<lambda>r. deviceId r = dev) (map snd (s_conns s))"
  obtain ret s1 where f: "fold (close_row reason) ?rs ([], s) = (ret, s1)" by force
  have rows: "rows_ok (s_conns s)" using inv by (simp add: svc_inv_def)
  have s': "s' = (if ?rs \<noteq> [] then finishTeardown ret s1 else s1)"
    using c f by (simp add: closeSessionsForDevice_def Let_def)
  have i0: "svc_inv (F + mset (map rt_serial [])) s" using inv by simp
  have sub: "set ?rs \<subseteq> snd ` set (s_conns s)" by auto
  have d: "distinct (map token ?rs)" by (rule distinct_map_filter [OF rows_tokens(2) [OF rows]])
  note cr = close_rows_inv [OF i0 sub d f]
  have ret: "ret = []" if "?rs = []" using f that by simp
  show "svc_inv F s'"
  proof (cases "?rs = []")
    case True
    then show ?thesis using cr ret s' by simp
  next
    case False
    then show ?thesis using finishTeardown_inv(1) [OF conjunct1 [OF cr]] s' by simp
  qed
  have "s_conns s' = s_conns s1"
    using finishTeardown_inv(2) [OF conjunct1 [OF cr]] s' by simp
  also have "\<dots> = filter (\<lambda>e. deviceId (snd e) \<noteq> dev) (s_conns s)"
  proof -
    have "fst e \<in> token ` set ?rs \<longleftrightarrow> deviceId (snd e) = dev" if e: "e \<in> set (s_conns s)" for e
    proof
      assume "fst e \<in> token ` set ?rs"
      then obtain e' where e': "e' \<in> set (s_conns s)" "deviceId (snd e') = dev" "fst e = token (snd e')"
        by auto
      have "fst e' = fst e" using rows e' by (simp add: rows_ok_def)
      then have "e' = e" using rows e e'(1) by (simp add: rows_ok_def distinct_map inj_on_def)
      then show "deviceId (snd e) = dev" using e'(2) by simp
    next
      assume "deviceId (snd e) = dev"
      then have "snd e \<in> set ?rs" using e by auto
      moreover have "fst e = token (snd e)" using rows e by (simp add: rows_ok_def)
      ultimately show "fst e \<in> token ` set ?rs" by (metis imageI)
    qed
    then show ?thesis using cr by (simp cong: filter_cong)
  qed
  finally show "s_conns s' = filter (\<lambda>e. deviceId (snd e) \<noteq> dev) (s_conns s)" .
qed

text \<open>Retiring a row reads and writes nothing of the map.\<close>

lemma releasePointerLocked_conns:
  "releasePointerLocked c (s\<lparr>s_conns := x\<rparr>) =
     (case releasePointerLocked c s of (c', s') \<Rightarrow> (c', s'\<lparr>s_conns := x\<rparr>))"
  by (simp add: releasePointerLocked_def takePointerStampLocked_def post_def Let_def)

lemma retire_loop_conns:
  "mapS retire_ctrl cs (ret, s\<lparr>s_conns := x\<rparr>) =
     (case mapS retire_ctrl cs (ret, s) of (cs', ret', s') \<Rightarrow> (cs', ret', s'\<lparr>s_conns := x\<rparr>))"
proof (induction cs arbitrary: ret s)
  case Nil
  then show ?case by simp
next
  case (Cons c cs)
  obtain c1 ret1 s1 where one: "retire_ctrl c (ret, s) = (c1, ret1, s1)" by (metis prod_cases3)
  have "retire_ctrl c (ret, s\<lparr>s_conns := x\<rparr>) = (c1, ret1, s1\<lparr>s_conns := x\<rparr>)"
    using one by (auto simp: retire_ctrl_def releasePointerLocked_conns split: prod.splits if_splits)
  then show ?case using Cons.IH [of ret1 s1] one by (simp split: prod.splits)
qed

lemma retireConnectionLocked_conns:
  "retireConnectionLocked r ret (s\<lparr>s_conns := x\<rparr>) =
     (case retireConnectionLocked r ret s of (r', ret', s') \<Rightarrow> (r', ret', s'\<lparr>s_conns := x\<rparr>))"
  by (simp add: retireConnectionLocked_def retire_loop_conns adjustActivePadsLocked_def
      split: prod.splits)

lemma retire_all_inv:
  assumes "svc_inv (F + mset (map rt_serial ret)) (s\<lparr>s_conns := es\<rparr>)"
    and "fold (\<lambda>r (retired, t). case retireConnectionLocked r retired t of
        (_, retired', t') \<Rightarrow> (retired', t')) (map snd es) (ret, s) = (ret', s')"
  shows "svc_inv (F + mset (map rt_serial ret')) (s'\<lparr>s_conns := []\<rparr>)"
  using assms
proof (induction es arbitrary: ret s)
  case Nil
  then show ?case by simp
next
  case (Cons e es)
  let ?r = "snd e" and ?s = "s\<lparr>s_conns := e # es\<rparr>"
  obtain r1 ret1 s1 where q: "retireConnectionLocked ?r ret s = (r1, ret1, s1)" by (metis prod_cases3)
  then have q': "retireConnectionLocked ?r ret ?s = (r1, ret1, s1\<lparr>s_conns := e # es\<rparr>)"
    by (simp add: retireConnectionLocked_conns)
  have rows: "rows_ok (e # es)" using Cons.prems(1) by (simp add: svc_inv_def)
  have te: "fst e = token ?r" using rows by (simp add: rows_ok_def)
  have "distinct (map fst (e # es))" using rows unfolding rows_ok_def by (rule conjunct1)
  then have "fst e \<notin> fst ` set es" by simp
  then have tok: "\<forall>x\<in>set es. fst x \<noteq> token ?r" unfolding te by (metis imageI)
  have "erase_row (token ?r) (s1\<lparr>s_conns := e # es\<rparr>) = s1\<lparr>s_conns := es\<rparr>"
    using tok te by (simp add: erase_row_def)
  then have "svc_inv (F + mset (map rt_serial ret1)) (s1\<lparr>s_conns := es\<rparr>)"
    using retireConnectionLocked_inv(1) [OF Cons.prems(1) _ q'] by simp
  then show ?case using Cons.IH [of ret1 s1] Cons.prems(2) q by simp
qed

lemma fold_emit_inv:
  "svc_inv F (fold (\<lambda>r t. emit (f r) t) rs s) = svc_inv F s"
  "s_conns (fold (\<lambda>r t. emit (f r) t) rs s) = s_conns s"
  by (induction rs arbitrary: s) simp_all

lemma closeAllSessions_inv:
  assumes inv: "svc_inv {#} s"
  shows "svc_inv {#} (closeAllSessions reason s)" "s_conns (closeAllSessions reason s) = []"
    "pool_used (s_pool (closeAllSessions reason s)) = {}"
    "pool_blocked (s_pool (closeAllSessions reason s)) = {}"
proof -
  let ?rows = "map snd (s_conns s)"
  let ?s1 = "fold (\<lambda>r t. emit (SendSessionClose (conn_endpoint r) reason) t) ?rows s"
  obtain ret s2 where f: "fold (\<lambda>r (retired, t). case retireConnectionLocked r retired t of
        (_, retired', t') \<Rightarrow> (retired', t')) ?rows ([], ?s1) = (ret, s2)" by force
  obtain ret4 s4 where u: "unplugRetired ret (s2\<lparr>s_conns := []\<rparr>) = (ret4, s4)" by force
  let ?s5 = "settleRetiredLocked ret4 s4"
  let ?s6 = "?s5\<lparr>s_pool := clearQuarantine (clearInUse (s_pool ?s5))\<rparr>"
  have res: "closeAllSessions reason s = closeBusIfIdle (busIdleLocked ?s6) ?s6"
    using f u by (simp add: closeAllSessions_def Let_def)
  have "?s1\<lparr>s_conns := s_conns ?s1\<rparr> = ?s1" by simp
  then have "?s1\<lparr>s_conns := s_conns s\<rparr> = ?s1" unfolding fold_emit_inv(2) .
  then have "svc_inv ({#} + mset (map rt_serial [])) (?s1\<lparr>s_conns := s_conns s\<rparr>)"
    using inv by (simp add: fold_emit_inv(1))
  note ra = retire_all_inv [OF this f]
  note st = settle_inv [OF ra u]
  have c5: "s_conns ?s5 = []" using st(2) by simp
  have wf: "pool_wf (s_pool ?s5)" using st(1) by (simp add: svc_inv_def bal_def)
  note ci = clearInUse_law [OF wf]
  have wf1: "pool_wf (clearInUse (s_pool ?s5))" using ci by blast
  note cq = clearQuarantine_law [OF wf1]
  have used: "pool_used (s_pool ?s6) = {}" "pool_blocked (s_pool ?s6) = {}" using ci cq by simp_all
  have "svc_inv {#} ?s6"
    using st(1) c5 used cq
    by (simp add: svc_inv_def bal_def pool.inuse_def env_ok_def queues_ok_def commands_ok_def held_rows_def)
  note cb = closeBusIfIdle_inv [OF this, of "busIdleLocked ?s6"]
  show "svc_inv {#} (closeAllSessions reason s)" "s_conns (closeAllSessions reason s) = []"
    using cb c5 by (simp_all add: res)
  have "pool_wf (s_pool ?s6)" using cq by simp
  note cq2 = clearQuarantine_law [OF this]
  show "pool_used (s_pool (closeAllSessions reason s)) = {}"
    "pool_blocked (s_pool (closeAllSessions reason s)) = {}"
    using used cq2 unfolding res by (simp_all add: closeBusIfIdle_def logMsg_def emit_def)
qed
section \<open>Reaping\<close>

definition timed_out :: "ticks \<Rightarrow> connection \<Rightarrow> 'b svc \<Rightarrow> bool" where
  "timed_out now r s \<longleftrightarrow>
     now - lastPacketAt r s > sec (HEARTBEAT_INTERVAL_SEC * HEARTBEAT_MISS_MAX) \<and> now > graceUntil r"

lemma put_stall_inv:
  assumes inv: "svc_inv F s" and r: "r \<in> snd ` set (s_conns s)"
  shows "svc_inv F (put_row (r\<lparr>stallLogged := b\<rparr>) s)"
    "set (s_conns (put_row (r\<lparr>stallLogged := b\<rparr>) s)) =
       insert (token r, r\<lparr>stallLogged := b\<rparr>) (set (others (token r) (s_conns s)))"
    "map fst (s_conns (put_row (r\<lparr>stallLogged := b\<rparr>) s)) = map fst (s_conns s)"
proof -
  let ?r = "r\<lparr>stallLogged := b\<rparr>" and ?os = "others (token r) (s_conns s)"
  note rd = row_deref [OF inv r]
  note o = inv_open [OF inv rd(1), unfolded rd(2)]
  have h: "holds ?r = holds r" by (intro ext) (simp add: holds_def)
  have ok: "hot_ok (insert r (snd ` set ?os)) (s_hot s)" using inv o(9) by (simp add: svc_inv_def)
  have "mirrors ?r hs = mirrors r hs" for hs by (simp add: mirrors_def sessionWord_def)
  then have c5: "hot_ok (insert ?r (snd ` set ?os)) (s_hot s)"
    using ok owners_ok_cong [OF h, of "snd ` set ?os" "padOwners (s_hot s)"] by (simp add: hot_ok_def)
  have c1: "s_conns s = s_conns s" "env_ok s" using inv by (simp_all add: svc_inv_def)
  have c2: "token ?r = token r" "deviceId ?r = deviceId (deref (token r) s)"
      "connectionId ?r = connectionId (deref (token r) s)" "slot ?r = slot (deref (token r) s)"
      "row_ok ?r" "length (sessionKey ?r) = CRYPTO_KEY_SIZE"
    using rd(2) o(4,6) by (simp_all add: row_ok_def)
  have c3: "bal (held_rows ?os + held ?r + F) s" using inv o(7) by (simp add: svc_inv_def held_def)
  have c4: "s_activePads s = count_rows ?os + activeControllerCount ?r"
    using inv o(8) by (simp add: svc_inv_def)
  show "svc_inv F (put_row ?r s)" by (rule inv_close(1) [OF inv rd(1) c1 c2 c3 c4 c5])
  show "set (s_conns (put_row ?r s)) = insert (token r, ?r) (set ?os)"
    "map fst (s_conns (put_row ?r s)) = map fst (s_conns s)"
    using put_row_conns(2,4) [OF rd(3), of ?r] by simp_all
qed

lemma retire_ticks:
  assumes q: "retireConnectionLocked r ret s = (r', ret', s')" and l: "slot r < length (slots (s_hot s))"
  shows "hs_lastPacketTicks (slots (s_hot s') ! i) = hs_lastPacketTicks (slots (s_hot s) ! i)"
proof -
  obtain cs ret1 s1 where m: "mapS retire_ctrl (controllers r) (ret, s) = (cs, ret1, s1)"
    by (metis prod_cases3)
  have "quiet s (snd (snd (mapS retire_ctrl (controllers r) (ret, s))))"
  proof -
    have "quiet s (snd (snd (mapS retire_ctrl (controllers r) (ret, s)))) \<and>
        list_all2 (\<lambda>_ _. True) (controllers r) (fst (mapS retire_ctrl (controllers r) (ret, s)))"
    proof (rule mapS_inv [where I = "\<lambda>t. quiet s (snd t)"])
      fix c and t :: "retired_serial list \<times> 'a svc"
      assume t: "quiet s (snd t)"
      obtain ret2 s2 where t2: "t = (ret2, s2)" by force
      obtain c1 s3 where rp: "releasePointerLocked c s2 = (c1, s3)" by force
      show "quiet s (snd (snd (retire_ctrl c t))) \<and> True"
        using t t2 rp quiet_trans [OF _ releasePointerLocked_quiet(1) [OF rp], of s]
        by (simp add: retire_ctrl_def)
    qed simp
    then show ?thesis by blast
  qed
  then have h: "s_hot s1 = s_hot s" using m by (simp add: quiet_def same_rows_def)
  have "s_hot s' = ConnectionWrite (r\<lparr>controllers := cs, activeControllerCount := 0\<rparr>)
      (upd_slot (slot r) (\<lambda>h. hs_storeKey (replicate CRYPTO_KEY_SIZE 0) (h\<lparr>hs_token := 0\<rparr>)))
      (hot_retire (slot r) (s_hot s))"
    using q m h by (auto simp: retireConnectionLocked_def adjustActivePadsLocked_def)
  then show ?thesis
    using ConnectionWrite_upd [of "r\<lparr>controllers := cs, activeControllerCount := 0\<rparr>"] l
    by (simp add: hot_retire_def nth_list_update hs_storeKey_def)
qed

lemma reap_row_inv:
  assumes inv: "svc_inv (F + mset (map rt_serial ret)) s" and r: "r \<in> snd ` set (s_conns s)"
    and q: "reap_row now r (n, ret, s) = (n', ret', s')"
  shows "svc_inv (F + mset (map rt_serial ret')) s'"
    "n' = n + (if timed_out now r s then 1 else 0)"
    "map fst (s_conns s') = filter (\<lambda>k. \<not> (k = token r \<and> timed_out now r s)) (map fst (s_conns s))"
    "x \<in> set (s_conns s) \<Longrightarrow> fst x \<noteq> token r \<Longrightarrow> x \<in> set (s_conns s')"
    "lastPacketAt r1 s' = lastPacketAt r1 s"
proof -
  note rd = row_deref [OF inv r]
  note o = inv_open [OF inv rd(1), unfolded rd(2)]
  have "svc_inv (F + mset (map rt_serial ret')) s' \<and>
    n' = n + (if timed_out now r s then 1 else 0) \<and>
    map fst (s_conns s') = filter (\<lambda>k. \<not> (k = token r \<and> timed_out now r s)) (map fst (s_conns s)) \<and>
    (\<forall>x. x \<in> set (s_conns s) \<longrightarrow> fst x \<noteq> token r \<longrightarrow> x \<in> set (s_conns s')) \<and>
    (\<forall>r1. lastPacketAt r1 s' = lastPacketAt r1 s)"
  proof (cases "timed_out now r s")
    case True
    let ?s1 = "logMsg INFO (''Reaper: timed out connection for '' @ deviceName r @ '' after '' @
        int_string (whole_seconds (now - lastPacketAt r s)) @ '' s without a packet'') s"
    obtain r2 ret2 s2 where rt: "retireConnectionLocked r ret ?s1 = (r2, ret2, s2)" by (metis prod_cases3)
    have eq: "n' = n + 1" "ret' = ret2" "s' = erase_row (token r) s2"
      using q rt True by (simp_all add: reap_row_def timed_out_def Let_def)
    have i1: "svc_inv (F + mset (map rt_serial ret)) ?s1" using inv by simp
    have m1: "r \<in> snd ` set (s_conns ?s1)" using r by simp
    note ri = retireConnectionLocked_inv [OF i1 m1 rt]
    have "length (slots (s_hot ?s1)) = 32" using i1 by (simp add: svc_inv_def hot_ok_def)
    then have "\<forall>r1. lastPacketAt r1 s' = lastPacketAt r1 s"
      using retire_ticks [OF rt] o(5) by (simp add: eq lastPacketAt_def erase_row_def logMsg_def emit_def)
    then show ?thesis
      using ri True by (auto simp: eq erase_row_def filter_map comp_def)
  next
    case False
    obtain b t where s': "n' = n" "ret' = ret" "s' = s \<or> s' = put_row (r\<lparr>stallLogged := b\<rparr>) s \<or>
        s' = logMsg WARN t (put_row (r\<lparr>stallLogged := b\<rparr>) s)"
      using q False unfolding reap_row_def timed_out_def Let_def
      by (cases "linkStateAt now r s = NotResponding"; cases "stallLogged r")
        (auto simp del: de_Morgan_conj)
    note ps = put_stall_inv [OF inv r, of b]
    have k: "filter (\<lambda>k. \<not> (k = token r \<and> timed_out now r s)) (map fst (s_conns s)) = map fst (s_conns s)"
      using False by simp
    have p: "svc_inv (F + mset (map rt_serial ret)) s' \<and> map fst (s_conns s') = map fst (s_conns s) \<and>
      (\<forall>x. x \<in> set (s_conns s) \<longrightarrow> fst x \<noteq> token r \<longrightarrow> x \<in> set (s_conns s')) \<and> s_hot s' = s_hot s"
      using s'(3) inv ps(1,3) by (auto simp: ps(2) others_def) (auto simp: logMsg_def emit_def)
    then show ?thesis unfolding k using False s'(1,2) by (simp add: lastPacketAt_def)
  qed
  then show "svc_inv (F + mset (map rt_serial ret')) s'"
    "n' = n + (if timed_out now r s then 1 else 0)"
    "map fst (s_conns s') = filter (\<lambda>k. \<not> (k = token r \<and> timed_out now r s)) (map fst (s_conns s))"
    "x \<in> set (s_conns s) \<Longrightarrow> fst x \<noteq> token r \<Longrightarrow> x \<in> set (s_conns s')"
    "lastPacketAt r1 s' = lastPacketAt r1 s" by blast+
qed
lemma timed_out_cong: "lastPacketAt r s' = lastPacketAt r s \<Longrightarrow> timed_out now r s' = timed_out now r s"
  by (simp add: timed_out_def)

lemma reap_rows_inv:
  assumes "svc_inv (F + mset (map rt_serial ret)) s" "set rs \<subseteq> snd ` set (s_conns s)"
    "distinct (map token rs)" "fold (reap_row now) rs (n, ret, s) = (n', ret', s')"
  shows "svc_inv (F + mset (map rt_serial ret')) s' \<and>
    n' = n + length (filter (\<lambda>r. timed_out now r s) rs) \<and>
    map fst (s_conns s') =
      filter (\<lambda>k. k \<notin> token ` set (filter (\<lambda>r. timed_out now r s) rs)) (map fst (s_conns s)) \<and>
    (n' = n \<longrightarrow> ret' = ret)"
  using assms
proof (induction rs arbitrary: n ret s)
  case Nil
  then show ?case by simp
next
  case (Cons r rs)
  obtain n1 ret1 s1 where q: "reap_row now r (n, ret, s) = (n1, ret1, s1)" by (metis prod_cases3)
  have r: "r \<in> snd ` set (s_conns s)" using Cons.prems(2) by simp
  note rr = reap_row_inv [OF Cons.prems(1) r q]
  have sub: "set rs \<subseteq> snd ` set (s_conns s1)"
  proof
    fix r1 assume m: "r1 \<in> set rs"
    have "(token r1, r1) \<in> set (s_conns s)"
      using row_deref(3) [OF Cons.prems(1)] Cons.prems(2) m by auto
    moreover have "token r1 \<noteq> token r" using Cons.prems(3) imageI [OF m, of token] by auto
    ultimately have "(token r1, r1) \<in> set (s_conns s1)" using rr(4) by simp
    then show "r1 \<in> snd ` set (s_conns s1)" by (rule rev_image_eqI) simp
  qed
  have f: "fold (reap_row now) rs (n1, ret1, s1) = (n', ret', s')" using Cons.prems(4) q by simp
  have d: "distinct (map token rs)" using Cons.prems(3) by simp
  have same: "timed_out now r1 s1 = timed_out now r1 s" for r1 by (rule timed_out_cong [OF rr(5)])
  have keep: "ret1 = ret" if "\<not> timed_out now r s"
    using q that unfolding reap_row_def timed_out_def Let_def
    by (auto split: if_splits simp del: de_Morgan_conj)
  note ih = Cons.IH [OF rr(1) sub d f, unfolded same]
  have "filter (\<lambda>k. k \<notin> token ` set (filter (\<lambda>r. timed_out now r s) rs)) (map fst (s_conns s1))
      = filter (\<lambda>k. k \<notin> token ` set (filter (\<lambda>r. timed_out now r s) (r # rs))) (map fst (s_conns s))"
    unfolding rr(3) filter_filter by (rule filter_cong) auto
  then show ?case using ih rr(2) keep by (auto split: if_splits)
qed

lemma reapTimedOut_inv:
  assumes inv: "svc_inv F s" and q: "reapTimedOut topoFree now s = (n, s')"
  shows "svc_inv F s'"
    "topoFree \<Longrightarrow> n = length (filter (\<lambda>e. timed_out now (snd e) s) (s_conns s))"
    "topoFree \<Longrightarrow> map fst (s_conns s') = map fst (filter (\<lambda>e. \<not> timed_out now (snd e) s) (s_conns s))"
proof -
  let ?rs = "map snd (s_conns s)"
  have rows: "rows_ok (s_conns s)" using inv by (simp add: svc_inv_def)
  obtain n1 ret s1 where f: "fold (reap_row now) ?rs (0, [], s) = (n1, ret, s1)" by (metis prod_cases3)
  have i0: "svc_inv (F + mset (map rt_serial [])) s" using inv by simp
  have sub: "set ?rs \<subseteq> snd ` set (s_conns s)" by simp
  note rr = reap_rows_inv [OF i0 sub rows_tokens(2) [OF rows] f]
  note ft = finishTeardown_inv [OF conjunct1 [OF rr]]
  have res: "n = n1" "s' = (if n1 > 0 then finishTeardown ret s1 else s1)" if topoFree
    using q f that by (auto simp: reapTimedOut_def)
  show "svc_inv F s'"
  proof (cases topoFree)
    case False
    then show ?thesis using q inv by (simp add: reapTimedOut_def)
  next
    case True
    have "svc_inv F s1" if "n1 = 0"
    proof -
      have "ret = []" using rr that by blast
      then show ?thesis using conjunct1 [OF rr] by simp
    qed
    then show ?thesis using res(2) [OF True] ft(1) by auto
  qed
  show "n = length (filter (\<lambda>e. timed_out now (snd e) s) (s_conns s))" if topoFree
    using rr res(1) [OF that] by (simp add: filter_map comp_def)
  have "k \<in> token ` set (filter (\<lambda>r. timed_out now r s) ?rs) \<longleftrightarrow> timed_out now (snd e) s"
    if e: "e \<in> set (s_conns s)" "fst e = k" for e k
  proof
    assume "k \<in> token ` set (filter (\<lambda>r. timed_out now r s) ?rs)"
    then obtain e' where e': "e' \<in> set (s_conns s)" "timed_out now (snd e') s" "k = token (snd e')" by auto
    have "fst e' = fst e" using rows e' e by (simp add: rows_ok_def)
    then have "e' = e" using rows e e'(1) by (simp add: rows_ok_def distinct_map inj_on_def)
    then show "timed_out now (snd e) s" using e'(2) by simp
  next
    assume t: "timed_out now (snd e) s"
    then have "snd e \<in> set (filter (\<lambda>r. timed_out now r s) ?rs)" using e by auto
    moreover have "k = token (snd e)" using rows e by (auto simp: rows_ok_def)
    ultimately show "k \<in> token ` set (filter (\<lambda>r. timed_out now r s) ?rs)" by (metis imageI)
  qed
  then have "filter (\<lambda>k. k \<notin> token ` set (filter (\<lambda>r. timed_out now r s) ?rs)) (map fst (s_conns s))
      = map fst (filter (\<lambda>e. \<not> timed_out now (snd e) s) (s_conns s))"
    unfolding filter_map comp_def by (intro arg_cong [where f = "map fst"] filter_cong) auto
  then show "map fst (s_conns s') = map fst (filter (\<lambda>e. \<not> timed_out now (snd e) s) (s_conns s))"
    if topoFree using rr res(2) [OF that] ft(2) by simp
qed

end
