(* ===== verification/Session_Upsert.thy ===== *)
theory Session_Upsert
  imports Session_Entry
begin

text \<open>
  The upsert of a whole session keeps the invariant.  Between its two locked sections the row being
  changed is either a row of the map or a reserved one that is not in the map yet; \<open>seat\<close> covers both,
  with the rows of every other session in \<open>os\<close>.
\<close>

section \<open>A row about to be adopted\<close>

definition seat :: "nat multiset \<Rightarrow> (u32 \<times> connection) list \<Rightarrow> connection \<Rightarrow> 'b svc \<Rightarrow> bool" where
  "seat F os rb s \<longleftrightarrow>
     rows_ok os \<and> row_ok rb \<and> slot rb < MAX_SESSIONS \<and>
     deviceId rb \<notin> deviceId ` snd ` set os \<and> connectionId rb \<notin> connectionId ` snd ` set os \<and>
     hot_except (slot rb) (snd ` set os) (s_hot s) \<and>
     owners_ok (insert rb (snd ` set os)) (padOwners (s_hot s)) \<and>
     bal (held_rows os + held rb + F) s \<and>
     s_activePads s = count_rows os + activeControllerCount rb \<and> env_ok s"

lemma seat_cong:
  assumes "seat F os rb s" "s_hot s' = s_hot s" "s_pool s' = s_pool s"
    "s_activePads s' = s_activePads s" "env_ok s'"
  shows "seat F os rb s'"
  using assms by (simp add: seat_def bal_def)

lemma others_distinct:
  assumes "distinct (map (\<lambda>e. f (snd e)) es)" "(tok, r) \<in> set es"
  shows "f r \<notin> f ` snd ` set (others tok es)"
proof
  assume "f r \<in> f ` snd ` set (others tok es)"
  then obtain e where e: "e \<in> set es" "fst e \<noteq> tok" "f (snd e) = f r" by (auto simp: others_def)
  have "inj_on (\<lambda>e. f (snd e)) (set es)" using assms(1) by (simp add: distinct_map)
  from inj_onD [OF this, of e "(tok, r)"] have "e = (tok, r)" using e assms(2) by simp
  then show False using e(2) by simp
qed

lemma seat_existing:
  assumes inv: "svc_inv F s" and tok: "tok \<in> fst ` set (s_conns s)"
  shows "seat F (others tok (s_conns s)) (deref tok s) s"
proof -
  note o = inv_open [OF inv tok]
  have rows: "rows_ok (s_conns s)" using inv by (simp add: svc_inv_def)
  then have d: "distinct (map (\<lambda>e. deviceId (snd e)) (s_conns s))"
      "distinct (map (\<lambda>e. connectionId (snd e)) (s_conns s))" by (simp_all add: rows_ok_def)
  have h: "hot_ok (insert (deref tok s) (snd ` set (others tok (s_conns s)))) (s_hot s)"
    using inv unfolding svc_inv_def o(9) by blast
  have "bal (held_rows (others tok (s_conns s)) + held (deref tok s) + F) s"
    using inv unfolding svc_inv_def o(7) by blast
  moreover have "s_activePads s
      = count_rows (others tok (s_conns s)) + activeControllerCount (deref tok s)"
    using inv unfolding svc_inv_def o(8) by blast
  moreover have "rows_ok (others tok (s_conns s))" unfolding others_def by (rule rows_ok_filter [OF rows])
  moreover have "owners_ok (insert (deref tok s) (snd ` set (others tok (s_conns s)))) (padOwners (s_hot s))"
    using h by (simp add: hot_ok_def)
  moreover have "env_ok s" using inv by (simp add: svc_inv_def)
  ultimately show ?thesis
    unfolding seat_def
    using o(4,5) hot_ok_except [OF h o(10)] others_distinct [OF d(1) o(1)]
      others_distinct [OF d(2) o(1)] by blast
qed

lemma env_rng:
  assumes "env_ok s" "set rs \<subseteq> set (s_rng s)"
  shows "env_ok (s\<lparr>s_rng := rs\<rparr>)" "env_ok (s\<lparr>s_rng := rs, s_nextRow := n\<rparr>)"
  using assms by (auto simp: env_ok_def queues_ok_def commands_ok_def)

lemma draw_unused_Some:
  "draw_unused taken rs = Some (x, rs') \<Longrightarrow> \<not> taken x \<and> x \<in> set rs \<and> set rs' \<subseteq> set rs"
  by (induction rs) (auto split: if_splits)

lemma findBy_None:
  "findByDeviceId dev s = None \<Longrightarrow> dev \<notin> deviceId ` snd ` set (s_conns s)"
  "findByConnectionId cid s = None \<Longrightarrow> cid \<notin> connectionId ` snd ` set (s_conns s)"
  by (fastforce simp: findByDeviceId_def findByConnectionId_def find_None_iff)+

lemma reserveSessionLocked_seat:
  assumes inv: "svc_inv F s" and dev: "findByDeviceId dev s = None"
    and mint: "m_row mint = default_connection"
    and r: "reserveSessionLocked now dev name mint s = Some (True, mint', s')"
  shows "seat F (s_conns s) (m_row mint') s'" "s_conns s' = s_conns s"
    "s_keyDeriver s' = s_keyDeriver s" "deviceId (m_row mint') = dev"
proof -
  obtain slt x rs where free: "hot_findFree (s_hot s) = Some slt"
    and dr: "draw_unused (\<lambda>x. findByConnectionId (CONNECTION_ID_PREFIX @ hexEncodeBE32 x) s \<noteq> None)
       (s_rng s) = Some (x, rs)"
    and s': "s' = s\<lparr>s_rng := rs, s_nextRow := s_nextRow s + 1\<rparr>"
    and m': "mint' = mint\<lparr>m_row := default_connection
        \<lparr>connectionId := CONNECTION_ID_PREFIX @ hexEncodeBE32 x, deviceId := dev,
         slot := slt, row := s_nextRow s + 1, connectedAt := now\<rparr>\<rparr>"
    using r mint by (auto simp: reserveSessionLocked_def Let_def split: option.splits)
  let ?rb = "m_row mint'"
  have rb: "controllers ?rb = controllers default_connection" "slot ?rb = slt" "deviceId ?rb = dev"
      "activeControllerCount ?rb = activeControllerCount default_connection"
      "connectionId ?rb = CONNECTION_ID_PREFIX @ hexEncodeBE32 x"
    by (simp_all add: m')
  have row: "row_ok ?rb" using row_ok_default unfolding row_ok_def rb by blast
  have hl: "held ?rb = {#}" using held_default unfolding held_def rb by blast
  have none: "\<not> holds ?rb y i" for y i using holds_in_held [of y ?rb] hl by auto
  have hot: "hot_ok (snd ` set (s_conns s)) (s_hot s)" and rows: "rows_ok (s_conns s)"
    using inv by (simp_all add: svc_inv_def)
  have fr: "slt < 32" "tokens (s_hot s) ! slt = 0"
    using hot_findFree_Some [OF free] hot by (simp_all add: hot_ok_def)
  have nz: "token r \<noteq> 0 \<and> slot r < 32 \<and> row_ok r" if "r \<in> snd ` set (s_conns s)" for r
    using that rows by (auto simp: rows_ok_def)
  have row_at: "tokens (s_hot s) ! slot r = token r" "mirrors r (slots (s_hot s) ! slot r)"
    if "r \<in> snd ` set (s_conns s)" for r
    using hot that unfolding hot_ok_def by blast+
  have "slot r \<noteq> slt" if "r \<in> snd ` set (s_conns s)" for r
    using row_at(1) [OF that] nz [OF that] fr(2) by auto
  then have ex: "hot_except slt (snd ` set (s_conns s)) (s_hot s)"
    using hot nz row_at unfolding hot_ok_def hot_except_def by (intro conjI ballI allI impI) blast+
  have ow: "owners_ok (insert ?rb (snd ` set (s_conns s))) (padOwners (s_hot s))"
    using hot none by (simp add: hot_ok_def owners_ok_def)
  have nd: "dev \<notin> deviceId ` snd ` set (s_conns s)" by (rule findBy_None(1) [OF dev])
  have nc: "connectionId ?rb \<notin> connectionId ` snd ` set (s_conns s)"
    unfolding rb by (rule findBy_None(2)) (use draw_unused_Some [OF dr] in simp)
  have env: "env_ok s'" unfolding s' using inv draw_unused_Some [OF dr]
    by (intro env_rng) (simp_all add: svc_inv_def)
  have cnt: "activeControllerCount ?rb = 0" unfolding rb by (simp add: default_connection_def)
  show "seat F (s_conns s) ?rb s'"
    unfolding seat_def
    using rows row nd nc ex ow fr(1) env inv hl cnt rb(2,3)
    by (simp add: s' svc_inv_def bal_def count_rows_def)
  show "s_conns s' = s_conns s" "s_keyDeriver s' = s_keyDeriver s" "deviceId ?rb = dev"
    using s' rb by simp_all
qed

lemma draw_salt_Some:
  "draw_salt n rs = Some (salt, rs') \<Longrightarrow> length salt = 4 * n \<and> set rs' \<subseteq> set rs"
  by (induction n rs arbitrary: salt rs' rule: draw_salt.induct)
    (auto split: option.splits simp: writeLE32_def)

lemma mintSessionKeyLocked_seat:
  assumes st: "seat F os rb s"
    and key: "s_keyDeriver s = None \<longrightarrow> length pairingKey = CRYPTO_KEY_SIZE"
    and m: "mintSessionKeyLocked pairingKey mint s = Some (mint', s')"
  shows "seat F os rb s'" "s_conns s' = s_conns s" "m_row mint' = m_row mint"
    "m_token mint' \<noteq> 0" "m_token mint' \<notin> fst ` set (s_conns s)"
    "length (m_key mint') = CRYPTO_KEY_SIZE" "length (m_salt mint') = SESSION_SALT_SIZE"
proof -
  obtain tok rs1 salt rs2 where
    d1: "draw_unused (\<lambda>tok. tok \<in> fst ` set (s_conns s)) (s_rng s) = Some (tok, rs1)"
    and d2: "draw_salt (SESSION_SALT_SIZE div 4) rs1 = Some (salt, rs2)"
    and m': "mint' = mint\<lparr>m_token := tok, m_salt := salt,
       m_key := (case s_keyDeriver s of Some kd \<Rightarrow> kd pairingKey salt tok | None \<Rightarrow> pairingKey)\<rparr>"
    and s': "s' = s\<lparr>s_rng := rs2\<rparr>"
    using m unfolding mintSessionKeyLocked_def generateUniqueToken_def
    by (auto split: option.splits bind_splits)
  have env: "env_ok s" using st by (simp add: seat_def)
  have sub: "set rs2 \<subseteq> set (s_rng s)" using draw_unused_Some [OF d1] draw_salt_Some [OF d2] by blast
  show "seat F os rb s'" unfolding s' by (rule seat_cong [OF st]) (simp_all add: env_rng [OF env sub])
  show "s_conns s' = s_conns s" "m_row mint' = m_row mint" by (simp_all add: s' m')
  show "m_token mint' \<noteq> 0" "m_token mint' \<notin> fst ` set (s_conns s)"
    using draw_unused_Some [OF d1] env by (auto simp: m' env_ok_def queues_ok_def commands_ok_def)
  show "length (m_key mint') = CRYPTO_KEY_SIZE"
    using env key by (auto simp: m' env_ok_def queues_ok_def commands_ok_def split: option.splits)
  show "length (m_salt mint') = SESSION_SALT_SIZE" using draw_salt_Some [OF d2] by (simp add: m')
qed


section \<open>Planning, plugging and adopting\<close>

lemma planSessionPadsLocked_seat:
  assumes st: "seat F os rb s" and ds: "distinct (idxs desired)"
    and p: "planSessionPadsLocked rb desired s = (pads, s')"
  shows "seat (F + pend False pads) os rb s'" "pads_ok False rb pads" "s_conns s' = s_conns s"
proof -
  have "bal (held_rows os + held rb + F) s" using st by (simp add: seat_def)
  note pl = planSessionPadsLocked_ok [OF this ds p]
  have "env_ok s'" "s_hot s' = s_hot s" "s_conns s' = s_conns s"
    using pl st same_rows_env [of s s'] by (auto simp: seat_def same_rows_def)
  then show "seat (F + pend False pads) os rb s'" "s_conns s' = s_conns s"
    using pl st by (simp_all add: seat_def add.assoc)
  show "pads_ok False rb pads" using pl by blast
qed

lemma plugPads_seat:
  assumes st: "seat F os rb s" and p: "plugPads b change s = (change', s')"
  shows "seat F os rb s'" "s_conns s' = s_conns s"
    "tc_retired change' = tc_retired change"
    "list_all2 plug_outcome (tc_pads change) (tc_pads change')"
proof -
  have sb: "same_but_backend s s'" using plugPads_spec [OF p] by blast
  note d = same_but_backendD [OF sb]
  have "env_ok s'" using st d by (simp add: seat_def env_ok_def queues_ok_def commands_ok_def)
  then show "seat F os rb s'" using d by (intro seat_cong [OF st]) simp_all
  show "s_conns s' = s_conns s" by (rule d(1))
  show "tc_retired change' = tc_retired change"
    "list_all2 plug_outcome (tc_pads change) (tc_pads change')"
    using plugPads_spec [OF p] by blast+
qed

text \<open>A row that differs only in its pointer stamps holds the same pads.\<close>

lemma releaseConnectionPointerLocked_spec:
  assumes "releaseConnectionPointerLocked r s = (r', s')"
  shows "quiet s s'" "r' = r\<lparr>controllers := controllers r'\<rparr>"
    "list_all2 (\<lambda>c c'. c' = c\<lparr>pointerStamp := pointerStamp c'\<rparr>) (controllers r) (controllers r')"
proof -
  let ?f = "\<lambda>c t. if active c then releasePointerLocked c t else (c, t)"
  have step: "quiet s (snd (?f c t)) \<and> fst (?f c t) = c\<lparr>pointerStamp := pointerStamp (fst (?f c t))\<rparr>"
    if "quiet s t" for c t
    using releasePointerLocked_quiet [of c t "fst (releasePointerLocked c t)" "snd (releasePointerLocked c t)"]
      quiet_trans [OF that] that by simp
  have "quiet s (snd (mapS ?f (controllers r) s)) \<and>
      list_all2 (\<lambda>c c'. c' = c\<lparr>pointerStamp := pointerStamp c'\<rparr>) (controllers r)
        (fst (mapS ?f (controllers r) s))"
    by (rule mapS_inv [where I = "quiet s"]) (simp, use step in blast)
  then show "quiet s s'" "r' = r\<lparr>controllers := controllers r'\<rparr>"
    "list_all2 (\<lambda>c c'. c' = c\<lparr>pointerStamp := pointerStamp c'\<rparr>) (controllers r) (controllers r')"
    using assms unfolding releaseConnectionPointerLocked_def by (auto split: prod.splits)
qed

text \<open>Two rows with the same pads, by what the plan and the pool see of them.\<close>

definition same_pads :: "connection \<Rightarrow> connection \<Rightarrow> bool" where
  "same_pads r r' \<longleftrightarrow>
     activeControllerCount r' = activeControllerCount r \<and>
     list_all2 (\<lambda>c c'. c' = c\<lparr>pointerStamp := pointerStamp c'\<rparr>) (controllers r) (controllers r')"

lemma same_pads_refl: "same_pads r r"
  by (simp add: same_pads_def list_all2_refl)

lemma same_padsD:
  assumes "same_pads r r'"
  shows "row_ok r' = row_ok r" "held r' = held r"
    "length (controllers r) = 16 \<Longrightarrow> pads_ok b r' pads = pads_ok b r pads"
proof -
  let ?P = "\<lambda>c c'. c' = c\<lparr>pointerStamp := pointerStamp c'\<rparr>"
  have l2: "list_all2 ?P (controllers r) (controllers r')" using assms by (simp add: same_pads_def)
  have len: "length (controllers r') = length (controllers r)" using list_all2_lengthD [OF l2] by simp
  have nth: "?P (controllers r ! i) (controllers r' ! i)" if "i < length (controllers r)" for i
    using list_all2_nthD [OF l2 that] .
  have mp: "map f (controllers r') = map f (controllers r)"
    if "\<And>c x. f (c\<lparr>pointerStamp := x\<rparr>) = f c" for f :: "controller \<Rightarrow> 'x"
    using l2 by (induction rule: list_all2_induct) (simp_all, metis that)
  have "map one_held (controllers r') = map one_held (controllers r)"
    by (rule mp) (simp add: one_held_def)
  then show "held r' = held r" unfolding held_def mset_held by (rule arg_cong)
  have "map (\<lambda>c. if active c then 1 else (0 :: int)) (controllers r')
      = map (\<lambda>c. if active c then 1 else 0) (controllers r)" by (rule mp) simp
  then have cnt: "int (length (filter active (controllers r')))
      = int (length (filter active (controllers r)))" unfolding count_active by (rule arg_cong)
  have "ctrl_ok i (controllers r' ! i) = ctrl_ok i (controllers r ! i)"
    if "i < length (controllers r)" for i
    by (subst nth [OF that]) (simp add: ctrl_ok_def)
  then show "row_ok r' = row_ok r"
    using assms unfolding row_ok_def len cnt by (auto simp: same_pads_def)
  show "pads_ok b r' pads = pads_ok b r pads" if "length (controllers r) = 16"
  proof -
    have "pad_ok b r' pad = pad_ok b r pad" for pad
    proof (cases "d_ctrlIdx (pd_desc pad) < 16")
      case True
      have "active (controllers r' ! d_ctrlIdx (pd_desc pad)) = active (controllers r ! d_ctrlIdx (pd_desc pad))"
        "identity (controllers r' ! d_ctrlIdx (pd_desc pad)) = identity (controllers r ! d_ctrlIdx (pd_desc pad))"
        using that True by (subst nth; simp)+
      then show ?thesis by (simp only: pad_ok_def Let_def)
    next
      case False
      then show ?thesis by (cases "pd_kind pad") (simp_all add: pad_ok_def Let_def)
    qed
    then show ?thesis by (simp add: pads_ok_def)
  qed
qed
lemma adoptSessionLocked_spec:
  assumes a: "adoptSessionLocked existing name mint s = (r0, s0)"
    and os: "os = (case existing of None \<Rightarrow> s_conns s | Some tok \<Rightarrow> others tok (s_conns s))"
    and rb: "rb = (case existing of None \<Rightarrow> m_row mint | Some tok \<Rightarrow> deref tok s)"
    and tok: "\<And>tok. existing = Some tok \<Longrightarrow> token (deref tok s) = tok"
  shows "s_conns s0 = os @ [(m_token mint, r0)]" "same_pads rb r0"
    "quiet (s\<lparr>s_conns := s_conns s0\<rparr>) s0"
    "\<exists>cs. r0 = rb\<lparr>controllers := cs, token := m_token mint\<rparr>"
proof -
  have "s_conns s0 = os @ [(m_token mint, r0)] \<and> same_pads rb r0 \<and>
    quiet (s\<lparr>s_conns := s_conns s0\<rparr>) s0 \<and> (\<exists>cs. r0 = rb\<lparr>controllers := cs, token := m_token mint\<rparr>)"
  proof (cases existing)
    case None
    have "same_pads rb r0"
      using a None rb same_pads_refl [of rb] by (auto simp: adoptSessionLocked_def Let_def same_pads_def)
    moreover have "r0 = rb\<lparr>controllers := controllers rb, token := m_token mint\<rparr>"
      using a None rb by (auto simp: adoptSessionLocked_def Let_def)
    moreover have "s_conns s0 = os @ [(m_token mint, r0)]" "quiet (s\<lparr>s_conns := s_conns s0\<rparr>) s0"
      using a None os
      by (auto simp: adoptSessionLocked_def Let_def logMsg_def emit_def quiet_def same_rows_def commands_ok_def)
    ultimately show ?thesis by blast
  next
    case (Some k)
    let ?s1 = "emit (SendSessionClose (conn_endpoint rb) CLOSE_REASON_REPLACED) s"
    obtain r1 s1 where rl: "releaseConnectionPointerLocked rb ?s1 = (r1, s1)" by force
    note sp = releaseConnectionPointerLocked_spec [OF rl]
    obtain cs where r1: "r1 = rb\<lparr>controllers := cs\<rparr>" using sp(2) by blast
    have tk: "token r1 = k" using r1 tok [OF Some] rb Some by simp
    have res: "r0 = r1\<lparr>token := m_token mint\<rparr>"
        "s0 = logMsg INFO (''Session rotated for '' @ name @ '' ('' @ connectionId r0 @ '')'')
           (s1\<lparr>s_conns := filter (\<lambda>e. fst e \<noteq> k) (s_conns s1) @ [(m_token mint, r0)]\<rparr>)"
      using a Some rl rb tk by (auto simp: adoptSessionLocked_def Let_def)
    have q: "quiet s s1" by (rule quiet_trans [OF quietI(1) sp(1)])
    then have c: "s_conns s1 = s_conns s" by (simp add: quiet_def same_rows_def)
    have "quiet (s\<lparr>s_conns := s_conns s0\<rparr>) s0"
      using q unfolding res(2) by (simp add: quiet_def same_rows_def commands_ok_def logMsg_def emit_def)
    moreover have "same_pads rb r0" using sp(3) res(1) r1 by (simp add: same_pads_def)
    moreover have "r0 = rb\<lparr>controllers := cs, token := m_token mint\<rparr>" using res(1) r1 by simp
    moreover have "s_conns s0 = os @ [(m_token mint, r0)]"
      using os Some c unfolding res(2) by (simp add: others_def logMsg_def emit_def)
    ultimately show ?thesis by blast
  qed
  then show "s_conns s0 = os @ [(m_token mint, r0)]" "same_pads rb r0"
    "quiet (s\<lparr>s_conns := s_conns s0\<rparr>) s0"
    "\<exists>cs. r0 = rb\<lparr>controllers := cs, token := m_token mint\<rparr>" by blast+
qed

section \<open>Publishing a session\<close>

lemma publishSessionKeyLocked_simps:
  assumes "length (sessionKey r) = CRYPTO_KEY_SIZE"
  shows "hs_token (publishSessionKeyLocked now r h) = token r"
    "hs_loadKey (publishSessionKeyLocked now r h) = sessionKey r"
    "hs_row (publishSessionKeyLocked now r h) = row r"
    "hs_loadName (publishSessionKeyLocked now r h)
       = take (utf8Prefix (string_bytes (deviceName r)) HOT_NAME_BYTES) (string_bytes (deviceName r))"
    "hs_gen (publishSessionKeyLocked now r h) = hs_gen h"
    "hs_keyEpoch (publishSessionKeyLocked now r h) = hs_keyEpoch h + 1"
    "hs_txCounter (publishSessionKeyLocked now r h) = 0"
    "hs_clientAddr (publishSessionKeyLocked now r h) = 0"
    "hs_lastPacketTicks (publishSessionKeyLocked now r h) = now"
proof -
  have "hs_loadKey (hs_storeName str h') = hs_loadKey h'" for str h'
    by (simp add: hs_storeName_def hs_loadKey_def Let_def)
  then show "hs_loadKey (publishSessionKeyLocked now r h) = sessionKey r"
    using hs_loadKey_storeKey [of "sessionKey r"] assms
    by (simp add: publishSessionKeyLocked_def hs_loadKey_def)
  show "hs_loadName (publishSessionKeyLocked now r h)
       = take (utf8Prefix (string_bytes (deviceName r)) HOT_NAME_BYTES) (string_bytes (deviceName r))"
    unfolding publishSessionKeyLocked_def by (rule hs_loadName_storeName)
qed (simp_all add: publishSessionKeyLocked_def hs_storeName_def hs_storeKey_def Let_def)

lemma publishSessionLocked_ok:
  assumes ex: "hot_except (slot r) R (s_hot s)" and sl: "slot r < MAX_SESSIONS"
    and ow: "owners_ok (insert rb R) (padOwners (s_hot s))"
    and rows: "row_ok r" "row_ok rb" "slot rb = slot r"
    and key: "length (sessionKey r) = CRYPTO_KEY_SIZE"
    and free: "\<And>r' x i j. r' \<in> R \<Longrightarrow> holds r x i \<Longrightarrow> \<not> holds r' x j"
    and uniq: "\<And>x i j. holds r x i \<Longrightarrow> holds r x j \<Longrightarrow> i = j"
    and p: "publishSessionLocked now r s = (r', s')"
  shows "same_core r r' \<and> same_but_hot s s' \<and> hot_ok (insert r' R) (s_hot s')"
proof -
  let ?t = "s_hot s"
  let ?h = "slots ?t ! slot r"
  let ?h' = "hs_endWrite (publish_words r (publishSessionKeyLocked now r (hs_beginWrite ?h)))"
  let ?t' = "hot_publish (slot r) (token r)
     (ConnectionWrite r (upd_slot (slot r) (publishSessionKeyLocked now r)) ?t)"
  have len: "length (slots ?t) = 32" using ex by (simp add: hot_except_def)
  have cw: "ConnectionWrite r (upd_slot (slot r) (publishSessionKeyLocked now r)) ?t
      = ?t\<lparr>slots := (slots ?t)[slot r := ?h'], padOwners := set_owners r (clear_owners r (padOwners ?t))\<rparr>"
    by (rule ConnectionWrite_upd) (use len sl in simp)
  note pk = publishSessionKeyLocked_simps [OF key]
  have own: "owners_ok (insert r R) (set_owners r (clear_owners r (padOwners ?t)))"
    using ex sl rows by (intro publish_owners_ok [OF ow _ _ _ _ _ free uniq]) (auto simp: hot_except_def)
  have hot: "hot_ok (insert r R) ?t'"
  proof (rule hot_ok_rewritten [OF ex sl])
    show "tokens ?t' = (tokens ?t)[slot r := token r]"
      unfolding cw by (simp add: hot_publish_def)
    show "slots ?t' = (slots ?t)[slot r := ?h']" unfolding cw by (simp add: hot_publish_def)
    have "hs_writing ?h' = hs_writing ?h" by (rule written_slot) (rule pk(5))
    then show "\<not> hs_writing ?h'" using ex sl by (simp add: hot_except_def)
    show "mirrors r ?h'" unfolding mirrors_written by (simp add: pk)
    show "owners_ok (insert r R) (padOwners ?t')" unfolding cw using own by (simp add: hot_publish_def)
  qed
  have ss: "sendSeededRumbleLocked now r (s\<lparr>s_hot := ?t'\<rparr>) = (r', s')"
    using p by (simp add: publishSessionLocked_def)
  note c = sendSeededRumbleLocked_core [OF ss]
  have st': "s_hot s' = ?t'" using c by (simp add: quiet_def same_rows_def)
  have "hot_ok (insert r' R) ?t'" using hot c hot_ok_same_core by blast
  moreover have "same_but_hot s s'" unfolding same_but_hot_def st' using c by simp
  ultimately show ?thesis using c st' by simp
qed
section \<open>The second locked section\<close>

lemma rows_ok_snoc:
  "rows_ok (os @ [(t, r)]) \<longleftrightarrow>
     rows_ok os \<and> t \<notin> fst ` set os \<and> deviceId r \<notin> deviceId ` snd ` set os \<and>
     connectionId r \<notin> connectionId ` snd ` set os \<and> slot r \<notin> slot ` snd ` set os \<and>
     t = token r \<and> t \<noteq> 0 \<and> row_ok r \<and> slot r < MAX_SESSIONS \<and> length (sessionKey r) = CRYPTO_KEY_SIZE"
  by (auto simp: rows_ok_def image_image)

text \<open>The request's fields of the row, as the commit sets them.\<close>

definition taken_fields :: "ticks \<Rightarrow> string \<Rightarrow> string \<Rightarrow> bool \<Rightarrow> int \<Rightarrow> session_mint \<Rightarrow> connection \<Rightarrow> connection" where
  "taken_fields now name ip mouse version mint r =
     r\<lparr>token := m_token mint, deviceName := name, clientIP := ip, sessionSalt := m_salt mint,
       sessionKey := m_key mint, graceUntil := now + sec REST_LIVENESS_GRACE_SEC,
       protocolVersion := version, mouseControlGranted := mouse\<rparr>"

lemma taken_fields_simps [simp]:
  "token (taken_fields now name ip mouse version mint r) = m_token mint"
  "deviceId (taken_fields now name ip mouse version mint r) = deviceId r"
  "connectionId (taken_fields now name ip mouse version mint r) = connectionId r"
  "slot (taken_fields now name ip mouse version mint r) = slot r"
  "sessionKey (taken_fields now name ip mouse version mint r) = m_key mint"
  "controllers (taken_fields now name ip mouse version mint r) = controllers r"
  "activeControllerCount (taken_fields now name ip mouse version mint r) = activeControllerCount r"
  "taken_fields now name ip mouse version mint (r\<lparr>controllers := cs, token := t\<rparr>)
     = (taken_fields now name ip mouse version mint r)\<lparr>controllers := cs\<rparr>"
  by (simp_all add: taken_fields_def)

lemma upsert_commit_inv:
  assumes st: "seat (F + pend False (tc_pads change)) os rb s"
    and os: "os = (case existing of None \<Rightarrow> s_conns s | Some tok \<Rightarrow> others tok (s_conns s))"
    and rb: "rb = (case existing of None \<Rightarrow> m_row mint | Some tok \<Rightarrow> deref tok s)"
    and tok: "\<And>tok. existing = Some tok \<Longrightarrow> token (deref tok s) = tok"
    and ok: "pads_ok False rb (tc_pads change)" and ret: "tc_retired change = []"
    and fresh: "m_token mint \<notin> fst ` set (s_conns s)" "m_token mint \<noteq> 0"
    and key: "length (m_key mint) = CRYPTO_KEY_SIZE"
    and c: "upsert_commit now existing name ip mouse version mint change s = (change', s')"
  shows "svc_inv (F + mset (map rt_serial (tc_retired change'))) s' \<and>
    waiting_ok (deref (m_token mint) s') (tc_pads change') \<and>
    s_conns s' = os @ [(m_token mint, deref (m_token mint) s')] \<and>
    same_session (taken_fields now name ip (mouse \<and> gp_supportsRelativeMouse (s_port s) (s_backend s))
       version mint rb) (deref (m_token mint) s')"
proof -
  let ?T = "m_token mint"
  let ?m = "mouse \<and> gp_supportsRelativeMouse (s_port s) (s_backend s)"
  let ?tf = "taken_fields now name ip ?m version mint"
  obtain r0 s0 where a: "adoptSessionLocked existing name mint s = (r0, s0)" by force
  note ad = adoptSessionLocked_spec [OF a os rb tok]
  obtain cs where r0: "r0 = rb\<lparr>controllers := cs, token := ?T\<rparr>" using ad(4) by blast
  have q0: "s_pool s0 = s_pool s" "s_activePads s0 = s_activePads s" "s_hot s0 = s_hot s"
      "s_port s0 = s_port s" "s_backend s0 = s_backend s" "env_ok s0"
    using ad(3) st by (simp_all add: quiet_def same_rows_def seat_def env_ok_def queues_ok_def commands_ok_def)
  have pads: "same_pads rb (?tf r0)" using ad(2) by (simp add: same_pads_def)
  obtain r2 s2 where cm: "commitPadsLocked False (?tf r0) change s0 = (r2, change', s2)"
    using c a q0 r0 unfolding upsert_commit_def taken_fields_def by (auto simp: Let_def split: prod.splits)
  obtain r3 s3 where pb: "publishSessionLocked now r2 s2 = (r3, s3)" by force
  have s': "s' = put_row r3 s3"
    using c a cm pb q0 r0 unfolding upsert_commit_def taken_fields_def
    by (auto simp: Let_def split: prod.splits)
  have rbl: "length (controllers rb) = 16" using st by (simp add: seat_def row_ok_def)
  have f: "focus ((held_rows os + F) + pend False (tc_pads change)) (count_rows os)
      (?tf r0, tc_retired change, s0)"
    using st same_padsD(1,2) [OF pads] ret pads
    by (simp add: focus.simps seat_def bal_def q0 same_pads_def ac_simps)
  have ok0: "pads_ok False (?tf r0) (tc_pads change)" using ok same_padsD(3) [OF pads rbl] by simp
  note cb = commitPadsLocked_balance [OF f ok0 cm]
  have foc: "focus (held_rows os + F) (count_rows os) (r2, tc_retired change', s2)"
    and ss: "same_session (?tf r0) r2" and sr: "same_rows s0 s2" using cb by blast+
  let ?G = "F + mset (map rt_serial (tc_retired change'))"
  let ?R = "snd ` set os"
  have b2: "bal (held_rows os + held r2 + ?G) s2"
    using foc by (simp add: focus.simps bal_def ac_simps)
  have row2: "row_ok r2" using foc by (simp add: focus.simps)
  have id2: "token r2 = ?T" "slot r2 = slot rb" "deviceId r2 = deviceId rb"
      "connectionId r2 = connectionId rb" "sessionKey r2 = m_key mint"
    using ss r0 by (simp_all add: same_session_def)
  have pub: "same_core r2 r3 \<and> same_but_hot s2 s3 \<and> hot_ok (insert r3 ?R) (s_hot s3)"
  proof (rule publishSessionLocked_ok [OF _ _ _ row2 _ _ _ _ _ pb])
    show "hot_except (slot r2) ?R (s_hot s2)" "slot r2 < 32" "row_ok rb" "slot rb = slot r2"
        "owners_ok (insert rb ?R) (padOwners (s_hot s2))" "length (sessionKey r2) = 32"
      using st sr q0 id2 key by (simp_all add: seat_def same_rows_def)
    show "\<And>r' x i j. r' \<in> ?R \<Longrightarrow> holds r2 x i \<Longrightarrow> \<not> holds r' x j"
      by (rule serials_apart(1) [OF b2 refl])
    show "\<And>x i j. holds r2 x i \<Longrightarrow> holds r2 x j \<Longrightarrow> i = j"
      by (rule serials_apart(2) [OF b2 refl])
  qed
  have sc: "same_core r2 r3" and sh: "same_but_hot s2 s3" using pub by blast+
  note shD = same_but_hotD [OF sh]
  have ss3: "same_session (?tf rb) r3"
    using ss sc r0 by (simp add: same_core_def same_session_def)
  have id3: "token r3 = ?T" "slot r3 = slot rb" "deviceId r3 = deviceId rb"
      "connectionId r3 = connectionId rb" "sessionKey r3 = m_key mint" "row_ok r3"
    using id2 sc row2 same_core_row_ok [OF sc] by (simp_all add: same_core_def same_session_def)
  have sub: "set os \<subseteq> set (s_conns s)" using os by (auto simp: others_def split: option.splits)
  then have Tos: "?T \<notin> fst ` set os" using fresh(1) by blast
  have conns3: "s_conns s3 = os @ [(?T, r0)]" using shD(1) sr ad(1) by (simp add: same_rows_def)
  have "map (\<lambda>e. if fst e = ?T then (fst e, r3) else e) os = os"
    using Tos by (intro map_idI) (auto simp: image_iff)
  then have conns: "s_conns s' = os @ [(?T, r3)]"
    unfolding s' put_row_def using id3(1) conns3 by simp
  have rows: "rows_ok (s_conns s')"
    using st Tos id3 key fresh(2) unfolding conns rows_ok_snoc
    by (auto simp: seat_def hot_except_def)
  have der: "deref ?T s' = r3" by (rule deref_eq [OF rows]) (simp add: conns)
  have e': "s_pool s' = s_pool s3" "s_activePads s' = s_activePads s3" "s_hot s' = s_hot s3"
    by (simp_all add: s')
  have "svc_inv ?G s'"
    unfolding svc_inv_def
  proof (intro conjI rows)
    show "bal (held_rows (s_conns s') + ?G) s'"
      using b2 shD(2) same_core_held [OF sc] by (simp add: conns held_rows_def bal_def e')
    show "s_activePads s' = count_rows (s_conns s')"
      using foc shD(3) sc by (simp add: conns count_rows_def focus.simps e' same_core_def)
    show "hot_ok (snd ` set (s_conns s')) (s_hot s')" using pub by (simp add: conns e')
    have "env_ok s3" using shD(6) same_rows_env [OF sr] q0(6) by simp
    then show "env_ok s'" by (simp add: env_ok_def queues_ok_def commands_ok_def s')
  qed
  moreover have "waiting_ok r3 (tc_pads change')"
  proof -
    have "waiting_ok r2 (tc_pads change')"
      by (rule commit_first_waiting_ok [OF ok0]) (use cb in auto)
    then show ?thesis using same_core_nth [OF sc] row2
      by (auto simp: waiting_ok_def row_ok_def pad_core_def)
  qed
  ultimately show ?thesis using conns ss3 by (simp add: der)
qed
section \<open>The other rows\<close>

text \<open>A plan for one row leaves every other row as it was.\<close>

lemma put_row_others: "others (token r) (s_conns (put_row r s)) = others (token r) (s_conns s)"
proof -
  have "filter (\<lambda>e. fst e \<noteq> k) (map (\<lambda>e. if fst e = k then (fst e, r) else e) es)
      = filter (\<lambda>e. fst e \<noteq> k) es" for k and es :: "(u32 \<times> connection) list"
    by (induction es) auto
  then show ?thesis by (simp add: others_def put_row_def)
qed

lemma commit_and_publish_others:
  assumes inv: "svc_inv (F + pend b (tc_pads change) + mset (map rt_serial (tc_retired change))) s"
    and tok: "tok \<in> fst ` set (s_conns s)" and ok: "pads_ok b (deref tok s) (tc_pads change)"
    and c: "commit_and_publish b now tok change s = (change', s')"
  shows "others tok (s_conns s') = others tok (s_conns s)"
proof -
  note o = inv_open [OF inv tok]
  obtain r1 s1 where cm: "commitPadsLocked b (deref tok s) change s = (r1, change', s1)"
    using c unfolding commit_and_publish_def by (auto split: prod.splits)
  obtain r2 s2 where pb: "publishControllersLocked now r1 s1 = (r2, s2)" by force
  have s': "s' = put_row r2 s2"
    using c cm pb unfolding commit_and_publish_def by (auto split: prod.splits)
  have "bal (held_rows (s_conns s) + (F + pend b (tc_pads change) +
      mset (map rt_serial (tc_retired change)))) s" using inv by (simp add: svc_inv_def)
  then have "focus ((held_rows (others tok (s_conns s)) + F) + pend b (tc_pads change))
      (count_rows (others tok (s_conns s))) (deref tok s, tc_retired change, s)"
    using inv o(4,7,8) by (simp add: focus.simps bal_def svc_inv_def ac_simps)
  note cb = commitPadsLocked_balance [OF this ok cm]
  have "token r2 = token r1 \<and> s_conns s2 = s_conns s1"
  proof (cases "controllersPublished r1 (s_hot s1)")
    case True
    then show ?thesis using pb by (simp add: publishControllersLocked_def)
  next
    case False
    then have "sendSeededRumbleLocked now r1 (s1\<lparr>s_hot := ConnectionWrite r1 (\<lambda>t. t) (s_hot s1)\<rparr>) = (r2, s2)"
      using pb by (simp add: publishControllersLocked_def)
    from sendSeededRumbleLocked_core [OF this] show ?thesis
      by (simp add: same_core_def same_session_def quiet_def same_rows_def)
  qed
  moreover have "token r1 = tok" "s_conns s1 = s_conns s"
    using cb o(2) by (simp_all add: same_session_def same_rows_def)
  ultimately show ?thesis using put_row_others [of r2 s2] unfolding s' by simp
qed

lemma settlePadChange_others:
  assumes inv: "svc_inv (F + mset (map rt_serial (tc_retired change))) s"
    and tok: "tok \<in> fst ` set (s_conns s)" and w: "waiting_ok (deref tok s) (tc_pads change)"
    and p: "settlePadChange now tok change s = (change', s')"
  shows "others tok (s_conns s') = others tok (s_conns s)"
proof -
  obtain ret s1 where u: "unplugRetired (tc_retired change) s = (ret, s1)" by force
  have sb: "same_but_backend s s1" and rs: "map rt_serial ret = map rt_serial (tc_retired change)"
    using unplugRetired_spec [OF u] by blast+
  have i1: "svc_inv (F + mset (map rt_serial ret)) s1"
    using inv unfolding rs same_but_backend_inv [OF sb] .
  have d1: "deref tok s1 = deref tok s" "s_conns s1 = s_conns s"
    using same_but_backend_deref [OF sb] same_but_backendD(1) [OF sb] by blast+
  obtain wt ch2 s2 where sa: "settle_and_allocate ret change s1 = (wt, ch2, s2)" by (metis prod_cases3)
  have w1: "waiting_ok (deref tok s1) (tc_pads change)" using w d1 by simp
  note st = settle_and_allocate_inv [OF i1 w1 sa]
  have d2: "s_conns s2 = s_conns s" using st(2) d1 by (simp add: same_rows_def)
  show ?thesis
  proof (cases wt)
    case False
    then have "(change', s') = (ch2, s2)" using p u sa by (simp add: settlePadChange_def)
    then show ?thesis using d2 by simp
  next
    case True
    obtain ch3 s3 where pl: "plugPads True ch2 s2 = (ch3, s3)" by force
    note pi = plugPads_inv [OF pl st(1)]
    have cp: "commit_and_publish True now tok ch3 s3 = (change', s')"
      using p u sa pl True by (simp add: settlePadChange_def)
    note po = plug_outcome_pads_ok [OF pi(5) st(3)]
    have ret3: "tc_retired ch3 = []" using pi(4) st(4) by simp
    have i3: "svc_inv (F + pend True (tc_pads ch3) + mset (map rt_serial (tc_retired ch3))) s3"
      using pi(1) po(2) ret3 by simp
    have t3: "tok \<in> fst ` set (s_conns s3)" using tok pi(3) d2 by simp
    have ok3: "pads_ok True (deref tok s3) (tc_pads ch3)" using po(1) pi(2) by simp
    show ?thesis using commit_and_publish_others [OF i3 t3 ok3 cp] pi(3) d2 by simp
  qed
qed

section \<open>The upsert\<close>

lemma upsert_plan_seat:
  assumes inv: "svc_inv F s" and ds: "distinct (idxs desired)"
    and key: "s_keyDeriver s = None \<longrightarrow> length pairingKey = CRYPTO_KEY_SIZE"
    and u: "upsert_plan now dev name pairingKey desired s = Some (True, mint, existing, change, s')"
  defines "os \<equiv> case existing of None \<Rightarrow> s_conns s | Some tok \<Rightarrow> others tok (s_conns s)"
    and "rb \<equiv> case existing of None \<Rightarrow> m_row mint | Some tok \<Rightarrow> deref tok s"
  shows "seat (F + pend False (tc_pads change)) os rb s'" "s_conns s' = s_conns s"
    "pads_ok False rb (tc_pads change)" "tc_retired change = []" "deviceId rb = dev"
    "m_token mint \<notin> fst ` set (s_conns s)" "m_token mint \<noteq> 0" "length (m_key mint) = CRYPTO_KEY_SIZE"
    "existing = map_option token (findByDeviceId dev s)"
    "existing = Some tok \<Longrightarrow> tok \<in> fst ` set (s_conns s)"
    "\<exists>t. planSessionPadsLocked rb desired t = (tc_pads change, s')"
proof -
  show ex: "existing = map_option token (findByDeviceId dev s)"
    using u unfolding upsert_plan_def by (auto simp: Let_def split: option.splits bind_splits if_splits prod.splits)
  show tk: "tok \<in> fst ` set (s_conns s)" if e: "existing = Some tok" for tok
  proof -
    obtain r0 where "findByDeviceId dev s = Some r0" "token r0 = tok" using ex e by (cases "findByDeviceId dev s") auto
    then show ?thesis using findByDeviceId_mem [of dev s r0] row_deref(1) [OF inv, of r0] by simp
  qed
  obtain mint1 s1 where r: "(case existing of Some _ \<Rightarrow> Some (True, empty_mint, s)
       | None \<Rightarrow> reserveSessionLocked now dev name empty_mint s) = Some (True, mint1, s1)"
    and m: "(do { (mint2, s2) \<leftarrow> mintSessionKeyLocked pairingKey mint1 s1;
       let (pads, s3) = planSessionPadsLocked
             (case existing of Some tok \<Rightarrow> deref tok s2 | None \<Rightarrow> m_row mint2) desired s2;
       Some (True, mint2, existing, empty_change\<lparr>tc_pads := pads\<rparr>, s3) })
        = Some (True, mint, existing, change, s')"
    using u unfolding upsert_plan_def ex by (auto simp: Let_def split: bind_splits if_splits)
  obtain s2 where mk: "mintSessionKeyLocked pairingKey mint1 s1 = Some (mint, s2)"
    and pl: "planSessionPadsLocked (case existing of Some tok \<Rightarrow> deref tok s2 | None \<Rightarrow> m_row mint)
       desired s2 = (tc_pads change, s')" and ret: "tc_retired change = []"
    using m by (auto simp: Let_def empty_change_def split: bind_splits prod.splits)
  define rb1 where "rb1 = (case existing of None \<Rightarrow> m_row mint1 | Some tok \<Rightarrow> deref tok s)"
  have r1: "seat F os rb1 s1 \<and> s_conns s1 = s_conns s \<and> s_keyDeriver s1 = s_keyDeriver s \<and> deviceId rb1 = dev"
  proof (cases existing)
    case None
    have "reserveSessionLocked now dev name empty_mint s = Some (True, mint1, s1)" using r None by simp
    from reserveSessionLocked_seat [OF inv _ _ this] show ?thesis
      using ex None by (simp add: os_def rb1_def empty_mint_def)
  next
    case (Some tok)
    obtain r0 where r0: "findByDeviceId dev s = Some r0" "token r0 = tok"
      using ex Some by (cases "findByDeviceId dev s") auto
    have "deviceId (deref tok s) = dev"
      using findByDeviceId_mem [OF r0(1)] row_deref(2) [OF inv, of r0] r0(2) by auto
    then show ?thesis
      using r Some seat_existing [OF inv tk [OF Some]] by (simp add: os_def rb1_def)
  qed
  have k1: "s_keyDeriver s1 = None \<longrightarrow> length pairingKey = CRYPTO_KEY_SIZE" using key r1 by simp
  note mt = mintSessionKeyLocked_seat [OF conjunct1 [OF r1] k1 mk]
  have rbe: "rb1 = rb" unfolding rb1_def rb_def using mt(3) by (auto split: option.splits)
  have "deref tok s2 = deref tok s" for tok using mt(2) r1 by (simp add: deref_def find_conn_def)
  then have pl': "planSessionPadsLocked rb desired s2 = (tc_pads change, s')"
    using pl unfolding rb_def by (auto split: option.splits)
  then show "\<exists>t. planSessionPadsLocked rb desired t = (tc_pads change, s')" by blast
  note pp = planSessionPadsLocked_seat [OF mt(1) ds pl' [folded rbe]]
  show "seat (F + pend False (tc_pads change)) os rb s'" "pads_ok False rb (tc_pads change)"
      "deviceId rb = dev" using pp r1 rbe by simp_all
  show "s_conns s' = s_conns s" using pp(3) mt(2) r1 by simp
  show "tc_retired change = []" by (rule ret)
  show "m_token mint \<notin> fst ` set (s_conns s)" "m_token mint \<noteq> 0" "length (m_key mint) = CRYPTO_KEY_SIZE"
    using mt r1 by simp_all
qed
lemma upsert_plan_refused:
  assumes "upsert_plan now dev name pairingKey desired s = Some (False, mint, existing, change, s')"
  shows "quiet s s'" "findByDeviceId dev s = None" "hot_findFree (s_hot s) = None"
proof -
  have "\<exists>msg. s' = logMsg WARN msg s" "findByDeviceId dev s = None" "hot_findFree (s_hot s) = None"
    using assms unfolding upsert_plan_def reserveSessionLocked_def
    by (auto simp: Let_def split: option.splits bind_splits if_splits prod.splits)
  then show "quiet s s'" "findByDeviceId dev s = None" "hot_findFree (s_hot s) = None"
    by (auto intro: quietI)
qed

lemma others_of_device:
  assumes inv: "svc_inv F s"
  shows "(case map_option token (findByDeviceId dev s) of
        None \<Rightarrow> s_conns s | Some tok \<Rightarrow> others tok (s_conns s))
     = filter (\<lambda>e. deviceId (snd e) \<noteq> dev) (s_conns s)"
proof (cases "findByDeviceId dev s")
  case None
  from findBy_None(1) [OF this] None show ?thesis by (force intro: filter_True [symmetric])
next
  case (Some r)
  have r: "deviceId r = dev" "r \<in> snd ` set (s_conns s)" using findByDeviceId_mem [OF Some] by simp_all
  note rd = row_deref [OF inv r(2)]
  have rows: "rows_ok (s_conns s)" using inv by (simp add: svc_inv_def)
  then have d: "distinct (map (\<lambda>e. deviceId (snd e)) (s_conns s))" by (simp add: rows_ok_def)
  have "fst e \<noteq> token r \<longleftrightarrow> deviceId (snd e) \<noteq> dev" if e: "e \<in> set (s_conns s)" for e
  proof (cases "fst e = token r")
    case True
    have "(token r, snd e) \<in> set (s_conns s)" using e True by (metis prod.collapse)
    then have "snd e = r" using deref_eq [OF rows] rd(2) by simp
    then show ?thesis using True r(1) by simp
  next
    case False
    then have "e \<in> set (others (token r) (s_conns s))" using e by (simp add: others_def)
    then have "deviceId (snd e) \<in> deviceId ` snd ` set (others (token r) (s_conns s))" by (intro imageI)
    then show ?thesis using others_distinct [OF d rd(3)] r(1) False by metis
  qed
  then show ?thesis using Some unfolding others_def by (auto intro: filter_cong)
qed

lemma quiet_inv: "quiet s s' \<Longrightarrow> svc_inv F s \<Longrightarrow> svc_inv F s'"
  by (simp add: quiet_def same_rows_def svc_inv_def env_ok_def queues_ok_def commands_ok_def bal_def)

text \<open>A successful upsert, cut at its locked sections.\<close>

lemma upsertSession_parts:
  fixes s :: "'b svc"
  assumes inv: "svc_inv F s"
    and key: "s_keyDeriver s = None \<longrightarrow> length pairingKey = CRYPTO_KEY_SIZE"
    and u: "upsertSession now0 now1 now2 dev name ip pairingKey descs mouse version s = Some (res, s')"
    and ok: "ur_ok res"
  obtains mint existing change2 change3 change4 os rb and change :: topology_change and t s1 s2 s3 s4 :: "'b svc"
  where "planSessionPadsLocked rb (dedupDescriptors descs) t = (tc_pads change, s1)"
    "list_all2 plug_outcome (tc_pads change) (tc_pads change2)"
    "seat (F + pend False (tc_pads change2)) os rb s2"
    "os = (case existing of None \<Rightarrow> s_conns s2 | Some tok \<Rightarrow> others tok (s_conns s2))"
    "rb = (case existing of None \<Rightarrow> m_row mint | Some tok \<Rightarrow> deref tok s2)"
    "\<forall>tok. existing = Some tok \<longrightarrow> token (deref tok s2) = tok"
    "pads_ok False rb (tc_pads change2)" "tc_retired change2 = []"
    "m_token mint \<notin> fst ` set (s_conns s2)" "m_token mint \<noteq> 0" "length (m_key mint) = CRYPTO_KEY_SIZE"
    "upsert_commit now1 existing name ip mouse version mint change2 s2 = (change3, s3)"
    "settlePadChange now2 (m_token mint) change3 s3 = (change4, s4)"
    "res = upsert_result (deref (m_token mint) s4) change4 mouse s4"
    "s' = closeBusIfIdle (busIdleLocked s4) s4"
    "s_conns s2 = s_conns s" "existing = map_option token (findByDeviceId dev s)" "deviceId rb = dev"
proof -
  let ?ds = "dedupDescriptors descs"
  have ds: "distinct (idxs ?ds)" using dedupDescriptors_spec by blast
  obtain mint existing change s1 where
    pl: "upsert_plan now0 dev name pairingKey ?ds s = Some (True, mint, existing, change, s1)"
    using u ok unfolding upsertSession_def
    by (auto simp: empty_upsert_result_def split: bind_splits if_splits)
  obtain change2 s2 where p2: "plugPads False change s1 = (change2, s2)" by force
  obtain change3 s3 where
    c3: "upsert_commit now1 existing name ip mouse version mint change2 s2 = (change3, s3)" by force
  obtain change4 s4 where p4: "settlePadChange now2 (m_token mint) change3 s3 = (change4, s4)" by force
  have res: "res = upsert_result (deref (m_token mint) s4) change4 mouse s4"
      "s' = closeBusIfIdle (busIdleLocked s4) s4"
    using u pl p2 c3 p4 unfolding upsertSession_def by (simp_all add: Let_def)
  define os where "os = (case existing of None \<Rightarrow> s_conns s | Some tok \<Rightarrow> others tok (s_conns s))"
  define rb where "rb = (case existing of None \<Rightarrow> m_row mint | Some tok \<Rightarrow> deref tok s)"
  note ps = upsert_plan_seat [OF inv ds key pl, folded os_def rb_def]
  obtain t where t: "planSessionPadsLocked rb ?ds t = (tc_pads change, s1)" using ps(11) by blast
  note pg = plugPads_seat [OF ps(1) p2]
  have conns2: "s_conns s2 = s_conns s" using pg(2) ps(2) by simp
  have der2: "deref tok s2 = deref tok s" for tok using conns2 by (simp add: deref_def find_conn_def)
  note po = plug_outcome_pads_ok [OF pg(4) ps(3)]
  have st: "seat (F + pend False (tc_pads change2)) os rb s2" using pg(1) po(2) by simp
  have os: "os = (case existing of None \<Rightarrow> s_conns s2 | Some tok \<Rightarrow> others tok (s_conns s2))"
    and rb: "rb = (case existing of None \<Rightarrow> m_row mint | Some tok \<Rightarrow> deref tok s2)"
    unfolding os_def rb_def by (auto simp: conns2 der2 split: option.split)
  have tk: "\<forall>tok. existing = Some tok \<longrightarrow> token (deref tok s2) = tok"
    using inv_open(2) [OF inv ps(10)] der2 by simp
  have ret: "tc_retired change2 = []" using pg(3) ps(4) by simp
  have new: "m_token mint \<notin> fst ` set (s_conns s2)" using ps(6) conns2 by simp
  show thesis by (rule that) (fact t pg(4) st os rb tk po(1) ret new ps(5,7,8,9) c3 p4 res conns2)+
qed

lemma last_row:
  assumes "s_conns s = os @ [(T, deref T s)]"
  shows "T \<in> fst ` set (s_conns s)"
proof -
  have "(T, deref T s) \<in> set (s_conns s)" using assms by (metis in_set_conv_decomp)
  then show ?thesis by (rule rev_image_eqI) simp
qed

lemma upsertSession_ok:
  fixes s :: "'b svc"
  assumes inv: "svc_inv F s"
    and key: "s_keyDeriver s = None \<longrightarrow> length pairingKey = CRYPTO_KEY_SIZE"
    and u: "upsertSession now0 now1 now2 dev name ip pairingKey descs mouse version s = Some (res, s')"
    and ok: "ur_ok res"
  shows "svc_inv F s'" "ur_token res \<noteq> 0" "ur_token res \<notin> fst ` set (s_conns s)"
    "others (ur_token res) (s_conns s') = filter (\<lambda>e. deviceId (snd e) \<noteq> dev) (s_conns s)"
    "\<exists>r. find_conn (ur_token res) s' = Some r \<and> deviceId r = dev \<and> deviceName r = name \<and>
       clientIP r = ip \<and> protocolVersion r = version \<and> connectionId r = ur_connectionId res \<and>
       sessionSalt r = ur_sessionSalt res \<and> epoch r = ur_epoch res \<and>
       graceUntil r = now1 + sec REST_LIVENESS_GRACE_SEC \<and>
       (findByDeviceId dev s = None \<or>
          (\<exists>r0. findByDeviceId dev s = Some r0 \<and> connectionId r = connectionId r0 \<and> slot r = slot r0))"
proof -
  obtain mint existing change2 change3 change4 os rb and change :: topology_change and t s1 s2 s3 s4 :: "'b svc"
    where pt: "planSessionPadsLocked rb (dedupDescriptors descs) t = (tc_pads change, s1)"
      "list_all2 plug_outcome (tc_pads change) (tc_pads change2)"
      "seat (F + pend False (tc_pads change2)) os rb s2"
      "os = (case existing of None \<Rightarrow> s_conns s2 | Some tok \<Rightarrow> others tok (s_conns s2))"
      "rb = (case existing of None \<Rightarrow> m_row mint | Some tok \<Rightarrow> deref tok s2)"
      "\<forall>tok. existing = Some tok \<longrightarrow> token (deref tok s2) = tok"
      "pads_ok False rb (tc_pads change2)" "tc_retired change2 = []"
      "m_token mint \<notin> fst ` set (s_conns s2)" "m_token mint \<noteq> 0" "length (m_key mint) = CRYPTO_KEY_SIZE"
      "upsert_commit now1 existing name ip mouse version mint change2 s2 = (change3, s3)"
      and p4: "settlePadChange now2 (m_token mint) change3 s3 = (change4, s4)"
      and res: "res = upsert_result (deref (m_token mint) s4) change4 mouse s4"
      "s' = closeBusIfIdle (busIdleLocked s4) s4"
      and conns2: "s_conns s2 = s_conns s"
      and ex: "existing = map_option token (findByDeviceId dev s)" "deviceId rb = dev"
    by (rule upsertSession_parts [OF inv key u ok])
  let ?T = "m_token mint"
  have der2: "deref tok s2 = deref tok s" for tok using conns2 by (simp add: deref_def find_conn_def)
  note cm = upsert_commit_inv [OF pt(3-5) pt(6) [rule_format] pt(7-12)]
  have T3: "?T \<in> fst ` set (s_conns s3)" using cm last_row by blast
  have i3: "svc_inv (F + mset (map rt_serial (tc_retired change3))) s3"
    and w3: "waiting_ok (deref ?T s3) (tc_pads change3)" using cm by blast+
  note st = settlePadChange_inv [OF i3 T3 w3 p4]
  have i4: "svc_inv F s4" using st by blast
  note cl = closeBusIfIdle_inv [OF i4, of "busIdleLocked s4"]
  show "svc_inv F s'" using cl(1) res(2) by simp
  have T4: "?T \<in> fst ` set (s_conns s4)" using st T3 by simp
  note o4 = inv_open [OF i4 T4]
  have rt: "ur_token res = ?T" using res(1) o4(2) by (simp add: upsert_result_def)
  show "ur_token res \<noteq> 0" "ur_token res \<notin> fst ` set (s_conns s)" using pt(9,10) conns2 rt by simp_all
  have Tos: "?T \<notin> fst ` set os"
  proof -
    have "set os \<subseteq> set (s_conns s2)" using pt(4) by (auto simp: others_def split: option.splits)
    then show ?thesis using pt(9) by blast
  qed
  have os3: "others ?T (s_conns s3) = os"
  proof -
    have "filter (\<lambda>e. fst e \<noteq> ?T) os = os" using Tos by (intro filter_True) (metis imageI)
    then have "others ?T (os @ [(?T, deref ?T s3)]) = os" by (simp add: others_def)
    then show ?thesis using cm by simp
  qed
  have osd: "os = filter (\<lambda>e. deviceId (snd e) \<noteq> dev) (s_conns s)"
    unfolding pt(4) conns2 ex(1) by (rule others_of_device [OF inv])
  show "others (ur_token res) (s_conns s') = filter (\<lambda>e. deviceId (snd e) \<noteq> dev) (s_conns s)"
    using settlePadChange_others [OF i3 T3 w3 p4] os3 osd cl(2) res(2) rt by simp
  have fc: "find_conn ?T s' = Some (deref ?T s4)"
  proof -
    have "distinct (map fst (s_conns s4))" using i4 by (simp add: svc_inv_def rows_ok_def)
    then show ?thesis using o4(1) cl(2) res(2) by (simp add: find_conn_def)
  qed
  have ss: "same_session (taken_fields now1 name ip
      (mouse \<and> gp_supportsRelativeMouse (s_port s2) (s_backend s2)) version mint rb) (deref ?T s4)"
    using cm st same_session_trans by blast
  have same0: "findByDeviceId dev s = None \<or>
      (\<exists>r0. findByDeviceId dev s = Some r0 \<and> connectionId rb = connectionId r0 \<and> slot rb = slot r0)"
  proof (cases "findByDeviceId dev s")
    case (Some r0)
    then have "rb = r0" using ex(1) pt(5) der2 findByDeviceId_mem [OF Some] row_deref(2) [OF inv, of r0]
      by simp
    then show ?thesis using Some by blast
  qed simp
  show "\<exists>r. find_conn (ur_token res) s' = Some r \<and> deviceId r = dev \<and> deviceName r = name \<and>
       clientIP r = ip \<and> protocolVersion r = version \<and> connectionId r = ur_connectionId res \<and>
       sessionSalt r = ur_sessionSalt res \<and> epoch r = ur_epoch res \<and>
       graceUntil r = now1 + sec REST_LIVENESS_GRACE_SEC \<and>
       (findByDeviceId dev s = None \<or>
          (\<exists>r0. findByDeviceId dev s = Some r0 \<and> connectionId r = connectionId r0 \<and> slot r = slot r0))"
    using ss ex(2) same0 unfolding rt fc
    by (simp add: same_session_def taken_fields_def res(1) upsert_result_def)
qed
section \<open>Refusals\<close>

lemma slots_full:
  assumes inv: "svc_inv F s" and full: "hot_findFree (s_hot s) = None"
  shows "length (s_conns s) = MAX_SESSIONS"
proof -
  have hot: "hot_ok (snd ` set (s_conns s)) (s_hot s)" and rows: "rows_ok (s_conns s)"
    using inv by (simp_all add: svc_inv_def)
  have "\<exists>r\<in>snd ` set (s_conns s). slot r = i" if "i < 32" for i
    using hot_findFree_None [OF full, of i] hot that by (auto simp: hot_ok_def)
  then have "{..<32} \<subseteq> slot ` snd ` set (s_conns s)" by (metis imageI lessThan_iff subsetI)
  moreover have "slot ` snd ` set (s_conns s) \<subseteq> {..<32}" using rows by (auto simp: rows_ok_def)
  ultimately have "set (map (\<lambda>e. slot (snd e)) (s_conns s)) = {..<32}" by (auto simp: image_image)
  moreover have "distinct (map (\<lambda>e. slot (snd e)) (s_conns s))" using rows by (simp add: rows_ok_def)
  ultimately show ?thesis using distinct_card by (metis card_lessThan length_map)
qed

lemma slots_bound:
  assumes "svc_inv F s"
  shows "length (s_conns s) \<le> MAX_SESSIONS"
proof -
  have "distinct (map (\<lambda>e. slot (snd e)) (s_conns s))"
    "set (map (\<lambda>e. slot (snd e)) (s_conns s)) \<subseteq> {..<32}"
    using assms by (auto simp: svc_inv_def rows_ok_def)
  then show ?thesis using distinct_card card_mono [of "{..<32}"] by (metis card_lessThan finite_lessThan length_map)
qed

lemma upsertSession_refused:
  assumes inv: "svc_inv F s"
    and u: "upsertSession now0 now1 now2 dev name ip pairingKey descs mouse version s = Some (res, s')"
    and no: "\<not> ur_ok res"
  shows "svc_inv F s'" "quiet s s'" "length (s_conns s) = MAX_SESSIONS" "findByDeviceId dev s = None"
    "ur_error res = UPSERT_ERROR_TOO_MANY_SESSIONS"
proof -
  obtain mint existing change where
    pl: "upsert_plan now0 dev name pairingKey (dedupDescriptors descs) s = Some (False, mint, existing, change, s')"
    and res: "res = empty_upsert_result\<lparr>ur_error := UPSERT_ERROR_TOO_MANY_SESSIONS\<rparr>"
    using u no unfolding upsertSession_def
    by (auto simp: Let_def upsert_result_def split: bind_splits if_splits prod.splits)
  note rf = upsert_plan_refused [OF pl]
  show "quiet s s'" "findByDeviceId dev s = None" by (fact rf)+
  show "svc_inv F s'" using inv quiet_inv [OF rf(1)] by simp
  show "length (s_conns s) = MAX_SESSIONS" by (rule slots_full [OF inv rf(3)])
  show "ur_error res = UPSERT_ERROR_TOO_MANY_SESSIONS" by (simp add: res)
qed

lemma upsertSession_inv:
  assumes "svc_inv F s" "s_keyDeriver s = None \<longrightarrow> length pairingKey = CRYPTO_KEY_SIZE"
    "upsertSession now0 now1 now2 dev name ip pairingKey descs mouse version s = Some (res, s')"
  shows "svc_inv F s'"
  using upsertSession_ok(1) [OF assms] upsertSession_refused(1) [OF assms(1,3)] by blast

section \<open>The rejection loops end\<close>

lemma draw_unused_ends:
  assumes "distinct rs" "finite {x. taken x}" "card {x. taken x} < length rs"
  shows "\<exists>x rs'. draw_unused taken rs = Some (x, rs') \<and> distinct rs' \<and>
    length rs \<le> length rs' + card {x. taken x} + 1"
  using assms
proof (induction rs arbitrary: taken)
  case Nil
  then show ?case by simp
next
  case (Cons y ys)
  show ?case
  proof (cases "taken y")
    case False
    then show ?thesis using Cons.prems(1) by simp
  next
    case True
    let ?t = "\<lambda>x. taken x \<and> x \<noteq> y"
    have eq: "{x. taken x} = insert y {x. ?t x}" using True by auto
    have fin: "finite {x. ?t x}" by (rule finite_subset [OF _ Cons.prems(2)]) auto
    have card: "card {x. taken x} = Suc (card {x. ?t x})" unfolding eq using fin by simp
    have same: "draw_unused taken zs = draw_unused ?t zs" if "y \<notin> set zs" for zs
      using that by (induction zs) auto
    have "\<exists>x rs'. draw_unused ?t ys = Some (x, rs') \<and> distinct rs' \<and>
        length ys \<le> length rs' + card {x. ?t x} + 1"
      by (rule Cons.IH) (use Cons.prems card fin in simp_all)
    then show ?thesis using True same [of ys] Cons.prems(1) card by auto
  qed
qed

lemma draw_salt_ends: "n \<le> length rs \<Longrightarrow> \<exists>salt rs'. draw_salt n rs = Some (salt, rs')"
proof (induction n arbitrary: rs)
  case (Suc n)
  then obtain x xs where "rs = x # xs" by (cases rs) auto
  then show ?case using Suc.IH [of xs] Suc.prems by auto
qed simp

lemma hex_digit_inj: "i < 16 \<Longrightarrow> j < 16 \<Longrightarrow> HEX_DIGITS ! i = HEX_DIGITS ! j \<Longrightarrow> i = j"
proof -
  have "distinct HEX_DIGITS" "length HEX_DIGITS = 16" by (simp_all add: HEX_DIGITS_def)
  then show "i < 16 \<Longrightarrow> j < 16 \<Longrightarrow> HEX_DIGITS ! i = HEX_DIGITS ! j \<Longrightarrow> i = j"
    using nth_eq_iff_index_eq by metis
qed

lemma hex_pair_inj: "hex_pair b = hex_pair c \<Longrightarrow> b = c"
proof -
  assume e: "hex_pair b = hex_pair c"
  have "unat (drop_bit 4 b) = unat (drop_bit 4 c)" "unat (b AND 15) = unat (c AND 15)"
    using e nibble_less by (auto simp: hex_pair_def intro: hex_digit_inj)
  then have "drop_bit 4 b = drop_bit 4 c" "b AND 15 = c AND 15" by (simp_all only: word_unat_eq_iff)
  then show "b = c" using nibble_join [of b] nibble_join [of c] by metis
qed

lemma hexEncode_inj: "hexEncode bs = hexEncode cs \<Longrightarrow> bs = cs"
proof (induction bs arbitrary: cs)
  case Nil
  then have "length (hexEncode cs) = 0" by (metis hexEncode_length list.size(3) mult_0_right)
  then show ?case by simp
next
  case (Cons b bs)
  have "length cs = Suc (length bs)" using arg_cong [OF Cons.prems, of length] by simp
  then obtain c cs' where cs: "cs = c # cs'" by (cases cs) auto
  have "hex_pair b @ hexEncode bs = hex_pair c @ hexEncode cs'" using Cons.prems by (simp add: cs hexEncode_Cons)
  moreover have "length (hex_pair b) = length (hex_pair c)" by (simp add: hex_pair_def)
  ultimately have "hex_pair b = hex_pair c" "hexEncode bs = hexEncode cs'" by simp_all
  then show ?case using Cons.IH hex_pair_inj cs by blast
qed

lemma hexEncodeBE32_inj: "inj hexEncodeBE32"
proof (rule injI)
  fix v w assume "hexEncodeBE32 v = hexEncodeBE32 w"
  then have "writeBE32 v = writeBE32 w" unfolding hexEncodeBE32_def by (rule hexEncode_inj)
  then show "v = w" using readBE32_write [of "[]" 0 v "[]"] readBE32_write [of "[]" 0 w "[]"] by simp
qed

lemma taken_ids:
  "finite {x. findByConnectionId (CONNECTION_ID_PREFIX @ hexEncodeBE32 x) s \<noteq> None} \<and>
   card {x. findByConnectionId (CONNECTION_ID_PREFIX @ hexEncodeBE32 x) s \<noteq> None} \<le> length (s_conns s)"
proof -
  let ?A = "{x. findByConnectionId (CONNECTION_ID_PREFIX @ hexEncodeBE32 x) s \<noteq> None}"
  let ?f = "\<lambda>x. CONNECTION_ID_PREFIX @ hexEncodeBE32 x"
  have sub: "?f ` ?A \<subseteq> set (map (\<lambda>e. connectionId (snd e)) (s_conns s))"
  proof
    fix y assume "y \<in> ?f ` ?A"
    then obtain x r where "y = ?f x" "findByConnectionId (?f x) s = Some r" by auto
    then have "y = connectionId r" "r \<in> snd ` set (s_conns s)"
      using findByConnectionId_mem [of "?f x" s r] by simp_all
    then show "y \<in> set (map (\<lambda>e. connectionId (snd e)) (s_conns s))" by auto
  qed
  have inj: "inj_on ?f ?A" using hexEncodeBE32_inj by (auto simp: inj_on_def)
  have fin: "finite ?A" using finite_imageD [OF finite_subset [OF sub] inj] by simp
  have "card ?A = card (?f ` ?A)" using card_image [OF inj] by simp
  also have "\<dots> \<le> card (set (map (\<lambda>e. connectionId (snd e)) (s_conns s)))"
    by (rule card_mono [OF _ sub]) simp
  also have "\<dots> \<le> length (s_conns s)" using card_length by (metis length_map)
  finally show ?thesis using fin by blast
qed

lemma upsertSession_ends:
  assumes inv: "svc_inv F s" and rng: "distinct (s_rng s)" "2 * MAX_SESSIONS + 6 \<le> length (s_rng s)"
  shows "\<exists>res s'. upsertSession now0 now1 now2 dev name ip pairingKey descs mouse version s = Some (res, s')"
proof -
  have n: "length (s_conns s) \<le> 32" by (rule slots_bound [OF inv])
  have mint: "\<exists>m' t'. mintSessionKeyLocked pairingKey m t = Some (m', t')"
    if t: "distinct (s_rng t)" "37 \<le> length (s_rng t)" "s_conns t = s_conns s" for m t
  proof -
    let ?tk = "\<lambda>tok. tok \<in> fst ` set (s_conns t)"
    have c: "card {x. ?tk x} \<le> 32" using card_length [of "map fst (s_conns t)"] n t(3) by simp
    obtain x rs where d: "draw_unused ?tk (s_rng t) = Some (x, rs)"
        and "length (s_rng t) \<le> length rs + card {x. ?tk x} + 1"
      using draw_unused_ends [OF t(1), of ?tk] c t(2) by auto
    then have "SESSION_SALT_SIZE div 4 \<le> length rs" using c t(2) by simp
    from draw_salt_ends [OF this] show ?thesis
      using d unfolding mintSessionKeyLocked_def generateUniqueToken_def by auto
  qed
  have "\<exists>ok m t. reserveSessionLocked now0 dev name empty_mint s = Some (ok, m, t) \<and>
      (ok \<longrightarrow> distinct (s_rng t) \<and> 37 \<le> length (s_rng t) \<and> s_conns t = s_conns s)"
  proof (cases "hot_findFree (s_hot s)")
    case None
    then have "\<exists>m t. reserveSessionLocked now0 dev name empty_mint s = Some (False, m, t)"
      by (simp add: reserveSessionLocked_def)
    then show ?thesis by blast
  next
    case (Some slt)
    let ?tk = "\<lambda>x. findByConnectionId (CONNECTION_ID_PREFIX @ hexEncodeBE32 x) s \<noteq> None"
    have "card {x. ?tk x} < length (s_rng s)" using taken_ids [of s] n rng(2) by linarith
    then obtain x rs where "draw_unused ?tk (s_rng s) = Some (x, rs)" "distinct rs"
        "length (s_rng s) \<le> length rs + card {x. ?tk x} + 1"
      using draw_unused_ends [OF rng(1), of ?tk] taken_ids [of s] by blast
    then have "\<exists>m t. reserveSessionLocked now0 dev name empty_mint s = Some (True, m, t) \<and>
        distinct (s_rng t) \<and> 37 \<le> length (s_rng t) \<and> s_conns t = s_conns s"
      using Some taken_ids [of s] n rng(2) by (simp add: reserveSessionLocked_def Let_def)
    then show ?thesis by blast
  qed
  then obtain ok m t where rs: "reserveSessionLocked now0 dev name empty_mint s = Some (ok, m, t)"
      and rt: "ok \<longrightarrow> distinct (s_rng t) \<and> 37 \<le> length (s_rng t) \<and> s_conns t = s_conns s" by blast
  have "\<exists>x. upsert_plan now0 dev name pairingKey ds s = Some x" for ds
  proof (cases "findByDeviceId dev s")
    case None
    have "\<exists>m' t'. mintSessionKeyLocked pairingKey m t = Some (m', t')" if ok using mint rt that by blast
    then show ?thesis using None rs
      by (cases ok) (auto simp: upsert_plan_def Let_def split: prod.split)
  next
    case (Some r)
    have "\<exists>m' t'. mintSessionKeyLocked pairingKey empty_mint s = Some (m', t')"
      by (rule mint) (use rng in simp_all)
    then show ?thesis using Some by (auto simp: upsert_plan_def Let_def split: prod.split)
  qed
  then obtain x where "upsert_plan now0 dev name pairingKey (dedupDescriptors descs) s = Some x" by blast
  then show ?thesis
    unfolding upsertSession_def by (cases x) (auto simp: Let_def split: prod.splits)
qed

section \<open>The initial state\<close>

text \<open>What the service asks of its random source and its key derivation.\<close>

definition sources_ok :: "(u8 list \<Rightarrow> u8 list \<Rightarrow> u32 \<Rightarrow> u8 list) option \<Rightarrow> u32 list \<Rightarrow> bool" where
  "sources_ok kd rs \<longleftrightarrow>
     0 \<notin> set rs \<and> (\<forall>f. kd = Some f \<longrightarrow> (\<forall>k salt tok. length (f k salt tok) = CRYPTO_KEY_SIZE))"

lemma init_inv:
  assumes "sources_ok kd rs"
  shows "svc_inv {#} (init_svc prt b kd rs)"
  unfolding svc_inv_def
proof (intro conjI)
  show "rows_ok (s_conns (init_svc prt b kd rs))" by (simp add: rows_ok_def init_svc_def)
  show "bal (held_rows (s_conns (init_svc prt b kd rs)) + {#}) (init_svc prt b kd rs)"
    by (simp add: bal_def held_rows_def init_svc_def pool.inuse_def)
  show "s_activePads (init_svc prt b kd rs) = count_rows (s_conns (init_svc prt b kd rs))"
    by (simp add: init_svc_def count_rows_def)
  show "hot_ok (snd ` set (s_conns (init_svc prt b kd rs))) (s_hot (init_svc prt b kd rs))"
    by (simp add: init_svc_def)
  show "env_ok (init_svc prt b kd rs)"
    using assms by (auto simp: env_ok_def init_svc_def sources_ok_def rx_ok_def default_rx_pad_def
        queues_ok_def commands_ok_def simp del: replicate.simps)
qed

end
