(* ===== verification/Session_Stream.thy ===== *)
theory Session_Stream
  imports Session_Topology
begin

text \<open>
  The receive path of \<^verbatim>\<open>SessionService\<close>: what one decrypted datagram does.  It reads the hot table only
  and writes the fields the receive thread owns: the replay counter and the client address of a slot,
  the pad cache, the per-session mic state, and the two queues of the workers.
  \<^verbatim>\<open>rx_.enter()\<close> and \<^verbatim>\<open>rx_.exit()\<close> have no effect on the data; the protocol they take part in is the
  subject of the theory \<open>Hot_Protocol\<close>.
\<close>

section \<open>Reading a pad\<close>

record pad_read =
  pr_slot :: nat
  pr_keyEpoch :: u32
  pr_session :: u32
  pr_active :: bool
  pr_serial :: nat
  pr_info :: u32
  pr_gen :: u32
  pr_stamp :: u32
  pr_row :: u32

text \<open>The words of an index that no slot has stay 0, as the source initialises them.\<close>

definition load_pad :: "nat \<Rightarrow> hot_slot \<Rightarrow> u32 \<times> u32 \<times> pad_read" where
  "load_pad i h =
     (let known = i < MAX_CONTROLLERS_PER_CONN;
          at = (\<lambda>ws. if known then ws ! i else 0)
      in (hs_token h, at (hs_ctrl h),
          \<lparr>pr_slot = 0, pr_keyEpoch = hs_keyEpoch h, pr_session = hs_session h, pr_active = False,
           pr_serial = 0, pr_info = at (hs_padInfo h), pr_gen = at (hs_padGen h),
           pr_stamp = at (hs_padStamp h), pr_row = hs_row h\<rparr>))"

definition readPad :: "u32 \<Rightarrow> nat \<Rightarrow> hot_table \<Rightarrow> pad_read option" where
  "readPad tok i t =
     do { index \<leftarrow> hot_find t tok;
          (slotToken, word, out) \<leftarrow> hs_read (slots t ! index) (load_pad i);
          if slotToken \<noteq> tok then None
          else let serial = unat (word AND HOT_CTRL_SERIAL_MASK) in
            Some (out\<lparr>pr_slot := index, pr_serial := serial,
                      pr_active := (word AND HOT_CTRL_ACTIVE \<noteq> 0 \<and> 1 \<le> serial \<and>
                                    serial \<le> MAX_BACKEND_CONTROLLERS)\<rparr>) }"

section \<open>The pad cache\<close>

text \<open>The cache entry of a serial, restarted when the serial belongs to a new plug.\<close>

definition rxPadFor :: "pad_read \<Rightarrow> rx_pad \<Rightarrow> rx_pad" where
  "rxPadFor pad rx =
     (if rp_ownGen rx = pr_gen pad then rx
      else let rx1 = rp_beginWrite (rx\<lparr>rp_ownGen := pr_gen pad, rp_ownFlags := 0,
                                       rp_micWindowStart := 0, rp_micPacketsInWindow := 0\<rparr>)
           in rp_endWrite (rx1\<lparr>rp_gen := pr_gen pad, rp_flags := 0\<rparr>))"

definition publishRxMotion :: "motion_report \<Rightarrow> bool \<Rightarrow> rx_pad \<Rightarrow> rx_pad" where
  "publishRxMotion report delivered rx =
     (let own1 = rp_ownFlags rx OR RX_PAD_MOTION;
          own = (if delivered then own1 OR RX_PAD_MOTION_SINK else own1 AND NOT RX_PAD_MOTION_SINK);
          rx1 = rp_beginWrite (rx\<lparr>rp_ownFlags := own\<rparr>)
      in rp_endWrite (rx1\<lparr>rp_motion := report, rp_flags := own\<rparr>))"

definition publishRxBattery :: "battery_report \<Rightarrow> rx_pad \<Rightarrow> rx_pad" where
  "publishRxBattery report rx =
     (let own = rp_ownFlags rx OR RX_PAD_BATTERY;
          rx1 = rp_beginWrite (rx\<lparr>rp_ownFlags := own\<rparr>)
      in rp_endWrite (rx1\<lparr>rp_battery := ucast (bat_level report) OR push_bit 8 (ucast (bat_status report)),
                          rp_flags := own\<rparr>))"

definition publishRxTouchpad :: "touchpad_report \<Rightarrow> u8 \<Rightarrow> u32 \<Rightarrow> rx_pad \<Rightarrow> rx_pad" where
  "publishRxTouchpad report mode keyEpoch rx =
     (let own = rp_ownFlags rx OR RX_PAD_TOUCHPAD;
          rx1 = rp_beginWrite (rx\<lparr>rp_ownFlags := own\<rparr>)
      in rp_endWrite (rx1\<lparr>rp_touchpad := report, rp_touchpadMode := ucast mode,
                          rp_touchpadKeyEpoch := keyEpoch, rp_flags := own\<rparr>))"

definition on_rx_pad :: "pad_read \<Rightarrow> (rx_pad \<Rightarrow> rx_pad) \<Rightarrow> 'b svc \<Rightarrow> 'b svc" where
  "on_rx_pad pad f s =
     s\<lparr>s_rxPads := (s_rxPads s)[pr_serial pad := f (rxPadFor pad (s_rxPads s ! pr_serial pad))]\<rparr>"

section \<open>Streams\<close>

definition handleMotionData :: "u32 \<Rightarrow> nat \<Rightarrow> motion_report \<Rightarrow> 'b svc \<Rightarrow> bool \<times> 'b svc" where
  "handleMotionData tok i report s =
     (case readPad tok i (s_hot s) of
        None \<Rightarrow> (False, s)
      | Some pad \<Rightarrow>
          if \<not> pr_active pad then (False, s)
          else case gp_submitMotion (s_port s) (pr_serial pad) report (s_backend s) of (delivered, b) \<Rightarrow>
            (delivered, on_rx_pad pad (publishRxMotion report delivered) (s\<lparr>s_backend := b\<rparr>)))"

text \<open>\<^verbatim>\<open>PointerWorker::pushFrame\<close>: refused when the ring is full.\<close>

definition pushFrame :: "pointer_frame \<Rightarrow> 'b svc \<Rightarrow> bool \<times> 'b svc" where
  "pushFrame frame s =
     (if length (s_frames s) \<ge> POINTER_FRAME_CAPACITY then (False, s)
      else (True, s\<lparr>s_frames := s_frames s @ [frame]\<rparr>))"

definition handleTouchpadData :: "u32 \<Rightarrow> nat \<Rightarrow> touchpad_report \<Rightarrow> 'b svc \<Rightarrow> bool \<times> 'b svc" where
  "handleTouchpadData tok i report s =
     (case readPad tok i (s_hot s) of
        None \<Rightarrow> (False, s)
      | Some pad \<Rightarrow>
          if \<not> pr_active pad then (False, s)
          else let mode = hotPadMode (pr_info pad);
                   s1 = on_rx_pad pad (publishRxTouchpad report mode (pr_keyEpoch pad)) s
               in if mode = TOUCHPAD_MODE_OFF then (False, s1)
                  else if mode = TOUCHPAD_MODE_MOUSE
                  then if hotSessionMouse (pr_session pad)
                       then pushFrame \<lparr>pf_serial = pr_serial pad, pf_stamp = pr_stamp pad,
                              pf_slot = pr_slot pad, pf_row = pr_row pad, pf_report = report\<rparr> s1
                       else (False, s1)
                  else case gp_submitTouchpad (s_port s1) (pr_serial pad) report (s_backend s1) of
                         (ok, b) \<Rightarrow> (ok, s1\<lparr>s_backend := b\<rparr>))"

definition handleBatteryUpdate :: "u32 \<Rightarrow> nat \<Rightarrow> battery_report \<Rightarrow> 'b svc \<Rightarrow> bool \<times> 'b svc" where
  "handleBatteryUpdate tok i report s =
     (if bat_level report \<noteq> BATTERY_LEVEL_UNKNOWN \<and> bat_level report > 100 then (False, s)
      else if bat_status report \<ge> BATTERY_STATUS_COUNT then (False, s)
      else case readPad tok i (s_hot s) of
        None \<Rightarrow> (False, s)
      | Some pad \<Rightarrow>
          if \<not> pr_active pad then (False, s)
          else case gp_submitBattery (s_port s) (pr_serial pad) report (s_backend s) of (_, b) \<Rightarrow>
            (True, on_rx_pad pad (publishRxBattery report) (s\<lparr>s_backend := b\<rparr>)))"

section \<open>Heartbeats\<close>

definition hot_bitmap :: "u32 list \<Rightarrow> u16" where
  "hot_bitmap ws =
     fold (\<lambda>i bm. if ws ! i AND HOT_CTRL_ACTIVE \<noteq> 0 then bm OR push_bit i 1 else bm)
       [0..<MAX_CONTROLLERS_PER_CONN] 0"

definition load_heartbeat :: "hot_slot \<Rightarrow> u32 \<times> u32 \<times> u8 list \<times> u16" where
  "load_heartbeat h = (hs_token h, hs_session h, hs_loadKey h, hot_bitmap (hs_ctrl h))"

definition handleHeartbeat :: "u32 \<Rightarrow> 'b svc \<Rightarrow> 'b svc" where
  "handleHeartbeat tok s =
     (case hot_find (s_hot s) tok of
        None \<Rightarrow> s
      | Some index \<Rightarrow>
          (case hs_read (slots (s_hot s) ! index) load_heartbeat of
             None \<Rightarrow> s
           | Some (slotToken, session, key, bitmap) \<Rightarrow>
               if slotToken \<noteq> tok then s
               else emit (SendHeartbeatAck \<lparr>ep_token = tok, ep_key = key, ep_slot = index\<rparr>
                      (gp_isBusOpen (s_port s) (s_backend s)) (of_int (s_activePads s))
                      (hotSessionEpoch session) bitmap) s))"

section \<open>Microphone\<close>

definition sessionName :: "nat \<Rightarrow> u32 \<Rightarrow> hot_table \<Rightarrow> string option" where
  "sessionName slt keyEpoch t =
     (case hs_read (slots t ! slt) (\<lambda>h. (hs_keyEpoch h, hs_loadName h)) of
        None \<Rightarrow> None
      | Some (ep, name) \<Rightarrow> if ep = keyEpoch then Some (bytes_string name) else None)"

definition mic_drop_reason :: "u8 \<Rightarrow> string" where
  "mic_drop_reason cause =
     (if cause = MIC_DROP_LOG_NO_CONTROLLER then ''no such bound controller''
      else if cause = MIC_DROP_LOG_NO_CAP then ''sender never advertised the mic cap''
      else if cause = MIC_DROP_LOG_HOST_DISABLED then ''controller microphone is off on the host''
      else ''more than '' @ dec_string MIC_AUDIO_MAX_PACKETS_PER_SEC @ '' packets/s'')"

definition bump_micDropped :: "'b svc \<Rightarrow> 'b svc" where
  "bump_micDropped s = s\<lparr>s_audio := (s_audio s)\<lparr>micDropped := micDropped (s_audio s) + 1\<rparr>\<rparr>"

definition dropMicFrame :: "pad_read \<Rightarrow> nat \<Rightarrow> u8 \<Rightarrow> 'b svc \<Rightarrow> bool \<times> 'b svc" where
  "dropMicFrame pad i cause s =
     (let s1 = bump_micDropped s;
          ses0 = s_rxSessions s1 ! pr_slot pad;
          ses = (if rxs_keyEpoch ses0 \<noteq> pr_keyEpoch pad
                 then ses0\<lparr>rxs_keyEpoch := pr_keyEpoch pad, rxs_micDropLogged := 0\<rparr> else ses0);
          s2 = s1\<lparr>s_rxSessions := (s_rxSessions s1)[pr_slot pad := ses]\<rparr>
      in if rxs_micDropLogged ses AND cause \<noteq> 0 then (False, s2)
         else case sessionName (pr_slot pad) (pr_keyEpoch pad) (s_hot s2) of
           None \<Rightarrow> (False, s2)
         | Some name \<Rightarrow>
             (False,
              logMsg WARN (''Mic audio from '' @ name @ '' controller #'' @ dec_string i @
                           '' dropped: '' @ mic_drop_reason cause)
                (s2\<lparr>s_rxSessions := (s_rxSessions s2)
                     [pr_slot pad := ses\<lparr>rxs_micDropLogged := rxs_micDropLogged ses OR cause\<rparr>]\<rparr>)))"

text \<open>The mic worker's ring: \<^verbatim>\<open>claim\<close> is refused when it is full.\<close>

definition handOverMicFrame :: "pad_read \<Rightarrow> nat \<Rightarrow> u16 \<Rightarrow> u8 list \<Rightarrow> 'b svc \<Rightarrow> bool \<times> 'b svc" where
  "handOverMicFrame pad i seq opus s =
     (if length opus > MIC_PACKET_MAX_BYTES then (False, s\<lparr>s_micLate := s_micLate s + 1\<rparr>)
      else if length (s_micQueue s) \<ge> MIC_PACKET_CAPACITY then (False, bump_micDropped s)
      else (True, s\<lparr>s_micQueue := s_micQueue s @
              [\<lparr>mp_serial = pr_serial pad, mp_gen = pr_gen pad, mp_slot = pr_slot pad, mp_ctrlIdx = i,
                mp_keyEpoch = pr_keyEpoch pad, mp_seq = seq, mp_bytes = opus\<rparr>]\<rparr>))"

text \<open>The fixed one-second window: the entry after this packet, and whether it is over the limit.\<close>

definition mic_admit :: "ticks \<Rightarrow> rx_pad \<Rightarrow> bool \<times> rx_pad" where
  "mic_admit now rx =
     (let rx1 = (if rp_micPacketsInWindow rx = 0 \<or> now - rp_micWindowStart rx \<ge> sec 1
                 then rx\<lparr>rp_micWindowStart := now, rp_micPacketsInWindow := 0\<rparr> else rx)
      in if unat (rp_micPacketsInWindow rx1) \<ge> MIC_AUDIO_MAX_PACKETS_PER_SEC then (False, rx1)
         else (True, rx1\<lparr>rp_micPacketsInWindow := rp_micPacketsInWindow rx1 + 1\<rparr>))"

definition handleMicAudio :: "ticks \<Rightarrow> u32 \<Rightarrow> nat \<Rightarrow> u16 \<Rightarrow> u8 list \<Rightarrow> 'b svc \<Rightarrow> bool \<times> 'b svc" where
  "handleMicAudio now tok i seq opus s =
     (if opus = [] then (False, s)
      else case readPad tok i (s_hot s) of
        None \<Rightarrow> (False, s)
      | Some pad \<Rightarrow>
          if \<not> pr_active pad then dropMicFrame pad i MIC_DROP_LOG_NO_CONTROLLER s
          else if hotPadCaps (pr_info pad) AND CAP_MIC = 0 then dropMicFrame pad i MIC_DROP_LOG_NO_CAP s
          else if \<not> pol_mic (audioPolicy s) then dropMicFrame pad i MIC_DROP_LOG_HOST_DISABLED s
          else let (ok, rx) = mic_admit now (rxPadFor pad (s_rxPads s ! pr_serial pad));
                   s1 = s\<lparr>s_rxPads := (s_rxPads s)[pr_serial pad := rx]\<rparr>
               in if ok then handOverMicFrame pad i seq opus s1
                  else dropMicFrame pad i MIC_DROP_LOG_RATE_LIMIT s1)"

section \<open>Replay state and gamepad frames\<close>

definition recordDatagram :: "ticks \<Rightarrow> u32 \<Rightarrow> u32 \<Rightarrow> u64 \<Rightarrow> hot_slot \<Rightarrow> hot_slot" where
  "recordDatagram now keyEpoch counter addr h =
     (let h1 = (if hs_clientAddr h \<noteq> addr then h\<lparr>hs_clientAddr := addr\<rparr> else h);
          h2 = h1\<lparr>hs_lastCounter := counter, hs_lastPacketTicks := now\<rparr>
      in if hs_replayKeyEpoch h2 = keyEpoch then h2
         else h2\<lparr>hs_replayKeyEpoch := keyEpoch, hs_feedbackPending := True\<rparr>)"

definition getDecryptInfo :: "u32 \<Rightarrow> hot_table \<Rightarrow> (u8 list \<times> u32 \<times> bool) option" where
  "getDecryptInfo tok t =
     do { index \<leftarrow> hot_find t tok;
          let h = slots t ! index;
          (slotToken, keyEpoch, key) \<leftarrow> hs_read h (\<lambda>h. (hs_token h, hs_keyEpoch h, hs_loadKey h));
          if slotToken \<noteq> tok then None
          else let seen = (hs_replayKeyEpoch h = keyEpoch) in
            Some (key, (if seen then hs_lastCounter h else 0), seen) }"

definition recordHotDatagram :: "ticks \<Rightarrow> u32 \<Rightarrow> u32 \<Rightarrow> u64 \<Rightarrow> 'b svc \<Rightarrow> 'b svc" where
  "recordHotDatagram now tok counter addr s =
     (case hot_find (s_hot s) tok of
        None \<Rightarrow> s
      | Some index \<Rightarrow>
          (case hs_read (slots (s_hot s) ! index) (\<lambda>h. (hs_token h, hs_keyEpoch h)) of
             None \<Rightarrow> s
           | Some (slotToken, keyEpoch) \<Rightarrow>
               if slotToken \<noteq> tok then s
               else s\<lparr>s_hot := upd_slot index (recordDatagram now keyEpoch counter addr) (s_hot s)\<rparr>))"

definition submitHotFrame :: "ticks \<Rightarrow> u32 \<Rightarrow> nat \<Rightarrow> gamepad_report \<Rightarrow> bool \<Rightarrow> u32 \<Rightarrow> u64 \<Rightarrow> 'b svc \<Rightarrow>
    bool \<times> 'b svc" where
  "submitHotFrame now tok i report rec counter addr s =
     (case hot_find (s_hot s) tok of
        None \<Rightarrow> (False, s)
      | Some index \<Rightarrow>
          (case hs_read (slots (s_hot s) ! index) (\<lambda>h. (hs_token h, hs_keyEpoch h,
                  if i < MAX_CONTROLLERS_PER_CONN then hs_ctrl h ! i else 0)) of
             None \<Rightarrow> (False, s)
           | Some (slotToken, keyEpoch, word) \<Rightarrow>
               if slotToken \<noteq> tok then (False, s)
               else let s1 = (if rec
                     then s\<lparr>s_hot := upd_slot index (recordDatagram now keyEpoch counter addr) (s_hot s)\<rparr>
                     else s)
                  in if word AND HOT_CTRL_ACTIVE = 0 then (False, s1)
                     else case gp_submitReport (s_port s1) (unat (word AND HOT_CTRL_SERIAL_MASK)) report
                                 (s_backend s1) of (ok, b) \<Rightarrow> (ok, s1\<lparr>s_backend := b\<rparr>)))"

definition handleGamepadData :: "ticks \<Rightarrow> u32 \<Rightarrow> nat \<Rightarrow> gamepad_report \<Rightarrow> 'b svc \<Rightarrow> bool \<times> 'b svc" where
  "handleGamepadData now tok i report s = submitHotFrame now tok i report False 0 0 s"

definition updatePostDecryptV4 :: "ticks \<Rightarrow> u32 \<Rightarrow> u32 \<Rightarrow> u32 \<Rightarrow> u16 \<Rightarrow> 'b svc \<Rightarrow> 'b svc" where
  "updatePostDecryptV4 now tok counter ip port s =
     recordHotDatagram now tok counter (packClientAddr ip port) s"

definition updatePostDecrypt :: "ticks \<Rightarrow> u32 \<Rightarrow> u32 \<Rightarrow> string \<Rightarrow> u16 \<Rightarrow> 'b svc \<Rightarrow> 'b svc" where
  "updatePostDecrypt now tok counter ip port s = updatePostDecryptV4 now tok counter (parseIPv4Nbo ip) port s"

definition handleGamepadDataAndUpdate :: "ticks \<Rightarrow> u32 \<Rightarrow> u32 \<Rightarrow> u32 \<Rightarrow> u16 \<Rightarrow> nat \<Rightarrow> gamepad_report \<Rightarrow>
    'b svc \<Rightarrow> bool \<times> 'b svc" where
  "handleGamepadDataAndUpdate now tok counter ip port i report s =
     submitHotFrame now tok i report True counter (packClientAddr ip port) s"

end
