(* ===== verification/Session_Receive.thy ===== *)
theory Session_Receive
  imports Session_Upsert Session_Stream "HOL-Library.Sublist"
begin

text \<open>
  The receive path against the rows: under the invariant, a lookup in the hot table returns exactly
  what the row of the session holds, and no stream handler breaks the invariant.
\<close>

section \<open>The hot table answers for the rows\<close>

lemma hot_okD:
  assumes "hot_ok R t"
  shows "length (tokens t) = MAX_SESSIONS" "length (slots t) = MAX_SESSIONS"
    "r \<in> R \<Longrightarrow> tokens t ! slot r = token r" "r \<in> R \<Longrightarrow> mirrors r (slots t ! slot r)"
    "i < MAX_SESSIONS \<Longrightarrow> \<not> hs_writing (slots t ! i)"
    "i < MAX_SESSIONS \<Longrightarrow> tokens t ! i \<noteq> 0 \<Longrightarrow> \<exists>r\<in>R. slot r = i"
  using assms by (simp_all add: hot_ok_def)

lemma hot_find_row:
  assumes inv: "svc_inv F s" and r: "r \<in> snd ` set (s_conns s)"
  shows "hot_find (s_hot s) (token r) = Some (slot r)"
proof -
  have hot: "hot_ok (snd ` set (s_conns s)) (s_hot s)" and rows: "rows_ok (s_conns s)"
    using inv by (simp_all add: svc_inv_def)
  have sl: "slot r < 32" "token r \<noteq> 0" using rows r by (auto simp: rows_ok_def)
  have len: "length (tokens (s_hot s)) = 32" by (rule hot_okD(1) [OF hot])
  have tk: "tokens (s_hot s) ! slot q = token q" if "q \<in> snd ` set (s_conns s)" for q
    by (rule hot_okD(3) [OF hot that])
  show ?thesis
  proof (rule hot_find_unique)
    show "tokens (s_hot s) ! slot r = token r" by (rule tk [OF r])
    show "slot r < length (tokens (s_hot s))" "token r \<noteq> 0" using sl len by simp_all
    fix j assume j: "j < length (tokens (s_hot s))" "tokens (s_hot s) ! j = token r"
    have "tokens (s_hot s) ! j \<noteq> 0" using j(2) sl(2) by simp
    then obtain q where q: "q \<in> snd ` set (s_conns s)" "slot q = j"
      using hot_okD(6) [OF hot] j(1) len by metis
    then have tq: "token q = token r" using tk [OF q(1)] j(2) by simp
    have "deref (token r) s = q" using row_deref(2) [OF inv q(1)] unfolding tq .
    then have "q = r" unfolding row_deref(2) [OF inv r] by (rule sym)
    then show "j = slot r" using q(2) by simp
  qed
qed

lemma hot_find_none:
  assumes inv: "svc_inv F s" and tok: "tok \<notin> fst ` set (s_conns s)"
  shows "hot_find (s_hot s) tok = None"
proof (rule ccontr)
  assume "hot_find (s_hot s) tok \<noteq> None"
  then obtain i where f: "hot_find (s_hot s) tok = Some i" by auto
  have hot: "hot_ok (snd ` set (s_conns s)) (s_hot s)" using inv by (simp add: svc_inv_def)
  have i: "tok \<noteq> 0" "i < 32" "tokens (s_hot s) ! i = tok"
    using hot_find_Some [OF f] hot_okD(1) [OF hot] by simp_all
  have "tokens (s_hot s) ! i \<noteq> 0" using i by simp
  then obtain q where q: "q \<in> snd ` set (s_conns s)" "slot q = i"
    using hot_okD(6) [OF hot i(2)] by blast
  have "tokens (s_hot s) ! slot q = token q" by (rule hot_okD(3) [OF hot q(1)])
  then have "token q = tok" using q(2) i(3) by simp
  then show False using row_deref(1) [OF inv q(1)] tok by simp
qed

lemma hot_slot_row:
  assumes inv: "svc_inv F s" and r: "r \<in> snd ` set (s_conns s)"
  shows "mirrors r (slots (s_hot s) ! slot r)" "hs_read (slots (s_hot s) ! slot r) f = Some (f (slots (s_hot s) ! slot r))"
    "slot r < length (slots (s_hot s))" "row_ok r"
proof -
  have hot: "hot_ok (snd ` set (s_conns s)) (s_hot s)" and rows: "rows_ok (s_conns s)"
    using inv by (simp_all add: svc_inv_def)
  have sl: "slot r < 32" using rows r by (auto simp: rows_ok_def)
  show "row_ok r" using rows r by (auto simp: rows_ok_def)
  show "mirrors r (slots (s_hot s) ! slot r)" by (rule hot_okD(4) [OF hot r])
  have "\<not> hs_writing (slots (s_hot s) ! slot r)" by (rule hot_okD(5) [OF hot sl])
  then show "hs_read (slots (s_hot s) ! slot r) f = Some (f (slots (s_hot s) ! slot r))"
    by (simp add: hs_read_def hs_writing_def)
  show "slot r < length (slots (s_hot s))" using hot_okD(2) [OF hot] sl by simp
qed

lemma ctrlWord_read:
  assumes "ctrl_ok i c"
  shows "unat (ctrlWord c AND HOT_CTRL_SERIAL_MASK) = serialNo c"
    "(ctrlWord c AND HOT_CTRL_ACTIVE \<noteq> 0) = active c"
proof -
  show "(ctrlWord c AND HOT_CTRL_ACTIVE \<noteq> 0) = active c" by (simp add: ctrlWord_def)
  show "unat (ctrlWord c AND HOT_CTRL_SERIAL_MASK) = serialNo c"
  proof (cases "active c")
    case True
    then have sm: "serialNo c < 256" using assms by (simp add: ctrl_ok_def)
    have "ctrlWord c AND HOT_CTRL_SERIAL_MASK = of_nat (serialNo c)"
      using True by (simp only: ctrlWord_def hotCtrlWord_serial serial_masked [OF sm])
    then show ?thesis using sm by (simp add: unat_of_nat)
  next
    case False
    then show ?thesis using assms by (simp add: ctrlWord_def ctrl_ok_def)
  qed
qed

lemma readPad_row:
  assumes inv: "svc_inv F s" and r: "r \<in> snd ` set (s_conns s)"
  shows "readPad (token r) i (s_hot s) = Some
    (let c = controllers r ! i; known = i < MAX_CONTROLLERS_PER_CONN in
     \<lparr>pr_slot = slot r, pr_keyEpoch = hs_keyEpoch (slots (s_hot s) ! slot r),
      pr_session = sessionWord r, pr_active = (known \<and> active c),
      pr_serial = (if known then serialNo c else 0),
      pr_info = (if known then padInfoWord c else 0), pr_gen = (if known then padGenWord c else 0),
      pr_stamp = (if known then padStampWord c else 0), pr_row = row r\<rparr>)"
proof -
  note h = hot_slot_row [OF inv r]
  note f = hot_find_row [OF inv r]
  have len: "length (controllers r) = 16" using h(4) by (simp add: row_ok_def)
  have words: "hs_token (slots (s_hot s) ! slot r) = token r"
      "hs_ctrl (slots (s_hot s) ! slot r) = map ctrlWord (controllers r)"
      "hs_padInfo (slots (s_hot s) ! slot r) = map padInfoWord (controllers r)"
      "hs_padGen (slots (s_hot s) ! slot r) = map padGenWord (controllers r)"
      "hs_padStamp (slots (s_hot s) ! slot r) = map padStampWord (controllers r)"
      "hs_session (slots (s_hot s) ! slot r) = sessionWord r" "hs_row (slots (s_hot s) ! slot r) = row r"
    using h(1) by (simp_all add: mirrors_def)
  show ?thesis
  proof (cases "i < 16")
    case True
    have ok: "ctrl_ok i (controllers r ! i)" using h(4) True by (simp add: row_ok_def)
    have rng: "active (controllers r ! i) \<Longrightarrow> 1 \<le> serialNo (controllers r ! i) \<and> serialNo (controllers r ! i) \<le> 16"
      using ok by (simp add: ctrl_ok_def)
    show ?thesis
      using True len rng
      by (simp add: readPad_def f h(2) load_pad_def Let_def words ctrlWord_read [OF ok])
        (auto simp: ctrlWord_read [OF ok])
  next
    case False
    then show ?thesis by (simp add: readPad_def f h(2) load_pad_def Let_def words)
  qed
qed

lemma readPad_none:
  assumes "svc_inv F s" "tok \<notin> fst ` set (s_conns s)"
  shows "readPad tok i (s_hot s) = None"
  using hot_find_none [OF assms] by (simp add: readPad_def)
section \<open>What the receive thread may change\<close>

text \<open>The fields of a slot that the topology operations publish, all but the receive thread's own.\<close>

definition same_published :: "hot_slot \<Rightarrow> hot_slot \<Rightarrow> bool" where
  "same_published h h' \<longleftrightarrow>
     hs_gen h' = hs_gen h \<and> hs_token h' = hs_token h \<and> hs_keyEpoch h' = hs_keyEpoch h \<and>
     hs_key h' = hs_key h \<and> hs_ctrl h' = hs_ctrl h \<and> hs_padInfo h' = hs_padInfo h \<and>
     hs_padGen h' = hs_padGen h \<and> hs_padStamp h' = hs_padStamp h \<and> hs_session h' = hs_session h \<and>
     hs_row h' = hs_row h \<and> hs_nameLength h' = hs_nameLength h \<and> hs_name h' = hs_name h"

lemma same_published_refl [simp]: "same_published h h"
  by (simp add: same_published_def)

lemma same_published_trans: "same_published h h' \<Longrightarrow> same_published h' h'' \<Longrightarrow> same_published h h''"
  by (simp add: same_published_def)

lemma recordDatagram_published [simp]: "same_published h (recordDatagram now e c a h)"
  by (simp add: same_published_def recordDatagram_def Let_def)

lemma same_published_mirrors: "same_published h h' \<Longrightarrow> mirrors r h' = mirrors r h"
  by (simp add: same_published_def mirrors_def hs_loadKey_def hs_loadName_def)

definition rx_only :: "'b svc \<Rightarrow> 'b svc \<Rightarrow> bool" where
  "rx_only s s' \<longleftrightarrow>
     s_conns s' = s_conns s \<and> s_pool s' = s_pool s \<and> s_activePads s' = s_activePads s \<and>
     s_rng s' = s_rng s \<and> s_keyDeriver s' = s_keyDeriver s \<and> s_port s' = s_port s \<and>
     length (s_rxPads s') = length (s_rxPads s) \<and> length (s_rxSessions s') = length (s_rxSessions s) \<and>
     ((\<forall>rx\<in>set (s_rxPads s). rx_ok rx) \<longrightarrow> (\<forall>rx\<in>set (s_rxPads s'). rx_ok rx)) \<and>
     (queues_ok s \<longrightarrow> queues_ok s') \<and> s_commands s' = s_commands s \<and>
     tokens (s_hot s') = tokens (s_hot s) \<and> padOwners (s_hot s') = padOwners (s_hot s) \<and>
     list_all2 same_published (slots (s_hot s)) (slots (s_hot s'))"

lemma rx_only_refl [simp]: "rx_only s s"
  by (simp add: rx_only_def list_all2_refl)

lemma rx_only_trans:
  assumes "rx_only s s'" "rx_only s' s''"
  shows "rx_only s s''"
proof -
  have "list_all2 same_published (slots (s_hot s)) (slots (s_hot s''))"
    using assms list_all2_trans [of same_published same_published same_published] same_published_trans
    unfolding rx_only_def by blast
  then show ?thesis using assms by (simp add: rx_only_def)
qed

lemma rx_only_hot_ok:
  assumes f: "rx_only s s'" and hot: "hot_ok R (s_hot s)" and sl: "\<And>r. r \<in> R \<Longrightarrow> slot r < MAX_SESSIONS"
  shows "hot_ok R (s_hot s')"
proof -
  have l2: "list_all2 same_published (slots (s_hot s)) (slots (s_hot s'))" using f by (simp add: rx_only_def)
  have len: "length (slots (s_hot s')) = 32" using list_all2_lengthD [OF l2] hot by (simp add: hot_ok_def)
  have sp: "same_published (slots (s_hot s) ! i) (slots (s_hot s') ! i)" if "i < 32" for i
    using list_all2_nthD [OF l2] that hot by (simp add: hot_ok_def)
  have "hs_writing (slots (s_hot s') ! i) = hs_writing (slots (s_hot s) ! i)" if "i < 32" for i
    using sp [OF that] by (simp add: hs_writing_def same_published_def)
  moreover have "vacant (slots (s_hot s') ! i) = vacant (slots (s_hot s) ! i)" if "i < 32" for i
    using sp [OF that] by (simp add: vacant_def same_published_def)
  moreover have "mirrors r (slots (s_hot s') ! slot r) = mirrors r (slots (s_hot s) ! slot r)"
    if "r \<in> R" for r
    by (rule same_published_mirrors [OF sp [OF sl [OF that]]])
  ultimately show ?thesis using f hot len unfolding hot_ok_def rx_only_def by simp
qed

lemma rx_only_inv:
  assumes f: "rx_only s s'" and inv: "svc_inv F s"
  shows "svc_inv F s'"
proof -
  have "hot_ok (snd ` set (s_conns s)) (s_hot s')"
    by (rule rx_only_hot_ok [OF f]) (use inv in \<open>auto simp: svc_inv_def rows_ok_def\<close>)
  then show ?thesis using f inv by (simp add: svc_inv_def rx_only_def env_ok_def bal_def commands_ok_def)
qed

lemma rx_ok_update:
  assumes "\<forall>rx\<in>set rs. rx_ok rx" "\<And>rx. rx_ok rx \<Longrightarrow> rx_ok (f rx)"
  shows "\<forall>rx\<in>set (rs[i := f (rs ! i)]). rx_ok rx"
proof (cases "i < length rs")
  case True
  then have "rx_ok (f (rs ! i))" using assms by simp
  then show ?thesis using assms(1) set_update_subset_insert [of rs i "f (rs ! i)"] by auto
qed (use assms in \<open>simp add: list_update_beyond\<close>)

lemma rx_onlyI:
  "rx_only s (s\<lparr>s_backend := b\<rparr>)" "rx_only s (emit e s)" "rx_only s (logMsg l m s)"
  "rx_only s (bump_micDropped s)" "rx_only s (s\<lparr>s_micLate := n\<rparr>)" "rx_only s (s\<lparr>s_audio := a\<rparr>)"
  "rx_only s (s\<lparr>s_rxSessions := (s_rxSessions s)[i := x]\<rparr>)"
  by (simp_all add: rx_only_def list_all2_refl emit_def logMsg_def bump_micDropped_def queues_ok_def)

lemma rxPadFor_ok: "rx_ok rx \<Longrightarrow> rx_ok (rxPadFor pad rx)"
  by (simp add: rx_ok_def rxPadFor_def Let_def rp_beginWrite_def rp_endWrite_def)

lemma publishRx_ok:
  "rx_ok rx \<Longrightarrow> rx_ok (publishRxMotion m d rx)" "rx_ok rx \<Longrightarrow> rx_ok (publishRxBattery bt rx)"
  "rx_ok rx \<Longrightarrow> rx_ok (publishRxTouchpad t mode e rx)"
  by (simp_all add: rx_ok_def publishRxMotion_def publishRxBattery_def publishRxTouchpad_def Let_def
      rp_beginWrite_def rp_endWrite_def)

lemma rx_only_rx_pad:
  assumes "\<And>rx. rx_ok rx \<Longrightarrow> rx_ok (f rx)"
  shows "rx_only s (s\<lparr>s_rxPads := (s_rxPads s)[i := f (s_rxPads s ! i)]\<rparr>)"
  using rx_ok_update [of "s_rxPads s" f i] assms
  by (simp add: rx_only_def list_all2_refl queues_ok_def)

lemma rx_only_on_pad:
  assumes "\<And>rx. rx_ok rx \<Longrightarrow> rx_ok (f rx)"
  shows "rx_only s (on_rx_pad pad f s)"
  unfolding on_rx_pad_def by (rule rx_only_rx_pad) (rule assms [OF rxPadFor_ok])

lemma rx_only_upd_slot:
  assumes "\<And>h. same_published h (f h)"
  shows "rx_only s (s\<lparr>s_hot := upd_slot i f (s_hot s)\<rparr>)"
proof -
  have "list_all2 same_published (slots (s_hot s)) ((slots (s_hot s))[i := f (slots (s_hot s) ! i)])"
    unfolding list_all2_conv_all_nth
  proof (intro conjI allI impI)
    fix k assume "k < length (slots (s_hot s))"
    then show "same_published (slots (s_hot s) ! k) ((slots (s_hot s))[i := f (slots (s_hot s) ! i)] ! k)"
      using assms by (cases "k = i") simp_all
  qed simp
  then show ?thesis by (simp add: rx_only_def upd_slot_def queues_ok_def)
qed

text \<open>A pad that is read as active lies inside every table that its serial and slot index.\<close>

lemma readPad_bounds:
  assumes "readPad tok i t = Some pad"
  shows "pr_slot pad < length (tokens t)"
    "pr_active pad \<Longrightarrow> 1 \<le> pr_serial pad \<and> pr_serial pad \<le> MAX_BACKEND_CONTROLLERS"
    "pr_active pad \<Longrightarrow> i < MAX_CONTROLLERS_PER_CONN"
proof -
  obtain k w out where k: "hot_find t tok = Some k"
      and w: "hs_read (slots t ! k) (load_pad i) = Some (tok, w, out)"
      and pad: "pad = out\<lparr>pr_slot := k, pr_serial := unat (w AND HOT_CTRL_SERIAL_MASK),
        pr_active := (w AND HOT_CTRL_ACTIVE \<noteq> 0 \<and> 1 \<le> unat (w AND HOT_CTRL_SERIAL_MASK) \<and>
          unat (w AND HOT_CTRL_SERIAL_MASK) \<le> MAX_BACKEND_CONTROLLERS)\<rparr>"
    using assms unfolding readPad_def by (auto simp: Let_def split: bind_splits if_splits)
  show "pr_slot pad < length (tokens t)" using hot_find_Some [OF k] pad by simp
  show "pr_active pad \<Longrightarrow> 1 \<le> pr_serial pad \<and> pr_serial pad \<le> MAX_BACKEND_CONTROLLERS"
    by (simp add: pad)
  have "w = 0" if "\<not> i < 16" using w that by (simp add: hs_read_def load_pad_def Let_def split: if_splits)
  then show "pr_active pad \<Longrightarrow> i < MAX_CONTROLLERS_PER_CONN" by (cases "i < 16") (simp_all add: pad)
qed

lemma pushFrame_rx_only:
  assumes "1 \<le> pf_serial fr" "pf_serial fr \<le> MAX_BACKEND_CONTROLLERS" "pf_slot fr < MAX_SESSIONS"
  shows "rx_only s (snd (pushFrame fr s))"
  using assms by (auto simp: pushFrame_def rx_only_def list_all2_refl queues_ok_def)

lemma handleMotionData_rx_only: "rx_only s (snd (handleMotionData tok i report s))"
  by (auto simp: handleMotionData_def publishRx_ok intro: rx_only_trans [OF rx_onlyI(1) rx_only_on_pad]
      split: option.split prod.split)

lemma handleBatteryUpdate_rx_only: "rx_only s (snd (handleBatteryUpdate tok i report s))"
  by (auto simp: handleBatteryUpdate_def publishRx_ok intro: rx_only_trans [OF rx_onlyI(1) rx_only_on_pad]
      split: option.split prod.split)

lemma handleTouchpadData_rx_only:
  assumes "length (tokens (s_hot s)) = MAX_SESSIONS"
  shows "rx_only s (snd (handleTouchpadData tok i report s))"
proof (cases "readPad tok i (s_hot s)")
  case None
  then show ?thesis by (simp add: handleTouchpadData_def)
next
  case (Some pad)
  note bd = readPad_bounds [OF Some]
  let ?s1 = "on_rx_pad pad (publishRxTouchpad report (hotPadMode (pr_info pad)) (pr_keyEpoch pad)) s"
  have s1: "rx_only s ?s1" by (rule rx_only_on_pad) (rule publishRx_ok)
  have "rx_only ?s1 (snd (pushFrame \<lparr>pf_serial = pr_serial pad, pf_stamp = pr_stamp pad,
      pf_slot = pr_slot pad, pf_row = pr_row pad, pf_report = report\<rparr> ?s1))" if "pr_active pad"
    by (rule pushFrame_rx_only) (use bd that assms in simp_all)
  moreover have "rx_only s (?s1\<lparr>s_backend := b\<rparr>)" for b by (rule rx_only_trans [OF s1 rx_onlyI(1)])
  ultimately show ?thesis
    using Some s1 rx_only_trans [OF s1] by (auto simp: handleTouchpadData_def Let_def split: prod.split)
qed

lemma handleHeartbeat_rx_only: "rx_only s (handleHeartbeat tok s)"
  by (auto simp: handleHeartbeat_def intro: rx_onlyI split: option.split prod.split)

lemma dropMicFrame_rx_only: "rx_only s (snd (dropMicFrame pad i cause s))"
  by (auto simp: dropMicFrame_def rx_only_def Let_def bump_micDropped_def logMsg_def emit_def
      queues_ok_def list_all2_refl split: option.split)

lemma recordHotDatagram_rx_only: "rx_only s (recordHotDatagram now tok c a s)"
  by (auto simp: recordHotDatagram_def intro: rx_only_upd_slot split: option.split)

lemma submitHotFrame_rx_only: "rx_only s (snd (submitHotFrame now tok i report rec c a s))"
  by (auto simp: submitHotFrame_def Let_def
      intro: rx_only_trans [OF rx_only_upd_slot rx_onlyI(1)] rx_only_upd_slot rx_onlyI(1)
      split: option.split prod.split)
section \<open>Heartbeats\<close>

lemma hot_bitmap_row:
  assumes "length (controllers r) = MAX_CONTROLLERS_PER_CONN"
  shows "hot_bitmap (map ctrlWord (controllers r)) = activeBitmapLocked r"
proof -
  have act: "(ctrlWord c AND HOT_CTRL_ACTIVE \<noteq> 0) = active c" for c by (simp add: ctrlWord_def)
  have step: "(\<lambda>i bm :: u16. if map ctrlWord (controllers r) ! i AND HOT_CTRL_ACTIVE \<noteq> 0 then bm OR push_bit i 1 else bm) i
      = (\<lambda>bm. if active (controllers r ! i) then bm OR push_bit i 1 else bm)"
    if "i \<in> set [0..<16]" for i
    using that assms act by (simp add: fun_eq_iff del: upt_rec_numeral)
  show ?thesis
    unfolding hot_bitmap_def activeBitmapLocked_def by (rule fold_cong [OF refl refl step])
qed

lemma handleHeartbeat_row:
  assumes inv: "svc_inv F s" and r: "r \<in> snd ` set (s_conns s)"
  shows "handleHeartbeat (token r) s =
    emit (SendHeartbeatAck (conn_endpoint r) (gp_isBusOpen (s_port s) (s_backend s))
      (of_int (countGlobalActiveControllers s)) (epoch r) (activeBitmapLocked r)) s"
proof -
  note h = hot_slot_row [OF inv r]
  have n: "s_activePads s = countGlobalActiveControllers s"
    using inv by (simp add: svc_inv_def countGlobalActiveControllers_def count_rows_def)
  have "hs_token (slots (s_hot s) ! slot r) = token r" "hs_loadKey (slots (s_hot s) ! slot r) = sessionKey r"
      "hs_ctrl (slots (s_hot s) ! slot r) = map ctrlWord (controllers r)"
      "hs_session (slots (s_hot s) ! slot r) = sessionWord r" using h(1) by (simp_all add: mirrors_def)
  moreover have "length (controllers r) = 16" using h(4) by (simp add: row_ok_def)
  ultimately show ?thesis
    by (simp add: handleHeartbeat_def hot_find_row [OF inv r] h(2) load_heartbeat_def conn_endpoint_def
        sessionWord_def hot_bitmap_row n)
qed

section \<open>Gamepad frames\<close>

text \<open>A frame goes to the serial that the session's own controller holds, or nowhere.\<close>

lemma submitHotFrame_row:
  assumes inv: "svc_inv F s" and r: "r \<in> snd ` set (s_conns s)"
  defines "s1 \<equiv> \<lambda>now rec c a. if rec then s\<lparr>s_hot := upd_slot (slot r)
      (recordDatagram now (hs_keyEpoch (slots (s_hot s) ! slot r)) c a) (s_hot s)\<rparr> else s"
  shows "submitHotFrame now (token r) i report rec c a s =
    (if i < MAX_CONTROLLERS_PER_CONN \<and> active (controllers r ! i)
     then case gp_submitReport (s_port s) (serialNo (controllers r ! i)) report (s_backend s) of
            (ok, b) \<Rightarrow> (ok, (s1 now rec c a)\<lparr>s_backend := b\<rparr>)
     else (False, s1 now rec c a))"
proof -
  note h = hot_slot_row [OF inv r]
  have w: "hs_token (slots (s_hot s) ! slot r) = token r"
      "hs_ctrl (slots (s_hot s) ! slot r) = map ctrlWord (controllers r)" using h(1) by (simp_all add: mirrors_def)
  have len: "length (controllers r) = 16" using h(4) by (simp add: row_ok_def)
  show ?thesis
  proof (cases "i < 16")
    case True
    have ok: "ctrl_ok i (controllers r ! i)" using h(4) True by (simp add: row_ok_def)
    have "(ctrlWord (controllers r ! i) AND HOT_CTRL_ACTIVE = 0) = (\<not> active (controllers r ! i))"
      using ctrlWord_read(2) [OF ok] by blast
    then show ?thesis
      using True len
      by (simp add: submitHotFrame_def hot_find_row [OF inv r] h(2) w ctrlWord_read(1) [OF ok] s1_def Let_def)
  next
    case False
    then show ?thesis
      by (simp add: submitHotFrame_def hot_find_row [OF inv r] h(2) w s1_def Let_def)
  qed
qed

lemma submitHotFrame_none:
  assumes "svc_inv F s" "tok \<notin> fst ` set (s_conns s)"
  shows "submitHotFrame now tok i report rec c a s = (False, s)"
  using hot_find_none [OF assms] by (simp add: submitHotFrame_def)

text \<open>The fused hot path is the two calls it fuses.\<close>

lemma fused_hot_path:
  "handleGamepadDataAndUpdate now tok counter ip port i report s =
     handleGamepadData now tok i report (updatePostDecryptV4 now tok counter ip port s)"
proof (cases "hot_find (s_hot s) tok")
  case None
  then show ?thesis
    by (simp add: handleGamepadDataAndUpdate_def handleGamepadData_def updatePostDecryptV4_def
        recordHotDatagram_def submitHotFrame_def)
next
  case (Some k)
  let ?h = "slots (s_hot s) ! k"
  let ?a = "packClientAddr ip port"
  show ?thesis
  proof (cases "hs_gen ?h AND 1 = 0 \<and> hs_token ?h = tok")
    case False
    then show ?thesis
      using Some by (auto simp: handleGamepadDataAndUpdate_def handleGamepadData_def updatePostDecryptV4_def
        recordHotDatagram_def submitHotFrame_def hs_read_def)
  next
    case True
    let ?f = "recordDatagram now (hs_keyEpoch ?h) counter ?a"
    let ?s1 = "s\<lparr>s_hot := upd_slot k ?f (s_hot s)\<rparr>"
    have "hot_find (s_hot ?s1) tok = hot_find (s_hot s) tok" by (simp add: hot_find_def upd_slot_def)
    then have find1: "hot_find (s_hot ?s1) tok = Some k" using Some by simp
    have pub: "same_published ?h (slots (s_hot ?s1) ! k)"
      by (cases "k < length (slots (s_hot s))") (simp_all add: upd_slot_def list_update_beyond)
    then have g: "hs_gen (slots (s_hot ?s1) ! k) = hs_gen ?h" "hs_token (slots (s_hot ?s1) ! k) = hs_token ?h"
        "hs_keyEpoch (slots (s_hot ?s1) ! k) = hs_keyEpoch ?h" "hs_ctrl (slots (s_hot ?s1) ! k) = hs_ctrl ?h"
      by (simp_all only: same_published_def)
    have up: "updatePostDecryptV4 now tok counter ip port s = ?s1"
      using Some True by (simp add: updatePostDecryptV4_def recordHotDatagram_def hs_read_def)
    show ?thesis
      unfolding up handleGamepadDataAndUpdate_def handleGamepadData_def submitHotFrame_def find1 Some
      using True g by (simp add: hs_read_def Let_def)
  qed
qed

section \<open>Replay state\<close>

lemma getDecryptInfo_row:
  assumes inv: "svc_inv F s" and r: "r \<in> snd ` set (s_conns s)"
  defines "h \<equiv> slots (s_hot s) ! slot r"
  shows "getDecryptInfo (token r) (s_hot s) =
    Some (sessionKey r, if hs_replayKeyEpoch h = hs_keyEpoch h then hs_lastCounter h else 0,
          hs_replayKeyEpoch h = hs_keyEpoch h)"
proof -
  note g = hot_slot_row [OF inv r]
  have "hs_token (slots (s_hot s) ! slot r) = token r" "hs_loadKey (slots (s_hot s) ! slot r) = sessionKey r"
    using g(1) by (simp_all add: mirrors_def)
  then show ?thesis
    unfolding h_def by (simp add: getDecryptInfo_def hot_find_row [OF inv r] g(2) Let_def)
qed

lemma getDecryptInfo_none:
  assumes "svc_inv F s" "tok \<notin> fst ` set (s_conns s)"
  shows "getDecryptInfo tok (s_hot s) = None"
  using hot_find_none [OF assms] by (simp add: getDecryptInfo_def)

lemma recordHotDatagram_row:
  assumes inv: "svc_inv F s" and r: "r \<in> snd ` set (s_conns s)"
  shows "recordHotDatagram now (token r) c a s =
    s\<lparr>s_hot := upd_slot (slot r) (recordDatagram now (hs_keyEpoch (slots (s_hot s) ! slot r)) c a) (s_hot s)\<rparr>"
proof -
  note g = hot_slot_row [OF inv r]
  have "hs_token (slots (s_hot s) ! slot r) = token r" using g(1) by (simp add: mirrors_def)
  then show ?thesis by (simp add: recordHotDatagram_def hot_find_row [OF inv r] g(2))
qed

lemma replay_recorded:
  assumes inv: "svc_inv F s" and r: "r \<in> snd ` set (s_conns s)"
  shows "getDecryptInfo (token r) (s_hot (recordHotDatagram now (token r) c a s)) = Some (sessionKey r, c, True)"
proof -
  let ?s' = "recordHotDatagram now (token r) c a s"
  have inv': "svc_inv F ?s'" by (rule rx_only_inv [OF recordHotDatagram_rx_only inv])
  have conns: "s_conns ?s' = s_conns s" using recordHotDatagram_rx_only [of s] unfolding rx_only_def by blast
  have r': "r \<in> snd ` set (s_conns ?s')" unfolding conns by (rule r)
  have "slots (s_hot ?s') ! slot r
      = recordDatagram now (hs_keyEpoch (slots (s_hot s) ! slot r)) c a (slots (s_hot s) ! slot r)"
    using recordHotDatagram_row [OF inv r] hot_slot_row(3) [OF inv r] by (simp add: upd_slot_def)
  then show ?thesis
    using getDecryptInfo_row [OF inv' r'] by (simp add: recordDatagram_def Let_def)
qed
section \<open>The microphone allowance\<close>

text \<open>The number of packets admitted from a run of arrival times, and the entry it leaves.\<close>

fun mic_run :: "ticks list \<Rightarrow> rx_pad \<Rightarrow> nat" where
  "mic_run [] rx = 0"
| "mic_run (t # ts) rx = (case mic_admit t rx of (ok, rx') \<Rightarrow> (if ok then 1 else 0) + mic_run ts rx')"

lemma mic_admit_cases:
  assumes "mic_admit now rx = (ok, rx')" "unat (rp_micPacketsInWindow rx) \<le> MIC_AUDIO_MAX_PACKETS_PER_SEC"
  shows "unat (rp_micPacketsInWindow rx') \<le> MIC_AUDIO_MAX_PACKETS_PER_SEC \<and> 1 \<le> unat (rp_micPacketsInWindow rx') \<and>
    (if rp_micPacketsInWindow rx = 0 \<or> now - rp_micWindowStart rx \<ge> sec 1
     then ok \<and> rp_micWindowStart rx' = now \<and> unat (rp_micPacketsInWindow rx') = 1
     else rp_micWindowStart rx' = rp_micWindowStart rx \<and>
          unat (rp_micPacketsInWindow rx') = unat (rp_micPacketsInWindow rx) + (if ok then 1 else 0))"
proof (cases "rp_micPacketsInWindow rx = 0 \<or> now - rp_micWindowStart rx \<ge> sec 1")
  case True
  then show ?thesis using assms(1) by (auto simp: mic_admit_def Let_def)
next
  case False
  then have nz: "unat (rp_micPacketsInWindow rx) \<noteq> 0" by (simp add: unat_eq_zero)
  show ?thesis
  proof (cases "unat (rp_micPacketsInWindow rx) \<ge> 75")
    case True
    then show ?thesis using assms False nz by (auto simp: mic_admit_def Let_def)
  next
    case less: False
    have "unat (rp_micPacketsInWindow rx + 1) = unat (rp_micPacketsInWindow rx) + 1"
      using less by (intro unat_word_ariths(1) [THEN trans]) simp
    then show ?thesis using assms(1) False less nz by (auto simp: mic_admit_def Let_def)
  qed
qed

lemma mic_run_window:
  assumes "unat (rp_micPacketsInWindow rx) \<le> 75" "1 \<le> unat (rp_micPacketsInWindow rx)"
    "\<forall>t\<in>set ts. t - rp_micWindowStart rx < sec 1"
  shows "mic_run ts rx + unat (rp_micPacketsInWindow rx) \<le> 75"
  using assms
proof (induction ts arbitrary: rx)
  case Nil
  then show ?case by simp
next
  case (Cons t ts)
  obtain ok rx' where a: "mic_admit t rx = (ok, rx')" by force
  have "\<not> (rp_micPacketsInWindow rx = 0 \<or> t - rp_micWindowStart rx \<ge> sec 1)"
    using Cons.prems by (auto simp: unat_eq_zero)
  then show ?case
    using mic_admit_cases [OF a Cons.prems(1)] Cons.IH [of rx'] Cons.prems(3) a by (auto split: if_splits)
qed

lemma mic_run_second:
  assumes "unat (rp_micPacketsInWindow rx) \<le> 75" "sorted ts" "\<forall>t\<in>set ts. \<forall>u\<in>set ts. u - t < sec 1"
  shows "mic_run ts rx + unat (rp_micPacketsInWindow rx) \<le> 150"
  using assms
proof (induction ts arbitrary: rx)
  case Nil
  then show ?case by simp
next
  case (Cons t ts)
  obtain ok rx' where a: "mic_admit t rx = (ok, rx')" by force
  note c = mic_admit_cases [OF a Cons.prems(1)]
  show ?case
  proof (cases "rp_micPacketsInWindow rx = 0 \<or> t - rp_micWindowStart rx \<ge> sec 1")
    case True
    have "mic_run ts rx' + unat (rp_micPacketsInWindow rx') \<le> 75"
      by (rule mic_run_window) (use c True Cons.prems(3) in auto)
    then show ?thesis using c True a Cons.prems(1) by (auto split: if_splits)
  next
    case False
    have "mic_run ts rx' + unat (rp_micPacketsInWindow rx') \<le> 150"
      using Cons.IH [of rx'] c Cons.prems by (auto split: if_splits)
    then show ?thesis using c False a by (auto split: if_splits)
  qed
qed

lemma mic_admit_ok:
  assumes "rx_ok rx"
  shows "rx_ok (snd (mic_admit now rx))"
proof -
  obtain ok rx' where a: "mic_admit now rx = (ok, rx')" by force
  have "rp_seq rx' = rp_seq rx \<and> rp_gen rx' = rp_gen rx \<and> rp_ownGen rx' = rp_ownGen rx \<and>
      rp_flags rx' = rp_flags rx \<and> rp_ownFlags rx' = rp_ownFlags rx"
    using a by (auto simp: mic_admit_def Let_def split: if_splits)
  then show ?thesis using mic_admit_cases [OF a] assms a by (simp add: rx_ok_def)
qed

lemma handOverMicFrame_rx_only:
  assumes "1 \<le> pr_serial pad" "pr_serial pad \<le> MAX_BACKEND_CONTROLLERS" "pr_slot pad < MAX_SESSIONS"
    "i < MAX_CONTROLLERS_PER_CONN"
  shows "rx_only s (snd (handOverMicFrame pad i seq opus s))"
  using assms
  by (auto simp: handOverMicFrame_def bump_micDropped_def rx_only_def list_all2_refl queues_ok_def)

lemma handleMicAudio_rx_only:
  assumes "length (tokens (s_hot s)) = MAX_SESSIONS"
  shows "rx_only s (snd (handleMicAudio now tok i seq opus s))"
proof (cases "readPad tok i (s_hot s)")
  case None
  then show ?thesis by (simp add: handleMicAudio_def)
next
  case (Some pad)
  note bd = readPad_bounds [OF Some]
  obtain ok rx where a: "mic_admit now (rxPadFor pad (s_rxPads s ! pr_serial pad)) = (ok, rx)" by force
  let ?s1 = "s\<lparr>s_rxPads := (s_rxPads s)[pr_serial pad := rx]\<rparr>"
  have s1: "rx_only s ?s1"
    using rx_only_rx_pad [of "\<lambda>rx. snd (mic_admit now (rxPadFor pad rx))" s "pr_serial pad"]
      mic_admit_ok rxPadFor_ok a by simp
  have "rx_only ?s1 (snd (handOverMicFrame pad i seq opus ?s1))" if "pr_active pad"
    by (rule handOverMicFrame_rx_only) (use bd that assms in simp_all)
  moreover have "rx_only s (snd (dropMicFrame pad i c ?s1))" for c
    by (rule rx_only_trans [OF s1 dropMicFrame_rx_only])
  ultimately show ?thesis
    using Some a rx_only_trans [OF s1] dropMicFrame_rx_only [of s]
    by (auto simp: handleMicAudio_def Let_def split: prod.split)
qed

text \<open>The same over the handler: packets of one pad handed to the mic worker.\<close>

fun mic_stream :: "u32 \<Rightarrow> nat \<Rightarrow> (ticks \<times> u16 \<times> u8 list) list \<Rightarrow> 'b svc \<Rightarrow> nat \<times> 'b svc" where
  "mic_stream tok i [] s = (0, s)"
| "mic_stream tok i ((t, seq, opus) # xs) s =
     (case handleMicAudio t tok i seq opus s of (ok, s1) \<Rightarrow>
      case mic_stream tok i xs s1 of (n, s2) \<Rightarrow> ((if ok then 1 else 0) + n, s2))"

lemma dropMicFrame_frame:
  "fst (dropMicFrame pad i cause s) = False" "s_hot (snd (dropMicFrame pad i cause s)) = s_hot s"
  "s_policy (snd (dropMicFrame pad i cause s)) = s_policy s"
  "s_rxPads (snd (dropMicFrame pad i cause s)) = s_rxPads s"
  by (auto simp: dropMicFrame_def Let_def bump_micDropped_def logMsg_def emit_def split: option.split)

lemma handOverMicFrame_frame:
  "s_hot (snd (handOverMicFrame pad i seq opus s)) = s_hot s"
  "s_policy (snd (handOverMicFrame pad i seq opus s)) = s_policy s"
  "s_rxPads (snd (handOverMicFrame pad i seq opus s)) = s_rxPads s"
  by (auto simp: handOverMicFrame_def bump_micDropped_def)

lemma rxPadFor_own: "rp_ownGen (rxPadFor pad rx) = pr_gen pad" "rxPadFor pad (rxPadFor pad rx) = rxPadFor pad rx"
  by (simp_all add: rxPadFor_def Let_def rp_beginWrite_def rp_endWrite_def)

lemma rxPadFor_count:
  "unat (rp_micPacketsInWindow rx) \<le> 75 \<Longrightarrow> unat (rp_micPacketsInWindow (rxPadFor pad rx)) \<le> 75"
  by (simp add: rxPadFor_def Let_def rp_beginWrite_def rp_endWrite_def)

lemma mic_admit_own: "rp_ownGen (snd (mic_admit now rx)) = rp_ownGen rx"
  by (auto simp: mic_admit_def Let_def)

lemma handleMicAudio_step:
  assumes pad: "readPad tok i (s_hot s) = Some pad" and act: "pr_active pad"
    and len: "length (s_rxPads s) = MAX_BACKEND_CONTROLLERS + 1" "pr_serial pad \<le> MAX_BACKEND_CONTROLLERS"
    and h: "handleMicAudio t tok i seq opus s = (ok, s')"
  shows "s_hot s' = s_hot s \<and> s_policy s' = s_policy s \<and> length (s_rxPads s') = length (s_rxPads s) \<and>
    (let rx = rxPadFor pad (s_rxPads s ! pr_serial pad) in
     (\<not> ok \<and> s_rxPads s' = s_rxPads s) \<or>
     (s_rxPads s' ! pr_serial pad = snd (mic_admit t rx) \<and> (ok \<longrightarrow> fst (mic_admit t rx))))"
proof -
  let ?rx = "rxPadFor pad (s_rxPads s ! pr_serial pad)"
  obtain adm rx' where a: "mic_admit t ?rx = (adm, rx')" by force
  let ?s1 = "s\<lparr>s_rxPads := (s_rxPads s)[pr_serial pad := rx']\<rparr>"
  have res: "(ok, s') = (if opus = [] then (False, s)
      else if hotPadCaps (pr_info pad) AND CAP_MIC = 0 then dropMicFrame pad i MIC_DROP_LOG_NO_CAP s
      else if \<not> pol_mic (audioPolicy s) then dropMicFrame pad i MIC_DROP_LOG_HOST_DISABLED s
      else if adm then handOverMicFrame pad i seq opus ?s1 else dropMicFrame pad i MIC_DROP_LOG_RATE_LIMIT ?s1)"
    using h pad act a by (auto simp: handleMicAudio_def Let_def split: if_splits)
  have drop: "s_hot s' = s_hot s \<and> s_policy s' = s_policy s \<and> \<not> ok \<and> s_rxPads s' = s_rxPads s"
    if "(ok, s') = dropMicFrame pad i cause s" for cause
    using dropMicFrame_frame [of pad i cause s] that by (metis fst_conv snd_conv)
  have adm1: "s_hot s' = s_hot s \<and> s_policy s' = s_policy s \<and> s_rxPads s' = (s_rxPads s)[pr_serial pad := rx'] \<and>
      (ok \<longrightarrow> adm)"
    if "(ok, s') = (if adm then handOverMicFrame pad i seq opus ?s1 else dropMicFrame pad i MIC_DROP_LOG_RATE_LIMIT ?s1)"
    using that dropMicFrame_frame [of pad i MIC_DROP_LOG_RATE_LIMIT ?s1] handOverMicFrame_frame [of pad i seq opus ?s1]
    by (cases adm) (auto dest: arg_cong [of _ _ fst] arg_cong [of _ _ snd])
  consider "ok = False" "s' = s" | cause where "(ok, s') = dropMicFrame pad i cause s"
    | "(ok, s') = (if adm then handOverMicFrame pad i seq opus ?s1 else dropMicFrame pad i MIC_DROP_LOG_RATE_LIMIT ?s1)"
    using res by (auto split: if_splits)
  then show ?thesis
  proof cases
    case 1
    then show ?thesis by (simp add: Let_def)
  next
    case 2
    then show ?thesis using drop by (simp add: Let_def)
  next
    case 3
    then show ?thesis using adm1 a len by (simp add: Let_def)
  qed
qed

lemma mic_stream_limit:
  assumes pad: "readPad tok i (s_hot s) = Some pad" and act: "pr_active pad"
    and len: "length (s_rxPads s) = MAX_BACKEND_CONTROLLERS + 1" "pr_serial pad \<le> MAX_BACKEND_CONTROLLERS"
    and cnt: "unat (rp_micPacketsInWindow (s_rxPads s ! pr_serial pad)) \<le> 75"
  shows "\<exists>ts. subseq ts (map fst xs) \<and> fst (mic_stream tok i xs s)
    \<le> mic_run ts (rxPadFor pad (s_rxPads s ! pr_serial pad))"
  using assms
proof (induction xs arbitrary: s)
  case Nil
  show ?case by (rule exI [of _ "[]"]) simp
next
  case (Cons x xs)
  obtain t seq opus where x: "x = (t, seq, opus)" by (cases x) auto
  let ?rx = "rxPadFor pad (s_rxPads s ! pr_serial pad)"
  obtain ok s1 where h: "handleMicAudio t tok i seq opus s = (ok, s1)" by force
  note st = handleMicAudio_step [OF Cons.prems(1-4) h, unfolded Let_def]
  have pre: "readPad tok i (s_hot s1) = Some pad" "length (s_rxPads s1) = 17"
    using st Cons.prems by simp_all
  consider "\<not> ok" "s_rxPads s1 = s_rxPads s"
    | "s_rxPads s1 ! pr_serial pad = snd (mic_admit t ?rx)" "ok \<longrightarrow> fst (mic_admit t ?rx)" using st by blast
  then show ?case
  proof cases
    case 1
    then obtain ts where "subseq ts (map fst xs)" "fst (mic_stream tok i xs s1) \<le> mic_run ts ?rx"
      using Cons.IH [of s1] pre Cons.prems by auto
    then have "subseq ts (map fst (x # xs)) \<and> fst (mic_stream tok i (x # xs) s) \<le> mic_run ts ?rx"
      using 1 h x by (auto split: prod.split)
    then show ?thesis by blast
  next
    case 2
    obtain adm rx' where a: "mic_admit t ?rx = (adm, rx')" by force
    have own: "rxPadFor pad rx' = rx'"
      using mic_admit_own [of t ?rx] rxPadFor_own(1) [of pad] a by (simp add: rxPadFor_def)
    have "unat (rp_micPacketsInWindow rx') \<le> 75"
      using mic_admit_cases [OF a] rxPadFor_count [OF Cons.prems(5), of pad] by simp
    then obtain ts where "subseq ts (map fst xs)" "fst (mic_stream tok i xs s1) \<le> mic_run ts rx'"
      using Cons.IH [of s1] pre Cons.prems(2,4) 2(1) a own by auto
    then have "subseq (t # ts) (map fst (x # xs)) \<and> fst (mic_stream tok i (x # xs) s) \<le> mic_run (t # ts) ?rx"
      using 2 a h x by (auto split: prod.split)
    then show ?thesis by blast
  qed
qed

end
