(* ===== verification/Session_View.thy ===== *)
theory Session_View
  imports Session_Receive
begin

text \<open>
  The read side of \<^verbatim>\<open>SessionService\<close>: the REST session view, the connection snapshot the UI serialises,
  link states and counts.  The lemmas relate what is read to the rows and to what the receive path
  published last; the generation of a plug decides whether a cached report belongs to the pad.
\<close>

section \<open>The session view\<close>

record ctrl_view =
  cv_ctrlIdx :: nat
  cv_appliedType :: u8
  cv_caps :: u16
  cv_touchpadMode :: u8
  cv_motionSinkSupportedForType :: bool
  cv_motionBackendOk :: bool
  cv_backendId :: string
  cv_preferredBackend :: string

record session_view =
  sv_found :: bool
  sv_connectionId :: string
  sv_deviceId :: string
  sv_epoch :: u16
  sv_mouseControlGranted :: bool
  sv_protocolVersion :: int
  sv_controllers :: "ctrl_view list"

definition no_session_view :: session_view where
  "no_session_view =
     \<lparr>sv_found = False, sv_connectionId = [], sv_deviceId = [], sv_epoch = 0, sv_mouseControlGranted = False,
      sv_protocolVersion = PROTOCOL_VERSION, sv_controllers = []\<rparr>"

definition view_ctrl :: "'b svc \<Rightarrow> controller \<Rightarrow> ctrl_view" where
  "view_ctrl s c =
     \<lparr>cv_ctrlIdx = ctrl_index c, cv_appliedType = controllerType c, cv_caps = caps c,
      cv_touchpadMode = touchpadMode c,
      cv_motionSinkSupportedForType = gp_supportsMotionForType (s_port s) (controllerType c) (s_backend s),
      cv_motionBackendOk = gp_motionBackendOk (s_port s) (serialNo c) (s_backend s),
      cv_backendId = gp_backendIdForSerial (s_port s) (serialNo c) (s_backend s),
      cv_preferredBackend = preferredBackend c\<rparr>"

definition getSessionView :: "string \<Rightarrow> string \<Rightarrow> 'b svc \<Rightarrow> session_view" where
  "getSessionView cid dev s =
     (case findByConnectionId cid s of
        None \<Rightarrow> no_session_view
      | Some r \<Rightarrow>
          if dev \<noteq> [] \<and> deviceId r \<noteq> dev then no_session_view
          else \<lparr>sv_found = True, sv_connectionId = connectionId r, sv_deviceId = deviceId r,
                sv_epoch = epoch r, sv_mouseControlGranted = mouseControlGranted r,
                sv_protocolVersion = protocolVersion r,
                sv_controllers = map (view_ctrl s) (filter active (controllers r))\<rparr>)"

section \<open>The snapshot\<close>

record ctrl_info =
  ci_index :: nat
  ci_serial :: nat
  ci_active :: bool
  ci_pluggedIn :: bool
  ci_controllerType :: u8
  ci_touchpadMode :: u8
  ci_batteryKnown :: bool
  ci_batteryLevel :: u8
  ci_batteryStatus :: u8
  ci_motionCapable :: bool
  ci_motionActive :: bool
  ci_motionSink :: bool
  ci_motionSinkSupportedForType :: bool
  ci_motionBackendOk :: bool
  ci_backendId :: string
  ci_touchpadActive :: bool
  ci_lightbarCapable :: bool
  ci_lightbarKnown :: bool
  ci_lightbarR :: u8
  ci_lightbarG :: u8
  ci_lightbarB :: u8
  ci_motion :: motion_report
  ci_touchpad :: touchpad_report

text \<open>
  \<^verbatim>\<open>readRxPad\<close> retries a read that met a write.  Every attempt of a state sees the same words, so the
  retries change nothing here; the interleaving with a writer is the subject of \<open>Hot_Protocol\<close>.
\<close>

fun readRxPad :: "nat \<Rightarrow> rx_pad \<Rightarrow> rx_pad_view option" where
  "readRxPad 0 rx = None"
| "readRxPad (Suc attempts) rx =
     (case rp_read rx of Some v \<Rightarrow> Some v | None \<Rightarrow> readRxPad attempts rx)"

abbreviation (input) RX_READ_ATTEMPTS :: nat where
  "RX_READ_ATTEMPTS \<equiv> 64"

definition base_info :: "controller \<Rightarrow> 'b svc \<Rightarrow> ctrl_info" where
  "base_info c s =
     \<lparr>ci_index = ctrl_index c, ci_serial = serialNo c, ci_active = True,
      ci_pluggedIn = gp_isDevicePlugged (s_port s) (serialNo c) (s_backend s),
      ci_controllerType = controllerType c, ci_touchpadMode = touchpadMode c,
      ci_batteryKnown = False, ci_batteryLevel = BATTERY_LEVEL_UNKNOWN,
      ci_batteryStatus = BATTERY_STATUS_UNKNOWN, ci_motionCapable = motionCapable c,
      ci_motionActive = False, ci_motionSink = False,
      ci_motionSinkSupportedForType = gp_supportsMotionForType (s_port s) (controllerType c) (s_backend s),
      ci_motionBackendOk = gp_motionBackendOk (s_port s) (serialNo c) (s_backend s),
      ci_backendId = gp_backendIdForSerial (s_port s) (serialNo c) (s_backend s),
      ci_touchpadActive = False, ci_lightbarCapable = lightbarCapable c,
      ci_lightbarKnown = lastLightbarValid c, ci_lightbarR = lightbarR c, ci_lightbarG = lightbarG c,
      ci_lightbarB = lightbarB c, ci_motion = no_motion, ci_touchpad = no_touchpad\<rparr>"

definition streamed_info :: "u32 \<Rightarrow> controller \<Rightarrow> rx_pad_view \<Rightarrow> ctrl_info \<Rightarrow> ctrl_info" where
  "streamed_info keyEpoch c rx info =
     (let motion = rv_flags rx AND RX_PAD_MOTION \<noteq> 0;
          battery = rv_flags rx AND RX_PAD_BATTERY \<noteq> 0;
          touch = rv_flags rx AND RX_PAD_TOUCHPAD \<noteq> 0 \<and> rv_touchpadMode rx = touchpadMode c \<and>
                  rv_touchpadKeyEpoch rx = keyEpoch
      in info\<lparr>ci_motionActive := motion,
              ci_motionSink := (rv_flags rx AND RX_PAD_MOTION_SINK \<noteq> 0),
              ci_motion := (if motion then rv_motion rx else ci_motion info),
              ci_batteryKnown := battery,
              ci_batteryLevel := (if battery then bat_level (rv_battery rx) else ci_batteryLevel info),
              ci_batteryStatus := (if battery then bat_status (rv_battery rx) else ci_batteryStatus info),
              ci_touchpadActive := touch,
              ci_touchpad := (if touch then rv_touchpad rx else ci_touchpad info)\<rparr>)"

definition snapshotController :: "connection \<Rightarrow> controller \<Rightarrow> 'b svc \<Rightarrow> ctrl_info" where
  "snapshotController r c s =
     (let info = base_info c s in
      if \<not> (1 \<le> serialNo c \<and> serialNo c \<le> MAX_BACKEND_CONTROLLERS) then info
      else case readRxPad RX_READ_ATTEMPTS (s_rxPads s ! serialNo c) of
        None \<Rightarrow> info
      | Some rx \<Rightarrow>
          if rv_gen rx \<noteq> plugGen c then info
          else streamed_info (hs_keyEpoch (slots (s_hot s) ! slot r)) c rx info)"

record conn_snapshot =
  cs_connectionId :: string
  cs_token :: u32
  cs_deviceId :: string
  cs_deviceName :: string
  cs_clientIP :: string
  cs_connectedAtEpoch :: int
  cs_epoch :: u16
  cs_activeControllerCount :: int
  cs_mouseControlGranted :: bool
  cs_protocolVersion :: int
  cs_linkState :: device_link_state
  cs_controllers :: "ctrl_info list"

definition snapshotConnection :: "ticks \<Rightarrow> u32 \<Rightarrow> connection \<Rightarrow> 'b svc \<Rightarrow> conn_snapshot" where
  "snapshotConnection now tok r s =
     (let addr = hs_clientAddr (slots (s_hot s) ! slot r) in
      \<lparr>cs_connectionId = connectionId r, cs_token = tok, cs_deviceId = deviceId r,
       cs_deviceName = deviceName r,
       cs_clientIP = (if addr \<noteq> 0 then formatIPv4Nbo (clientAddrIPv4 addr) else clientIP r),
       cs_connectedAtEpoch = whole_seconds (connectedAt r), cs_epoch = epoch r,
       cs_activeControllerCount = activeControllerCount r,
       cs_mouseControlGranted = mouseControlGranted r, cs_protocolVersion = protocolVersion r,
       cs_linkState = linkStateAt now r s,
       cs_controllers = map (\<lambda>c. snapshotController r c s) (filter active (controllers r))\<rparr>)"

record conns_snapshot =
  snap_connections :: "conn_snapshot list"
  snap_totalControllers :: int
  snap_maxControllers :: int
  snap_backendAvailable :: bool

definition getConnectionsSnapshot :: "ticks \<Rightarrow> 'b svc \<Rightarrow> conns_snapshot" where
  "getConnectionsSnapshot now s =
     (let cs = map (\<lambda>(tok, r). snapshotConnection now tok r s) (s_conns s) in
      \<lparr>snap_connections = cs,
       snap_totalControllers = fold (\<lambda>c n. n + int (length (cs_controllers c))) cs 0,
       snap_maxControllers = int MAX_BACKEND_CONTROLLERS,
       snap_backendAvailable = gp_isBusOpen (s_port s) (s_backend s)\<rparr>)"

section \<open>Counts and link states\<close>

definition isDeviceConnected :: "string \<Rightarrow> 'b svc \<Rightarrow> bool" where
  "isDeviceConnected dev s \<longleftrightarrow> list_ex (\<lambda>e. deviceId (snd e) = dev) (s_conns s)"

definition linkStateForDevice :: "ticks \<Rightarrow> string \<Rightarrow> 'b svc \<Rightarrow> device_link_state" where
  "linkStateForDevice now dev s =
     (case List.find (\<lambda>e. deviceId (snd e) = dev) (s_conns s) of
        Some e \<Rightarrow> linkStateAt now (snd e) s
      | None \<Rightarrow> Paired)"

definition isBackendAvailable :: "'b svc \<Rightarrow> bool" where
  "isBackendAvailable s = gp_isBusOpen (s_port s) (s_backend s)"

definition activeSessionCount :: "'b svc \<Rightarrow> nat" where
  "activeSessionCount s = length (s_conns s)"

definition totalActiveControllers :: "'b svc \<Rightarrow> int" where
  "totalActiveControllers s = countGlobalActiveControllers s"

definition availableSlots :: "'b svc \<Rightarrow> nat" where
  "availableSlots s = pool_availableSlots (s_pool s)"

record heartbeat_ack_view =
  hv_found :: bool
  hv_backendAvailable :: bool
  hv_totalActiveControllers :: u8
  hv_epoch :: u16
  hv_activeBitmap :: u16

definition coldHeartbeatAckForTest :: "u32 \<Rightarrow> 'b svc \<Rightarrow> heartbeat_ack_view" where
  "coldHeartbeatAckForTest tok s =
     (case map_of (s_conns s) tok of
        None \<Rightarrow> \<lparr>hv_found = False, hv_backendAvailable = False, hv_totalActiveControllers = 0, hv_epoch = 0,
                 hv_activeBitmap = 0\<rparr>
      | Some r \<Rightarrow> \<lparr>hv_found = True, hv_backendAvailable = gp_isBusOpen (s_port s) (s_backend s),
                 hv_totalActiveControllers = of_int (countGlobalActiveControllers s), hv_epoch = epoch r,
                 hv_activeBitmap = activeBitmapLocked r\<rparr>)"
section \<open>What the reads show\<close>

lemma readRxPad_ok:
  assumes "rx_ok rx" "0 < n"
  shows "readRxPad n rx = rp_read rx" "rp_read rx \<noteq> None"
proof -
  have "rp_seq rx AND 1 = 0" using assms(1) by (simp add: rx_ok_def even_iff_mod_2_eq_zero and_one_eq)
  then show "rp_read rx \<noteq> None" by (simp add: rp_read_def)
  then show "readRxPad n rx = rp_read rx" using assms(2) by (cases n) auto
qed

lemma snapshot_total:
  assumes inv: "svc_inv F s"
  shows "snap_totalControllers (getConnectionsSnapshot now s) = s_activePads s"
    "totalActiveControllers s = s_activePads s"
proof -
  have "\<forall>e\<in>set (s_conns s). activeControllerCount (snd e) = int (length (filter active (controllers (snd e))))"
    using inv by (auto simp: svc_inv_def rows_ok_def row_ok_def)
  then have "fold (\<lambda>c n. n + int (length (cs_controllers c))) (map (\<lambda>(tok, r). snapshotConnection now tok r s) es) k =
      k + sum_list (map (\<lambda>e. activeControllerCount (snd e)) es)" if "set es \<subseteq> set (s_conns s)" for es k
    using that by (induction es arbitrary: k) (auto simp: snapshotConnection_def Let_def)
  from this [of "s_conns s" 0] show "snap_totalControllers (getConnectionsSnapshot now s) = s_activePads s"
    using inv by (simp add: getConnectionsSnapshot_def Let_def svc_inv_def count_rows_def)
  show "totalActiveControllers s = s_activePads s"
    using inv by (simp add: totalActiveControllers_def countGlobalActiveControllers_def svc_inv_def count_rows_def)
qed

lemma size_held: "row_ok r \<Longrightarrow> int (size (held r)) = activeControllerCount r"
  by (simp add: held_def row_ok_def del: mset_map mset_filter)

lemma pads_and_slots:
  assumes inv: "svc_inv {#} s"
  shows "int (availableSlots s) + totalActiveControllers s + int (card (pool_blocked (s_pool s) - pool_used (s_pool s)))
    = int MAX_BACKEND_CONTROLLERS"
proof -
  have wf: "pool_wf (s_pool s)" and b: "held_rows (s_conns s) = pool.inuse (s_pool s)"
    using inv by (simp_all add: svc_inv_def bal_def)
  have "\<forall>e\<in>set (s_conns s). row_ok (snd e)" using inv by (simp add: svc_inv_def rows_ok_def)
  then have sz: "int (size (held_rows es)) = count_rows es" if "set es \<subseteq> set (s_conns s)" for es
    using that by (induction es) (auto simp: held_rows_def count_rows_def size_held)
  have "totalActiveControllers s = count_rows (s_conns s)"
    using snapshot_total(2) [OF inv] inv by (simp add: svc_inv_def)
  then have n: "totalActiveControllers s = int (card (pool_used (s_pool s)))"
    using sz [OF subset_refl] b by (simp add: pool.inuse_def)
  let ?u = "pool_used (s_pool s)" and ?b = "pool_blocked (s_pool s)"
  have fin: "finite all_serials" "card all_serials = 16" by (simp_all add: all_serials_def)
  have sub: "?u \<subseteq> all_serials" "?b \<subseteq> all_serials" using pool.used_every [OF wf] by (auto simp: pool_used_def pool_blocked_def all_serials_def)
  have "card (all_serials - (?u \<union> ?b)) = card all_serials - card (?u \<union> ?b)"
    by (rule card_Diff_subset) (use sub finite_subset [OF _ fin(1)] in auto)
  moreover have "card (?u \<union> ?b) \<le> card all_serials" by (rule card_mono) (use fin sub in auto)
  moreover have "card (all_serials - (?u \<union> ?b)) = card (all_serials - ?u - ?b)" by (rule arg_cong [of _ _ card]) blast
  moreover have "card (?u \<union> ?b) = card ?u + card (?b - ?u)"
    using card_Un_disjoint [of ?u "?b - ?u"] sub finite_subset [OF _ fin(1)] by (simp add: Un_Diff_cancel)
  ultimately have "card all_serials = card (all_serials - ?u - ?b) + card ?u + card (?b - ?u)" by arith
  then show ?thesis using n fin by (simp add: availableSlots_def pool_availableSlots_card)
qed

lemma linkStateForDevice_connected:
  "linkStateForDevice now dev s = Paired \<longleftrightarrow> \<not> isDeviceConnected dev s"
proof (cases "List.find (\<lambda>e. deviceId (snd e) = dev) (s_conns s)")
  case None
  then show ?thesis
    using find_None_set [OF None] by (auto simp: linkStateForDevice_def isDeviceConnected_def list_ex_iff)
next
  case (Some e)
  then show ?thesis
    using find_Some_set [OF Some] by (auto simp: linkStateForDevice_def isDeviceConnected_def list_ex_iff linkStateAt_def Let_def)
qed

lemma timed_out_stalled: "timed_out now r s \<Longrightarrow> linkStateAt now r s = NotResponding"
  by (auto simp: timed_out_def linkStateAt_def Let_def sec_def)

lemma heartbeat_cold:
  assumes inv: "svc_inv F s"
  shows "handleHeartbeat tok s =
    (let v = coldHeartbeatAckForTest tok s in
     if hv_found v
     then emit (SendHeartbeatAck (conn_endpoint (deref tok s)) (hv_backendAvailable v) (hv_totalActiveControllers v)
            (hv_epoch v) (hv_activeBitmap v)) s
     else s)"
proof (cases "map_of (s_conns s) tok")
  case None
  then have "tok \<notin> fst ` set (s_conns s)" by (simp add: map_of_eq_None_iff)
  then show ?thesis
    using None hot_find_none [OF inv] by (simp add: handleHeartbeat_def coldHeartbeatAckForTest_def Let_def)
next
  case (Some r)
  then have m: "(tok, r) \<in> set (s_conns s)" by (rule map_of_SomeD)
  then have "token r = tok" "r \<in> snd ` set (s_conns s)" using inv by (force simp: svc_inv_def rows_ok_def)+
  then show ?thesis
    using Some handleHeartbeat_row [OF inv, of r] row_deref(2) [OF inv, of r]
    by (simp add: coldHeartbeatAckForTest_def Let_def)
qed

lemma snapshot_streamed:
  assumes inv: "svc_inv F s" and c: "ctrl_ok i c" "active c" and g: "rp_gen (s_rxPads s ! serialNo c) = plugGen c"
  shows "snapshotController r c s =
    streamed_info (hs_keyEpoch (slots (s_hot s) ! slot r)) c (the (rp_read (s_rxPads s ! serialNo c))) (base_info c s)"
proof -
  have ser: "1 \<le> serialNo c" "serialNo c \<le> 16" using c by (simp_all add: ctrl_ok_def)
  have "serialNo c < length (s_rxPads s)" using inv ser by (simp add: svc_inv_def env_ok_def)
  then have rx: "rx_ok (s_rxPads s ! serialNo c)" using inv nth_mem by (simp add: svc_inv_def env_ok_def)
  obtain v where v: "rp_read (s_rxPads s ! serialNo c) = Some v" using readRxPad_ok(2) [OF rx, of 1] by auto
  have "rv_gen v = plugGen c" using v g by (auto simp: rp_read_def split: if_splits)
  then show ?thesis
    using ser v readRxPad_ok(1) [OF rx, of RX_READ_ATTEMPTS] by (simp add: snapshotController_def Let_def)
qed

text \<open>The pad cache right after a publication for the pad of an active controller.\<close>

lemma rx_pad_published:
  assumes inv: "svc_inv F s" and r: "r \<in> snd ` set (s_conns s)" and i: "i < MAX_CONTROLLERS_PER_CONN"
    and c: "c = controllers r ! i" "active c" and pad: "readPad (token r) i (s_hot s) = Some pad"
  shows "ctrl_ok i c" "pr_active pad" "pr_serial pad = serialNo c" "pr_gen pad = plugGen c"
    "serialNo c < length (s_rxPads s)" "rx_ok (rxPadFor pad (s_rxPads s ! serialNo c))"
    "rp_gen (rxPadFor pad (s_rxPads s ! serialNo c)) = plugGen c"
proof -
  have "row_ok r" using inv r by (auto simp: svc_inv_def rows_ok_def)
  then show ok: "ctrl_ok i c" using i c by (simp add: row_ok_def)
  show p: "pr_active pad" "pr_serial pad = serialNo c" "pr_gen pad = plugGen c"
    using pad readPad_row [OF inv r, of i] i c by (auto simp: Let_def padGenWord_def)
  have "serialNo c \<le> 16" using ok c by (simp add: ctrl_ok_def)
  then show l: "serialNo c < length (s_rxPads s)" using inv by (simp add: svc_inv_def env_ok_def)
  then have "rx_ok (s_rxPads s ! serialNo c)" using inv nth_mem by (simp add: svc_inv_def env_ok_def)
  then show "rx_ok (rxPadFor pad (s_rxPads s ! serialNo c))"
      "rp_gen (rxPadFor pad (s_rxPads s ! serialNo c)) = plugGen c"
    using rxPadFor_ok p(3) by (auto simp: rxPadFor_def Let_def rx_ok_def rp_beginWrite_def rp_endWrite_def)
qed

lemma motion_bits:
  "(own OR 1 :: u32) AND NOT 2 AND 1 \<noteq> 0" "(own OR 1 OR 2 :: u32) AND 1 \<noteq> 0" "(own OR 1 OR 2 :: u32) AND 2 \<noteq> 0"
  "((own OR 1 :: u32) AND NOT 2) AND 2 = 0"
proof -
  have nz: "w \<noteq> 0" if "bit w k" for w :: u32 and k using that by auto
  show "(own OR 1 :: u32) AND NOT 2 AND 1 \<noteq> 0" by (rule nz [of _ 0]) (simp add: bit_simps)
  show "(own OR 1 OR 2 :: u32) AND 1 \<noteq> 0" by (rule nz [of _ 0]) (simp add: bit_simps)
  show "(own OR 1 OR 2 :: u32) AND 2 \<noteq> 0" by (rule nz [of _ 1]) (simp add: bit_simps bit_numeral_rec)
  show "((own OR 1 :: u32) AND NOT 2) AND 2 = 0" by (rule bit_word_eqI) (auto simp: bit_simps)
qed

lemma publishRxMotion_flags:
  "rp_flags (publishRxMotion report ok rx) AND 1 \<noteq> 0" "(rp_flags (publishRxMotion report ok rx) AND 2 \<noteq> 0) = ok"
  "rp_motion (publishRxMotion report ok rx) = report"
proof -
  have fl: "rp_flags (publishRxMotion report ok rx) =
      (if ok then rp_ownFlags rx OR 1 OR 2 else (rp_ownFlags rx OR 1) AND NOT 2)"
    by (cases rx) (simp add: publishRxMotion_def Let_def rp_beginWrite_def rp_endWrite_def or.assoc)
  show "rp_flags (publishRxMotion report ok rx) AND 1 \<noteq> 0" "(rp_flags (publishRxMotion report ok rx) AND 2 \<noteq> 0) = ok"
    unfolding fl using motion_bits [of "rp_ownFlags rx"] by (cases ok; simp only: if_True if_False and.assoc; simp)+
  show "rp_motion (publishRxMotion report ok rx) = report"
    by (simp add: publishRxMotion_def Let_def rp_beginWrite_def rp_endWrite_def)
qed

definition shown :: "u32 \<Rightarrow> controller \<Rightarrow> rx_pad \<Rightarrow> ctrl_info \<Rightarrow> ctrl_info" where
  "shown ke c rx info =
     streamed_info ke c
       \<lparr>rv_gen = rp_gen rx, rv_flags = rp_flags rx, rv_touchpadMode = ucast (rp_touchpadMode rx),
        rv_touchpadKeyEpoch = rp_touchpadKeyEpoch rx, rv_motion = rp_motion rx,
        rv_battery = \<lparr>bat_level = ucast (rp_battery rx), bat_status = ucast (drop_bit 8 (rp_battery rx))\<rparr>,
        rv_touchpad = rp_touchpad rx\<rparr> info"

text \<open>After a publication \<open>f\<close> through the cache entry of an active controller, the snapshot shows the entry.\<close>

lemma publication_shown:
  assumes inv: "svc_inv F s" and r: "r \<in> snd ` set (s_conns s)" and i: "i < MAX_CONTROLLERS_PER_CONN"
    and c: "c = controllers r ! i" "active c" and pad: "readPad (token r) i (s_hot s) = Some pad"
    and f: "\<And>rx. rx_ok rx \<Longrightarrow> rx_ok (f rx) \<and> rp_gen (f rx) = rp_gen rx"
    and s': "svc_inv F s'" "s_rxPads s' = s_rxPads (on_rx_pad pad f s)"
  shows "\<exists>rx info. rx_ok rx \<and> snapshotController r c s' =
    shown (hs_keyEpoch (slots (s_hot s') ! slot r)) c (f rx) info"
proof -
  note p = rx_pad_published [OF inv r i c pad]
  let ?rx = "rxPadFor pad (s_rxPads s ! serialNo c)"
  have e: "s_rxPads s' ! serialNo c = f ?rx" using p(3,5) by (simp add: s'(2) on_rx_pad_def)
  have "rp_gen (s_rxPads s' ! serialNo c) = plugGen c" using f [OF p(6)] p(7) by (simp add: e)
  note sn = snapshot_streamed [OF s'(1) p(1) c(2) this, of r]
  have "rp_seq (f ?rx) AND 1 = 0"
    using f [OF p(6)] by (simp add: rx_ok_def even_iff_mod_2_eq_zero and_one_eq)
  then show ?thesis using p(6) unfolding sn e by (auto simp: shown_def rp_read_def)
qed

lemma motion_shown:
  assumes inv: "svc_inv F s" and r: "r \<in> snd ` set (s_conns s)" and i: "i < MAX_CONTROLLERS_PER_CONN"
    and c: "c = controllers r ! i" "active c" and q: "handleMotionData (token r) i report s = (ok, s')"
  shows "ci_motionActive (snapshotController r c s')" "ci_motion (snapshotController r c s') = report"
    "ci_motionSink (snapshotController r c s') = ok"
proof -
  obtain pad where pad: "readPad (token r) i (s_hot s) = Some pad" using readPad_row [OF inv r] by blast
  note p = rx_pad_published [OF inv r i c pad]
  obtain d b where b: "gp_submitMotion (s_port s) (pr_serial pad) report (s_backend s) = (d, b)" by fastforce
  have s': "s' = on_rx_pad pad (publishRxMotion report ok) (s\<lparr>s_backend := b\<rparr>)"
    using q pad p(2) b by (clarsimp simp: handleMotionData_def)
  have inv': "svc_inv F s'" using rx_only_inv [OF handleMotionData_rx_only inv, of "token r" i report] q by simp
  have f: "rx_ok (publishRxMotion report ok rx) \<and> rp_gen (publishRxMotion report ok rx) = rp_gen rx" if "rx_ok rx" for rx
    using publishRx_ok(1) [OF that] by (simp add: publishRxMotion_def Let_def rp_beginWrite_def rp_endWrite_def)
  have "s_rxPads s' = s_rxPads (on_rx_pad pad (publishRxMotion report ok) s)" by (simp add: s' on_rx_pad_def)
  then obtain rx info where sn: "snapshotController r c s' =
      shown (hs_keyEpoch (slots (s_hot s') ! slot r)) c (publishRxMotion report ok rx) info"
    using publication_shown [OF inv r i c pad f inv'] by blast
  show "ci_motionActive (snapshotController r c s')" "ci_motion (snapshotController r c s') = report"
      "ci_motionSink (snapshotController r c s') = ok"
    unfolding sn by (simp_all add: shown_def streamed_info_def Let_def publishRxMotion_flags)
qed

lemma battery_word:
  "ucast ((ucast (l :: u8) :: u32) OR push_bit 8 (ucast (st :: u8))) = l"
  "ucast (drop_bit 8 ((ucast (l :: u8) :: u32) OR push_bit 8 (ucast (st :: u8)))) = st"
  by (auto intro!: u8_eqI simp: bit_simps sat_simps)

lemma flag_set:
  "((own OR 4) AND 4 :: u32) \<noteq> 0" "((own OR 8) AND 8 :: u32) \<noteq> 0"
proof -
  have nz: "w \<noteq> 0" if "bit w k" for w :: u32 and k using that by auto
  show "((own OR 4) AND 4 :: u32) \<noteq> 0" by (rule nz [of _ 2]) (simp add: bit_simps bit_numeral_rec)
  show "((own OR 8) AND 8 :: u32) \<noteq> 0" by (rule nz [of _ 3]) (simp add: bit_simps bit_numeral_rec)
qed

lemma battery_shown:
  assumes inv: "svc_inv F s" and r: "r \<in> snd ` set (s_conns s)" and i: "i < MAX_CONTROLLERS_PER_CONN"
    and c: "c = controllers r ! i" "active c" and q: "handleBatteryUpdate (token r) i report s = (True, s')"
  shows "ci_batteryKnown (snapshotController r c s')" "ci_batteryLevel (snapshotController r c s') = bat_level report"
    "ci_batteryStatus (snapshotController r c s') = bat_status report"
proof -
  obtain pad where pad: "readPad (token r) i (s_hot s) = Some pad" using readPad_row [OF inv r] by blast
  note p = rx_pad_published [OF inv r i c pad]
  obtain d b where b: "gp_submitBattery (s_port s) (pr_serial pad) report (s_backend s) = (d, b)" by fastforce
  have s': "s' = on_rx_pad pad (publishRxBattery report) (s\<lparr>s_backend := b\<rparr>)"
    using q pad p(2) b by (clarsimp simp: handleBatteryUpdate_def split: if_splits)
  have inv': "svc_inv F s'" using rx_only_inv [OF handleBatteryUpdate_rx_only inv, of "token r" i report] q by simp
  have f: "rx_ok (publishRxBattery report rx) \<and> rp_gen (publishRxBattery report rx) = rp_gen rx" if "rx_ok rx" for rx
    using publishRx_ok(2) [OF that] by (simp add: publishRxBattery_def Let_def rp_beginWrite_def rp_endWrite_def)
  have "s_rxPads s' = s_rxPads (on_rx_pad pad (publishRxBattery report) s)" by (simp add: s' on_rx_pad_def)
  then obtain rx info where sn: "snapshotController r c s' =
      shown (hs_keyEpoch (slots (s_hot s') ! slot r)) c (publishRxBattery report rx) info"
    using publication_shown [OF inv r i c pad f inv'] by blast
  show "ci_batteryKnown (snapshotController r c s')" "ci_batteryLevel (snapshotController r c s') = bat_level report"
      "ci_batteryStatus (snapshotController r c s') = bat_status report"
    unfolding sn using flag_set(1) [of "rp_ownFlags rx"]
    by (simp_all add: shown_def streamed_info_def Let_def publishRxBattery_def rp_beginWrite_def rp_endWrite_def battery_word
        del: drop_bit_or)
qed

lemma touchpad_shown:
  assumes inv: "svc_inv F s" and r: "r \<in> snd ` set (s_conns s)" and i: "i < MAX_CONTROLLERS_PER_CONN"
    and c: "c = controllers r ! i" "active c" and q: "handleTouchpadData (token r) i report s = (ok, s')"
  shows "ci_touchpadActive (snapshotController r c s')" "ci_touchpad (snapshotController r c s') = report"
proof -
  obtain pad where pad: "readPad (token r) i (s_hot s) = Some pad" using readPad_row [OF inv r] by blast
  note p = rx_pad_published [OF inv r i c pad]
  have m: "hotPadMode (pr_info pad) = touchpadMode c" "pr_keyEpoch pad = hs_keyEpoch (slots (s_hot s) ! slot r)"
    using pad readPad_row [OF inv r, of i] i c by (auto simp: Let_def padInfoWord_def hotPadInfo_read)
  let ?f = "publishRxTouchpad report (touchpadMode c) (pr_keyEpoch pad)"
  have hot: "s_hot s' = s_hot s" and s': "s_rxPads s' = s_rxPads (on_rx_pad pad ?f s)"
    using q pad p(2) m(1)
    by (auto simp: handleTouchpadData_def Let_def pushFrame_def on_rx_pad_def split: if_splits prod.splits)
  have len: "length (tokens (s_hot s)) = MAX_SESSIONS" using inv by (simp add: svc_inv_def hot_ok_def)
  have inv': "svc_inv F s'" using rx_only_inv [OF handleTouchpadData_rx_only [OF len] inv, of "token r" i report] q by simp
  have f: "rx_ok (?f rx) \<and> rp_gen (?f rx) = rp_gen rx" if "rx_ok rx" for rx
    using publishRx_ok(3) [OF that] by (simp add: publishRxTouchpad_def Let_def rp_beginWrite_def rp_endWrite_def)
  obtain rx info where sn: "snapshotController r c s' = shown (hs_keyEpoch (slots (s_hot s') ! slot r)) c (?f rx) info"
    using publication_shown [OF inv r i c pad f inv' s'] by blast
  have md: "ucast (ucast (touchpadMode c) :: u32) = touchpadMode c" by (auto intro!: u8_eqI simp: bit_simps sat_simps)
  show "ci_touchpadActive (snapshotController r c s')" "ci_touchpad (snapshotController r c s') = report"
    unfolding sn using flag_set(2) [of "rp_ownFlags rx"] md m(2) hot
    by (simp_all add: shown_def streamed_info_def Let_def publishRxTouchpad_def rp_beginWrite_def rp_endWrite_def)
qed

end
