(* ===== verification/Session_Feedback.thy ===== *)
theory Session_Feedback
  imports Session_Topology
begin

text \<open>
  Feedback from the backend to the clients: rumble, light bar, trigger effects, player LEDs and the
  microphone lamp, the refresh tick and the replay of cached state to a client that can be reached
  again.  A backend event names a serial; \<^const>\<open>findBySerialLocked\<close> resolves it to the row and the
  place of the controller in it.
\<close>

section \<open>Events\<close>

definition on_serial :: "nat \<Rightarrow> (connection \<Rightarrow> controller \<Rightarrow> 'b svc \<Rightarrow> controller \<times> 'b svc) \<Rightarrow> 'b svc \<Rightarrow> 'b svc" where
  "on_serial serial f s =
     (case findBySerialLocked serial s of
        None \<Rightarrow> s
      | Some (r, i) \<Rightarrow> (case f r (controllers r ! i) s of (c, s1) \<Rightarrow> put_row (set_ctrl i c r) s1))"

definition rumble_ctrl :: "ticks \<Rightarrow> rumble_report \<Rightarrow> u16 \<Rightarrow> connection \<Rightarrow> controller \<Rightarrow> 'b svc \<Rightarrow> controller \<times> 'b svc" where
  "rumble_ctrl now report wireDurationMs r c s =
     (case forwardRumbleLocked now r
             (c\<lparr>hidRumble := (hidRumble c)\<lparr>strongMagnitude := strongMagnitude report,
                                          weakMagnitude := weakMagnitude report\<rparr>\<rparr>)
             wireDurationMs False s of (_, c1, s1) \<Rightarrow> (c1, s1))"

definition handleRumbleFromBackend :: "ticks \<Rightarrow> nat \<Rightarrow> rumble_report \<Rightarrow> u16 \<Rightarrow> 'b svc \<Rightarrow> 'b svc" where
  "handleRumbleFromBackend now serial report wireDurationMs s =
     (if serial = 0 \<or> serial > MAX_BACKEND_CONTROLLERS then s
      else on_serial serial (rumble_ctrl now report wireDurationMs) (s\<lparr>s_pool := setMotors serial (packMotors report) (s_pool s)\<rparr>))"

definition lightbar_ctrl :: "u8 \<Rightarrow> u8 \<Rightarrow> u8 \<Rightarrow> connection \<Rightarrow> controller \<Rightarrow> 'b svc \<Rightarrow> controller \<times> 'b svc" where
  "lightbar_ctrl rd g b r c s =
     (if lastLightbarValid c \<and> lightbarR c = rd \<and> lightbarG c = g \<and> lightbarB c = b then (c, s)
      else let c1 = c\<lparr>lightbarR := rd, lightbarG := g, lightbarB := b, lastLightbarValid := True\<rparr> in
        (c1, if lightbarCapable c1 then emit (SendLightbar (conn_endpoint r) (ctrl_index c1) rd g b) s else s))"

definition handleLightbarFromBackend :: "nat \<Rightarrow> u8 \<Rightarrow> u8 \<Rightarrow> u8 \<Rightarrow> 'b svc \<Rightarrow> 'b svc" where
  "handleLightbarFromBackend serial rd g b s = on_serial serial (lightbar_ctrl rd g b) s"

definition trigger_ctrl :: "trigger_effects_report \<Rightarrow> connection \<Rightarrow> controller \<Rightarrow> 'b svc \<Rightarrow> controller \<times> 'b svc" where
  "trigger_ctrl report r c s =
     (if lastTriggerEffectsValid c \<and> lastTriggerEffects c = report then (c, s)
      else let c1 = c\<lparr>lastTriggerEffects := report, lastTriggerEffectsValid := True\<rparr> in
        (c1, if triggerEffectsCapable c1
             then emit (SendTriggerEffects (conn_endpoint r) (ctrl_index c1) report) s else s))"

definition handleTriggerEffectsFromBackend :: "nat \<Rightarrow> trigger_effects_report \<Rightarrow> 'b svc \<Rightarrow> 'b svc" where
  "handleTriggerEffectsFromBackend serial report s = on_serial serial (trigger_ctrl report) s"

definition playerLeds_ctrl :: "u8 \<Rightarrow> connection \<Rightarrow> controller \<Rightarrow> 'b svc \<Rightarrow> controller \<times> 'b svc" where
  "playerLeds_ctrl ledMask r c s =
     (if lastPlayerLedsValid c \<and> playerLeds c = ledMask then (c, s)
      else let c1 = c\<lparr>playerLeds := ledMask, lastPlayerLedsValid := True\<rparr> in
        (c1, if playerLedsCapable c1
             then emit (SendPlayerLeds (conn_endpoint r) (ctrl_index c1) ledMask) s else s))"

definition handlePlayerLedsFromBackend :: "nat \<Rightarrow> u8 \<Rightarrow> 'b svc \<Rightarrow> 'b svc" where
  "handlePlayerLedsFromBackend serial ledMask s = on_serial serial (playerLeds_ctrl ledMask) s"

definition micLed_ctrl :: "u8 \<Rightarrow> connection \<Rightarrow> controller \<Rightarrow> 'b svc \<Rightarrow> controller \<times> 'b svc" where
  "micLed_ctrl st r c s =
     (if lastMicLedValid c \<and> micLedState c = st then (c, s)
      else let c1 = c\<lparr>micLedState := st, lastMicLedValid := True\<rparr> in
        (c1, if micCapable c1 then emit (SendMicLed (conn_endpoint r) (ctrl_index c1) st) s else s))"

definition handleMicLedFromBackend :: "nat \<Rightarrow> u8 \<Rightarrow> 'b svc \<Rightarrow> 'b svc" where
  "handleMicLedFromBackend serial st s =
     (if st \<ge> MIC_LED_STATE_COUNT then s else on_serial serial (micLed_ctrl st) s)"

section \<open>Replay and refresh\<close>

definition feedback_state :: "connection \<Rightarrow> controller \<Rightarrow> effect list" where
  "feedback_state r c =
     (if lastLightbarValid c \<and> lightbarCapable c
      then [SendLightbar (conn_endpoint r) (ctrl_index c) (lightbarR c) (lightbarG c) (lightbarB c)] else []) @
     (if lastTriggerEffectsValid c \<and> triggerEffectsCapable c
      then [SendTriggerEffects (conn_endpoint r) (ctrl_index c) (lastTriggerEffects c)] else []) @
     (if lastPlayerLedsValid c \<and> playerLedsCapable c
      then [SendPlayerLeds (conn_endpoint r) (ctrl_index c) (playerLeds c)] else [])"

definition resendControllerFeedbackStateLocked :: "connection \<Rightarrow> controller \<Rightarrow> 'b svc \<Rightarrow> 'b svc" where
  "resendControllerFeedbackStateLocked r c s = fold emit (feedback_state r c) s"

definition resendFeedbackStateLocked :: "connection \<Rightarrow> 'b svc \<Rightarrow> 'b svc" where
  "resendFeedbackStateLocked r s =
     fold (\<lambda>c t. if active c then resendControllerFeedbackStateLocked r c t else t) (controllers r) s"

definition refresh_ctrl :: "ticks \<Rightarrow> connection \<Rightarrow> controller \<Rightarrow> nat \<times> 'b svc \<Rightarrow> controller \<times> nat \<times> 'b svc" where
  "refresh_ctrl now r c = (\<lambda>(sent, s).
     if \<not> active c \<or> serialNo c = 0 then (c, sent, s)
     else if motors_held (hidRumble c)
     then if now - lastRumbleSentAt c \<ge> msec RUMBLE_REFRESH_MS
          then case forwardRumbleLocked now r c RUMBLE_WIRE_DURATION_MS True s of (ok, c1, s1) \<Rightarrow>
            (c1, (if ok then sent + 1 else sent), s1)
          else (c, sent, s)
     else if now \<ge> hapticRumbleExpiresAt c \<and> lastRumbleValid c \<and> motors_held (lastRumble c)
     then case forwardRumbleLocked now r (c\<lparr>hapticRumble := no_rumble\<rparr>) HAPTIC_RUMBLE_WIRE_DURATION_MS False s of
            (ok, c1, s1) \<Rightarrow> (c1, (if ok then sent + 1 else sent), s1)
     else (c, sent, s))"

definition refresh_row :: "ticks \<Rightarrow> u32 \<times> connection \<Rightarrow> nat \<times> 'b svc \<Rightarrow> (u32 \<times> connection) \<times> nat \<times> 'b svc" where
  "refresh_row now = (\<lambda>(tok, r) (sent, s).
     let s1 = (if hs_feedbackPending (slots (s_hot s) ! slot r)
               then resendFeedbackStateLocked r
                      (s\<lparr>s_hot := upd_slot (slot r) (\<lambda>h. h\<lparr>hs_feedbackPending := False\<rparr>) (s_hot s)\<rparr>)
               else s)
     in case mapS (refresh_ctrl now r) (controllers r) (sent, s1) of (cs, sent2, s2) \<Rightarrow>
          ((tok, r\<lparr>controllers := cs\<rparr>), sent2, s2))"

definition refreshRumble :: "ticks \<Rightarrow> 'b svc \<Rightarrow> nat \<times> 'b svc" where
  "refreshRumble now s =
     (case mapS (refresh_row now) (s_conns s) (0, s) of (es, sent, s1) \<Rightarrow> (sent, s1\<lparr>s_conns := es\<rparr>))"

definition refreshIdleInput :: "'b svc \<Rightarrow> 'b svc" where
  "refreshIdleInput s =
     (let s1 = s\<lparr>s_backend := gp_refreshIdleInput (s_port s) (s_backend s)\<rparr> in
      if s_retryPending s1 then post default_pointer_command s1 else s1)"

end
