(* ===== verification/Session_Motors.thy ===== *)
theory Session_Motors
  imports Session_Receive Session_Feedback
begin

text \<open>
  Feedback keeps the invariant, coalesces repeated state, reaches only clients with the capability,
  and the refresh tick neither lets a held motor lapse nor leaves a stale one running.
\<close>

section \<open>Events keep the invariant\<close>

lemma put_core_inv:
  assumes inv: "svc_inv F s" and r: "r \<in> snd ` set (s_conns s)" and c: "same_core r r'" and q: "quiet s s'"
  shows "svc_inv F (put_row r' s')" "map fst (s_conns (put_row r' s')) = map fst (s_conns s)"
    "deref (token r) (put_row r' s') = r'"
proof -
  note rd = row_deref [OF inv r]
  note o = inv_open [OF inv rd(1)]
  have qs: "s_conns s' = s_conns s" "s_pool s' = s_pool s" "s_activePads s' = s_activePads s" "s_hot s' = s_hot s"
    using q by (simp_all add: quiet_def same_rows_def)
  have env: "env_ok s'" using same_rows_env [OF quiet_same_rows [OF q]] inv by (simp add: svc_inv_def)
  have ss: "same_session r r'" "activeControllerCount r' = activeControllerCount r" using c by (simp_all add: same_core_def)
  have tk: "token r' = token r" using ss(1) by (simp add: same_session_def)
  let ?os = "others (token r) (s_conns s)"
  have b: "bal (held_rows ?os + held r' + F) s'"
    using inv o(7) rd(2) same_core_held [OF c] qs(2) by (simp add: svc_inv_def bal_def)
  have n: "s_activePads s' = count_rows ?os + activeControllerCount r'"
    using inv o(8) rd(2) ss(2) qs(3) by (simp add: svc_inv_def)
  have h: "hot_ok (insert r' (snd ` set ?os)) (s_hot s')"
    using inv o(9) rd(2) hot_ok_same_core [OF c] qs(4) by (simp add: svc_inv_def)
  have id: "token r' = token r" "deviceId r' = deviceId (deref (token r) s)"
      "connectionId r' = connectionId (deref (token r) s)" "slot r' = slot (deref (token r) s)"
      "row_ok r'" "length (sessionKey r') = CRYPTO_KEY_SIZE"
    using ss(1) rd(2) same_core_row_ok [OF c] o(4,6) by (simp_all add: same_session_def)
  note cl = inv_close [OF inv rd(1) qs(1) env id b n h]
  show "svc_inv F (put_row r' s')" "deref (token r) (put_row r' s') = r'" by (fact cl)+
  show "map fst (s_conns (put_row r' s')) = map fst (s_conns s)"
    using put_row_conns(4) [of "token r" r s' r'] rd(3) qs(1) tk by simp
qed

lemma findBySerialLocked_Some:
  assumes "findBySerialLocked serial s = Some (r, i)"
  shows "r \<in> snd ` set (s_conns s)" "i < length (controllers r)" "active (controllers r ! i)"
    "serialNo (controllers r ! i) = serial"
proof -
  have m: "(r, i) \<in> set (concat (map (\<lambda>e. map (\<lambda>i. (snd e, i)) [0..<length (controllers (snd e))]) (s_conns s)))"
    and a: "active (controllers r ! i) \<and> serialNo (controllers r ! i) = serial"
    using find_Some_set [OF assms [unfolded findBySerialLocked_def]] by auto
  from m show "r \<in> snd ` set (s_conns s)" "i < length (controllers r)" by auto
  from a show "active (controllers r ! i)" "serialNo (controllers r ! i) = serial" by auto
qed

lemma findBySerialLocked_None:
  assumes "findBySerialLocked serial s = None" "r \<in> snd ` set (s_conns s)"
  shows "\<not> holds r serial i"
proof
  assume h: "holds r serial i"
  obtain e where e: "e \<in> set (s_conns s)" "r = snd e" using assms(2) by auto
  have "(r, i) \<in> set (concat (map (\<lambda>e. map (\<lambda>i. (snd e, i)) [0..<length (controllers (snd e))]) (s_conns s)))"
    using e h by (force simp: holds_def)
  then show False using find_None_set [OF assms(1) [unfolded findBySerialLocked_def]] h by (force simp: holds_def)
qed

text \<open>A change of one controller that only the feedback caches, the log and the clients see.\<close>

definition feedback_step :: "(connection \<Rightarrow> controller \<Rightarrow> 'b svc \<Rightarrow> controller \<times> 'b svc) \<Rightarrow> bool" where
  "feedback_step f \<longleftrightarrow>
     (\<forall>r c s. pad_core (fst (f r c s)) = pad_core c \<and> quiet s (snd (f r c s)))"

lemma rumble_step:
  "feedback_step (rumble_ctrl now rep w :: connection \<Rightarrow> controller \<Rightarrow> 'b svc \<Rightarrow> controller \<times> 'b svc)"
  unfolding feedback_step_def
proof (intro allI)
  fix r and c :: controller and s :: "'b svc"
  let ?c = "c\<lparr>hidRumble := (hidRumble c)\<lparr>strongMagnitude := strongMagnitude rep, weakMagnitude := weakMagnitude rep\<rparr>\<rparr>"
  obtain ok c1 s1 where f: "forwardRumbleLocked now r ?c w False s = (ok, c1, s1)" by (metis prod_cases3)
  have "pad_core ?c = pad_core c" by (simp add: pad_core_def)
  then show "pad_core (fst (rumble_ctrl now rep w r c s)) = pad_core c \<and> quiet s (snd (rumble_ctrl now rep w r c s))"
    using forwardRumbleLocked_core [OF f] f by (simp add: rumble_ctrl_def)
qed

lemma feedback_steps:
  "feedback_step (lightbar_ctrl rd g b)" "feedback_step (trigger_ctrl te)"
  "feedback_step (playerLeds_ctrl m)" "feedback_step (micLed_ctrl st)"
  by (auto simp: feedback_step_def lightbar_ctrl_def trigger_ctrl_def playerLeds_ctrl_def micLed_ctrl_def
      Let_def pad_core_def quietI)

lemma on_serial_inv:
  assumes inv: "svc_inv F s" and f: "feedback_step f"
  shows "svc_inv F (on_serial serial f s)" "map fst (s_conns (on_serial serial f s)) = map fst (s_conns s)"
proof -
  have "svc_inv F (on_serial serial f s) \<and> map fst (s_conns (on_serial serial f s)) = map fst (s_conns s)"
  proof (cases "findBySerialLocked serial s")
    case None
    then show ?thesis using inv by (simp add: on_serial_def)
  next
    case (Some p)
    obtain r i where p: "p = (r, i)" by force
    note fb = findBySerialLocked_Some [OF Some [unfolded p]]
    obtain c1 s1 where c1: "f r (controllers r ! i) s = (c1, s1)" by force
    have "pad_core c1 = pad_core (controllers r ! i)" "quiet s s1" using f c1 unfolding feedback_step_def by (metis fst_conv snd_conv)+
    then show ?thesis
      using put_core_inv(1,2) [OF inv fb(1) same_core_set_ctrl [OF fb(2)]] Some p c1 by (simp add: on_serial_def)
  qed
  then show "svc_inv F (on_serial serial f s)" "map fst (s_conns (on_serial serial f s)) = map fst (s_conns s)" by blast+
qed

lemma setMotors_inv:
  assumes "svc_inv F s"
  shows "svc_inv F (s\<lparr>s_pool := setMotors serial m (s_pool s)\<rparr>)"
proof -
  have wf: "pool_wf (s_pool s)" using assms by (simp add: svc_inv_def bal_def)
  have "pool_wf (setMotors serial m (s_pool s))" "pool.inuse (setMotors serial m (s_pool s)) = pool.inuse (s_pool s)"
    using wf by (simp_all add: setMotors_law pool.inuse_def)
  then show ?thesis using assms by (simp add: svc_inv_def bal_def env_ok_def queues_ok_def commands_ok_def)
qed

lemma feedback_inv:
  assumes "svc_inv F s"
  shows "svc_inv F (handleRumbleFromBackend now serial rep w s)" "svc_inv F (handleLightbarFromBackend serial rd g b s)"
    "svc_inv F (handleTriggerEffectsFromBackend serial te s)" "svc_inv F (handlePlayerLedsFromBackend serial m s)"
    "svc_inv F (handleMicLedFromBackend serial st s)"
  unfolding handleRumbleFromBackend_def handleLightbarFromBackend_def handleTriggerEffectsFromBackend_def
    handlePlayerLedsFromBackend_def handleMicLedFromBackend_def
  by (auto intro!: on_serial_inv(1) setMotors_inv feedback_steps rumble_step assms)
section \<open>One holder per serial\<close>

lemma holder_unique:
  assumes inv: "svc_inv F s" and r: "r \<in> snd ` set (s_conns s)" "r' \<in> snd ` set (s_conns s)"
    and h: "holds r x i" "holds r' x j"
  shows "r' = r \<and> j = i"
proof -
  note rd = row_deref [OF inv r(1)]
  note o = inv_open [OF inv rd(1), unfolded rd(2)]
  let ?os = "others (token r) (s_conns s)"
  have b: "bal (held_rows ?os + held r + F) s" using inv o(7) by (simp add: svc_inv_def)
  note ap = serials_apart [OF b refl]
  have "r' \<notin> snd ` set ?os" using ap(1) h by blast
  then have "r' = r" using r(2) o(9) by blast
  moreover have "j = i" using ap(2) h calculation by blast
  ultimately show ?thesis by blast
qed

lemma findBySerialLocked_holder:
  assumes inv: "svc_inv F s" and r: "r \<in> snd ` set (s_conns s)" and h: "holds r x i"
  shows "findBySerialLocked x s = Some (r, i)"
proof (cases "findBySerialLocked x s")
  case None
  then show ?thesis using findBySerialLocked_None [OF None r] h by blast
next
  case (Some p)
  obtain r' j where p: "p = (r', j)" by force
  note fb = findBySerialLocked_Some [OF Some [unfolded p]]
  have "holds r' x j" using fb by (simp add: holds_def)
  then show ?thesis using holder_unique [OF inv r fb(1) h] Some p by blast
qed

section \<open>Repeated state is coalesced\<close>

lemma put_row_same:
  assumes "rows_ok (s_conns s)" "(token r, r) \<in> set (s_conns s)"
  shows "put_row r s = s"
proof -
  have "(if fst e = token r then (fst e, r) else e) = e" if "e \<in> set (s_conns s)" for e
  proof (cases "fst e = token r")
    case True
    have "inj_on fst (set (s_conns s))" using assms(1) by (simp add: rows_ok_def distinct_map)
    from inj_onD [OF this, of e "(token r, r)"] have "e = (token r, r)" using True that assms(2) by simp
    then show ?thesis by simp
  qed simp
  then have "map (\<lambda>e. if fst e = token r then (fst e, r) else e) (s_conns s) = s_conns s" by (rule map_idI)
  then show ?thesis by (simp add: put_row_def)
qed

lemma on_serial_idem:
  assumes inv: "svc_inv F s" and f: "feedback_step f"
    and idem: "\<And>r r' c t u. f r' (fst (f r c t)) u = (fst (f r c t), u)"
  shows "on_serial serial f (on_serial serial f s) = on_serial serial f s"
proof (cases "findBySerialLocked serial s")
  case None
  then show ?thesis by (simp add: on_serial_def)
next
  case (Some p)
  obtain r i where p: "p = (r, i)" by force
  note fb = findBySerialLocked_Some [OF Some [unfolded p]]
  obtain c1 s1 where c1: "f r (controllers r ! i) s = (c1, s1)" by force
  have core: "pad_core c1 = pad_core (controllers r ! i)" "quiet s s1"
    using f c1 unfolding feedback_step_def by (metis fst_conv snd_conv)+
  let ?r1 = "set_ctrl i c1 r" and ?s2 = "put_row (set_ctrl i c1 r) s1"
  note pc = put_core_inv [OF inv fb(1) same_core_set_ctrl [OF fb(2) core(1)] core(2)]
  have s2: "on_serial serial f s = ?s2" using Some p c1 by (simp add: on_serial_def)
  have tk: "token ?r1 = token r" by simp
  have "token r \<in> fst ` set (s_conns ?s2)"
    using pc(2) row_deref(1) [OF inv fb(1)] by (metis list.set_map)
  note o = inv_open [OF pc(1) this, unfolded pc(3)]
  have mem: "?r1 \<in> snd ` set (s_conns ?s2)" using o(1) by (rule rev_image_eqI) simp
  have hold: "holds ?r1 serial i" using fb core(1) by (simp add: holds_def pad_core_def set_ctrl_def)
  have again: "f ?r1 (controllers ?r1 ! i) ?s2 = (c1, ?s2)"
    using idem [of ?r1 r "controllers r ! i" s ?s2] c1 fb(2) by (simp add: set_ctrl_def)
  have "on_serial serial f ?s2 = put_row (set_ctrl i c1 ?r1) ?s2"
    using findBySerialLocked_holder [OF pc(1) mem hold] again by (simp add: on_serial_def)
  also have "set_ctrl i c1 ?r1 = ?r1" by (simp add: set_ctrl_def)
  also have "put_row ?r1 ?s2 = ?s2"
    by (rule put_row_same) (use pc(1) o(1) tk in \<open>simp_all add: svc_inv_def\<close>)
  finally show ?thesis using s2 by simp
qed

lemma feedback_idem:
  assumes "svc_inv F s"
  shows "handleLightbarFromBackend x rd g b (handleLightbarFromBackend x rd g b s) = handleLightbarFromBackend x rd g b s"
    "handleTriggerEffectsFromBackend x te (handleTriggerEffectsFromBackend x te s) = handleTriggerEffectsFromBackend x te s"
    "handlePlayerLedsFromBackend x m (handlePlayerLedsFromBackend x m s) = handlePlayerLedsFromBackend x m s"
    "handleMicLedFromBackend x st (handleMicLedFromBackend x st s) = handleMicLedFromBackend x st s"
  unfolding handleLightbarFromBackend_def handleTriggerEffectsFromBackend_def
    handlePlayerLedsFromBackend_def handleMicLedFromBackend_def
  by (auto intro!: on_serial_idem [OF assms] feedback_steps
      simp: lightbar_ctrl_def trigger_ctrl_def playerLeds_ctrl_def micLed_ctrl_def Let_def)

section \<open>Only capable clients are told\<close>

lemma on_serial_out:
  assumes inv: "svc_inv F s" and e: "e \<in> set (s_out (on_serial serial f s))" "e \<notin> set (s_out s)"
  shows "\<exists>r i. r \<in> snd ` set (s_conns s) \<and> holds r serial i \<and> e \<in> set (s_out (snd (f r (controllers r ! i) s)))"
proof (cases "findBySerialLocked serial s")
  case None
  then show ?thesis using e by (simp add: on_serial_def)
next
  case (Some p)
  obtain r i where p: "p = (r, i)" by force
  note fb = findBySerialLocked_Some [OF Some [unfolded p]]
  have "e \<in> set (s_out (snd (f r (controllers r ! i) s)))"
    using e Some p by (auto simp: on_serial_def split: prod.splits)
  then show ?thesis using fb by (auto simp: holds_def)
qed

lemma ctrl_index_of:
  assumes inv: "svc_inv F s" and r: "r \<in> snd ` set (s_conns s)" and h: "holds r x i"
  shows "ctrl_index (controllers r ! i) = i" "i < MAX_CONTROLLERS_PER_CONN"
proof -
  have ok: "row_ok r" using inv r by (auto simp: svc_inv_def rows_ok_def)
  then show "i < MAX_CONTROLLERS_PER_CONN" using h by (simp add: row_ok_def holds_def)
  then show "ctrl_index (controllers r ! i) = i" using ok h by (auto simp: row_ok_def holds_def ctrl_ok_def)
qed

lemma lightbar_told:
  assumes inv: "svc_inv F s"
    and e: "SendLightbar ep k rd' g' b' \<in> set (s_out (handleLightbarFromBackend x rd g b s))"
      "SendLightbar ep k rd' g' b' \<notin> set (s_out s)"
  shows "\<exists>r\<in>snd ` set (s_conns s). holds r x k \<and> lightbarCapable (controllers r ! k) \<and> ep = conn_endpoint r \<and>
    rd' = rd \<and> g' = g \<and> b' = b"
proof -
  obtain r i where r: "r \<in> snd ` set (s_conns s)" "holds r x i"
      "SendLightbar ep k rd' g' b' \<in> set (s_out (snd (lightbar_ctrl rd g b r (controllers r ! i) s)))"
    using on_serial_out [OF inv e(1) [unfolded handleLightbarFromBackend_def] e(2)] by blast
  have "lightbarCapable (controllers r ! i) \<and> ep = conn_endpoint r \<and> k = ctrl_index (controllers r ! i) \<and>
      rd' = rd \<and> g' = g \<and> b' = b"
    using r(3) e(2) by (auto simp: lightbar_ctrl_def Let_def emit_def lightbarCapable_def split: if_splits)
  then show ?thesis using r ctrl_index_of [OF inv r(1,2)] by auto
qed

lemma micLed_told:
  assumes inv: "svc_inv F s"
    and e: "SendMicLed ep k st' \<in> set (s_out (handleMicLedFromBackend x st s))" "SendMicLed ep k st' \<notin> set (s_out s)"
  shows "st < MIC_LED_STATE_COUNT \<and> (\<exists>r\<in>snd ` set (s_conns s). holds r x k \<and>
    micCapable (controllers r ! k) \<and> ep = conn_endpoint r \<and> st' = st)"
proof (cases "st \<ge> MIC_LED_STATE_COUNT")
  case True
  then show ?thesis using e by (simp add: handleMicLedFromBackend_def)
next
  case False
  have e1: "SendMicLed ep k st' \<in> set (s_out (on_serial x (micLed_ctrl st) s))"
    using e(1) False by (simp add: handleMicLedFromBackend_def)
  obtain r i where r: "r \<in> snd ` set (s_conns s)" "holds r x i"
      "SendMicLed ep k st' \<in> set (s_out (snd (micLed_ctrl st r (controllers r ! i) s)))"
    using on_serial_out [OF inv e1 e(2)] by blast
  have "micCapable (controllers r ! i) \<and> ep = conn_endpoint r \<and> k = ctrl_index (controllers r ! i) \<and> st' = st"
    using r(3) e(2) by (auto simp: micLed_ctrl_def Let_def emit_def micCapable_def split: if_splits)
  then show ?thesis using r ctrl_index_of [OF inv r(1,2)] False by (auto simp: not_le)
qed
section \<open>The refresh tick\<close>

lemma emit_fold_out: "s_out (fold emit es s) = s_out s @ es" "rx_only s (fold emit es s)"
proof -
  show "s_out (fold emit es s) = s_out s @ es" by (induction es arbitrary: s) (simp_all add: emit_def)
  show "rx_only s (fold emit es s)"
    by (induction es arbitrary: s) (auto intro: rx_only_trans [OF rx_onlyI(2)])
qed

lemma resendFeedbackStateLocked_out:
  "s_out (resendFeedbackStateLocked r s) = s_out s @ concat (map (feedback_state r) (filter active (controllers r)))"
  "rx_only s (resendFeedbackStateLocked r s)"
proof -
  let ?f = "\<lambda>c t. if active c then resendControllerFeedbackStateLocked r c t else t"
  have "s_out (fold ?f cs s) = s_out s @ concat (map (feedback_state r) (filter active cs)) \<and> rx_only s (fold ?f cs s)" for cs
  proof (induction cs arbitrary: s)
    case (Cons c cs)
    then show ?case
      using emit_fold_out(1) [of "feedback_state r c" s] emit_fold_out(2) [of s "feedback_state r c"] rx_only_trans
      by (auto simp: resendControllerFeedbackStateLocked_def)
  qed simp
  then show "s_out (resendFeedbackStateLocked r s) = s_out s @ concat (map (feedback_state r) (filter active (controllers r)))"
    "rx_only s (resendFeedbackStateLocked r s)" by (simp_all add: resendFeedbackStateLocked_def)
qed

text \<open>What the tick promises of one controller.\<close>

definition motor_fresh :: "ticks \<Rightarrow> controller \<Rightarrow> bool" where
  "motor_fresh now c \<longleftrightarrow>
     (active c \<longrightarrow>
       (if motors_held (hidRumble c) then now - lastRumbleSentAt c < msec RUMBLE_REFRESH_MS
        else now < hapticRumbleExpiresAt c \<or> \<not> lastRumbleValid c \<or> \<not> motors_held (lastRumble c)))"

lemma msec_pos: "0 < msec RUMBLE_REFRESH_MS"
  by (simp add: msec_def)

lemma forwardRumbleLocked_rx_only: "rx_only s (snd (snd (forwardRumbleLocked now r c w force s)))"
  by (simp add: forwardRumbleLocked_def Let_def rx_onlyI)

lemma mix_rumble_silent:
  "\<not> motors_held (hidRumble c) \<Longrightarrow> now \<ge> hapticRumbleExpiresAt c \<Longrightarrow> \<not> motors_held (mix_rumble now c)"
  by (simp add: mix_rumble_def motors_held_def Let_def)

lemma refresh_ctrl_spec:
  assumes ok: "ctrl_ok i c" and q: "refresh_ctrl now r c (sent, s) = (c', sent', s')"
  shows "pad_core c' = pad_core c \<and> rx_only s s' \<and> motor_fresh now c' \<and> sent \<le> sent'"
proof -
  have ser: "active c \<Longrightarrow> serialNo c \<noteq> 0" using ok by (auto simp: ctrl_ok_def)
  consider "\<not> active c" | "active c" "motors_held (hidRumble c)" "now - lastRumbleSentAt c \<ge> msec RUMBLE_REFRESH_MS"
    | "active c" "motors_held (hidRumble c)" "\<not> now - lastRumbleSentAt c \<ge> msec RUMBLE_REFRESH_MS"
    | "active c" "\<not> motors_held (hidRumble c)" "now \<ge> hapticRumbleExpiresAt c \<and> lastRumbleValid c \<and> motors_held (lastRumble c)"
    | "active c" "\<not> motors_held (hidRumble c)" "\<not> (now \<ge> hapticRumbleExpiresAt c \<and> lastRumbleValid c \<and> motors_held (lastRumble c))"
    by blast
  then show ?thesis
  proof cases
    case 1
    then show ?thesis using q by (simp add: refresh_ctrl_def motor_fresh_def)
  next
    case 2
    have "pad_core c' = pad_core c \<and> motor_fresh now c' \<and> sent \<le> sent'"
      using q 2 ser msec_pos
      by (auto simp: refresh_ctrl_def forwardRumbleLocked_def Let_def motor_fresh_def pad_core_def)
    moreover have "s' = snd (snd (forwardRumbleLocked now r c RUMBLE_WIRE_DURATION_MS True s))"
      using q 2 ser by (simp add: refresh_ctrl_def split: prod.splits)
    ultimately show ?thesis using forwardRumbleLocked_rx_only by simp
  next
    case 3
    then show ?thesis using q ser by (simp add: refresh_ctrl_def motor_fresh_def)
  next
    case 4
    let ?c = "c\<lparr>hapticRumble := no_rumble\<rparr>"
    obtain okf c1 s1 where f: "forwardRumbleLocked now r ?c HAPTIC_RUMBLE_WIRE_DURATION_MS False s = (okf, c1, s1)"
      by (metis prod_cases3)
    have res: "c' = c1" "s' = s1" "sent' = (if okf then sent + 1 else sent)"
      using q 4 ser f by (simp_all add: refresh_ctrl_def)
    have silent: "\<not> motors_held (mix_rumble now ?c)" by (rule mix_rumble_silent) (use 4 in simp_all)
    then have "\<not> same_motors (lastRumble ?c) (mix_rumble now ?c)"
      using 4(3) by (auto simp: motors_held_def same_motors_def)
    then have "lastRumble c1 = (mix_rumble now ?c)\<lparr>durationMs := HAPTIC_RUMBLE_WIRE_DURATION_MS\<rparr>" "pad_core c1 = pad_core c"
        "hidRumble c1 = hidRumble c"
      using f by (auto simp: forwardRumbleLocked_def Let_def pad_core_def)
    then show ?thesis
      using res silent forwardRumbleLocked_rx_only [of s now r ?c HAPTIC_RUMBLE_WIRE_DURATION_MS False] f 4(2)
      by (simp add: motor_fresh_def motors_held_def)
  next
    case 5
    then show ?thesis using q ser by (auto simp: refresh_ctrl_def motor_fresh_def)
  qed
qed

lemma refresh_ctrls_spec:
  assumes "\<forall>c\<in>set cs. \<exists>i. ctrl_ok i c" "mapS (refresh_ctrl now r) cs (sent, s) = (cs', sent', s')"
  shows "list_all2 (\<lambda>c c'. pad_core c' = pad_core c) cs cs' \<and> rx_only s s' \<and> (\<forall>c'\<in>set cs'. motor_fresh now c') \<and>
    sent \<le> sent'"
  using assms
proof (induction cs arbitrary: sent s cs')
  case Nil
  then show ?case by simp
next
  case (Cons c cs)
  obtain c1 n1 s1 where one: "refresh_ctrl now r c (sent, s) = (c1, n1, s1)" by (metis prod_cases3)
  obtain cs1 where rest: "mapS (refresh_ctrl now r) cs (n1, s1) = (cs1, sent', s')" and cs': "cs' = c1 # cs1"
    using Cons.prems(2) one by (auto split: prod.splits)
  obtain i where "ctrl_ok i c" using Cons.prems(1) by auto
  note h = refresh_ctrl_spec [OF this one]
  note t = Cons.IH [OF _ rest]
  show ?case unfolding cs' using h t Cons.prems(1) rx_only_trans [of s s1 s'] by auto
qed

lemma refresh_row_spec:
  assumes ok: "row_ok r" and q: "refresh_row now (tok, r) (sent, s) = (e', sent', s')"
  shows "fst e' = tok \<and> same_core r (snd e') \<and> rx_only s s' \<and> (\<forall>c\<in>set (controllers (snd e')). motor_fresh now c) \<and>
    sent \<le> sent'"
proof -
  let ?clr = "s\<lparr>s_hot := upd_slot (slot r) (\<lambda>h. h\<lparr>hs_feedbackPending := False\<rparr>) (s_hot s)\<rparr>"
  define s1 where "s1 = (if hs_feedbackPending (slots (s_hot s) ! slot r) then resendFeedbackStateLocked r ?clr else s)"
  have "rx_only s ?clr" by (rule rx_only_upd_slot) (simp add: same_published_def)
  then have r1: "rx_only s s1"
    unfolding s1_def using rx_only_trans [OF _ resendFeedbackStateLocked_out(2)] by (cases "hs_feedbackPending (slots (s_hot s) ! slot r)") simp_all
  obtain cs n2 s2 where m2: "mapS (refresh_ctrl now r) (controllers r) (sent, s1) = (cs, n2, s2)" by (metis prod_cases3)
  have "refresh_row now (tok, r) (sent, s) = (case mapS (refresh_ctrl now r) (controllers r) (sent, s1) of (cs, n2, s2) \<Rightarrow>
      ((tok, r\<lparr>controllers := cs\<rparr>), n2, s2))"
    by (simp only: refresh_row_def s1_def Let_def prod.case)
  then have e': "e' = (tok, r\<lparr>controllers := cs\<rparr>)" and m: "mapS (refresh_ctrl now r) (controllers r) (sent, s1) = (cs, sent', s')"
    using q m2 by simp_all
  have "\<forall>c\<in>set (controllers r). \<exists>i. ctrl_ok i c" using ok unfolding row_ok_def by (metis in_set_conv_nth)
  note sp = refresh_ctrls_spec [OF this m]
  show ?thesis unfolding e' using sp same_coreI [of r cs] rx_only_trans [OF r1] by auto
qed

lemma refresh_rows_spec:
  assumes "\<forall>e\<in>set es. row_ok (snd e)" "mapS (refresh_row now) es (sent, s) = (es', sent', s')"
  shows "list_all2 (\<lambda>e e'. fst e' = fst e \<and> same_core (snd e) (snd e')) es es' \<and> rx_only s s' \<and>
    (\<forall>e'\<in>set es'. \<forall>c\<in>set (controllers (snd e')). motor_fresh now c)"
  using assms
proof (induction es arbitrary: sent s es')
  case Nil
  then show ?case by simp
next
  case (Cons e es)
  obtain e1 n1 s1 where one: "refresh_row now e (sent, s) = (e1, n1, s1)" by (metis prod_cases3)
  obtain es1 where rest: "mapS (refresh_row now) es (n1, s1) = (es1, sent', s')" and es': "es' = e1 # es1"
    using Cons.prems(2) one by (auto split: prod.splits)
  have "row_ok (snd e)" using Cons.prems(1) by simp
  moreover have "refresh_row now (fst e, snd e) (sent, s) = (e1, n1, s1)" using one by simp
  ultimately have h: "fst e1 = fst e \<and> same_core (snd e) (snd e1) \<and> rx_only s s1 \<and>
      (\<forall>c\<in>set (controllers (snd e1)). motor_fresh now c) \<and> sent \<le> n1" by (rule refresh_row_spec)
  note t = Cons.IH [OF _ rest]
  show ?case unfolding es' using h t Cons.prems(1) rx_only_trans [of s s1 s'] by auto
qed

definition core_rows :: "(u32 \<times> connection) list \<Rightarrow> (u32 \<times> connection) list \<Rightarrow> bool" where
  "core_rows es es' \<longleftrightarrow> list_all2 (\<lambda>e e'. fst e' = fst e \<and> same_core (snd e) (snd e')) es es'"

lemma core_rows_map:
  assumes "core_rows es es'" "\<And>r r'. same_core r r' \<Longrightarrow> f r' = f r"
  shows "map (\<lambda>e. f (snd e)) es' = map (\<lambda>e. f (snd e)) es"
  using assms(1) unfolding core_rows_def by (induction rule: list_all2_induct) (simp_all add: assms(2))

lemma core_rows_fst: "core_rows es es' \<Longrightarrow> map fst es' = map fst es"
  unfolding core_rows_def by (induction rule: list_all2_induct) simp_all

lemma core_rows_hot:
  assumes "core_rows es es'" "hot_ok (X \<union> snd ` set es) t"
  shows "hot_ok (X \<union> snd ` set es') t"
  using assms unfolding core_rows_def
proof (induction arbitrary: X rule: list_all2_induct)
  case (Cons e es e' es')
  have "hot_ok (insert (snd e) X \<union> snd ` set es) t" using Cons.prems by simp
  then have "hot_ok (insert (snd e) (X \<union> snd ` set es')) t" using Cons.IH [of "insert (snd e) X"] by simp
  then have "hot_ok (insert (snd e') (X \<union> snd ` set es')) t"
    using hot_ok_same_core [of "snd e" "snd e'"] Cons.hyps(1) by blast
  then show ?case by simp
qed simp

lemma core_rows_ok:
  assumes l2: "core_rows es es'" and rows: "rows_ok es"
  shows "rows_ok es'"
proof -
  have fields: "map (\<lambda>e. deviceId (snd e)) es' = map (\<lambda>e. deviceId (snd e)) es"
      "map (\<lambda>e. connectionId (snd e)) es' = map (\<lambda>e. connectionId (snd e)) es"
      "map (\<lambda>e. slot (snd e)) es' = map (\<lambda>e. slot (snd e)) es"
    by (rule core_rows_map [OF l2]; simp add: same_core_def same_session_def)+
  have "fst e' = token (snd e') \<and> fst e' \<noteq> 0 \<and> row_ok (snd e') \<and> slot (snd e') < MAX_SESSIONS \<and>
      length (sessionKey (snd e')) = CRYPTO_KEY_SIZE" if m: "e' \<in> set es'" for e'
  proof -
    obtain e where e: "e \<in> set es" "fst e' = fst e" "same_core (snd e) (snd e')"
      using list_all2_memD [OF l2 [unfolded core_rows_def] m] by blast
    have "token (snd e') = token (snd e)" "slot (snd e') = slot (snd e)" "sessionKey (snd e') = sessionKey (snd e)"
      using e(3) by (simp_all add: same_core_def same_session_def)
    moreover have "fst e = token (snd e)" "fst e \<noteq> 0" "row_ok (snd e)" "slot (snd e) < MAX_SESSIONS"
        "length (sessionKey (snd e)) = CRYPTO_KEY_SIZE" using rows e(1) unfolding rows_ok_def by blast+
    ultimately show ?thesis using e(2) same_core_row_ok [OF e(3)] by simp
  qed
  moreover have "distinct (map fst es')" "distinct (map (\<lambda>e. deviceId (snd e)) es')"
      "distinct (map (\<lambda>e. connectionId (snd e)) es')" "distinct (map (\<lambda>e. slot (snd e)) es')"
    unfolding fields core_rows_fst [OF l2] using rows by (simp_all add: rows_ok_def)
  ultimately show ?thesis unfolding rows_ok_def by blast
qed

lemma core_rows_inv:
  assumes inv: "svc_inv F s" and rx: "rx_only s s1" and l2: "core_rows (s_conns s) es"
  shows "svc_inv F (s1\<lparr>s_conns := es\<rparr>)"
proof -
  have i1: "svc_inv F s1" by (rule rx_only_inv [OF rx inv])
  have c1: "s_conns s1 = s_conns s" using rx by (simp add: rx_only_def)
  have "hot_ok ({} \<union> snd ` set es) (s_hot s1)"
    by (rule core_rows_hot [OF l2]) (use i1 c1 in \<open>simp add: svc_inv_def\<close>)
  moreover have "rows_ok es" by (rule core_rows_ok [OF l2]) (use inv in \<open>simp add: svc_inv_def\<close>)
  moreover have "map (\<lambda>e. held (snd e)) es = map (\<lambda>e. held (snd e)) (s_conns s)"
    by (rule core_rows_map [OF l2]) (rule same_core_held)
  moreover have "map (\<lambda>e. activeControllerCount (snd e)) es = map (\<lambda>e. activeControllerCount (snd e)) (s_conns s)"
    by (rule core_rows_map [OF l2]) (simp add: same_core_def)
  ultimately show ?thesis
    using i1 c1 by (simp add: svc_inv_def bal_def env_ok_def queues_ok_def commands_ok_def held_rows_def count_rows_def comp_def)
qed

lemma refreshRumble_spec:
  assumes inv: "svc_inv F s" and q: "refreshRumble now s = (n, s')"
  shows "svc_inv F s'" "map fst (s_conns s') = map fst (s_conns s)"
    "\<forall>r\<in>snd ` set (s_conns s'). \<forall>c\<in>set (controllers r). motor_fresh now c"
proof -
  obtain es s1 where m: "mapS (refresh_row now) (s_conns s) (0, s) = (es, n, s1)" and s': "s' = s1\<lparr>s_conns := es\<rparr>"
    using q unfolding refreshRumble_def by (auto split: prod.splits)
  have "\<forall>e\<in>set (s_conns s). row_ok (snd e)" using inv by (simp add: svc_inv_def rows_ok_def)
  note sp = refresh_rows_spec [OF this m]
  show "svc_inv F s'" unfolding s' by (rule core_rows_inv [OF inv]) (use sp in \<open>simp_all add: core_rows_def\<close>)
  have "map fst es = map fst (s_conns s)" by (rule core_rows_fst) (use sp in \<open>simp add: core_rows_def\<close>)
  then show "map fst (s_conns s') = map fst (s_conns s)" by (simp add: s')
  show "\<forall>r\<in>snd ` set (s_conns s'). \<forall>c\<in>set (controllers r). motor_fresh now c" using sp by (simp add: s')
qed

lemma refreshIdleInput_inv: "svc_inv F s \<Longrightarrow> svc_inv F (refreshIdleInput s)"
  by (auto simp: refreshIdleInput_def Let_def post_def svc_inv_def bal_def env_ok_def queues_ok_def commands_ok_def
      command_ok_def default_pointer_command_def)

end
