(* ===== verification/Single_Float.thy ===== *)
theory Single_Float
  imports Sat_Prelude Complex_Main
begin

text \<open>
  The arithmetic of a C++ \<^verbatim>\<open>float\<close>: a value is a rational, and the result of each operation is rounded to
  the binary32 format, to nearest with ties to even.  The smallest exponent is -126, below which the
  spacing stays that of the subnormal numbers; overflow to infinity is not represented, and the values
  of the pointer arithmetic stay far below it.
\<close>

definition ties_even :: "rat \<Rightarrow> int" where
  "ties_even q =
     (let f = \<lfloor>q\<rfloor>; d = q - of_int f
      in if d < 1 / 2 then f else if 1 / 2 < d then f + 1 else if even f then f else f + 1)"

definition float_exp :: "rat \<Rightarrow> int" where
  "float_exp x = fold (\<lambda>e acc. if 2 powi e \<le> \<bar>x\<bar> then e else acc) [-126..127] (-126)"

definition float_ulp :: "rat \<Rightarrow> rat" where
  "float_ulp x = 2 powi (float_exp x - 23)"

definition float_round :: "rat \<Rightarrow> rat" where
  "float_round x = of_int (ties_even (x / float_ulp x)) * float_ulp x"

text \<open>\<^verbatim>\<open>static_cast<int>\<close> drops the fraction.\<close>

definition float_trunc :: "rat \<Rightarrow> int" where
  "float_trunc x = (if x < 0 then \<lceil>x\<rceil> else \<lfloor>x\<rfloor>)"

section \<open>Rounding to an integer\<close>

lemma ties_even_bounds: "\<lfloor>q\<rfloor> \<le> ties_even q" "ties_even q \<le> \<lfloor>q\<rfloor> + 1" "of_int (ties_even q) \<le> q + 1/2" "q - 1/2 \<le> of_int (ties_even q)"
  by (auto simp: ties_even_def Let_def) linarith+

lemma ties_even_int [simp]: "ties_even (of_int n) = n"
  by (simp add: ties_even_def)

lemma ties_even_mono: assumes "p \<le> q" shows "ties_even p \<le> ties_even q"
proof (cases "\<lfloor>p\<rfloor> = \<lfloor>q\<rfloor>")
  case True
  then show ?thesis using assms by (auto simp: ties_even_def Let_def)
next
  case False
  then have "\<lfloor>p\<rfloor> + 1 \<le> \<lfloor>q\<rfloor>" using floor_mono [OF assms] by linarith
  then show ?thesis using ties_even_bounds(2) [of p] ties_even_bounds(1) [of q] by linarith
qed

section \<open>The exponent\<close>

lemma fold_last: 
  "sorted es \<Longrightarrow> (\<forall>e\<in>set es. e0 \<le> e) \<Longrightarrow>
   let m = fold (\<lambda>e acc. if P e then e else acc) es e0
   in (m = e0 \<or> m \<in> set es \<and> P m) \<and> (\<forall>e\<in>set es. P e \<longrightarrow> e \<le> m) \<and> e0 \<le> (m :: int)"
proof (induction es arbitrary: e0)
  case (Cons a es)
  then show ?case
    using Cons.IH [of a] Cons.IH [of e0] by (fastforce simp: Let_def)
qed simp

lemma float_exp_facts:
  "let m = float_exp x
   in (m = -126 \<or> m \<in> {-126..127} \<and> 2 powi m \<le> \<bar>x\<bar>) \<and>
      (\<forall>e\<in>{-126..127}. 2 powi e \<le> \<bar>x\<bar> \<longrightarrow> e \<le> m) \<and> -126 \<le> m"
  unfolding float_exp_def set_upto [symmetric] by (rule fold_last) (simp_all only: sorted_upto set_upto, simp)

lemma float_exp_range: "-126 \<le> float_exp x" "float_exp x \<le> 127"
  using float_exp_facts [of x] unfolding Let_def by auto

lemma float_exp_le: "float_exp x = -126 \<or> 2 powi float_exp x \<le> \<bar>x\<bar>"
  using float_exp_facts [of x] unfolding Let_def by blast

lemma float_exp_max: "-126 \<le> e \<Longrightarrow> e \<le> 127 \<Longrightarrow> 2 powi e \<le> \<bar>x\<bar> \<Longrightarrow> e \<le> float_exp x"
  using float_exp_facts [of x] unfolding Let_def by auto

lemma float_exp_mono: "\<bar>x\<bar> \<le> \<bar>y\<bar> \<Longrightarrow> float_exp x \<le> float_exp y"
  using float_exp_le [of x] float_exp_range [of x] float_exp_range(1) [of y]
    float_exp_max [of "float_exp x" y] by force

lemma float_exp_above: "\<bar>x\<bar> < 2 powi (e + 1) \<Longrightarrow> -126 \<le> e \<Longrightarrow> float_exp x \<le> e"
proof (rule ccontr)
  assume x: "\<bar>x\<bar> < 2 powi (e + 1)" and e: "-126 \<le> e" and no: "\<not> float_exp x \<le> e"
  then have "(2 :: rat) powi (e + 1) \<le> 2 powi float_exp x" by (intro power_int_increasing) auto
  then show False using x e no float_exp_le [of x] by linarith
qed

section \<open>Rounding\<close>

lemma float_ulp_pos [simp]: "0 < float_ulp x"
  by (simp add: float_ulp_def)

lemma float_round_exact:
  assumes "x = of_int k * float_ulp x"
  shows "float_round x = x"
proof -
  have "x / float_ulp x = of_int k" using assms float_ulp_pos [of x]
    by (metis less_irrefl nonzero_mult_div_cancel_right)
  then show ?thesis using assms by (simp add: float_round_def)
qed

text \<open>A multiple of a spacing at least as coarse as its own is a float.\<close>

lemma float_round_multiple:
  assumes "x = of_int k * 2 powi (e - 23)" "float_exp x \<le> e"
  shows "float_round x = x"
proof (rule float_round_exact)
  have "(2 :: rat) powi (e - 23) = 2 powi (e - float_exp x) * float_ulp x"
    by (simp add: float_ulp_def flip: power_int_add)
  also have "(2 :: rat) powi (e - float_exp x) = of_int (2 ^ nat (e - float_exp x))"
    using assms(2) by (simp add: power_int_def)
  finally show "x = of_int (k * 2 ^ nat (e - float_exp x)) * float_ulp x"
    using assms(1) by simp
qed

lemma float_round_nonneg: "0 \<le> x \<Longrightarrow> 0 \<le> float_round x"
  using ties_even_mono [of 0 "x / float_ulp x"] float_ulp_pos [of x] ties_even_int [of 0]
  by (simp add: float_round_def less_imp_le del: ties_even_int)

lemma float_round_int:
  assumes "\<bar>n\<bar> \<le> 2 ^ 24"
  shows "float_round (of_int n) = of_int n"
proof (cases "\<bar>n\<bar> = 2 ^ 24")
  case True
  have "float_exp (of_int n) \<le> 24" using True by (intro float_exp_above) (auto simp: power_int_def)
  moreover have "(of_int n :: rat) = of_int (n div 2) * 2 powi (24 - 23)"
  proof -
    have "n = 16777216 \<or> n = -16777216" using True by auto
    then show ?thesis by auto
  qed
  ultimately show ?thesis by (rule float_round_multiple [rotated])
next
  case False
  then have "\<bar>n\<bar> < 2 ^ 24" using assms by linarith
  then have "(of_int \<bar>n\<bar> :: rat) < 2 ^ 24" by (metis of_int_less_iff of_int_numeral of_int_power)
  then have "float_exp (of_int n) \<le> 23" by (intro float_exp_above) (auto simp: power_int_def)
  then show ?thesis using float_round_multiple [of "of_int n" n 23] by simp
qed

lemma ties_even_minus: "ties_even (- q) = - ties_even q"
proof (cases "q = of_int \<lfloor>q\<rfloor>")
  case True
  then have "- q = of_int (- \<lfloor>q\<rfloor>)" by simp
  then have "ties_even (- q) = - \<lfloor>q\<rfloor>" by (metis ties_even_int)
  then show ?thesis using True by (metis ties_even_int)
next
  case False
  then have "\<lfloor>- q\<rfloor> = - \<lfloor>q\<rfloor> - 1" by linarith
  then show ?thesis by (auto simp: ties_even_def Let_def)
qed

lemma float_exp_minus [simp]: "float_exp (- x) = float_exp x"
  by (simp add: float_exp_def)

lemma float_round_minus: "float_round (- x) = - float_round x"
  by (simp add: float_round_def float_ulp_def ties_even_minus)

lemma power_split: "e \<le> e' \<Longrightarrow> (2 :: rat) powi e' = of_int (2 ^ nat (e' - e)) * 2 powi e"
proof -
  assume "e \<le> e'"
  then have "(of_int (2 ^ nat (e' - e)) :: rat) = 2 powi (e' - e)" by (simp add: power_int_def)
  then show ?thesis by (simp flip: power_int_add)
qed

lemma float_round_le_power:
  assumes "x \<le> 2 powi e" "float_exp x \<le> e + 23"
  shows "float_round x \<le> 2 powi e"
proof -
  have b: "(2 :: rat) powi e = of_int (2 ^ nat (e - (float_exp x - 23))) * float_ulp x"
    unfolding float_ulp_def by (rule power_split) (use assms in linarith)
  have "x / float_ulp x \<le> of_int (2 ^ nat (e - (float_exp x - 23)))"
    using assms(1) b float_ulp_pos [of x] by (simp add: pos_divide_le_eq)
  from ties_even_mono [OF this] show ?thesis
    unfolding float_round_def b using float_ulp_pos [of x]
    by (simp only: ties_even_int of_int_le_iff mult_le_cancel_right_pos)
qed

lemma float_round_ge_power:
  assumes "2 powi e \<le> x" "float_exp x \<le> e + 23"
  shows "2 powi e \<le> float_round x"
proof -
  have b: "(2 :: rat) powi e = of_int (2 ^ nat (e - (float_exp x - 23))) * float_ulp x"
    unfolding float_ulp_def by (rule power_split) (use assms in linarith)
  have "of_int (2 ^ nat (e - (float_exp x - 23))) \<le> x / float_ulp x"
    using assms(1) b float_ulp_pos [of x] by (simp add: pos_le_divide_eq)
  from ties_even_mono [OF this] show ?thesis
    unfolding float_round_def b using float_ulp_pos [of x]
    by (simp only: ties_even_int of_int_le_iff mult_le_cancel_right_pos)
qed

lemma float_round_mono_nonneg:
  assumes "0 \<le> x" "x \<le> y"
  shows "float_round x \<le> float_round y"
proof (cases "float_exp x = float_exp y")
  case True
  have "x / float_ulp x \<le> y / float_ulp x" using assms(2) by (simp add: divide_right_mono less_imp_le)
  from ties_even_mono [OF this] show ?thesis
    using True float_ulp_pos [of y] by (simp add: float_round_def float_ulp_def)
next
  case False
  then have less: "float_exp x < float_exp y" using float_exp_mono [of x y] assms by auto
  have y: "2 powi float_exp y \<le> y"
    using float_exp_le [of y] less float_exp_range(1) [of x] assms by auto
  have "x < 2 powi float_exp y"
    using float_exp_max [of "float_exp y" x] float_exp_range [of y] less assms(1) by force
  then have "float_round x \<le> 2 powi float_exp y" using less by (intro float_round_le_power) auto
  also have "\<dots> \<le> float_round y" using y by (intro float_round_ge_power) auto
  finally show ?thesis .
qed

lemma float_round_mono: "x \<le> y \<Longrightarrow> float_round x \<le> float_round y"
proof -
  assume xy: "x \<le> y"
  consider "0 \<le> x" | "x < 0" "0 \<le> y" | "x < 0" "y < 0" by linarith
  then show ?thesis
  proof cases
    case 1
    then show ?thesis using xy by (rule float_round_mono_nonneg)
  next
    case 2
    then show ?thesis using float_round_nonneg [of y] float_round_nonneg [of "- x"]
      by (simp add: float_round_minus)
  next
    case 3
    then show ?thesis using float_round_mono_nonneg [of "- y" "- x"] xy by (simp add: float_round_minus)
  qed
qed

lemma float_round_bound:
  assumes "\<bar>x\<bar> \<le> of_int n" "n \<le> 2 ^ 24"
  shows "\<bar>float_round x\<bar> \<le> of_int n"
proof -
  have n: "0 \<le> n" using assms(1) by (metis abs_ge_zero of_int_0_le_iff order_trans)
  have "float_round x \<le> of_int n"
    using float_round_mono [of x "of_int n"] float_round_int [of n] assms n by auto
  moreover have "- of_int n \<le> float_round x"
    using float_round_mono [of "of_int (- n)" x] float_round_int [of "- n"] assms n by auto
  ultimately show ?thesis by linarith
qed

section \<open>The fraction of a float is a float\<close>

lemma float_trunc_fraction: "\<bar>x - of_int (float_trunc x)\<bar> < 1"
  unfolding float_trunc_def by (simp; linarith)

lemma float_trunc_bound: "\<bar>x\<bar> \<le> of_int n \<Longrightarrow> \<bar>float_trunc x\<bar> \<le> n"
  unfolding float_trunc_def by (auto simp: abs_le_iff le_floor_iff ceiling_le_iff; linarith)

lemma float_round_small:
  assumes e: "float_exp x < 127"
  shows "\<bar>float_round x\<bar> \<le> 2 powi (float_exp x + 1)"
proof -
  have "\<bar>x\<bar> < 2 powi (float_exp x + 1)"
    using float_exp_max [of "float_exp x + 1" x] float_exp_range [of x] e by force
  then have "float_round x \<le> 2 powi (float_exp x + 1)" "float_round (- x) \<le> 2 powi (float_exp x + 1)"
    by (intro float_round_le_power; simp)+
  then show ?thesis by (simp add: float_round_minus)
qed

lemma float_exp_round: 
  assumes "float_exp x < -1"
  shows "float_round (float_round x) = float_round x"
proof (cases "\<bar>float_round x\<bar> = 2 powi (float_exp x + 1)")
  case True
  have "\<bar>float_round x\<bar> < 2 powi (float_exp x + 1 + 1)" unfolding True by (intro power_int_strict_increasing) auto
  then have "float_exp (float_round x) \<le> float_exp x + 1"
    using float_exp_range(1) [of x] by (intro float_exp_above) auto
  moreover have "float_round x = of_int (if float_round x < 0 then - (2 ^ 23) else 2 ^ 23) * 2 powi (float_exp x + 1 - 23)"
    using True power_split [of "float_exp x + 1 - 23" "float_exp x + 1"] by (auto simp: abs_if split: if_splits)
  ultimately show ?thesis by (rule float_round_multiple [rotated])
next
  case False
  then have "\<bar>float_round x\<bar> < 2 powi (float_exp x + 1)" using float_round_small [of x] assms by linarith
  then have "float_exp (float_round x) \<le> float_exp x" using float_exp_range(1) [of x] by (intro float_exp_above) auto
  then show ?thesis unfolding float_round_def [of x] float_ulp_def [of x]
    by (rule float_round_multiple [OF refl])
qed

lemma float_fraction:
  assumes v_def: "v = float_round x"
  shows "float_round (v - of_int (float_trunc v)) = v - of_int (float_trunc v)"
proof -
  let ?e = "float_exp x"
  let ?r = "v - of_int (float_trunc v)"
  define k where "k = ties_even (x / float_ulp x)"
  have v: "v = of_int k * 2 powi (?e - 23)" by (simp add: v_def k_def float_round_def float_ulp_def)
  consider "23 \<le> ?e" | "-1 \<le> ?e" "?e < 23" | "?e < -1" by linarith
  then show ?thesis
  proof cases
    case 1
    then have whole: "v = of_int (k * 2 ^ nat (?e - 23))" by (simp add: v power_int_def)
    then have "float_trunc v = k * 2 ^ nat (?e - 23)" by (simp only: float_trunc_def floor_of_int ceiling_of_int if_cancel)
    then have "?r = of_int 0" using whole by simp
    then show ?thesis using float_round_int [of 0] by simp
  next
    case 2
    have "(1 :: rat) = of_int (2 ^ nat (23 - ?e)) * 2 powi (?e - 23)"
      using 2 power_split [of "?e - 23" 0] by simp
    then have "?r = of_int (k - float_trunc v * 2 ^ nat (23 - ?e)) * 2 powi (?e - 23)"
      using v by (simp add: algebra_simps)
    moreover have "float_exp ?r \<le> -1" using float_trunc_fraction [of v] by (intro float_exp_above) auto
    then have "float_exp ?r \<le> ?e" using 2 by linarith
    ultimately show ?thesis by (rule float_round_multiple)
  next
    case 3
    have "(2 :: rat) powi (?e + 1) \<le> 2 powi (-1)" using 3 by (intro power_int_increasing) auto
    then have "\<bar>v\<bar> \<le> 1 / 2" using float_round_small [of x] 3 by (simp add: v_def power_int_minus)
    then have "float_trunc v = 0" unfolding float_trunc_def by (auto simp: floor_eq_iff ceiling_eq_iff; linarith)
    then show ?thesis using float_exp_round [OF 3] by (simp add: v_def)
  qed
qed

end
