(* ===== verification/Pointer_Worker.thy ===== *)
theory Pointer_Worker
  imports Session_Motors Single_Float
begin

text \<open>
  The pointer worker (\<^verbatim>\<open>core/pointer_worker.cpp\<close>): the thread that turns the touchpad frames of pads in
  mouse mode into relative pointer input.  Its tables are the record \<open>pointer_worker\<close>; the ring of
  frames, the queue of commands and \<^verbatim>\<open>retryPending_\<close>, which the service reads, are fields of the service
  state.  The theory also holds \<^verbatim>\<open>core/pointer_frame.h\<close>, the plan of one injected pointer frame.
\<close>

section \<open>Pointer motion\<close>

abbreviation (input) TOUCHPAD_MOUSE_REFERENCE_MS :: int where
  "TOUCHPAD_MOUSE_REFERENCE_MS \<equiv> 4"

abbreviation (input) TOUCHPAD_MOUSE_MIN_DT_MS :: int where
  "TOUCHPAD_MOUSE_MIN_DT_MS \<equiv> 1"

abbreviation (input) TOUCHPAD_MOUSE_MAX_GAP_MS :: int where
  "TOUCHPAD_MOUSE_MAX_GAP_MS \<equiv> 100"

abbreviation (input) POINTER_REFUSAL_LOG_INTERVAL_SEC :: int where
  "POINTER_REFUSAL_LOG_INTERVAL_SEC \<equiv> 10"

definition TOUCHPAD_MOUSE_SENSITIVITY :: rat where
  "TOUCHPAD_MOUSE_SENSITIVITY = float_round (42 / 1000)"

record pointer_motion =
  pm_dx :: int
  pm_dy :: int
  pm_wheel :: int
  pm_buttons :: mouse_buttons
  pm_buttonsChanged :: bool

text \<open>One axis: the scaled distance plus the carried remainder, split into whole pixels and the rest.\<close>

definition axis_sum :: "int \<Rightarrow> int \<Rightarrow> rat \<Rightarrow> rat" where
  "axis_sum delta dt carried =
     (let scale = float_round (float_round (of_int TOUCHPAD_MOUSE_REFERENCE_MS) / float_round (of_int dt));
          moved = float_round (float_round (float_round (of_int delta) * TOUCHPAD_MOUSE_SENSITIVITY) * scale)
      in float_round (moved + carried))"

definition axis_split :: "rat \<Rightarrow> int \<times> rat" where
  "axis_split f = (let d = float_trunc f in (d, float_round (f - float_round (of_int d))))"

definition report_buttons :: "touchpad_report \<Rightarrow> mouse_buttons" where
  "report_buttons report =
     \<lparr>mb_left = buttonPressed report, mb_right = rightPressed report, mb_middle = middlePressed report\<rparr>"

definition touchpadPointerMotion ::
  "touchpad_report \<Rightarrow> bool \<Rightarrow> touchpad_report \<Rightarrow> rat \<Rightarrow> rat \<Rightarrow> pointer_motion \<times> rat \<times> rat" where
  "touchpadPointerMotion prev prevValid report remX remY =
     (let continuous = (prevValid \<and> tf_active (finger0 prev) \<and> tf_active (finger0 report) \<and>
            tf_trackingId (finger0 prev) = tf_trackingId (finger0 report));
          dt_ms = sint (eventTimeMs report - eventTimeMs prev);
          ((dx, remX1), (dy, remY1)) =
            (if continuous
             then if dt_ms > TOUCHPAD_MOUSE_MAX_GAP_MS then ((0, 0), (0, 0))
                  else if dt_ms > 0
                  then let dt_clamped = (if dt_ms < TOUCHPAD_MOUSE_MIN_DT_MS then TOUCHPAD_MOUSE_MIN_DT_MS else dt_ms)
                       in (axis_split (axis_sum (sint (tf_x (finger0 report)) - sint (tf_x (finger0 prev))) dt_clamped remX),
                           axis_split (axis_sum (sint (tf_y (finger0 report)) - sint (tf_y (finger0 prev))) dt_clamped remY))
                  else ((0, remX), (0, remY))
             else ((0, 0), (0, 0)));
          wheel = (if prevValid \<and> dt_ms \<le> 0 then 0 else sint (scrollV report));
          changed = (if prevValid
             then buttonPressed prev \<noteq> buttonPressed report \<or> rightPressed prev \<noteq> rightPressed report \<or>
                  middlePressed prev \<noteq> middlePressed report
             else buttonPressed report \<or> rightPressed report \<or> middlePressed report)
      in (\<lparr>pm_dx = dx, pm_dy = dy, pm_wheel = wheel, pm_buttons = report_buttons report,
           pm_buttonsChanged = changed\<rparr>, remX1, remY1))"

section \<open>The worker's tables\<close>

record touch_pad =
  tp_buttons :: mouse_buttons
  tp_releaseStamp :: u32
  tp_stamp :: u32
  tp_prev :: touchpad_report
  tp_prevValid :: bool
  tp_remX :: rat
  tp_remY :: rat

definition no_finger :: touchpad_finger where
  "no_finger = \<lparr>tf_active = False, tf_trackingId = 0, tf_x = 0, tf_y = 0\<rparr>"

definition no_touch :: touchpad_report where
  "no_touch = \<lparr>finger0 = no_finger, finger1 = no_finger, buttonPressed = False, rightPressed = False,
     middlePressed = False, eventTimeMs = 0, scrollV = 0\<rparr>"

definition default_touch_pad :: touch_pad where
  "default_touch_pad = \<lparr>tp_buttons = no_buttons, tp_releaseStamp = 0, tp_stamp = 0, tp_prev = no_touch,
     tp_prevValid = False, tp_remX = 0, tp_remY = 0\<rparr>"

record pointer_session =
  ps_row :: u32
  ps_refusedRun :: u32
  ps_refusalLogged :: bool
  ps_refusalLoggedAt :: ticks

definition default_pointer_session :: pointer_session where
  "default_pointer_session =
     \<lparr>ps_row = 0, ps_refusedRun = 0, ps_refusalLogged = False, ps_refusalLoggedAt = 0\<rparr>"

record pointer_worker =
  pw_pads :: "touch_pad list"
  pw_sessions :: "pointer_session list"
  pw_injected :: u64
  pw_refused :: u64
  pw_framesDone :: u64
  pw_commandsDone :: u64
  pw_lastFrameOk :: bool

definition default_pointer_worker :: pointer_worker where
  "default_pointer_worker =
     \<lparr>pw_pads = replicate (MAX_BACKEND_CONTROLLERS + 1) default_touch_pad,
      pw_sessions = replicate MAX_SESSIONS default_pointer_session, pw_injected = 0, pw_refused = 0,
      pw_framesDone = 0, pw_commandsDone = 0, pw_lastFrameOk = False\<rparr>"

section \<open>Submitting\<close>

definition held_levels :: "touch_pad list \<Rightarrow> mouse_buttons" where
  "held_levels pads =
     fold (\<lambda>pad held. \<lparr>mb_left = (mb_left held \<or> mb_left (tp_buttons pad)),
             mb_right = (mb_right held \<or> mb_right (tp_buttons pad)),
             mb_middle = (mb_middle held \<or> mb_middle (tp_buttons pad))\<rparr>) pads no_buttons"

definition pointer_submit :: "int \<Rightarrow> int \<Rightarrow> int \<Rightarrow> pointer_worker \<Rightarrow> 'b svc \<Rightarrow> bool \<times> 'b svc" where
  "pointer_submit dx dy wheel w s =
     (case gp_submitRelativeMouse (s_port s) dx dy (held_levels (pw_pads w)) wheel (s_backend s) of
        (ok, b) \<Rightarrow> (ok, s\<lparr>s_backend := b\<rparr>))"

section \<open>What is logged\<close>

text \<open>The entry of a session slot, restarted when the slot holds another row.\<close>

definition pointer_session_at :: "nat \<Rightarrow> u32 \<Rightarrow> pointer_worker \<Rightarrow> pointer_session" where
  "pointer_session_at slt rw w =
     (let p = pw_sessions w ! slt in
      if ps_row p \<noteq> rw then default_pointer_session\<lparr>ps_row := rw\<rparr> else p)"

definition put_session :: "nat \<Rightarrow> pointer_session \<Rightarrow> pointer_worker \<Rightarrow> pointer_worker" where
  "put_session slt p w = w\<lparr>pw_sessions := (pw_sessions w)[slt := p]\<rparr>"

abbreviation (input) NAME_READ_ATTEMPTS :: nat where
  "NAME_READ_ATTEMPTS \<equiv> 64"

fun pointer_deviceName :: "nat \<Rightarrow> nat \<Rightarrow> u32 \<Rightarrow> hot_table \<Rightarrow> string option" where
  "pointer_deviceName 0 slt rw t = None"
| "pointer_deviceName (Suc attempts) slt rw t =
     (case hs_read (slots t ! slt) (\<lambda>h. (hs_row h, hs_loadName h)) of
        Some (seenRow, out) \<Rightarrow> if seenRow = rw then Some (bytes_string out) else None
      | None \<Rightarrow> pointer_deviceName attempts slt rw t)"

definition pointer_record :: "ticks \<Rightarrow> nat \<Rightarrow> u32 \<Rightarrow> bool \<Rightarrow> pointer_worker \<times> 'b svc \<Rightarrow> pointer_worker \<times> 'b svc" where
  "pointer_record now slt rw ok = (\<lambda>(w, s).
     let p = pointer_session_at slt rw w;
         nm = pointer_deviceName NAME_READ_ATTEMPTS slt rw (s_hot s)
     in if ok
        then let w1 = put_session slt (p\<lparr>ps_refusedRun := 0, ps_refusalLogged := False\<rparr>)
                   (w\<lparr>pw_injected := pw_injected w + 1\<rparr>)
             in (case nm of
                   Some name \<Rightarrow>
                     if ps_refusalLogged p
                     then (w1, logMsg INFO (''Host is accepting pointer input for '' @ name @ '' again after '' @
                            dec_string (unat (ps_refusedRun p)) @
                            (if ps_refusedRun p = 1 then '' refused frame'' else '' refused frames'')) s)
                     else (w1, s)
                 | None \<Rightarrow> (w1, s))
        else let p1 = p\<lparr>ps_refusedRun := ps_refusedRun p + 1\<rparr>;
                 w1 = put_session slt p1 (w\<lparr>pw_refused := pw_refused w + 1\<rparr>)
             in if ps_refusedRun p1 \<noteq> 1 then (w1, s)
                else if ps_refusalLoggedAt p1 \<noteq> 0 \<and> now - ps_refusalLoggedAt p1 < sec POINTER_REFUSAL_LOG_INTERVAL_SEC
                then (w1, s)
                else (case nm of
                        None \<Rightarrow> (w1, s)
                      | Some name \<Rightarrow>
                          (put_session slt (p1\<lparr>ps_refusalLoggedAt := now, ps_refusalLogged := True\<rparr>) w1,
                           logMsg WARN (''Host refused to inject pointer input for '' @ name @
                             ''; the frames arrive but the OS drops them (on Windows this happens while '' @
                             ''the foreground window belongs to a process with higher privileges than '' @
                             ''Satellite)'') s)))"

section \<open>Frames and commands\<close>

definition put_pad :: "nat \<Rightarrow> touch_pad \<Rightarrow> pointer_worker \<Rightarrow> pointer_worker" where
  "put_pad i pad w = w\<lparr>pw_pads := (pw_pads w)[i := pad]\<rparr>"

definition pointer_process :: "ticks \<Rightarrow> pointer_frame \<Rightarrow> pointer_worker \<times> 'b svc \<Rightarrow> pointer_worker \<times> 'b svc" where
  "pointer_process now frame = (\<lambda>(w, s).
     let pad = pw_pads w ! pf_serial frame in
     if pf_stamp frame < tp_releaseStamp pad then (w\<lparr>pw_lastFrameOk := False\<rparr>, s)
     else
       let pad1 = (if tp_stamp pad \<noteq> pf_stamp frame
                   then pad\<lparr>tp_stamp := pf_stamp frame, tp_prevValid := False, tp_remX := 0, tp_remY := 0\<rparr>
                   else pad);
           (motion, remX, remY) =
             touchpadPointerMotion (tp_prev pad1) (tp_prevValid pad1) (pf_report frame) (tp_remX pad1) (tp_remY pad1);
           w1 = put_pad (pf_serial frame)
                  (pad1\<lparr>tp_prev := pf_report frame, tp_prevValid := True, tp_remX := remX, tp_remY := remY,
                        tp_buttons := pm_buttons motion\<rparr>) w;
           (ok, s1) = pointer_submit (pm_dx motion) (pm_dy motion) (pm_wheel motion) w1 s;
           s2 = s1\<lparr>s_retryPending := \<not> ok\<rparr>;
           (w3, s3) = (if pm_dx motion \<noteq> 0 \<or> pm_dy motion \<noteq> 0 \<or> pm_wheel motion \<noteq> 0 \<or> pm_buttonsChanged motion
                       then pointer_record now (pf_slot frame) (pf_row frame) ok (w1, s2) else (w1, s2))
       in (w3\<lparr>pw_lastFrameOk := ok\<rparr>, s3))"

definition any_held :: "mouse_buttons \<Rightarrow> bool" where
  "any_held b \<longleftrightarrow> mb_left b \<or> mb_right b \<or> mb_middle b"

definition pointer_resubmit :: "pointer_worker \<times> 'b svc \<Rightarrow> pointer_worker \<times> 'b svc" where
  "pointer_resubmit = (\<lambda>(w, s). case pointer_submit 0 0 0 w s of (ok, s1) \<Rightarrow> (w, s1\<lparr>s_retryPending := \<not> ok\<rparr>))"

definition pointer_apply :: "ticks \<Rightarrow> pointer_command \<Rightarrow> pointer_worker \<times> 'b svc \<Rightarrow> pointer_worker \<times> 'b svc" where
  "pointer_apply now cmd = (\<lambda>(w, s).
     case pc_kind cmd of
       Release \<Rightarrow>
         let pad = pw_pads w ! pc_serial cmd;
             pad1 = (if pc_stamp cmd > tp_releaseStamp pad then pad\<lparr>tp_releaseStamp := pc_stamp cmd\<rparr> else pad);
             w1 = put_pad (pc_serial cmd) (pad1\<lparr>tp_buttons := no_buttons\<rparr>) w
         in if \<not> any_held (tp_buttons pad1) then (w1, s) else pointer_resubmit (w1, s)
     | Retry \<Rightarrow> if \<not> s_retryPending s then (w, s) else pointer_resubmit (w, s)
     | BackdateRefusalLog \<Rightarrow>
         let slt = nat (pc_slot cmd)
         in (put_session slt ((pointer_session_at slt (pc_row cmd) w)
               \<lparr>ps_refusalLoggedAt := now - sec (pc_seconds cmd)\<rparr>) w, s))"

text \<open>
  \<^verbatim>\<open>drainCommands\<close> pops until the queue is empty.  No command changes the queue, so the commands that
  are applied are the ones it held.
\<close>

definition apply_counted :: "ticks \<Rightarrow> pointer_command \<Rightarrow> pointer_worker \<times> 'b svc \<Rightarrow> pointer_worker \<times> 'b svc" where
  "apply_counted now cmd ws =
     (case pointer_apply now cmd ws of (w, s) \<Rightarrow> (w\<lparr>pw_commandsDone := pw_commandsDone w + 1\<rparr>, s))"

definition drainCommands :: "ticks \<Rightarrow> pointer_worker \<times> 'b svc \<Rightarrow> bool \<times> pointer_worker \<times> 'b svc" where
  "drainCommands now = (\<lambda>(w, s).
     (s_commands s \<noteq> [], fold (apply_counted now) (s_commands s) (w, s\<lparr>s_commands := []\<rparr>)))"

text \<open>One turn of the frame loop of \<^verbatim>\<open>run\<close>: the frame is popped first, then the commands are drained.\<close>

definition frame_turn :: "ticks \<Rightarrow> pointer_worker \<times> 'b svc \<Rightarrow> (pointer_worker \<times> 'b svc) option" where
  "frame_turn now = (\<lambda>(w, s).
     case s_frames s of
       [] \<Rightarrow> None
     | frame # rest \<Rightarrow>
         (case drainCommands now (w, s\<lparr>s_frames := rest\<rparr>) of
            (_, ws) \<Rightarrow>
              (case pointer_process now frame ws of
                 (w1, s1) \<Rightarrow> Some (w1\<lparr>pw_framesDone := pw_framesDone w1 + 1\<rparr>, s1))))"
section \<open>The arithmetic of one axis\<close>

lemma sensitivity_bounds: "0 \<le> TOUCHPAD_MOUSE_SENSITIVITY" "TOUCHPAD_MOUSE_SENSITIVITY \<le> 2753 / 65536"
proof -
  show "0 \<le> TOUCHPAD_MOUSE_SENSITIVITY" unfolding TOUCHPAD_MOUSE_SENSITIVITY_def by (rule float_round_nonneg) simp
  have "float_exp (2753 / 65536) \<le> 7" by (rule float_exp_above) (simp_all add: power_int_def)
  then have "float_round (2753 / 65536) = 2753 / 65536"
    by (rule float_round_multiple [of _ 2753 7, rotated]) (simp add: power_int_def power_divide)
  then show "TOUCHPAD_MOUSE_SENSITIVITY \<le> 2753 / 65536"
    using float_round_mono [of "42 / 1000" "2753 / 65536"] unfolding TOUCHPAD_MOUSE_SENSITIVITY_def by simp
qed

lemma abs_mult_bound: "\<bar>a\<bar> \<le> p \<Longrightarrow> \<bar>b\<bar> \<le> q \<Longrightarrow> \<bar>a * b\<bar> \<le> p * (q :: rat)"
  by (metis abs_ge_zero abs_mult mult_mono order_trans)

lemma axis_scale_bound:
  assumes "1 \<le> dt" "dt \<le> 100"
  shows "\<bar>float_round (float_round (of_int TOUCHPAD_MOUSE_REFERENCE_MS) / float_round (of_int dt))\<bar> \<le> of_int 4"
proof (rule float_round_bound)
  have "float_round (of_int TOUCHPAD_MOUSE_REFERENCE_MS) = of_int 4" "float_round (of_int dt) = of_int dt"
    using assms by (intro float_round_int; simp)+
  then show "\<bar>float_round (of_int TOUCHPAD_MOUSE_REFERENCE_MS) / float_round (of_int dt)\<bar> \<le> of_int 4"
    using assms by (simp add: pos_divide_le_eq)
qed simp

lemma axis_sum_bound:
  assumes d: "\<bar>delta\<bar> \<le> 65535" and dt: "1 \<le> dt" "dt \<le> 100" and c: "\<bar>carried\<bar> \<le> 1"
  shows "\<bar>axis_sum delta dt carried\<bar> \<le> of_int 11013"
proof -
  let ?scale = "float_round (float_round (of_int TOUCHPAD_MOUSE_REFERENCE_MS) / float_round (of_int dt))"
  have "float_round (of_int delta) = of_int delta" using d by (intro float_round_int) simp
  moreover have "\<bar>of_int delta :: rat\<bar> \<le> of_int 65535" unfolding of_int_abs [symmetric] of_int_le_iff by (rule d)
  ultimately have "\<bar>float_round (of_int delta)\<bar> \<le> 65535" by simp
  then have "\<bar>float_round (of_int delta) * TOUCHPAD_MOUSE_SENSITIVITY\<bar> \<le> 65535 * (2753 / 65536)"
    using sensitivity_bounds by (intro abs_mult_bound) auto
  then have one: "\<bar>float_round (float_round (of_int delta) * TOUCHPAD_MOUSE_SENSITIVITY)\<bar> \<le> of_int 2753"
    by (intro float_round_bound) auto
  have "\<bar>float_round (float_round (of_int delta) * TOUCHPAD_MOUSE_SENSITIVITY) * ?scale\<bar> \<le> of_int 2753 * of_int 4"
    by (rule abs_mult_bound [OF one axis_scale_bound [OF dt]])
  then have two: "\<bar>float_round (float_round (float_round (of_int delta) * TOUCHPAD_MOUSE_SENSITIVITY) * ?scale)\<bar> \<le> of_int 11012"
    by (intro float_round_bound) auto
  show ?thesis unfolding axis_sum_def Let_def
    by (rule float_round_bound) (use two c in \<open>auto simp: abs_le_iff\<close>)
qed

lemma axis_sum_float: "\<exists>x. axis_sum delta dt carried = float_round x"
  by (auto simp: axis_sum_def Let_def)

lemma axis_split_exact:
  assumes f: "f = float_round x" and b: "\<bar>f\<bar> \<le> of_int n" "n \<le> 2 ^ 24" and s: "axis_split f = (d, r)"
  shows "of_int d + r = f" "\<bar>r\<bar> < 1" "\<bar>d\<bar> \<le> n"
proof -
  have d: "d = float_trunc f" using s by (simp add: axis_split_def Let_def)
  then show n: "\<bar>d\<bar> \<le> n" using float_trunc_bound [OF b(1)] by simp
  have "float_round (of_int d) = of_int d" using n b(2) by (intro float_round_int) linarith
  then have r: "r = f - of_int d" using s float_fraction [OF f] by (auto simp: axis_split_def Let_def d)
  then show "of_int d + r = f" "\<bar>r\<bar> < 1" using float_trunc_fraction [of f] d by simp_all
qed

definition carry_ok :: "rat \<Rightarrow> bool" where
  "carry_ok r \<longleftrightarrow> \<bar>r\<bar> < 1"

lemma sint_diff_bound: "\<bar>sint (x :: i16) - sint (y :: i16)\<bar> \<le> 65535"
  using sint_i16_bounds [of x] sint_i16_bounds [of y] by linarith

lemma axis_step:
  assumes c: "carry_ok carried" and dt: "1 \<le> dt" "dt \<le> 100"
    and s: "axis_split (axis_sum (sint (x :: i16) - sint (y :: i16)) dt carried) = (d, r)"
  shows "of_int d + r = axis_sum (sint x - sint y) dt carried" "carry_ok r" "\<bar>d\<bar> \<le> 11013"
proof -
  have b: "\<bar>axis_sum (sint x - sint y) dt carried\<bar> \<le> of_int 11013"
    by (rule axis_sum_bound [OF sint_diff_bound dt]) (use c in \<open>simp add: carry_ok_def\<close>)
  obtain z where z: "axis_sum (sint x - sint y) dt carried = float_round z" using axis_sum_float by blast
  show "of_int d + r = axis_sum (sint x - sint y) dt carried" "carry_ok r" "\<bar>d\<bar> \<le> 11013"
    using axis_split_exact [OF z b _ s] by (simp_all add: carry_ok_def)
qed

text \<open>The moves of one report, the remainders carried to the next one, and the bounds of both.\<close>

lemma touchpadPointerMotion_bounds:
  assumes q: "touchpadPointerMotion prev valid report remX remY = (m, remX', remY')"
    and c: "carry_ok remX" "carry_ok remY"
  shows "carry_ok remX'" "carry_ok remY'" "\<bar>pm_dx m\<bar> \<le> 11013" "\<bar>pm_dy m\<bar> \<le> 11013"
    "\<bar>pm_wheel m\<bar> \<le> 32768" "pm_buttons m = report_buttons report"
proof -
  define dt where "dt = sint (eventTimeMs report - eventTimeMs prev)"
  define cont where "cont \<longleftrightarrow> valid \<and> tf_active (finger0 prev) \<and> tf_active (finger0 report) \<and>
    tf_trackingId (finger0 prev) = tf_trackingId (finger0 report)"
  have zero: "carry_ok 0" by (simp add: carry_ok_def)
  obtain dx rx where x: "axis_split (axis_sum (sint (tf_x (finger0 report)) - sint (tf_x (finger0 prev))) dt remX) = (dx, rx)"
    by force
  obtain dy ry where y: "axis_split (axis_sum (sint (tf_y (finger0 report)) - sint (tf_y (finger0 prev))) dt remY) = (dy, ry)"
    by force
  have moves: "(pm_dx m, remX', pm_dy m, remY') = (if cont \<and> dt \<le> 100
      then if 0 < dt then (dx, rx, dy, ry) else (0, remX, 0, remY) else (0, 0, 0, 0))"
    using q x y unfolding touchpadPointerMotion_def Let_def dt_def [symmetric] cont_def [symmetric]
    by (auto split: if_splits)
  have "carry_ok rx \<and> carry_ok ry \<and> \<bar>dx\<bar> \<le> 11013 \<and> \<bar>dy\<bar> \<le> 11013" if "0 < dt" "dt \<le> 100"
    using axis_step(2,3) [OF c(1) _ _ x] axis_step(2,3) [OF c(2) _ _ y] that by auto
  then show "carry_ok remX'" "carry_ok remY'" "\<bar>pm_dx m\<bar> \<le> 11013" "\<bar>pm_dy m\<bar> \<le> 11013"
    using moves c zero by (auto split: if_splits)
  have "pm_wheel m = (if valid \<and> dt \<le> 0 then 0 else sint (scrollV report))" "pm_buttons m = report_buttons report"
    using q unfolding touchpadPointerMotion_def Let_def dt_def [symmetric] by (auto split: prod.splits)
  then show "\<bar>pm_wheel m\<bar> \<le> 32768" "pm_buttons m = report_buttons report"
    using sint_i16_bounds [of "scrollV report"] by (auto split: if_splits)
qed
section \<open>What the worker may change\<close>

definition worker_only :: "'b svc \<Rightarrow> 'b svc \<Rightarrow> bool" where
  "worker_only s s' \<longleftrightarrow>
     s' = s\<lparr>s_backend := s_backend s', s_retryPending := s_retryPending s', s_out := s_out s'\<rparr>"

lemma worker_only_refl [simp]: "worker_only s s"
  by (simp add: worker_only_def)

lemma worker_only_trans: "worker_only s s' \<Longrightarrow> worker_only s' s'' \<Longrightarrow> worker_only s s''"
  unfolding worker_only_def by (cases s; cases s'; cases s'') simp

lemma worker_onlyI [simp, intro]:
  "worker_only s (s\<lparr>s_backend := b\<rparr>)" "worker_only s (s\<lparr>s_retryPending := p\<rparr>)" "worker_only s (logMsg l m s)"
  by (simp_all add: worker_only_def logMsg_def emit_def)

lemma worker_onlyD:
  assumes "worker_only s s'"
  shows "s_conns s' = s_conns s" "s_hot s' = s_hot s" "s_frames s' = s_frames s" "s_commands s' = s_commands s"
    "s_micQueue s' = s_micQueue s" "s_port s' = s_port s" "s_pool s' = s_pool s"
  by (subst assms [unfolded worker_only_def], simp)+

lemma worker_only_rx: "worker_only s s' \<Longrightarrow> rx_only s s'"
proof -
  assume w: "worker_only s s'"
  have "rx_only s (s\<lparr>s_backend := b, s_retryPending := p, s_out := es\<rparr>)" for b p es
    by (simp add: rx_only_def queues_ok_def list_all2_refl)
  then show ?thesis using w unfolding worker_only_def by metis
qed

lemma worker_only_inv: "worker_only s s' \<Longrightarrow> svc_inv F s \<Longrightarrow> svc_inv F s'"
  by (rule rx_only_inv [OF worker_only_rx])

lemma svc_inv_fewer:
  assumes inv: "svc_inv F s" and fs: "set fs \<subseteq> set (s_frames s)" "length fs \<le> length (s_frames s)"
    and cs: "set cs \<subseteq> set (s_commands s)" and ms: "set ms \<subseteq> set (s_micQueue s)" "length ms \<le> length (s_micQueue s)"
  shows "svc_inv F (s\<lparr>s_frames := fs, s_commands := cs, s_micQueue := ms\<rparr>)"
proof -
  have "queues_ok s" "commands_ok s" using inv by (simp_all add: svc_inv_def env_ok_def)
  then have "queues_ok (s\<lparr>s_frames := fs, s_commands := cs, s_micQueue := ms\<rparr>)"
    "commands_ok (s\<lparr>s_frames := fs, s_commands := cs, s_micQueue := ms\<rparr>)"
    using fs cs ms unfolding queues_ok_def commands_ok_def by (auto dest: subsetD)
  then show ?thesis using inv by (simp add: svc_inv_def env_ok_def bal_def)
qed

definition worker_ok :: "pointer_worker \<Rightarrow> bool" where
  "worker_ok w \<longleftrightarrow> length (pw_pads w) = MAX_BACKEND_CONTROLLERS + 1 \<and> length (pw_sessions w) = MAX_SESSIONS \<and>
     (\<forall>pad\<in>set (pw_pads w). carry_ok (tp_remX pad) \<and> carry_ok (tp_remY pad))"

lemma worker_ok_default [simp]: "worker_ok default_pointer_worker"
  by (simp add: worker_ok_def default_pointer_worker_def default_touch_pad_def carry_ok_def)

lemma worker_ok_simps [simp]:
  "worker_ok (put_session i p w) = worker_ok w" "worker_ok (w\<lparr>pw_injected := n\<rparr>) = worker_ok w"
  "worker_ok (w\<lparr>pw_refused := n\<rparr>) = worker_ok w" "worker_ok (w\<lparr>pw_lastFrameOk := b\<rparr>) = worker_ok w"
  "worker_ok (w\<lparr>pw_framesDone := n\<rparr>) = worker_ok w" "worker_ok (w\<lparr>pw_commandsDone := n\<rparr>) = worker_ok w"
  by (simp_all add: worker_ok_def put_session_def)

lemma pads_simps [simp]:
  "pw_pads (put_session i p w) = pw_pads w" "pw_pads (put_pad i pad w) = (pw_pads w)[i := pad]"
  by (simp_all add: put_session_def put_pad_def)

lemma worker_ok_pad: "worker_ok w \<Longrightarrow> i \<le> MAX_BACKEND_CONTROLLERS \<Longrightarrow> carry_ok (tp_remX (pw_pads w ! i)) \<and> carry_ok (tp_remY (pw_pads w ! i))"
  by (simp add: worker_ok_def)

lemma worker_ok_put_pad:
  "worker_ok w \<Longrightarrow> carry_ok (tp_remX pad) \<Longrightarrow> carry_ok (tp_remY pad) \<Longrightarrow> worker_ok (put_pad i pad w)"
  unfolding worker_ok_def put_pad_def by (auto dest: set_update_subset_insert [THEN subsetD])

lemma pointer_submit_only: "worker_only s (snd (pointer_submit dx dy wheel w s))"
  by (auto simp: pointer_submit_def split: prod.splits)

lemma pointer_record_frame:
  assumes "pointer_record now slt rw ok (w, s) = (w', s')"
  shows "pw_pads w' = pw_pads w" "worker_ok w' = worker_ok w" "worker_only s s'"
    "s_retryPending s' = s_retryPending s" "s_backend s' = s_backend s"
  using assms unfolding pointer_record_def Let_def
  by (auto split: if_splits option.splits simp: logMsg_def emit_def worker_only_def)

lemma pointer_resubmit_frame:
  assumes "pointer_resubmit (w, s) = (w', s')"
  shows "w' = w" "worker_only s s'"
    "s_retryPending s' \<longleftrightarrow> \<not> fst (gp_submitRelativeMouse (s_port s) 0 0 (held_levels (pw_pads w)) 0 (s_backend s))"
    "s_backend s' = snd (gp_submitRelativeMouse (s_port s) 0 0 (held_levels (pw_pads w)) 0 (s_backend s))"
  using assms unfolding pointer_resubmit_def pointer_submit_def
  by (auto split: prod.splits simp: worker_only_def)

text \<open>A frame that is older than the pad's last release changes nothing but the result of the frame.\<close>

lemma pointer_process_stale:
  "pf_stamp frame < tp_releaseStamp (pw_pads w ! pf_serial frame) \<Longrightarrow>
   pointer_process now frame (w, s) = (w\<lparr>pw_lastFrameOk := False\<rparr>, s)"
  by (simp add: pointer_process_def Let_def)

lemma pointer_process_parts:
  assumes fresh: "\<not> pf_stamp frame < tp_releaseStamp (pw_pads w ! pf_serial frame)"
    and q: "pointer_process now frame (w, s) = (w', s')"
  obtains pad m rx ry w1 where
    "pad = (if tp_stamp (pw_pads w ! pf_serial frame) \<noteq> pf_stamp frame
       then (pw_pads w ! pf_serial frame)\<lparr>tp_stamp := pf_stamp frame, tp_prevValid := False, tp_remX := 0, tp_remY := 0\<rparr>
       else pw_pads w ! pf_serial frame)"
    "touchpadPointerMotion (tp_prev pad) (tp_prevValid pad) (pf_report frame) (tp_remX pad) (tp_remY pad) = (m, rx, ry)"
    "w1 = put_pad (pf_serial frame) (pad\<lparr>tp_prev := pf_report frame, tp_prevValid := True, tp_remX := rx, tp_remY := ry,
       tp_buttons := pm_buttons m\<rparr>) w"
    "pw_pads w' = pw_pads w1" "worker_ok w' = worker_ok w1" "worker_only s s'"
    "(\<not> s_retryPending s', s_backend s') =
       gp_submitRelativeMouse (s_port s) (pm_dx m) (pm_dy m) (held_levels (pw_pads w1)) (pm_wheel m) (s_backend s)"
proof -
  define pad where "pad = (if tp_stamp (pw_pads w ! pf_serial frame) \<noteq> pf_stamp frame
    then (pw_pads w ! pf_serial frame)\<lparr>tp_stamp := pf_stamp frame, tp_prevValid := False, tp_remX := 0, tp_remY := 0\<rparr>
    else pw_pads w ! pf_serial frame)"
  obtain m rx ry where m: "touchpadPointerMotion (tp_prev pad) (tp_prevValid pad) (pf_report frame) (tp_remX pad) (tp_remY pad) = (m, rx, ry)"
    by (metis prod_cases3)
  define w1 where "w1 = put_pad (pf_serial frame) (pad\<lparr>tp_prev := pf_report frame, tp_prevValid := True, tp_remX := rx,
    tp_remY := ry, tp_buttons := pm_buttons m\<rparr>) w"
  obtain ok s1 where sub: "pointer_submit (pm_dx m) (pm_dy m) (pm_wheel m) w1 s = (ok, s1)" by force
  define s2 where "s2 = s1\<lparr>s_retryPending := \<not> ok\<rparr>"
  define changed where "changed \<longleftrightarrow> pm_dx m \<noteq> 0 \<or> pm_dy m \<noteq> 0 \<or> pm_wheel m \<noteq> 0 \<or> pm_buttonsChanged m"
  obtain w3 s3 where rec: "(if changed then pointer_record now (pf_slot frame) (pf_row frame) ok (w1, s2) else (w1, s2)) = (w3, s3)"
    by force
  have res: "w' = w3\<lparr>pw_lastFrameOk := ok\<rparr>" "s' = s3"
    using q fresh rec sub m unfolding pointer_process_def prod.case Let_def pad_def [symmetric]
      changed_def s2_def w1_def by simp_all
  have s1: "s1 = s\<lparr>s_backend := s_backend s1\<rparr>" "(ok, s_backend s1) =
      gp_submitRelativeMouse (s_port s) (pm_dx m) (pm_dy m) (held_levels (pw_pads w1)) (pm_wheel m) (s_backend s)"
    using sub by (auto simp: pointer_submit_def split: prod.splits)
  have s2: "worker_only s s2" unfolding s2_def by (subst s1(1)) (simp add: worker_only_def)
  have r: "pw_pads w3 = pw_pads w1" "worker_ok w3 = worker_ok w1" "worker_only s2 s3" "s_retryPending s3 = (\<not> ok)"
    "s_backend s3 = s_backend s1"
    using rec pointer_record_frame [of now "pf_slot frame" "pf_row frame" ok w1 s2 w3 s3]
    by (auto simp: s2_def split: if_splits)
  show thesis
    by (rule that [OF pad_def m w1_def]) (use r s1(2) worker_only_trans [OF s2] in \<open>simp_all add: res\<close>)
qed

lemma pointer_process_fresh:
  assumes fresh: "\<not> pf_stamp frame < tp_releaseStamp (pw_pads w ! pf_serial frame)"
    and q: "pointer_process now frame (w, s) = (w', s')"
    and ok: "worker_ok w" "pf_serial frame \<le> MAX_BACKEND_CONTROLLERS"
  shows "worker_ok w'" "worker_only s s'"
    "\<exists>pad. pw_pads w' = (pw_pads w)[pf_serial frame := pad] \<and> tp_buttons pad = report_buttons (pf_report frame) \<and>
       tp_releaseStamp pad = tp_releaseStamp (pw_pads w ! pf_serial frame)"
    "\<exists>dx dy wheel. \<bar>dx\<bar> \<le> 11013 \<and> \<bar>dy\<bar> \<le> 11013 \<and> \<bar>wheel\<bar> \<le> 32768 \<and>
       (\<not> s_retryPending s', s_backend s') =
         gp_submitRelativeMouse (s_port s) dx dy (held_levels (pw_pads w')) wheel (s_backend s)"
proof -
  obtain pad m rx ry w1 where p: "pad = (if tp_stamp (pw_pads w ! pf_serial frame) \<noteq> pf_stamp frame
       then (pw_pads w ! pf_serial frame)\<lparr>tp_stamp := pf_stamp frame, tp_prevValid := False, tp_remX := 0, tp_remY := 0\<rparr>
       else pw_pads w ! pf_serial frame)"
    and m: "touchpadPointerMotion (tp_prev pad) (tp_prevValid pad) (pf_report frame) (tp_remX pad) (tp_remY pad) = (m, rx, ry)"
    and w1: "w1 = put_pad (pf_serial frame) (pad\<lparr>tp_prev := pf_report frame, tp_prevValid := True, tp_remX := rx, tp_remY := ry,
       tp_buttons := pm_buttons m\<rparr>) w"
    and r: "pw_pads w' = pw_pads w1" "worker_ok w' = worker_ok w1" "worker_only s s'"
    "(\<not> s_retryPending s', s_backend s') =
       gp_submitRelativeMouse (s_port s) (pm_dx m) (pm_dy m) (held_levels (pw_pads w1)) (pm_wheel m) (s_backend s)"
    by (rule pointer_process_parts [OF fresh q])
  have c: "carry_ok (tp_remX pad)" "carry_ok (tp_remY pad)"
    using worker_ok_pad [OF ok] by (simp_all add: p carry_ok_def)
  note b = touchpadPointerMotion_bounds [OF m c]
  have "worker_ok w1" unfolding w1 by (rule worker_ok_put_pad [OF ok(1)]) (simp_all add: b)
  then show "worker_ok w'" "worker_only s s'" using r by simp_all
  show "\<exists>pad. pw_pads w' = (pw_pads w)[pf_serial frame := pad] \<and> tp_buttons pad = report_buttons (pf_report frame) \<and>
       tp_releaseStamp pad = tp_releaseStamp (pw_pads w ! pf_serial frame)"
    using r(1) b(6) by (auto simp: w1 p)
  show "\<exists>dx dy wheel. \<bar>dx\<bar> \<le> 11013 \<and> \<bar>dy\<bar> \<le> 11013 \<and> \<bar>wheel\<bar> \<le> 32768 \<and>
       (\<not> s_retryPending s', s_backend s') =
         gp_submitRelativeMouse (s_port s) dx dy (held_levels (pw_pads w')) wheel (s_backend s)"
    using b(3-5) r by (intro exI [of _ "pm_dx m"] exI [of _ "pm_dy m"] exI [of _ "pm_wheel m"]) simp
qed
section \<open>Commands\<close>

lemma any_held_none: "\<not> any_held b \<longleftrightarrow> b = no_buttons"
  by (cases b) (auto simp: any_held_def no_buttons_def)

definition stamped :: "pointer_command \<Rightarrow> touch_pad \<Rightarrow> touch_pad" where
  "stamped cmd pad = (if pc_stamp cmd > tp_releaseStamp pad then pad\<lparr>tp_releaseStamp := pc_stamp cmd\<rparr> else pad)"

lemma stamped_simps [simp]:
  "tp_buttons (stamped cmd pad) = tp_buttons pad" "tp_remX (stamped cmd pad) = tp_remX pad"
  "tp_remY (stamped cmd pad) = tp_remY pad" "tp_releaseStamp (stamped cmd pad) = max (pc_stamp cmd) (tp_releaseStamp pad)"
  by (auto simp: stamped_def max_def)

lemma pointer_apply_Release:
  assumes "pc_kind cmd = Release"
  shows "pointer_apply now cmd (w, s) =
    (let pad = pw_pads w ! pc_serial cmd; w1 = put_pad (pc_serial cmd) ((stamped cmd pad)\<lparr>tp_buttons := no_buttons\<rparr>) w
     in if tp_buttons pad = no_buttons then (w1, s) else pointer_resubmit (w1, s))"
proof -
  have "\<not> any_held (tp_buttons (stamped cmd pad)) \<longleftrightarrow> tp_buttons pad = no_buttons" for pad by (simp add: any_held_none)
  then show ?thesis unfolding pointer_apply_def prod.case assms pointer_kind.case Let_def stamped_def [symmetric] by simp
qed

lemma pointer_apply_frame:
  assumes q: "pointer_apply now cmd (w, s) = (w', s')" and ok: "worker_ok w" "command_ok cmd"
  shows "worker_ok w'" "worker_only s s'"
    "pc_kind cmd \<noteq> Release \<Longrightarrow> pw_pads w' = pw_pads w"
    "pc_kind cmd = Release \<Longrightarrow> \<exists>pad. pw_pads w' = (pw_pads w)[pc_serial cmd := pad] \<and> tp_buttons pad = no_buttons \<and>
       tp_releaseStamp pad = max (pc_stamp cmd) (tp_releaseStamp (pw_pads w ! pc_serial cmd))"
proof -
  define pad where "pad = pw_pads w ! pc_serial cmd"
  define w1 where "w1 = put_pad (pc_serial cmd) ((stamped cmd pad)\<lparr>tp_buttons := no_buttons\<rparr>) w"
  have w1: "worker_ok w1" if "pc_kind cmd = Release"
    unfolding w1_def by (rule worker_ok_put_pad [OF ok(1)])
      (use worker_ok_pad [OF ok(1), of "pc_serial cmd"] ok(2) that in \<open>auto simp: pad_def command_ok_def\<close>)
  have relres: "w' = w1 \<and> worker_only s s'" if "pc_kind cmd = Release"
    using q pointer_resubmit_frame(1,2) [of w1 s w' s'] unfolding pointer_apply_Release [OF that] Let_def
    by (auto simp: w1_def pad_def split: if_splits)
  have other: "worker_ok w' \<and> worker_only s s' \<and> pw_pads w' = pw_pads w" if "pc_kind cmd \<noteq> Release"
    using q that ok(1) pointer_resubmit_frame(1,2) [of w s w' s'] unfolding pointer_apply_def prod.case Let_def
    by (auto split: pointer_kind.splits if_splits)
  show "worker_ok w'" "worker_only s s'" using relres w1 other by blast+
  show "pw_pads w' = pw_pads w" if "pc_kind cmd \<noteq> Release" using other that by blast
  show "\<exists>pad. pw_pads w' = (pw_pads w)[pc_serial cmd := pad] \<and> tp_buttons pad = no_buttons \<and>
       tp_releaseStamp pad = max (pc_stamp cmd) (tp_releaseStamp (pw_pads w ! pc_serial cmd))" if "pc_kind cmd = Release"
    using relres [OF that] by (auto simp: w1_def pad_def)
qed

section \<open>Sequences of frames and commands\<close>

datatype pointer_input = Frame_in pointer_frame | Command_in pointer_command

fun input_ok :: "pointer_input \<Rightarrow> bool" where
  "input_ok (Frame_in f) \<longleftrightarrow> 1 \<le> pf_serial f \<and> pf_serial f \<le> MAX_BACKEND_CONTROLLERS \<and> pf_slot f < MAX_SESSIONS"
| "input_ok (Command_in c) \<longleftrightarrow> command_ok c"

fun worker_input :: "ticks \<times> pointer_input \<Rightarrow> pointer_worker \<times> 'b svc \<Rightarrow> pointer_worker \<times> 'b svc" where
  "worker_input (now, Frame_in f) ws = pointer_process now f ws"
| "worker_input (now, Command_in c) ws = pointer_apply now c ws"

lemma worker_input_frame:
  assumes q: "worker_input inp (w, s) = (w', s')" and ok: "worker_ok w" "input_ok (snd inp)"
  shows "worker_ok w' \<and> worker_only s s'"
proof (cases inp)
  case (Pair now i)
  show ?thesis
  proof (cases i)
    case (Frame_in f)
    then show ?thesis
      using q ok Pair pointer_process_fresh(1,2) [of f w now s w' s'] pointer_process_stale [of f w now s]
      by (cases "pf_stamp f < tp_releaseStamp (pw_pads w ! pf_serial f)") auto
  next
    case (Command_in c)
    then show ?thesis using q ok Pair pointer_apply_frame(1,2) [of now c w s w' s'] by simp
  qed
qed

lemma worker_run_frame:
  assumes "worker_ok w" "\<forall>inp\<in>set inps. input_ok (snd inp)" "fold worker_input inps (w, s) = (w', s')"
  shows "worker_ok w' \<and> worker_only s s'"
  using assms
proof (induction inps arbitrary: w s)
  case (Cons inp inps)
  obtain w1 s1 where one: "worker_input inp (w, s) = (w1, s1)" by force
  have "worker_ok w1 \<and> worker_only s s1" using worker_input_frame [OF one] Cons.prems by simp
  then show ?case using Cons.IH [of w1 s1] Cons.prems one worker_only_trans by fastforce
qed simp

subsection \<open>A released pad\<close>

text \<open>\<open>released x st w\<close>: pad \<open>x\<close> holds no button and refuses frames stamped before \<open>st\<close>.\<close>

definition released :: "nat \<Rightarrow> u32 \<Rightarrow> pointer_worker \<Rightarrow> bool" where
  "released x st w \<longleftrightarrow> tp_buttons (pw_pads w ! x) = no_buttons \<and> st \<le> tp_releaseStamp (pw_pads w ! x)"

definition stale_for :: "nat \<Rightarrow> u32 \<Rightarrow> pointer_input \<Rightarrow> bool" where
  "stale_for x st inp \<longleftrightarrow> (case inp of Frame_in f \<Rightarrow> pf_serial f = x \<longrightarrow> pf_stamp f < st | Command_in c \<Rightarrow> True)"

lemma release_releases:
  assumes "pointer_apply now cmd (w, s) = (w', s')" "worker_ok w" "command_ok cmd" "pc_kind cmd = Release"
  shows "released (pc_serial cmd) (pc_stamp cmd) w'"
  using pointer_apply_frame(4) [OF assms(1-3)] assms(2-4)
  by (auto simp: released_def worker_ok_def command_ok_def)

lemma released_input:
  assumes q: "worker_input inp (w, s) = (w', s')" and ok: "worker_ok w" "input_ok (snd inp)"
    and rel: "released x st w" "stale_for x st (snd inp)" and x: "x \<le> MAX_BACKEND_CONTROLLERS"
  shows "released x st w'"
proof -
  obtain now i where inp: "inp = (now, i)" by force
  have len: "x < length (pw_pads w)" using ok(1) x by (simp add: worker_ok_def)
  show ?thesis
  proof (cases i)
    case (Frame_in f)
    show ?thesis
    proof (cases "pf_stamp f < tp_releaseStamp (pw_pads w ! pf_serial f)")
      case True
      then show ?thesis using q inp Frame_in rel pointer_process_stale [of f w now s] by (auto simp: released_def)
    next
      case False
      then have "pf_serial f \<noteq> x" using rel inp Frame_in by (auto simp: released_def stale_for_def)
      then show ?thesis
        using pointer_process_fresh(3) [OF False, of now s w' s'] q inp Frame_in ok rel(1)
        by (auto simp: released_def)
    qed
  next
    case (Command_in c)
    have a: "pointer_apply now c (w, s) = (w', s')" "command_ok c" using q inp Command_in ok by simp_all
    show ?thesis
    proof (cases "pc_kind c = Release")
      case True
      obtain pad where "pw_pads w' = (pw_pads w)[pc_serial c := pad]" "tp_buttons pad = no_buttons"
        "tp_releaseStamp pad = max (pc_stamp c) (tp_releaseStamp (pw_pads w ! pc_serial c))"
        using pointer_apply_frame(4) [OF a(1) ok(1) a(2) True] by blast
      then show ?thesis using rel(1) len by (cases "pc_serial c = x") (auto simp: released_def max.coboundedI2)
    next
      case False
      then show ?thesis using pointer_apply_frame(3) [OF a(1) ok(1) a(2)] rel(1) by (simp add: released_def)
    qed
  qed
qed

lemma released_run:
  assumes "worker_ok w" "released x st w" "x \<le> MAX_BACKEND_CONTROLLERS"
    "\<forall>inp\<in>set inps. input_ok (snd inp) \<and> stale_for x st (snd inp)" "fold worker_input inps (w, s) = (w', s')"
  shows "released x st w'"
  using assms
proof (induction inps arbitrary: w s)
  case (Cons inp inps)
  obtain w1 s1 where one: "worker_input inp (w, s) = (w1, s1)" by force
  have "worker_ok w1" "released x st w1"
    using worker_input_frame [OF one] released_input [OF one] Cons.prems by auto
  then show ?case using Cons.IH [of w1 s1] Cons.prems one by simp
qed simp

subsection \<open>The host's button levels\<close>

text \<open>
  \<open>follows host prt\<close>: what the documentation of \<^verbatim>\<open>submitRelativeMouse\<close> says of an accepted frame, that
  the levels the host shows are the levels of the frame.  Nothing is said of a refused one.
\<close>

definition follows :: "('b \<Rightarrow> mouse_buttons) \<Rightarrow> 'b gamepad_port \<Rightarrow> bool" where
  "follows host prt \<longleftrightarrow>
     (\<forall>dx dy held wheel b b'. gp_submitRelativeMouse prt dx dy held wheel b = (True, b') \<longrightarrow> host b' = held)"

definition in_step :: "('b \<Rightarrow> mouse_buttons) \<Rightarrow> pointer_worker \<Rightarrow> 'b svc \<Rightarrow> bool" where
  "in_step host w s \<longleftrightarrow> s_retryPending s \<or> host (s_backend s) = held_levels (pw_pads w)"

lemma held_levels_map: "held_levels pads = fold (\<lambda>b held. \<lparr>mb_left = (mb_left held \<or> mb_left b),
     mb_right = (mb_right held \<or> mb_right b), mb_middle = (mb_middle held \<or> mb_middle b)\<rparr>) (map tp_buttons pads) no_buttons"
  by (simp add: held_levels_def fold_map comp_def)

lemma held_levels_cong: "map tp_buttons ps = map tp_buttons qs \<Longrightarrow> held_levels ps = held_levels qs"
  by (simp only: held_levels_map)

lemma held_levels_same:
  "tp_buttons pad = tp_buttons (ps ! i) \<Longrightarrow> held_levels (ps[i := pad]) = held_levels ps"
  by (rule held_levels_cong) (metis list_update_beyond list_update_id map_update not_le)

lemma resubmit_in_step:
  assumes f: "follows host (s_port s)" and q: "pointer_resubmit (w, s) = (w', s')"
  shows "in_step host w' s'"
proof -
  obtain ok b where sub: "gp_submitRelativeMouse (s_port s) 0 0 (held_levels (pw_pads w)) 0 (s_backend s) = (ok, b)" by force
  show ?thesis using pointer_resubmit_frame [OF q] sub f by (cases ok) (auto simp: in_step_def follows_def)
qed

lemma input_in_step:
  assumes f: "follows host (s_port s)" and st: "in_step host w s" and ok: "worker_ok w" "input_ok (snd inp)"
    and q: "worker_input inp (w, s) = (w', s')"
  shows "in_step host w' s'"
proof -
  obtain now i where inp: "inp = (now, i)" by force
  show ?thesis
  proof (cases i)
    case (Frame_in fr)
    show ?thesis
    proof (cases "pf_stamp fr < tp_releaseStamp (pw_pads w ! pf_serial fr)")
      case True
      then show ?thesis using q inp Frame_in st pointer_process_stale [of fr w now s] by (auto simp: in_step_def)
    next
      case False
      obtain dx dy wheel where "(\<not> s_retryPending s', s_backend s') =
          gp_submitRelativeMouse (s_port s) dx dy (held_levels (pw_pads w')) wheel (s_backend s)"
        using pointer_process_fresh(4) [OF False, of now s w' s'] q inp Frame_in ok by auto
      then show ?thesis using f unfolding follows_def in_step_def by metis
    qed
  next
    case (Command_in c)
    have a: "pointer_apply now c (w, s) = (w', s')" "command_ok c" using q inp Command_in ok by simp_all
    show ?thesis
    proof (cases "pc_kind c")
      case Release
      define w1 where "w1 = put_pad (pc_serial c) ((stamped c (pw_pads w ! pc_serial c))\<lparr>tp_buttons := no_buttons\<rparr>) w"
      have r: "(if tp_buttons (pw_pads w ! pc_serial c) = no_buttons then (w1, s) else pointer_resubmit (w1, s)) = (w', s')"
        using a(1) unfolding pointer_apply_Release [OF Release] Let_def w1_def .
      show ?thesis
      proof (cases "tp_buttons (pw_pads w ! pc_serial c) = no_buttons")
        case True
        then have "held_levels (pw_pads w1) = held_levels (pw_pads w)" by (simp add: w1_def held_levels_same)
        then show ?thesis using r True st by (auto simp: in_step_def)
      next
        case False
        then show ?thesis using r resubmit_in_step [OF f, of w1 w' s'] by simp
      qed
    next
      case Retry
      then show ?thesis using a(1) st resubmit_in_step [OF f, of w w' s']
        unfolding pointer_apply_def by (auto split: if_splits)
    next
      case BackdateRefusalLog
      then show ?thesis using a(1) st unfolding pointer_apply_def Let_def by (auto simp: in_step_def)
    qed
  qed
qed

lemma run_in_step:
  assumes "follows host (s_port s)" "in_step host w s" "worker_ok w" "\<forall>inp\<in>set inps. input_ok (snd inp)"
    "fold worker_input inps (w, s) = (w', s')"
  shows "in_step host w' s'"
  using assms
proof (induction inps arbitrary: w s)
  case (Cons inp inps)
  obtain w1 s1 where one: "worker_input inp (w, s) = (w1, s1)" by force
  have "worker_ok w1" "worker_only s s1" using worker_input_frame [OF one] Cons.prems by auto
  moreover have "in_step host w1 s1" using input_in_step [OF _ _ _ _ one] Cons.prems by simp
  ultimately show ?case using Cons.IH [of s1 w1] Cons.prems one worker_onlyD(6) by fastforce
qed simp
section \<open>The loop of the worker\<close>

lemma apply_counted_frame:
  assumes "apply_counted now cmd (w, s) = (w', s')" "worker_ok w" "command_ok cmd"
  shows "worker_ok w' \<and> worker_only s s'"
  using assms pointer_apply_frame(1,2) [of now cmd w s] by (auto simp: apply_counted_def split: prod.splits)

lemma apply_all_frame:
  assumes "worker_ok w" "\<forall>c\<in>set cs. command_ok c" "fold (apply_counted now) cs (w, s) = (w', s')"
  shows "worker_ok w' \<and> worker_only s s'"
  using assms
proof (induction cs arbitrary: w s)
  case (Cons c cs)
  obtain w1 s1 where one: "apply_counted now c (w, s) = (w1, s1)" by force
  have "worker_ok w1 \<and> worker_only s s1" using apply_counted_frame [OF one] Cons.prems by simp
  then show ?case using Cons.IH [of w1 s1] Cons.prems one worker_only_trans by fastforce
qed simp

lemma drainCommands_inv:
  assumes inv: "svc_inv F s" and w: "worker_ok w" and q: "drainCommands now (w, s) = (any, w', s')"
  shows "svc_inv F s'" "worker_ok w'" "s_commands s' = []" "s_frames s' = s_frames s" "s_hot s' = s_hot s"
    "s_conns s' = s_conns s"
proof -
  have cs: "\<forall>c\<in>set (s_commands s). command_ok c" using inv by (simp add: svc_inv_def env_ok_def commands_ok_def)
  have f: "fold (apply_counted now) (s_commands s) (w, s\<lparr>s_commands := []\<rparr>) = (w', s')"
    using q by (simp add: drainCommands_def)
  have all: "worker_ok w' \<and> worker_only (s\<lparr>s_commands := []\<rparr>) s'" by (rule apply_all_frame [OF w cs f])
  then show "worker_ok w'" by simp
  have "svc_inv F (s\<lparr>s_commands := []\<rparr>)"
    using svc_inv_fewer [OF inv, of "s_frames s" "[]" "s_micQueue s"] by simp
  then show "svc_inv F s'" using all worker_only_inv by blast
  show "s_commands s' = []" "s_frames s' = s_frames s" "s_hot s' = s_hot s" "s_conns s' = s_conns s"
    using worker_onlyD [of "s\<lparr>s_commands := []\<rparr>" s'] all by simp_all
qed

text \<open>The frame loop reaches no index outside the tables, whatever is queued.\<close>

lemma frame_turn_inv:
  assumes inv: "svc_inv F s" and w: "worker_ok w" and q: "frame_turn now (w, s) = Some (w', s')"
  shows "svc_inv F s'" "worker_ok w'" "s_frames s' = tl (s_frames s)" "s_commands s' = []" "s_conns s' = s_conns s"
    "s_hot s' = s_hot s"
proof -
  obtain f rest where fr: "s_frames s = f # rest" using q by (auto simp: frame_turn_def split: list.splits)
  obtain any w1 s1 where d: "drainCommands now (w, s\<lparr>s_frames := rest\<rparr>) = (any, w1, s1)" by (metis prod_cases3)
  obtain w2 s2 where p: "pointer_process now f (w1, s1) = (w2, s2)" by force
  have res: "w' = w2\<lparr>pw_framesDone := pw_framesDone w2 + 1\<rparr>" "s' = s2"
    using q fr d p by (auto simp: frame_turn_def)
  have "svc_inv F (s\<lparr>s_frames := rest\<rparr>)"
    using svc_inv_fewer [OF inv, of rest "s_commands s" "s_micQueue s"] fr by auto
  note di = drainCommands_inv [OF this w d]
  have "queues_ok s" using inv by (simp add: svc_inv_def env_ok_def)
  then have "input_ok (Frame_in f)" using fr by (simp add: queues_ok_def)
  then have fin: "worker_ok w2 \<and> worker_only s1 s2"
    using worker_input_frame [of "(now, Frame_in f)" w1 s1 w2 s2] p di(2) by simp
  show "svc_inv F s'" "worker_ok w'" using fin di(1) worker_only_inv by (auto simp: res)
  show "s_frames s' = tl (s_frames s)" "s_commands s' = []" "s_conns s' = s_conns s" "s_hot s' = s_hot s"
    using worker_onlyD [of s1 s2] fin di(3-6) fr by (simp_all add: res)
qed

text \<open>One pass of the outer loop of \<^verbatim>\<open>run\<close>: every queued frame, then the commands.\<close>

lemma pointer_apply_only: "worker_only (snd ws) (snd (pointer_apply now c ws))"
proof -
  obtain w s where ws: "ws = (w, s)" by force
  have re: "worker_only s (snd (pointer_resubmit (w1, s)))" for w1
    using pointer_resubmit_frame(2) [of w1 s] by (metis prod.collapse)
  show ?thesis unfolding pointer_apply_def ws prod.case Let_def
    by (cases "pc_kind c") (simp_all add: re)
qed

lemma apply_all_only: "worker_only (snd ws) (snd (fold (apply_counted now) cs ws))"
proof (induction cs arbitrary: ws)
  case (Cons c cs)
  have "worker_only (snd ws) (snd (apply_counted now c ws))"
    using pointer_apply_only [of ws now c] by (cases "pointer_apply now c ws") (simp add: apply_counted_def)
  then show ?case using Cons.IH worker_only_trans by fastforce
qed simp

lemma pointer_process_only: "worker_only s (snd (pointer_process now f (w, s)))"
proof (cases "pf_stamp f < tp_releaseStamp (pw_pads w ! pf_serial f)")
  case True
  then show ?thesis by (simp add: pointer_process_stale)
next
  case False
  then show ?thesis using pointer_process_parts [OF False, of now s] by (metis prod.collapse)
qed

lemma frames_shrink: "frame_turn now (w, s) = Some (w', s') \<Longrightarrow> length (s_frames s') < length (s_frames s)"
proof -
  assume q: "frame_turn now (w, s) = Some (w', s')"
  then obtain f rest where fr: "s_frames s = f # rest" by (auto simp: frame_turn_def split: list.splits)
  obtain any w1 s1 where d: "drainCommands now (w, s\<lparr>s_frames := rest\<rparr>) = (any, w1, s1)" by (metis prod_cases3)
  have "s' = snd (pointer_process now f (w1, s1))" using q fr d by (auto simp: frame_turn_def split: prod.splits)
  then have "s_frames s' = s_frames s1" using worker_onlyD(3) [OF pointer_process_only] by simp
  moreover have "s_frames s1 = rest"
    using worker_onlyD(3) [OF apply_all_only [of "(w, s\<lparr>s_frames := rest, s_commands := []\<rparr>)" now "s_commands s"]] d
    by (simp add: drainCommands_def)
  ultimately show ?thesis using fr by simp
qed

function process_frames :: "ticks \<Rightarrow> pointer_worker \<times> 'b svc \<Rightarrow> pointer_worker \<times> 'b svc" where
  "process_frames now ws = (case frame_turn now ws of None \<Rightarrow> ws | Some ws1 \<Rightarrow> process_frames now ws1)"
  by pat_completeness auto
termination
  by (relation "measure (\<lambda>(now, w, s). length (s_frames s))") (auto dest: frames_shrink)

declare process_frames.simps [simp del]

definition run_pass :: "ticks \<Rightarrow> pointer_worker \<times> 'b svc \<Rightarrow> pointer_worker \<times> 'b svc" where
  "run_pass now ws = snd (drainCommands now (process_frames now ws))"

lemma process_frames_inv:
  assumes "svc_inv F s" "worker_ok w" "process_frames now (w, s) = (w', s')"
  shows "svc_inv F s' \<and> worker_ok w' \<and> s_frames s' = [] \<and> s_conns s' = s_conns s \<and> s_hot s' = s_hot s"
  using assms
proof (induction "length (s_frames s)" arbitrary: w s rule: less_induct)
  case less
  show ?case
  proof (cases "frame_turn now (w, s)")
    case None
    then have "s_frames s = []" by (auto simp: frame_turn_def split: list.splits prod.splits)
    then show ?thesis using less.prems None process_frames.simps [of now "(w, s)"] by simp
  next
    case (Some ws1)
    obtain w1 s1 where ws1: "ws1 = (w1, s1)" by force
    note t = frame_turn_inv [OF less.prems(1,2) Some [unfolded ws1]]
    have "process_frames now (w1, s1) = (w', s')"
      using less.prems(3) Some ws1 process_frames.simps [of now "(w, s)"] by simp
    then show ?thesis using less.hyps [OF frames_shrink [OF Some [unfolded ws1]] t(1,2)] t(5,6) by simp
  qed
qed

lemma run_pass_inv:
  assumes inv: "svc_inv F s" "worker_ok w" and q: "run_pass now (w, s) = (w', s')"
  shows "svc_inv F s'" "worker_ok w'" "s_frames s' = []" "s_commands s' = []" "s_conns s' = s_conns s" "s_hot s' = s_hot s"
proof -
  obtain w1 s1 where p: "process_frames now (w, s) = (w1, s1)" by force
  note pf = process_frames_inv [OF inv p]
  obtain any where d: "drainCommands now (w1, s1) = (any, w', s')"
    using q p by (metis prod.collapse run_pass_def)
  show "svc_inv F s'" "worker_ok w'" "s_frames s' = []" "s_commands s' = []" "s_conns s' = s_conns s" "s_hot s' = s_hot s"
    using drainCommands_inv [OF _ _ d] pf by auto
qed
section \<open>The plan of one injected frame\<close>

text \<open>
  \<^verbatim>\<open>core/pointer_frame.h\<close>: an adapter is given levels and injects edges.  The events of a frame are the
  used part of the array, \<^verbatim>\<open>count\<close> is their number.
\<close>

datatype pointer_event_kind = Move | LeftButton | RightButton | MiddleButton | Wheel

record pointer_event =
  pe_kind :: pointer_event_kind
  pe_x :: int
  pe_y :: int
  pe_pressed :: bool

record planned_frame =
  pl_events :: "pointer_event list"
  pl_before :: mouse_buttons

definition POINTER_BUTTONS ::
  "((mouse_buttons \<Rightarrow> bool) \<times> (bool \<Rightarrow> mouse_buttons \<Rightarrow> mouse_buttons) \<times> pointer_event_kind) list" where
  "POINTER_BUTTONS =
     [(mb_left, \<lambda>v b. b\<lparr>mb_left := v\<rparr>, LeftButton), (mb_right, \<lambda>v b. b\<lparr>mb_right := v\<rparr>, RightButton),
      (mb_middle, \<lambda>v b. b\<lparr>mb_middle := v\<rparr>, MiddleButton)]"

definition planPointerFrame :: "mouse_buttons \<Rightarrow> mouse_buttons \<Rightarrow> int \<Rightarrow> int \<Rightarrow> int \<Rightarrow> planned_frame" where
  "planPointerFrame before desired dx dy wheel =
     \<lparr>pl_events =
        (if dx \<noteq> 0 \<or> dy \<noteq> 0 then [\<lparr>pe_kind = Move, pe_x = dx, pe_y = dy, pe_pressed = False\<rparr>] else []) @
        concat (map (\<lambda>(level, _, kind).
          if level desired \<noteq> level before
          then [\<lparr>pe_kind = kind, pe_x = 0, pe_y = 0, pe_pressed = level desired\<rparr>] else []) POINTER_BUTTONS) @
        (if wheel \<noteq> 0 then [\<lparr>pe_kind = Wheel, pe_x = 0, pe_y = wheel, pe_pressed = False\<rparr>] else []),
      pl_before = before\<rparr>"

definition pointerButtonsAfter :: "planned_frame \<Rightarrow> nat \<Rightarrow> mouse_buttons" where
  "pointerButtonsAfter frame accepted =
     fold (\<lambda>event. fold (\<lambda>(_, set_level, kind) buttons.
         if pe_kind event = kind then set_level (pe_pressed event) buttons else buttons) POINTER_BUTTONS)
       (take (min accepted (length (pl_events frame))) (pl_events frame)) (pl_before frame)"

text \<open>\<open>level_of k\<close> is the level that an event of kind \<open>k\<close> sets.\<close>

fun level_of :: "pointer_event_kind \<Rightarrow> mouse_buttons \<Rightarrow> bool" where
  "level_of LeftButton b = mb_left b"
| "level_of RightButton b = mb_right b"
| "level_of MiddleButton b = mb_middle b"
| "level_of _ b = False"

lemma plan_events: "length (pl_events (planPointerFrame before desired dx dy wheel)) \<le> 5"
  by (simp add: planPointerFrame_def POINTER_BUTTONS_def)

lemma plan_complete:
  assumes "length (pl_events (planPointerFrame before desired dx dy wheel)) \<le> accepted"
  shows "pointerButtonsAfter (planPointerFrame before desired dx dy wheel) accepted = desired"
  using assms unfolding pointerButtonsAfter_def
  by (cases before; cases desired) (simp add: planPointerFrame_def POINTER_BUTTONS_def min_absorb2)

lemma plan_edges:
  assumes "e \<in> set (pl_events (planPointerFrame before desired dx dy wheel))" "pe_kind e \<noteq> Move" "pe_kind e \<noteq> Wheel"
  shows "pe_pressed e = level_of (pe_kind e) desired" "level_of (pe_kind e) before \<noteq> level_of (pe_kind e) desired"
  using assms by (auto simp: planPointerFrame_def POINTER_BUTTONS_def split: if_splits)

definition press :: "pointer_event \<Rightarrow> mouse_buttons \<Rightarrow> mouse_buttons" where
  "press event = fold (\<lambda>(_, set_level, kind) buttons.
     if pe_kind event = kind then set_level (pe_pressed event) buttons else buttons) POINTER_BUTTONS"

lemma press_level:
  "level_of k (press e b) = (if pe_kind e = k \<and> k \<notin> {Move, Wheel} then pe_pressed e else level_of k b)"
  by (cases k; cases "pe_kind e") (simp_all add: press_def POINTER_BUTTONS_def)

lemma plan_prefix_level:
  assumes "\<forall>e\<in>set es. pe_kind e \<in> {Move, Wheel} \<or> pe_pressed e = level_of (pe_kind e) desired"
  shows "level_of k (fold press es b) \<in> {level_of k b, level_of k desired}"
  using assms
proof (induction es arbitrary: b)
  case (Cons e es)
  then show ?case using Cons.IH [of "press e b"] press_level [of k e b] by (auto split: if_splits)
qed simp

text \<open>An adapter that stops part of the way has moved every button towards the desired level or not at all.\<close>

lemma plan_prefix:
  "level_of k (pointerButtonsAfter (planPointerFrame before desired dx dy wheel) accepted)
     \<in> {level_of k before, level_of k desired}"
proof -
  let ?f = "planPointerFrame before desired dx dy wheel"
  have "\<forall>e\<in>set (take (min accepted (length (pl_events ?f))) (pl_events ?f)).
      pe_kind e \<in> {Move, Wheel} \<or> pe_pressed e = level_of (pe_kind e) desired"
    using plan_edges(1) [of _ before desired dx dy wheel] by (auto dest: in_set_takeD)
  from plan_prefix_level [OF this, of k before] show ?thesis
    by (simp add: pointerButtonsAfter_def press_def [abs_def] planPointerFrame_def)
qed

lemma held_levels_idle: "\<forall>p\<in>set pads. tp_buttons p = no_buttons \<Longrightarrow> held_levels pads = no_buttons"
proof (induction pads)
  case Nil
  show ?case by (simp add: held_levels_def)
next
  case (Cons p pads)
  have "tp_buttons p = no_buttons" "\<forall>q\<in>set pads. tp_buttons q = no_buttons" using Cons.prems by simp_all
  then show ?case using Cons.IH unfolding held_levels_def by (simp add: no_buttons_def)
qed

section \<open>Properties\<close>



text \<open>
  C30.  A released pad stays released: once the worker has applied the release of a pad, no frame queued
  before that release can press a button again, in whatever order frames and commands then arrive.
\<close>

theorem release_final:
  assumes w: "worker_ok w" and cmd: "command_ok cmd" "pc_kind cmd = Release"
    and inps: "\<forall>inp\<in>set inps. input_ok (snd inp) \<and> stale_for (pc_serial cmd) (pc_stamp cmd) (snd inp)"
    and q: "fold worker_input inps (pointer_apply now cmd (w, s)) = (w', s')"
  shows "tp_buttons (pw_pads w' ! pc_serial cmd) = no_buttons"
proof -
  obtain w1 s1 where a: "pointer_apply now cmd (w, s) = (w1, s1)" by force
  have "worker_ok w1" using worker_input_frame [of "(now, Command_in cmd)" w s w1 s1] a w cmd by simp
  moreover have "fold worker_input inps (w1, s1) = (w', s')" using q a by simp
  moreover have "pc_serial cmd \<le> MAX_BACKEND_CONTROLLERS" using cmd by (simp add: command_ok_def)
  ultimately have "released (pc_serial cmd) (pc_stamp cmd) w'"
    using released_run [OF _ release_releases [OF a w cmd] _ inps] by blast
  then show ?thesis by (simp add: released_def)
qed

theorem release_final_witness:
  "\<forall>s :: nat svc. tp_buttons (pw_pads (fst (fold worker_input
     [(0, Frame_in \<lparr>pf_serial = 3, pf_stamp = 4, pf_slot = 0, pf_row = 1, pf_report = no_touch\<lparr>buttonPressed := True\<rparr>\<rparr>)]
     (pointer_apply 0 (default_pointer_command\<lparr>pc_kind := Release, pc_serial := 3, pc_stamp := 5\<rparr>)
        (default_pointer_worker, s)))) ! 3) = no_buttons"
proof
  fix s :: "nat svc"
  let ?cmd = "default_pointer_command\<lparr>pc_kind := Release, pc_serial := 3, pc_stamp := 5\<rparr>"
  let ?inps = "[(0, Frame_in \<lparr>pf_serial = 3, pf_stamp = 4, pf_slot = 0, pf_row = 1,
      pf_report = no_touch\<lparr>buttonPressed := True\<rparr>\<rparr>)] :: (ticks \<times> pointer_input) list"
  let ?r = "fold worker_input ?inps (pointer_apply 0 ?cmd (default_pointer_worker, s))"
  have "command_ok ?cmd" "pc_kind ?cmd = Release" by (simp_all add: command_ok_def)
  moreover have "\<forall>inp\<in>set ?inps. input_ok (snd inp) \<and> stale_for (pc_serial ?cmd) (pc_stamp ?cmd) (snd inp)"
    by (simp add: stale_for_def)
  moreover have "?r = (fst ?r, snd ?r)" by simp
  ultimately have "tp_buttons (pw_pads (fst ?r) ! pc_serial ?cmd) = no_buttons"
    using release_final [OF worker_ok_default] by blast
  then show "tp_buttons (pw_pads (fst ?r) ! 3) = no_buttons" by simp
qed

text \<open>
  A pointer frame is planned safely: at most five host events; if all are accepted the host holds
  the desired buttons; if it stops part way, each button is still either as it was or as desired.
\<close>

theorem pointer_plan_safe:
  "length (pl_events (planPointerFrame before desired dx dy wheel)) \<le> 5 \<and>
   (length (pl_events (planPointerFrame before desired dx dy wheel)) \<le> accepted \<longrightarrow>
      pointerButtonsAfter (planPointerFrame before desired dx dy wheel) accepted = desired) \<and>
   level_of k (pointerButtonsAfter (planPointerFrame before desired dx dy wheel) accepted)
     \<in> {level_of k before, level_of k desired}"
  using plan_events plan_complete plan_prefix by blast

theorem pointer_plan_safe_witness:
  "pointerButtonsAfter (planPointerFrame no_buttons (no_buttons\<lparr>mb_left := True\<rparr>) 1 0 0) 5 = no_buttons\<lparr>mb_left := True\<rparr>"
proof -
  let ?p = "planPointerFrame no_buttons (no_buttons\<lparr>mb_left := True\<rparr>) 1 0 0"
  have "length (pl_events ?p) \<le> 5" using pointer_plan_safe by blast
  then show ?thesis
    using pointer_plan_safe [of no_buttons "no_buttons\<lparr>mb_left := True\<rparr>" 1 0 0 5] by blast
qed

end
