(* ===== verification/Session_Audio.thy ===== *)
theory Session_Audio
  imports Session_Motors
begin

text \<open>
  The outbound audio lanes of \<^verbatim>\<open>SessionService\<close>: the speaker and the haptic stream of a virtual pad,
  re-windowed into 20 ms frames, encoded and sent to the client that holds the pad, or reduced to motor
  levels for a client that can only rumble.  The encoder is the interface of
  \<^verbatim>\<open>core/audio/audio_codec.h\<close> (a factory and an \<open>encode\<close> function are arguments); the floating-point
  scaling of \<^verbatim>\<open>hapticLaneMagnitude\<close> is the argument \<open>level\<close>, everything around it is modelled.
\<close>

section \<open>Lanes\<close>

abbreviation (input) AUDIO_SPEAKER_CHANNELS :: nat where
  "AUDIO_SPEAKER_CHANNELS \<equiv> 2"

abbreviation (input) AUDIO_HAPTIC_CHANNELS :: nat where
  "AUDIO_HAPTIC_CHANNELS \<equiv> 2"

abbreviation (input) HAPTIC_RUMBLE_FLOOR :: nat where
  "HAPTIC_RUMBLE_FLOOR \<equiv> 655"

abbreviation (input) AUDIO_READ_ATTEMPTS :: nat where
  "AUDIO_READ_ATTEMPTS \<equiv> 64"

datatype outbound_audio_lane = Speaker | Haptic

record 'e audio_lane =
  al_gen :: u32
  al_encoder :: "'e option"
  al_pending :: "i16 list"
  al_seq :: u16

definition default_audio_lane :: "'e audio_lane" where
  "default_audio_lane = \<lparr>al_gen = 0, al_encoder = None, al_pending = [], al_seq = 0\<rparr>"

record 'e audio_lanes =
  speakerLanes :: "'e audio_lane list"
  hapticLanes :: "'e audio_lane list"

definition default_audio_lanes :: "'e audio_lanes" where
  "default_audio_lanes =
     \<lparr>speakerLanes = replicate (MAX_BACKEND_CONTROLLERS + 1) default_audio_lane,
      hapticLanes = replicate (MAX_BACKEND_CONTROLLERS + 1) default_audio_lane\<rparr>"

text \<open>
  A codec factory, each \<^verbatim>\<open>make\<close> returning null when it refuses, and the type of an encoder's one
  operation: the window and the room for the packet to the encoder's next state and the packet, empty
  when the encode failed.
\<close>

record 'e audio_codecs =
  makeSpeakerEncoder :: "'e option"
  makeHapticEncoder :: "'e option"

type_synonym 'e encode_fn = "'e \<Rightarrow> i16 list \<Rightarrow> nat \<Rightarrow> 'e \<times> u8 list"

record audio_target =
  at_gen :: u32
  at_caps :: u16

datatype endpoint_read = Bound session_endpoint nat | Unbound | Changing

definition lane_channels :: "outbound_audio_lane \<Rightarrow> nat" where
  "lane_channels l = (case l of Speaker \<Rightarrow> AUDIO_SPEAKER_CHANNELS | Haptic \<Rightarrow> AUDIO_HAPTIC_CHANNELS)"

definition get_lane :: "outbound_audio_lane \<Rightarrow> nat \<Rightarrow> 'e audio_lanes \<Rightarrow> 'e audio_lane" where
  "get_lane l serial a = (case l of Speaker \<Rightarrow> speakerLanes a ! serial | Haptic \<Rightarrow> hapticLanes a ! serial)"

definition put_lane :: "outbound_audio_lane \<Rightarrow> nat \<Rightarrow> 'e audio_lane \<Rightarrow> 'e audio_lanes \<Rightarrow> 'e audio_lanes" where
  "put_lane l serial x a =
     (case l of
        Speaker \<Rightarrow> a\<lparr>speakerLanes := (speakerLanes a)[serial := x]\<rparr>
      | Haptic \<Rightarrow> a\<lparr>hapticLanes := (hapticLanes a)[serial := x]\<rparr>)"

definition audioLane :: "outbound_audio_lane \<Rightarrow> nat \<Rightarrow> u32 \<Rightarrow> 'e audio_lanes \<Rightarrow> 'e audio_lane" where
  "audioLane l serial gen a =
     (let state = get_lane l serial a in
      if al_gen state = gen then state
      else state\<lparr>al_gen := gen, al_encoder := None, al_pending := [], al_seq := 0\<rparr>)"

section \<open>Who holds a pad\<close>

definition owner_of :: "nat \<Rightarrow> hot_table \<Rightarrow> (nat \<times> nat) option" where
  "owner_of serial t =
     (let owner = padOwners t ! serial; slt = hotOwnerSlot owner; ctrlIdx = hotOwnerIndex owner in
      if slt < 0 \<or> slt \<ge> int MAX_SESSIONS \<or> ctrlIdx \<ge> MAX_CONTROLLERS_PER_CONN then None
      else Some (nat slt, ctrlIdx))"

fun read_target :: "nat \<Rightarrow> nat \<Rightarrow> hot_table \<Rightarrow> audio_target option" where
  "read_target 0 serial t = None"
| "read_target (Suc attempts) serial t =
     (case owner_of serial t of
        None \<Rightarrow> None
      | Some (slt, i) \<Rightarrow>
          (case hs_read (slots t ! slt) (\<lambda>h. (hs_ctrl h ! i, hs_padInfo h ! i, hs_padGen h ! i)) of
             None \<Rightarrow> read_target attempts serial t
           | Some (word, info, gen) \<Rightarrow>
               if word AND HOT_CTRL_ACTIVE = 0 \<or> word AND HOT_CTRL_SERIAL_MASK \<noteq> of_nat serial then None
               else Some \<lparr>at_gen = gen, at_caps = hotPadCaps info\<rparr>))"

definition readAudioTarget :: "nat \<Rightarrow> hot_table \<Rightarrow> audio_target option" where
  "readAudioTarget serial t =
     (if serial = 0 \<or> serial > MAX_BACKEND_CONTROLLERS then None
      else read_target AUDIO_READ_ATTEMPTS serial t)"

definition readAudioEndpoint :: "nat \<Rightarrow> u32 \<Rightarrow> hot_table \<Rightarrow> endpoint_read" where
  "readAudioEndpoint serial gen t =
     (case owner_of serial t of
        None \<Rightarrow> Unbound
      | Some (slt, i) \<Rightarrow>
          (case hs_read (slots t ! slt) (\<lambda>h. (hs_token h, hs_ctrl h ! i, hs_padGen h ! i, hs_loadKey h)) of
             None \<Rightarrow> Changing
           | Some (tok, word, padGen, key) \<Rightarrow>
               if tok \<noteq> 0 \<and> word AND HOT_CTRL_ACTIVE \<noteq> 0 \<and> word AND HOT_CTRL_SERIAL_MASK = of_nat serial \<and>
                  padGen = gen
               then Bound \<lparr>ep_token = tok, ep_key = key, ep_slot = slt\<rparr> i
               else Unbound))"

section \<open>One window\<close>

definition bump_sent :: "outbound_audio_lane \<Rightarrow> audio_counters \<Rightarrow> audio_counters" where
  "bump_sent l c =
     (case l of Speaker \<Rightarrow> c\<lparr>speakerSent := speakerSent c + 1\<rparr> | Haptic \<Rightarrow> c\<lparr>hapticSent := hapticSent c + 1\<rparr>)"

definition bump_silence :: "outbound_audio_lane \<Rightarrow> audio_counters \<Rightarrow> audio_counters" where
  "bump_silence l c =
     (case l of
        Speaker \<Rightarrow> c\<lparr>speakerSilenceSuppressed := speakerSilenceSuppressed c + 1\<rparr>
      | Haptic \<Rightarrow> c\<lparr>hapticSilenceSuppressed := hapticSilenceSuppressed c + 1\<rparr>)"

definition bump_failed :: "outbound_audio_lane \<Rightarrow> audio_counters \<Rightarrow> audio_counters" where
  "bump_failed l c =
     (case l of
        Speaker \<Rightarrow> c\<lparr>speakerEncodeFailed := speakerEncodeFailed c + 1\<rparr>
      | Haptic \<Rightarrow> c\<lparr>hapticEncodeFailed := hapticEncodeFailed c + 1\<rparr>)"

definition bump_audio :: "(audio_counters \<Rightarrow> audio_counters) \<Rightarrow> 'b svc \<Rightarrow> 'b svc" where
  "bump_audio f s = s\<lparr>s_audio := f (s_audio s)\<rparr>"

definition audio_effect :: "outbound_audio_lane \<Rightarrow> session_endpoint \<Rightarrow> nat \<Rightarrow> u16 \<Rightarrow> u8 list \<Rightarrow> effect" where
  "audio_effect l to i seq opus =
     (case l of Speaker \<Rightarrow> SendSpeakerAudio to i seq opus | Haptic \<Rightarrow> SendHapticAudio to i seq opus)"

fun send_packet :: "nat \<Rightarrow> outbound_audio_lane \<Rightarrow> nat \<Rightarrow> u32 \<Rightarrow> u16 \<Rightarrow> u8 list \<Rightarrow> 'b svc \<Rightarrow> 'b svc" where
  "send_packet 0 l serial gen seq opus s = s"
| "send_packet (Suc attempts) l serial gen seq opus s =
     (case readAudioEndpoint serial gen (s_hot s) of
        Bound to i \<Rightarrow> emit (audio_effect l to i seq opus) (bump_audio (bump_sent l) s)
      | Unbound \<Rightarrow> s
      | Changing \<Rightarrow> send_packet attempts l serial gen seq opus s)"

definition sendAudioWindow :: "'e encode_fn \<Rightarrow> outbound_audio_lane \<Rightarrow> nat \<Rightarrow> i16 list \<Rightarrow>
    'e audio_lane \<times> 'b svc \<Rightarrow> 'e audio_lane \<times> 'b svc" where
  "sendAudioWindow enc l serial frame = (\<lambda>(state, s).
     if isDigitalSilence frame then (state, bump_audio (bump_silence l) s)
     else case enc (the (al_encoder state)) frame (MAX_INNER_PAYLOAD_BYTES - AUDIO_WIRE_HEADER_BYTES) of
       (e, packet) \<Rightarrow>
         let seq = al_seq state; state1 = state\<lparr>al_encoder := Some e, al_seq := seq + 1\<rparr> in
         if packet = [] then (state1, bump_audio (bump_failed l) s)
         else (state1, send_packet AUDIO_READ_ATTEMPTS l serial (al_gen state1) seq packet s))"

section \<open>Re-windowing\<close>

text \<open>
  Both callers cut the stream the same way: a pending tail is topped up first, whole windows go
  straight from the caller's buffer, the rest waits.  \<open>f\<close> is what is done with a window of \<open>n\<close> samples.
\<close>

function whole_windows :: "nat \<Rightarrow> (i16 list \<Rightarrow> 's \<Rightarrow> 's) \<Rightarrow> i16 list \<Rightarrow> 's \<Rightarrow> i16 list \<times> 's" where
  "whole_windows n f pcm s =
     (if n = 0 \<or> length pcm < n then (pcm, s) else whole_windows n f (drop n pcm) (f (take n pcm) s))"
  by auto
termination by (relation "measure (\<lambda>(n, f, pcm, s). length pcm)") auto

declare whole_windows.simps [simp del]

definition rewindow :: "nat \<Rightarrow> (i16 list \<Rightarrow> 's \<Rightarrow> 's) \<Rightarrow> i16 list \<Rightarrow> i16 list \<Rightarrow> 's \<Rightarrow> i16 list \<times> 's" where
  "rewindow n f pending pcm s =
     (if pending = [] then whole_windows n f pcm s
      else let need = n - length pending;
               k = (if need < length pcm then need else length pcm);
               p = pending @ take k pcm
           in if length p < n then (p, s) else whole_windows n f (drop k pcm) (f p s))"

definition make_encoder :: "'e audio_codecs option \<Rightarrow> outbound_audio_lane \<Rightarrow> 'e option" where
  "make_encoder cods l =
     (case cods of
        None \<Rightarrow> None
      | Some cod \<Rightarrow> (case l of Speaker \<Rightarrow> makeSpeakerEncoder cod | Haptic \<Rightarrow> makeHapticEncoder cod))"

definition encodeAndSendAudio :: "'e encode_fn \<Rightarrow> 'e audio_codecs option \<Rightarrow> outbound_audio_lane \<Rightarrow> nat \<Rightarrow> audio_target \<Rightarrow> i16 list \<Rightarrow>
    'e audio_lanes \<times> 'b svc \<Rightarrow> bool \<times> 'e audio_lanes \<times> 'b svc" where
  "encodeAndSendAudio enc cods l serial target pcm = (\<lambda>(a, s).
     let state0 = audioLane l serial (at_gen target) a;
         state = (if al_encoder state0 = None then state0\<lparr>al_encoder := make_encoder cods l\<rparr> else state0)
     in if al_encoder state = None then (True, put_lane l serial state a, s)
        else case rewindow (AUDIO_FRAME_SAMPLES * lane_channels l) (sendAudioWindow enc l serial)
                    (al_pending state) pcm (state, s) of
               (rest, state1, s1) \<Rightarrow> (True, put_lane l serial (state1\<lparr>al_pending := rest\<rparr>) a, s1))"

section \<open>Reduction to motor levels\<close>

text \<open>
  \<open>level sumSquares frames\<close> stands for \<^verbatim>\<open>static_cast<int>(sqrt(sumSquares / frames) * sqrt(2) * (65535 / 32767) + 0.5)\<close>
  in double arithmetic; the sum of squares itself is exact in a double.
\<close>

definition sum_squares :: "i16 list \<Rightarrow> nat \<Rightarrow> nat \<Rightarrow> nat \<Rightarrow> int" where
  "sum_squares pcm frames channels channel =
     sum_list (map (\<lambda>f. (sint (pcm ! (f * channels + channel))) ^ 2) [0..<frames])"

definition hapticLaneMagnitude :: "(int \<Rightarrow> nat \<Rightarrow> nat) \<Rightarrow> i16 list \<Rightarrow> nat \<Rightarrow> nat \<Rightarrow> nat \<Rightarrow> u16" where
  "hapticLaneMagnitude level pcm frames channels channel =
     (if frames = 0 \<or> channel \<ge> channels then 0
      else let magnitude = min (level (sum_squares pcm frames channels channel) frames) 65535 in
        if magnitude < HAPTIC_RUMBLE_FLOOR then 0 else of_nat magnitude)"

definition hapticWindowToRumble :: "(int \<Rightarrow> nat \<Rightarrow> nat) \<Rightarrow> i16 list \<Rightarrow> nat \<Rightarrow> rumble_report" where
  "hapticWindowToRumble level pcm frames =
     no_rumble\<lparr>strongMagnitude := hapticLaneMagnitude level pcm frames AUDIO_HAPTIC_CHANNELS 0,
               weakMagnitude := hapticLaneMagnitude level pcm frames AUDIO_HAPTIC_CHANNELS 1\<rparr>"

definition haptic_ctrl :: "ticks \<Rightarrow> u32 \<Rightarrow> rumble_report \<Rightarrow> connection \<Rightarrow> controller \<Rightarrow> 'b svc \<Rightarrow> controller \<times> 'b svc" where
  "haptic_ctrl now gen lvl r c s =
     (if plugGen c \<noteq> gen then (c, s)
      else let s1 = bump_audio (\<lambda>k. k\<lparr>hapticReducedToRumble := hapticReducedToRumble k + 1\<rparr>) s;
               c1 = c\<lparr>hapticRumble := lvl,
                      hapticRumbleExpiresAt := now + msec (int (unat HAPTIC_RUMBLE_WIRE_DURATION_MS))\<rparr>;
               durationMs = (if motors_held (hidRumble c1) then RUMBLE_WIRE_DURATION_MS
                             else HAPTIC_RUMBLE_WIRE_DURATION_MS);
               refreshDue = now - hapticRumbleSentAt c1 \<ge> msec HAPTIC_RUMBLE_REFRESH_MS
           in case forwardRumbleLocked now r c1 durationMs (motors_held lvl \<and> refreshDue) s1 of
                (sent, c2, s2) \<Rightarrow> ((if sent then c2\<lparr>hapticRumbleSentAt := now\<rparr> else c2), s2))"

definition reduceHapticWindow :: "ticks \<Rightarrow> (int \<Rightarrow> nat \<Rightarrow> nat) \<Rightarrow> nat \<Rightarrow> u32 \<Rightarrow> i16 list \<Rightarrow> 'b svc \<Rightarrow> 'b svc" where
  "reduceHapticWindow now level serial gen frame s =
     on_serial serial (haptic_ctrl now gen (hapticWindowToRumble level frame AUDIO_FRAME_SAMPLES)) s"

section \<open>The two callbacks\<close>

text \<open>\<open>pcm\<close> holds the \<open>frames * channels\<close> samples of the batch.\<close>

definition handleSpeakerAudioFromBackend :: "'e encode_fn \<Rightarrow> 'e audio_codecs option \<Rightarrow> nat \<Rightarrow> i16 list \<Rightarrow>
    'e audio_lanes \<times> 'b svc \<Rightarrow> bool \<times> 'e audio_lanes \<times> 'b svc" where
  "handleSpeakerAudioFromBackend enc cods serial pcm = (\<lambda>(a, s).
     if pcm = [] then (False, a, s)
     else if \<not> pol_speaker (audioPolicy s) then (False, a, s)
     else case readAudioTarget serial (s_hot s) of
       None \<Rightarrow> (False, a, s)
     | Some target \<Rightarrow>
         if at_caps target AND CAP_SPEAKER = 0 then (False, a, s)
         else encodeAndSendAudio enc cods Speaker serial target pcm (a, s))"

definition handleHapticAudioFromBackend :: "ticks \<Rightarrow> (int \<Rightarrow> nat \<Rightarrow> nat) \<Rightarrow> 'e encode_fn \<Rightarrow>
    'e audio_codecs option \<Rightarrow> nat \<Rightarrow> i16 list \<Rightarrow> 'e audio_lanes \<times> 'b svc \<Rightarrow> bool \<times> 'e audio_lanes \<times> 'b svc" where
  "handleHapticAudioFromBackend now level enc cods serial pcm = (\<lambda>(a, s).
     if pcm = [] then (False, a, s)
     else if \<not> pol_haptics (audioPolicy s) then (False, a, s)
     else case readAudioTarget serial (s_hot s) of
       None \<Rightarrow> (False, a, s)
     | Some target \<Rightarrow>
         if at_caps target AND CAP_HAPTIC_AUDIO \<noteq> 0
         then encodeAndSendAudio enc cods Haptic serial target pcm (a, s)
         else if at_caps target AND CAP_RUMBLE = 0 then (False, a, s)
         else let lane = audioLane Haptic serial (at_gen target) a in
           (case rewindow (AUDIO_FRAME_SAMPLES * AUDIO_HAPTIC_CHANNELS)
                   (reduceHapticWindow now level serial (at_gen target)) (al_pending lane) pcm s of
              (rest, s1) \<Rightarrow> (True, put_lane Haptic serial (lane\<lparr>al_pending := rest\<rparr>) a, s1)))"
section \<open>Windows of the stream\<close>

text \<open>The reference: the stream cut into windows of \<open>n\<close> samples, and what is left over.\<close>

function windows :: "nat \<Rightarrow> i16 list \<Rightarrow> i16 list list" where
  "windows n xs = (if n = 0 \<or> length xs < n then [] else take n xs # windows n (drop n xs))"
  by auto
termination by (relation "measure (\<lambda>(n, xs). length xs)") auto

declare windows.simps [simp del]

definition leftover :: "nat \<Rightarrow> i16 list \<Rightarrow> i16 list" where
  "leftover n xs = drop (n * length (windows n xs)) xs"

lemma windows_short: "length xs < n \<Longrightarrow> windows n xs = []" "length xs < n \<Longrightarrow> leftover n xs = xs"
  by (simp_all add: windows.simps [of n xs] leftover_def)

lemma windows_step:
  assumes "0 < n" "length w = n"
  shows "windows n (w @ xs) = w # windows n xs" "leftover n (w @ xs) = leftover n xs"
proof -
  show e: "windows n (w @ xs) = w # windows n xs" using assms by (simp add: windows.simps [of n "w @ xs"])
  show "leftover n (w @ xs) = leftover n xs" unfolding leftover_def e using assms by simp
qed

lemma windows_concat:
  assumes "0 < n"
  shows "concat (windows n xs) @ leftover n xs = xs \<and> (\<forall>w\<in>set (windows n xs). length w = n) \<and> length (leftover n xs) < n"
proof (induction "length xs" arbitrary: xs rule: less_induct)
  case less
  show ?case
  proof (cases "length xs < n")
    case True
    then show ?thesis by (simp add: windows_short)
  next
    case False
    have xs: "xs = take n xs @ drop n xs" by simp
    have l: "length (take n xs) = n" using False by simp
    have "length (drop n xs) < length xs" using assms False by auto
    note ih = less.hyps [OF this]
    show ?thesis
      by (subst (1 2 3 4 5) xs, unfold windows_step [OF assms l]) (use ih l in auto)
  qed
qed

lemma windows_append:
  assumes "0 < n"
  shows "windows n (xs @ ys) = windows n xs @ windows n (leftover n xs @ ys)"
    "leftover n (xs @ ys) = leftover n (leftover n xs @ ys)"
proof -
  have "windows n (concat ws @ zs) = ws @ windows n zs \<and> leftover n (concat ws @ zs) = leftover n zs"
    if "\<forall>w\<in>set ws. length w = n" for ws zs
    using that by (induction ws) (simp_all add: windows_step [OF assms])
  then have "windows n (concat (windows n xs) @ (leftover n xs @ ys)) = windows n xs @ windows n (leftover n xs @ ys)"
      "leftover n (concat (windows n xs) @ (leftover n xs @ ys)) = leftover n (leftover n xs @ ys)"
    using windows_concat [OF assms, of xs] by blast+
  then show "windows n (xs @ ys) = windows n xs @ windows n (leftover n xs @ ys)"
      "leftover n (xs @ ys) = leftover n (leftover n xs @ ys)"
    using windows_concat [OF assms, of xs] by (metis append.assoc)+
qed

lemma whole_windows_ref:
  assumes "0 < n"
  shows "whole_windows n f xs s = (leftover n xs, fold f (windows n xs) s)"
proof (induction "length xs" arbitrary: xs s rule: less_induct)
  case less
  show ?case
  proof (cases "length xs < n")
    case True
    then show ?thesis by (simp add: whole_windows.simps windows_short)
  next
    case False
    have l: "length (take n xs) = n" using False by simp
    have "length (drop n xs) < length xs" using assms False by auto
    then have "whole_windows n f xs s = (leftover n (drop n xs), fold f (windows n (drop n xs)) (f (take n xs) s))"
      using less.hyps False assms by (simp add: whole_windows.simps [of n f xs s])
    then show ?thesis using windows_step [OF assms l, of "drop n xs"] by simp
  qed
qed

lemma rewindow_ref:
  assumes n: "0 < n" and p: "length p < n"
  shows "rewindow n f p pcm s = (leftover n (p @ pcm), fold f (windows n (p @ pcm)) s)"
proof (cases "p = []")
  case True
  then show ?thesis by (simp add: rewindow_def whole_windows_ref [OF n])
next
  case False
  define k where "k = (if n - length p < length pcm then n - length p else length pcm)"
  have rw: "rewindow n f p pcm s =
      (if length (p @ take k pcm) < n then (p @ take k pcm, s) else whole_windows n f (drop k pcm) (f (p @ take k pcm) s))"
    unfolding rewindow_def Let_def k_def [symmetric] using False by simp
  show ?thesis
  proof (cases "length p + length pcm < n")
    case True
    then have "take k pcm = pcm" by (simp add: k_def)
    then show ?thesis using True windows_short [of "p @ pcm" n] by (simp add: rw)
  next
    case whole: False
    have "k = n - length p" "k \<le> length pcm" using whole p by (auto simp: k_def)
    then have l: "length (p @ take k pcm) = n" using p by simp
    have e: "p @ pcm = (p @ take k pcm) @ drop k pcm" by simp
    have "rewindow n f p pcm s = whole_windows n f (drop k pcm) (f (p @ take k pcm) s)" using l by (simp add: rw)
    also have "\<dots> = (leftover n (p @ pcm), fold f (windows n (p @ pcm)) s)"
      unfolding whole_windows_ref [OF n] e windows_step [OF n l] by simp
    finally show ?thesis .
  qed
qed

text \<open>However the backend splits its stream into batches, the windows are those of the whole stream.\<close>

lemma rewindow_batches:
  assumes n: "0 < n"
  shows "fold (\<lambda>pcm (p, s). rewindow n f p pcm s) batches ([], s) = rewindow n f [] (concat batches) s"
proof -
  have "fold (\<lambda>pcm (p, s). rewindow n f p pcm s) batches (leftover n xs, s) =
      (leftover n (xs @ concat batches), fold f (windows n (leftover n xs @ concat batches)) s)" for xs
  proof (induction batches arbitrary: xs s)
    case Nil
    have "length (leftover n xs) < n" using windows_concat [OF n] by blast
    then show ?case by (simp add: windows_short)
  next
    case (Cons b bs)
    have l: "length (leftover n xs) < n" using windows_concat [OF n] by blast
    have "leftover n (leftover n xs @ b) = leftover n (xs @ b)" using windows_append(2) [OF n, of xs b] by simp
    then show ?case
      using Cons.IH [of "xs @ b"] windows_append(1) [OF n, of "leftover n xs @ b" "concat bs"]
      by (simp add: rewindow_ref [OF n l])
  qed
  from this [of "[]"] show ?thesis using n by (simp add: windows_short rewindow_ref)
qed

section \<open>Who is addressed\<close>

lemma hot_owner:
  assumes inv: "svc_inv F s" and x: "1 \<le> x" "x \<le> MAX_BACKEND_CONTROLLERS"
  shows "r \<in> snd ` set (s_conns s) \<Longrightarrow> holds r x i \<Longrightarrow> owner_of x (s_hot s) = Some (slot r, i)"
    "(\<And>r i. r \<in> snd ` set (s_conns s) \<Longrightarrow> \<not> holds r x i) \<Longrightarrow> owner_of x (s_hot s) = None"
proof -
  have hot: "hot_ok (snd ` set (s_conns s)) (s_hot s)" and rows: "rows_ok (s_conns s)"
    using inv by (simp_all add: svc_inv_def)
  have own: "owners_ok (snd ` set (s_conns s)) (padOwners (s_hot s))" using hot by (simp add: hot_ok_def)
  {
    assume r: "r \<in> snd ` set (s_conns s)" and h: "holds r x i"
    have sl: "slot r < 32" "row_ok r" using rows r by (auto simp: rows_ok_def)
    have i: "i < 16" using h sl(2) by (simp add: holds_def row_ok_def)
    have "padOwners (s_hot s) ! x = hotPadOwner (slot r) i" using own r h x unfolding owners_ok_def by blast
    then show "owner_of x (s_hot s) = Some (slot r, i)"
      using hotPadOwner_read [of "slot r" i] sl i by (simp add: owner_of_def Let_def)
  }
  {
    assume none: "\<And>r i. r \<in> snd ` set (s_conns s) \<Longrightarrow> \<not> holds r x i"
    then have "padOwners (s_hot s) ! x = 0" using own x unfolding owners_ok_def by blast
    then show "owner_of x (s_hot s) = None" by (simp add: owner_of_def hotOwnerSlot_def Let_def)
  }
qed
lemma read_slot:
  assumes inv: "svc_inv F s" and r: "r \<in> snd ` set (s_conns s)" and h: "holds r x i"
  shows "1 \<le> x" "x \<le> MAX_BACKEND_CONTROLLERS" "i < MAX_CONTROLLERS_PER_CONN"
    "hs_ctrl (slots (s_hot s) ! slot r) ! i AND HOT_CTRL_ACTIVE \<noteq> 0"
    "hs_ctrl (slots (s_hot s) ! slot r) ! i AND HOT_CTRL_SERIAL_MASK = of_nat x"
    "hs_padInfo (slots (s_hot s) ! slot r) ! i = padInfoWord (controllers r ! i)"
    "hs_padGen (slots (s_hot s) ! slot r) ! i = plugGen (controllers r ! i)"
proof -
  note m = hot_slot_row [OF inv r]
  have len: "length (controllers r) = 16" using m(4) by (simp add: row_ok_def)
  show i: "i < MAX_CONTROLLERS_PER_CONN" using h len by (simp add: holds_def)
  have ok: "ctrl_ok i (controllers r ! i)" using m(4) i by (simp add: row_ok_def)
  have c: "active (controllers r ! i)" "serialNo (controllers r ! i) = x" using h by (simp_all add: holds_def)
  show "1 \<le> x" "x \<le> MAX_BACKEND_CONTROLLERS" using ok c by (auto simp: ctrl_ok_def)
  then have x: "x < 256" by simp
  have w: "hs_ctrl (slots (s_hot s) ! slot r) ! i = ctrlWord (controllers r ! i)"
    using m(1) i len by (simp add: mirrors_def)
  show "hs_ctrl (slots (s_hot s) ! slot r) ! i AND HOT_CTRL_ACTIVE \<noteq> 0"
    unfolding w using ctrlWord_read(2) [OF ok] c by blast
  have "hs_ctrl (slots (s_hot s) ! slot r) ! i AND HOT_CTRL_SERIAL_MASK = hotCtrlWord True (of_nat x) AND HOT_CTRL_SERIAL_MASK"
    unfolding w ctrlWord_def using c by simp
  then show "hs_ctrl (slots (s_hot s) ! slot r) ! i AND HOT_CTRL_SERIAL_MASK = of_nat x"
    by (simp only: hotCtrlWord_serial serial_masked [OF x])
  show "hs_padInfo (slots (s_hot s) ! slot r) ! i = padInfoWord (controllers r ! i)"
      "hs_padGen (slots (s_hot s) ! slot r) ! i = plugGen (controllers r ! i)"
    using m(1) i len c by (simp_all add: mirrors_def padGenWord_def)
qed

lemma read_target_unfold: "0 < n \<Longrightarrow> read_target n x t = read_target (Suc (n - 1)) x t"
  by simp

lemma send_packet_unfold: "0 < n \<Longrightarrow> send_packet n l x g q p s = send_packet (Suc (n - 1)) l x g q p s"
  by simp

lemma readAudioTarget_holder:
  assumes inv: "svc_inv F s" and r: "r \<in> snd ` set (s_conns s)" and h: "holds r x i"
  shows "readAudioTarget x (s_hot s) =
    Some \<lparr>at_gen = plugGen (controllers r ! i), at_caps = caps (controllers r ! i)\<rparr>"
proof -
  note w = read_slot [OF inv r h]
  have "caps (controllers r ! i) = hotPadCaps (padInfoWord (controllers r ! i))"
    using h by (simp add: padInfoWord_def holds_def)
  then have "read_target AUDIO_READ_ATTEMPTS x (s_hot s) =
      Some \<lparr>at_gen = plugGen (controllers r ! i), at_caps = caps (controllers r ! i)\<rparr>"
    using w hot_owner(1) [OF inv w(1,2) r h]
    by (subst read_target_unfold) (simp_all only: read_target.simps hot_slot_row(2) [OF inv r] option.case prod.case
        if_False simp_thms zero_less_numeral)
  then show ?thesis using w(1,2) by (simp add: readAudioTarget_def)
qed

lemma readAudioTarget_none:
  assumes inv: "svc_inv F s" and none: "\<And>r i. r \<in> snd ` set (s_conns s) \<Longrightarrow> \<not> holds r x i"
  shows "readAudioTarget x (s_hot s) = None"
proof -
  have "read_target AUDIO_READ_ATTEMPTS x (s_hot s) = None" if "1 \<le> x" "x \<le> MAX_BACKEND_CONTROLLERS"
    using hot_owner(2) [OF inv that none]
    by (subst read_target_unfold) (simp_all only: read_target.simps option.case zero_less_numeral)
  then show ?thesis by (simp add: readAudioTarget_def)
qed

lemma readAudioEndpoint_holder:
  assumes inv: "svc_inv F s" and r: "r \<in> snd ` set (s_conns s)" and h: "holds r x i"
  shows "readAudioEndpoint x (plugGen (controllers r ! i)) (s_hot s) = Bound (conn_endpoint r) i"
proof -
  note w = read_slot [OF inv r h]
  have "token r \<noteq> 0" using inv r by (auto simp: svc_inv_def rows_ok_def)
  moreover have "hs_token (slots (s_hot s) ! slot r) = token r" "hs_loadKey (slots (s_hot s) ! slot r) = sessionKey r"
    using hot_slot_row(1) [OF inv r] by (simp_all add: mirrors_def)
  ultimately show ?thesis
    using w hot_owner(1) [OF inv w(1,2) r h]
    by (simp add: readAudioEndpoint_def conn_endpoint_def hot_slot_row(2) [OF inv r])
qed

section \<open>What is sent\<close>

text \<open>
  The reference sender: over the windows of a stream, the packets with their sequence numbers, the
  encoder's state and the next number.  Silence takes no number, a failed encode takes one.
\<close>

fun encode_stream :: "'e encode_fn \<Rightarrow> i16 list list \<Rightarrow> 'e \<Rightarrow> u16 \<Rightarrow> (u16 \<times> u8 list) list \<times> 'e \<times> u16" where
  "encode_stream enc [] e seq = ([], e, seq)"
| "encode_stream enc (w # ws) e seq =
     (if isDigitalSilence w then encode_stream enc ws e seq
      else case enc e w (MAX_INNER_PAYLOAD_BYTES - AUDIO_WIRE_HEADER_BYTES) of
        (e1, p) \<Rightarrow> (case encode_stream enc ws e1 (seq + 1) of
           (ps, res) \<Rightarrow> ((if p = [] then ps else (seq, p) # ps), res)))"

lemma rx_only_bump: "rx_only s (bump_audio f s)" "s_hot (bump_audio f s) = s_hot s" "s_out (bump_audio f s) = s_out s"
  by (simp_all add: bump_audio_def rx_onlyI)

lemma sendAudioWindow_step:
  assumes inv: "svc_inv F s" and r: "r \<in> snd ` set (s_conns s)" and h: "holds r x i"
    and g: "al_gen st = plugGen (controllers r ! i)" and e: "al_encoder st = Some e"
    and q: "sendAudioWindow enc l x w (st, s) = (st', s')" and ref: "encode_stream enc [w] e (al_seq st) = (ps, e', seq')"
  shows "rx_only s s' \<and> s_out s' = s_out s @ map (\<lambda>(q, p). audio_effect l (conn_endpoint r) i q p) ps \<and>
    st' = st\<lparr>al_encoder := Some e', al_seq := seq'\<rparr>"
proof (cases "isDigitalSilence w")
  case True
  then show ?thesis using q ref e by (cases st) (auto simp: sendAudioWindow_def rx_only_bump)
next
  case False
  obtain e1 p where p: "enc e w (MAX_INNER_PAYLOAD_BYTES - AUDIO_WIRE_HEADER_BYTES) = (e1, p)" by fastforce
  have st': "st' = st\<lparr>al_encoder := Some e1, al_seq := al_seq st + 1\<rparr>" and res: "e' = e1" "seq' = al_seq st + 1"
      "ps = (if p = [] then [] else [(al_seq st, p)])"
    using q ref False p e by (simp_all add: sendAudioWindow_def Let_def split: if_splits)
  show ?thesis
  proof (cases "p = []")
    case True
    then have "s' = bump_audio (bump_failed l) s" using q False p e by (simp add: sendAudioWindow_def Let_def)
    then show ?thesis using True st' res by (simp add: rx_only_bump)
  next
    case sent: False
    have "send_packet AUDIO_READ_ATTEMPTS l x (plugGen (controllers r ! i)) (al_seq st) p s =
        emit (audio_effect l (conn_endpoint r) i (al_seq st) p) (bump_audio (bump_sent l) s)"
      by (subst send_packet_unfold)
        (simp_all only: send_packet.simps readAudioEndpoint_holder [OF inv r h] endpoint_read.case zero_less_numeral)
    then have "s' = emit (audio_effect l (conn_endpoint r) i (al_seq st) p) (bump_audio (bump_sent l) s)"
      using q False p e sent g
      by (clarsimp simp: sendAudioWindow_def Let_def)
    then show ?thesis
      using sent st' res rx_only_trans [OF rx_only_bump(1) rx_onlyI(2)] by (simp add: rx_only_bump emit_def)
  qed
qed

lemma send_windows:
  assumes "svc_inv F s" "r \<in> snd ` set (s_conns s)" "holds r x i"
    and "al_gen st = plugGen (controllers r ! i)" "al_encoder st = Some e"
    and "fold (sendAudioWindow enc l x) ws (st, s) = (st', s')" "encode_stream enc ws e (al_seq st) = (ps, e', seq')"
  shows "rx_only s s' \<and> s_out s' = s_out s @ map (\<lambda>(q, p). audio_effect l (conn_endpoint r) i q p) ps \<and>
    st' = st\<lparr>al_encoder := Some e', al_seq := seq'\<rparr>"
  using assms
proof (induction ws arbitrary: st s e ps)
  case Nil
  then show ?case by (cases st) auto
next
  case (Cons w ws)
  obtain st1 s1 where one: "sendAudioWindow enc l x w (st, s) = (st1, s1)" by fastforce
  obtain ps1 e1 seq1 where ref: "encode_stream enc [w] e (al_seq st) = (ps1, e1, seq1)" by (metis prod_cases3)
  note a = sendAudioWindow_step [OF Cons.prems(1-5) one ref]
  obtain ps2 where ref2: "encode_stream enc ws e1 seq1 = (ps2, e', seq')" and ps: "ps = ps1 @ ps2"
    using ref Cons.prems(7) by (auto split: if_splits prod.splits)
  have inv1: "svc_inv F s1" using rx_only_inv a Cons.prems(1) by blast
  have c1: "s_conns s1 = s_conns s" using a by (simp add: rx_only_def)
  have rest: "fold (sendAudioWindow enc l x) ws (st1, s1) = (st', s')" using Cons.prems(6) one by simp
  have st1: "al_gen st1 = plugGen (controllers r ! i)" "al_encoder st1 = Some e1" "al_seq st1 = seq1"
    using a Cons.prems(4) by simp_all
  have "rx_only s1 s' \<and> s_out s' = s_out s1 @ map (\<lambda>(q, p). audio_effect l (conn_endpoint r) i q p) ps2 \<and>
      st' = st1\<lparr>al_encoder := Some e', al_seq := seq'\<rparr>"
    by (rule Cons.IH [OF inv1 _ Cons.prems(3) st1(1,2) rest]) (use Cons.prems(2) c1 st1(3) ref2 in simp_all)
  then show ?case using a rx_only_trans [of s s1 s'] ps by auto
qed
definition lanes_ok :: "'e audio_lanes \<Rightarrow> bool" where
  "lanes_ok a \<longleftrightarrow>
     length (speakerLanes a) = MAX_BACKEND_CONTROLLERS + 1 \<and> length (hapticLanes a) = MAX_BACKEND_CONTROLLERS + 1 \<and>
     (\<forall>x\<in>set (speakerLanes a) \<union> set (hapticLanes a). length (al_pending x) < 2 * AUDIO_FRAME_SAMPLES)"

lemma lanes_ok_default [simp]: "lanes_ok default_audio_lanes"
proof -
  have "length (al_pending (default_audio_lane :: 'e audio_lane)) < 2 * AUDIO_FRAME_SAMPLES"
    by (simp add: default_audio_lane_def)
  then show ?thesis
    unfolding lanes_ok_def default_audio_lanes_def audio_lanes.simps length_replicate set_replicate_conv_if by simp
qed

lemma lanes_ok_get:
  assumes "lanes_ok a" "x \<le> MAX_BACKEND_CONTROLLERS"
  shows "length (al_pending (audioLane l x g a)) < AUDIO_FRAME_SAMPLES * lane_channels l"
proof -
  have "length (al_pending (get_lane l x a)) < 2 * AUDIO_FRAME_SAMPLES"
    using assms nth_mem [of x] unfolding lanes_ok_def get_lane_def
    by (cases l) (simp_all add: Un_iff)
  then show ?thesis by (cases l) (simp_all add: audioLane_def lane_channels_def Let_def)
qed

lemma lanes_ok_put:
  assumes "lanes_ok a" "x \<le> MAX_BACKEND_CONTROLLERS" "length (al_pending st) < AUDIO_FRAME_SAMPLES * lane_channels l"
  shows "lanes_ok (put_lane l x st a)" "get_lane l x (put_lane l x st a) = st"
proof -
  show "lanes_ok (put_lane l x st a)"
    using assms set_update_subset_insert [of "speakerLanes a" x st] set_update_subset_insert [of "hapticLanes a" x st]
    by (cases l) (auto simp: lanes_ok_def put_lane_def lane_channels_def)
  show "get_lane l x (put_lane l x st a) = st"
    using assms by (cases l) (simp_all add: lanes_ok_def put_lane_def get_lane_def)
qed

text \<open>
  What one batch does on a lane whose pad is held: the packets of the reference sender over the windows
  of the pending tail and the batch, all to the holder of the pad, and the tail kept for the next batch.
\<close>

lemma encodeAndSendAudio_spec:
  assumes inv: "svc_inv F s" and r: "r \<in> snd ` set (s_conns s)" and h: "holds r x i" and a: "lanes_ok a"
    and lane: "lane = audioLane l x (plugGen (controllers r ! i)) a"
    and e: "(if al_encoder lane = None then make_encoder cods l else al_encoder lane) = Some e"
    and ref: "encode_stream enc (windows (AUDIO_FRAME_SAMPLES * lane_channels l) (al_pending lane @ pcm)) e (al_seq lane) =
      (ps, e', seq')"
    and t: "at_gen target = plugGen (controllers r ! i)"
    and q: "encodeAndSendAudio enc cods l x target pcm (a, s) = (ok, a', s')"
  shows "ok \<and> rx_only s s' \<and> lanes_ok a' \<and>
    s_out s' = s_out s @ map (\<lambda>(q, p). audio_effect l (conn_endpoint r) i q p) ps \<and>
    get_lane l x a' = \<lparr>al_gen = plugGen (controllers r ! i), al_encoder = Some e',
      al_pending = leftover (AUDIO_FRAME_SAMPLES * lane_channels l) (al_pending lane @ pcm), al_seq = seq'\<rparr>"
proof -
  let ?n = "AUDIO_FRAME_SAMPLES * lane_channels l"
  let ?st = "lane\<lparr>al_encoder := Some e\<rparr>"
  have n: "0 < ?n" by (cases l) (simp_all add: lane_channels_def)
  have x: "x \<le> MAX_BACKEND_CONTROLLERS" using read_slot [OF inv r h] by simp
  have gen: "al_gen lane = plugGen (controllers r ! i)" by (simp add: lane audioLane_def Let_def)
  have p: "length (al_pending lane) < ?n" using lanes_ok_get [OF a x] by (simp add: lane)
  have st: "(if al_encoder lane = None then lane\<lparr>al_encoder := make_encoder cods l\<rparr> else lane) = ?st"
    using e by (cases lane) (auto split: if_splits)
  obtain st1 s1 where f: "fold (sendAudioWindow enc l x) (windows ?n (al_pending lane @ pcm)) (?st, s) = (st1, s1)"
    by fastforce
  have rw: "rewindow ?n (sendAudioWindow enc l x) (al_pending lane) pcm (?st, s) =
      (leftover ?n (al_pending lane @ pcm), st1, s1)"
    unfolding rewindow_ref [OF n p] f ..
  have res: "ok" "a' = put_lane l x (st1\<lparr>al_pending := leftover ?n (al_pending lane @ pcm)\<rparr>) a" "s' = s1"
    using q unfolding encodeAndSendAudio_def prod.case t lane [symmetric] Let_def st by (simp_all add: rw)
  have sw: "rx_only s s1 \<and> s_out s1 = s_out s @ map (\<lambda>(q, p). audio_effect l (conn_endpoint r) i q p) ps \<and>
      st1 = ?st\<lparr>al_encoder := Some e', al_seq := seq'\<rparr>"
    by (rule send_windows [OF inv r h _ _ f]) (use gen ref in simp_all)
  have "length (leftover ?n (al_pending lane @ pcm)) < ?n" using windows_concat [OF n] by blast
  then have "length (al_pending (st1\<lparr>al_pending := leftover ?n (al_pending lane @ pcm)\<rparr>)) < ?n" by simp
  note put = lanes_ok_put [OF a x this]
  have "lanes_ok a'" "get_lane l x a' = st1\<lparr>al_pending := leftover ?n (al_pending lane @ pcm)\<rparr>"
    unfolding res(2) by (fact put)+
  then show ?thesis using res(1,3) sw gen by (cases lane) simp
qed

lemma encodeAndSendAudio_none:
  assumes a: "lanes_ok a" "x \<le> MAX_BACKEND_CONTROLLERS"
    and e: "al_encoder (audioLane l x (at_gen target) a) = None" "make_encoder cods l = None"
    and q: "encodeAndSendAudio enc cods l x target pcm (a, s) = (ok, a', s')"
  shows "ok \<and> s' = s \<and> lanes_ok a'"
proof -
  have "length (al_pending ((audioLane l x (at_gen target) a)\<lparr>al_encoder := None\<rparr>)) < AUDIO_FRAME_SAMPLES * lane_channels l"
    using lanes_ok_get [OF a, of l "at_gen target"] by simp
  from lanes_ok_put(1) [OF a this] show ?thesis using q e by (auto simp: encodeAndSendAudio_def Let_def)
qed

lemma put_row_core:
  assumes inv: "svc_inv F s" and r: "r \<in> snd ` set (s_conns s)" and c: "same_core r r'" and rx: "rx_only s s1"
  shows "svc_inv F (put_row r' s1)"
proof -
  have tk: "token r' = token r" using c by (simp add: same_core_def same_session_def)
  have d: "distinct (map fst (s_conns s))" using inv by (simp add: svc_inv_def rows_ok_def)
  have "snd e = r" if "e \<in> set (s_conns s)" "fst e = token r" for e
    using eq_key_imp_eq_value [OF d row_deref(3) [OF inv r], of "snd e"] that by (metis prod.collapse)
  then have "core_rows (s_conns s) (map (\<lambda>e. if fst e = token r' then (fst e, r') else e) (s_conns s))"
    unfolding core_rows_def using c tk by (auto simp: list_all2_conv_all_nth)
  from core_rows_inv [OF inv rx this] show ?thesis using rx by (simp add: put_row_def rx_only_def)
qed

lemma on_serial_rx:
  assumes inv: "svc_inv F s" and f: "\<And>r c t. pad_core (fst (f r c t)) = pad_core c \<and> rx_only t (snd (f r c t))"
  shows "svc_inv F (on_serial x f s)"
proof (cases "findBySerialLocked x s")
  case None
  then show ?thesis using inv by (simp add: on_serial_def)
next
  case (Some p)
  obtain r i where p: "p = (r, i)" by force
  note fb = findBySerialLocked_Some [OF Some [unfolded p]]
  obtain c1 s1 where c1: "f r (controllers r ! i) s = (c1, s1)" by fastforce
  have "pad_core c1 = pad_core (controllers r ! i)" "rx_only s s1" using f [of r "controllers r ! i" s] c1 by simp_all
  then show ?thesis
    using put_row_core [OF inv fb(1) same_core_set_ctrl [OF fb(2)]] Some p c1 by (simp add: on_serial_def)
qed

lemma haptic_step:
  fixes s :: "'b svc"
  shows "pad_core (fst (haptic_ctrl now gen lvl r c s)) = pad_core c \<and> rx_only s (snd (haptic_ctrl now gen lvl r c s))"
proof -
  define c0 where "c0 = c\<lparr>hapticRumble := lvl,
    hapticRumbleExpiresAt := now + msec (int (unat (HAPTIC_RUMBLE_WIRE_DURATION_MS :: u16)))\<rparr>"
  define s0 where "s0 = bump_audio (\<lambda>k. k\<lparr>hapticReducedToRumble := hapticReducedToRumble k + 1\<rparr>) s"
  define dur where "dur = (if motors_held (hidRumble c0) then RUMBLE_WIRE_DURATION_MS else HAPTIC_RUMBLE_WIRE_DURATION_MS)"
  define frc where "frc = (motors_held lvl \<and> now - hapticRumbleSentAt c0 \<ge> msec HAPTIC_RUMBLE_REFRESH_MS)"
  obtain ok c1 s1 where f: "forwardRumbleLocked now r c0 dur frc s0 = (ok, c1, s1)" by (metis prod_cases3)
  have st: "haptic_ctrl now gen lvl r c s =
      (if plugGen c \<noteq> gen then (c, s) else (case forwardRumbleLocked now r c0 dur frc s0 of
         (sent, c2, s2) \<Rightarrow> ((if sent then c2\<lparr>hapticRumbleSentAt := now\<rparr> else c2), s2)))"
    unfolding haptic_ctrl_def Let_def c0_def s0_def dur_def frc_def by (rule refl)
  have b: "rx_only s s0" by (simp add: s0_def rx_only_bump)
  have k: "pad_core (c1\<lparr>hapticRumbleSentAt := now\<rparr>) = pad_core c1" "pad_core c0 = pad_core c" by (simp_all add: c0_def pad_core_def)
  note fc = forwardRumbleLocked_core [OF f]
  have "rx_only s s1" using rx_only_trans [OF b] forwardRumbleLocked_rx_only [of s0 now r c0 dur frc] f by simp
  then show ?thesis using fc(1) k unfolding st f by simp
qed

lemma reduceHapticWindow_inv: "svc_inv F s \<Longrightarrow> svc_inv F (reduceHapticWindow now level x g frame s)"
  unfolding reduceHapticWindow_def by (rule on_serial_rx) (auto simp: haptic_step)
section \<open>The callbacks\<close>

lemma target_holder:
  assumes inv: "svc_inv F s" and t: "readAudioTarget x (s_hot s) = Some t"
  obtains r i where "r \<in> snd ` set (s_conns s)" "holds r x i"
    "t = \<lparr>at_gen = plugGen (controllers r ! i), at_caps = caps (controllers r ! i)\<rparr>"
proof -
  have "\<exists>r\<in>snd ` set (s_conns s). \<exists>i. holds r x i"
    using readAudioTarget_none [OF inv, of x] t by (metis option.distinct(1))
  then obtain r i where ri: "r \<in> snd ` set (s_conns s)" "holds r x i" by blast
  show thesis by (rule that [OF ri]) (use readAudioTarget_holder [OF inv ri] t in simp)
qed

lemma encodeAndSendAudio_effects:
  assumes inv: "svc_inv F s" and r: "r \<in> snd ` set (s_conns s)" and h: "holds r x i" and a: "lanes_ok a"
    and t: "at_gen target = plugGen (controllers r ! i)"
    and q: "encodeAndSendAudio enc cods l x target pcm (a, s) = (ok, a', s')"
  shows "svc_inv F s' \<and> lanes_ok a' \<and>
    (\<exists>ps. s_out s' = s_out s @ map (\<lambda>(q, p). audio_effect l (conn_endpoint r) i q p) ps)"
proof -
  define lane where "lane = audioLane l x (plugGen (controllers r ! i)) a"
  have x: "x \<le> MAX_BACKEND_CONTROLLERS" using read_slot [OF inv r h] by simp
  show ?thesis
  proof (cases "if al_encoder lane = None then make_encoder cods l else al_encoder lane")
    case None
    then have "al_encoder (audioLane l x (at_gen target) a) = None" "make_encoder cods l = None"
      by (auto simp: lane_def t split: if_splits)
    from encodeAndSendAudio_none [OF a x this q] show ?thesis using inv by auto
  next
    case (Some e)
    obtain ps e' seq' where "encode_stream enc (windows (AUDIO_FRAME_SAMPLES * lane_channels l) (al_pending lane @ pcm)) e
        (al_seq lane) = (ps, e', seq')" by (metis prod_cases3)
    note sp = encodeAndSendAudio_spec [OF inv r h a lane_def Some this t q]
    show ?thesis using sp rx_only_inv [OF _ inv] by blast
  qed
qed

lemma handleSpeakerAudio_effects:
  assumes inv: "svc_inv F s" and a: "lanes_ok a"
    and q: "handleSpeakerAudioFromBackend enc cods x pcm (a, s) = (ok, a', s')"
  shows "svc_inv F s' \<and> lanes_ok a' \<and>
    (\<exists>es. s_out s' = s_out s @ es \<and>
       (\<forall>e\<in>set es. \<exists>r\<in>snd ` set (s_conns s). \<exists>i seq p. holds r x i \<and> caps (controllers r ! i) AND CAP_SPEAKER \<noteq> 0 \<and>
          e = SendSpeakerAudio (conn_endpoint r) i seq p))"
proof (cases "pcm = [] \<or> \<not> pol_speaker (audioPolicy s) \<or> readAudioTarget x (s_hot s) = None \<or>
    at_caps (the (readAudioTarget x (s_hot s))) AND CAP_SPEAKER = 0")
  case True
  then have "handleSpeakerAudioFromBackend enc cods x pcm (a, s) = (False, a, s)"
    by (cases "readAudioTarget x (s_hot s)") (auto simp: handleSpeakerAudioFromBackend_def)
  then have "s' = s" "a' = a" using q by simp_all
  then show ?thesis using inv a by simp
next
  case False
  then obtain t where t: "readAudioTarget x (s_hot s) = Some t" "at_caps t AND CAP_SPEAKER \<noteq> 0" by auto
  obtain r i where ri: "r \<in> snd ` set (s_conns s)" "holds r x i"
      "t = \<lparr>at_gen = plugGen (controllers r ! i), at_caps = caps (controllers r ! i)\<rparr>"
    by (rule target_holder [OF inv t(1)])
  have "encodeAndSendAudio enc cods Speaker x t pcm (a, s) = (ok, a', s')"
    using q False t by (simp add: handleSpeakerAudioFromBackend_def)
  moreover have "at_gen t = plugGen (controllers r ! i)" using ri(3) by simp
  ultimately obtain ps where ps: "svc_inv F s'" "lanes_ok a'"
      "s_out s' = s_out s @ map (\<lambda>(q, p). audio_effect Speaker (conn_endpoint r) i q p) ps"
    using encodeAndSendAudio_effects [OF inv ri(1,2) a] by blast
  have cap: "caps (controllers r ! i) AND CAP_SPEAKER \<noteq> 0" using t(2) ri(3) by simp
  have "\<exists>r\<in>snd ` set (s_conns s). \<exists>i seq p. holds r x i \<and> caps (controllers r ! i) AND CAP_SPEAKER \<noteq> 0 \<and>
      e = SendSpeakerAudio (conn_endpoint r) i seq p"
    if m: "e \<in> set (map (\<lambda>(q, p). audio_effect Speaker (conn_endpoint r) i q p) ps)" for e
  proof -
    obtain q p where "e = SendSpeakerAudio (conn_endpoint r) i q p" using m by (auto simp: audio_effect_def)
    then show ?thesis using ri(1,2) cap by blast
  qed
  then show ?thesis using ps by blast
qed

lemma haptic_ctrl_out:
  assumes "ctrl_index c = i"
  shows "\<exists>es. s_out (snd (haptic_ctrl now gen lvl r c s)) = s_out s @ es \<and>
    (\<forall>e\<in>set es. \<exists>rep. e = SendRumble (conn_endpoint r) i rep)"
proof -
  have f: "\<exists>es. s_out (snd (snd (forwardRumbleLocked now r c0 dur frc s0))) = s_out s0 @ es \<and>
      (\<forall>e\<in>set es. \<exists>rep. e = SendRumble (conn_endpoint r) (ctrl_index c0) rep)" for c0 dur frc and s0 :: "'a svc"
    by (auto simp: forwardRumbleLocked_def Let_def emit_def)
  show ?thesis
  proof (cases "plugGen c = gen")
    case True
    have "\<exists>c0 dur frc s0. s_out s0 = s_out s \<and> ctrl_index c0 = ctrl_index c \<and>
        snd (haptic_ctrl now gen lvl r c s) = snd (snd (forwardRumbleLocked now r c0 dur frc s0))"
      unfolding haptic_ctrl_def Let_def split_def using True
      by (intro exI [of _ "c\<lparr>hapticRumble := lvl,
            hapticRumbleExpiresAt := now + msec (int (unat (HAPTIC_RUMBLE_WIRE_DURATION_MS :: u16)))\<rparr>"] exI conjI;
          (simp only: if_False simp_thms snd_conv)?)
        (simp_all add: rx_only_bump)
    then show ?thesis using f assms by metis
  qed (simp add: haptic_ctrl_def)
qed

lemma reduceHapticWindow_step:
  assumes inv: "svc_inv F s" and r: "r \<in> snd ` set (s_conns s)" and h: "holds r x i"
  shows "\<exists>r'\<in>snd ` set (s_conns (reduceHapticWindow now level x g frame s)). same_core r r' \<and>
    (\<exists>es. s_out (reduceHapticWindow now level x g frame s) = s_out s @ es \<and>
      (\<forall>e\<in>set es. \<exists>rep. e = SendRumble (conn_endpoint r) i rep))"
proof -
  let ?lvl = "hapticWindowToRumble level frame AUDIO_FRAME_SAMPLES"
  obtain c1 s1 where c1: "haptic_ctrl now g ?lvl r (controllers r ! i) s = (c1, s1)" by fastforce
  have st: "pad_core c1 = pad_core (controllers r ! i)" "rx_only s s1"
    using haptic_step [of now g ?lvl r "controllers r ! i" s] c1 by simp_all
  have il: "i < length (controllers r)" using h by (simp add: holds_def)
  have res: "reduceHapticWindow now level x g frame s = put_row (set_ctrl i c1 r) s1"
    using findBySerialLocked_holder [OF inv r h] c1 by (simp add: reduceHapticWindow_def on_serial_def)
  have core: "same_core r (set_ctrl i c1 r)" by (rule same_core_set_ctrl [OF il st(1)])
  have tk: "token (set_ctrl i c1 r) = token r" using core by (simp add: same_core_def same_session_def)
  have "(token r, r) \<in> set (s_conns s1)" using row_deref(3) [OF inv r] st(2) by (simp add: rx_only_def)
  then have "(token r, set_ctrl i c1 r) \<in> set (s_conns (put_row (set_ctrl i c1 r) s1))"
    by (force simp: put_row_def tk)
  then have m: "set_ctrl i c1 r \<in> snd ` set (s_conns (put_row (set_ctrl i c1 r) s1))" by force
  have "s_out (put_row (set_ctrl i c1 r) s1) = s_out (snd (haptic_ctrl now g ?lvl r (controllers r ! i) s))"
    by (simp add: put_row_def c1)
  then show ?thesis
    unfolding res using haptic_ctrl_out [OF ctrl_index_of(1) [OF inv r h], of now g ?lvl r s] m core by metis
qed

lemma reduce_windows:
  assumes "svc_inv F s" "r \<in> snd ` set (s_conns s)" "holds r x i"
  shows "svc_inv F (fold (reduceHapticWindow now level x g) ws s) \<and>
    (\<exists>es. s_out (fold (reduceHapticWindow now level x g) ws s) = s_out s @ es \<and>
      (\<forall>e\<in>set es. \<exists>rep. e = SendRumble (conn_endpoint r) i rep))"
  using assms
proof (induction ws arbitrary: s r)
  case Nil
  then show ?case by simp
next
  case (Cons w ws)
  let ?t = "reduceHapticWindow now level x g w s"
  obtain r' es where r': "r' \<in> snd ` set (s_conns ?t)" "same_core r r'" "s_out ?t = s_out s @ es"
      "\<forall>e\<in>set es. \<exists>rep. e = SendRumble (conn_endpoint r) i rep"
    using reduceHapticWindow_step [OF Cons.prems, of now level g w] by blast
  have "conn_endpoint r' = conn_endpoint r" using r'(2) by (simp add: conn_endpoint_def same_core_def same_session_def)
  moreover have "holds r' x i" using same_core_holds [OF r'(2)] Cons.prems(3) by simp
  ultimately show ?case using Cons.IH [OF reduceHapticWindow_inv [OF Cons.prems(1)] r'(1)] r'(3,4) by fastforce
qed

text \<open>
  The haptic stream goes out as the waveform or as motor levels, never both, and only to the holder of
  the pad.
\<close>

lemma handleHapticAudio_effects:
  assumes inv: "svc_inv F s" and a: "lanes_ok a"
    and q: "handleHapticAudioFromBackend now level enc cods x pcm (a, s) = (ok, a', s')"
  shows "svc_inv F s' \<and> lanes_ok a' \<and>
    (\<exists>es. s_out s' = s_out s @ es \<and>
       (es \<noteq> [] \<longrightarrow> (\<exists>r\<in>snd ` set (s_conns s). \<exists>i. holds r x i \<and>
          (if caps (controllers r ! i) AND CAP_HAPTIC_AUDIO \<noteq> 0
           then \<forall>e\<in>set es. \<exists>seq p. e = SendHapticAudio (conn_endpoint r) i seq p
           else caps (controllers r ! i) AND CAP_RUMBLE \<noteq> 0 \<and>
                (\<forall>e\<in>set es. \<exists>rep. e = SendRumble (conn_endpoint r) i rep)))))"
proof (cases "pcm = [] \<or> \<not> pol_haptics (audioPolicy s) \<or> readAudioTarget x (s_hot s) = None")
  case True
  then have "handleHapticAudioFromBackend now level enc cods x pcm (a, s) = (False, a, s)"
    by (cases "readAudioTarget x (s_hot s)") (auto simp: handleHapticAudioFromBackend_def)
  then have "s' = s" "a' = a" using q by simp_all
  then show ?thesis using inv a by simp
next
  case False
  then obtain t where t: "readAudioTarget x (s_hot s) = Some t" by auto
  obtain r i where ri: "r \<in> snd ` set (s_conns s)" "holds r x i"
      and tt: "t = \<lparr>at_gen = plugGen (controllers r ! i), at_caps = caps (controllers r ! i)\<rparr>"
    by (rule target_holder [OF inv t])
  have x: "x \<le> MAX_BACKEND_CONTROLLERS" using read_slot [OF inv ri] by simp
  consider "at_caps t AND CAP_HAPTIC_AUDIO \<noteq> 0" | "at_caps t AND CAP_HAPTIC_AUDIO = 0" "at_caps t AND CAP_RUMBLE = 0"
    | "at_caps t AND CAP_HAPTIC_AUDIO = 0" "at_caps t AND CAP_RUMBLE \<noteq> 0" by blast
  then show ?thesis
  proof cases
    case 1
    then have "encodeAndSendAudio enc cods Haptic x t pcm (a, s) = (ok, a', s')"
      using q False t by (simp add: handleHapticAudioFromBackend_def)
    from encodeAndSendAudio_effects [OF inv ri a _ this] tt
    obtain ps where ps: "svc_inv F s'" "lanes_ok a'"
        "s_out s' = s_out s @ map (\<lambda>(q, p). audio_effect Haptic (conn_endpoint r) i q p) ps" by auto
    have "\<forall>e\<in>set (map (\<lambda>(q, p). audio_effect Haptic (conn_endpoint r) i q p) ps).
        \<exists>seq p. e = SendHapticAudio (conn_endpoint r) i seq p" by (auto simp: audio_effect_def)
    moreover have "caps (controllers r ! i) AND CAP_HAPTIC_AUDIO \<noteq> 0" using 1 tt by simp
    ultimately show ?thesis using ps ri by fastforce
  next
    case 2
    then have "s' = s" "a' = a" using q False t by (auto simp: handleHapticAudioFromBackend_def)
    then show ?thesis using inv a by simp
  next
    case 3
    let ?n = "AUDIO_FRAME_SAMPLES * AUDIO_HAPTIC_CHANNELS" and ?lane = "audioLane Haptic x (at_gen t) a"
    let ?ws = "windows ?n (al_pending ?lane @ pcm)" and ?rest = "leftover ?n (al_pending ?lane @ pcm)"
    have p: "length (al_pending ?lane) < ?n" using lanes_ok_get [OF a x, of Haptic] by (simp add: lane_channels_def)
    have n: "(0 :: nat) < ?n" by simp
    have res: "s' = fold (reduceHapticWindow now level x (at_gen t)) ?ws s"
        "a' = put_lane Haptic x (?lane\<lparr>al_pending := ?rest\<rparr>) a"
      using q False t 3 rewindow_ref [OF n p, of "reduceHapticWindow now level x (at_gen t)" pcm s]
      by (auto simp: handleHapticAudioFromBackend_def Let_def)
    have "length ?rest < ?n" using windows_concat [OF n] by blast
    then have "lanes_ok a'" unfolding res(2) by (intro lanes_ok_put(1) [OF a x]) (simp add: lane_channels_def)
    moreover note rw = reduce_windows [OF inv ri, of now level "at_gen t" ?ws]
    moreover have "caps (controllers r ! i) AND CAP_HAPTIC_AUDIO = 0" "caps (controllers r ! i) AND CAP_RUMBLE \<noteq> 0"
      using 3 tt by simp_all
    ultimately show ?thesis unfolding res(1) using ri by auto
  qed
qed

lemma hapticLaneMagnitude_floor:
  "hapticLaneMagnitude level pcm frames channels channel = 0 \<or>
   HAPTIC_RUMBLE_FLOOR \<le> unat (hapticLaneMagnitude level pcm frames channels channel)"
  by (auto simp: hapticLaneMagnitude_def Let_def unat_of_nat)

lemma hapticLaneMagnitude_silence:
  assumes "\<And>n. level 0 n = 0" "\<forall>f<frames. pcm ! (f * channels + channel) = 0"
  shows "hapticLaneMagnitude level pcm frames channels channel = 0"
proof -
  have "map (\<lambda>f. (sint (pcm ! (f * channels + channel))) ^ 2) [0..<frames] = replicate frames 0"
    using assms(2) by (simp add: list_eq_iff_nth_eq)
  then have "sum_squares pcm frames channels channel = 0" unfolding sum_squares_def by (simp add: sum_list_replicate)
  then show ?thesis using assms(1) by (simp add: hapticLaneMagnitude_def Let_def)
qed

section \<open>The batches of a stream\<close>

text \<open>
  C39.  How a backend batches its samples does not matter: feeding the pending-samples loop any sequence of
  batches has the effect of one batch with all the samples, which is to handle every whole window of the
  stream in order and to keep the remainder, shorter than a window.
\<close>

theorem audio_batches_whole:
  assumes n: "0 < n"
  shows "fold (\<lambda>pcm (p, s). rewindow n f p pcm s) batches ([], s) = (leftover n (concat batches), fold f (windows n (concat batches)) s) \<and>
    concat (windows n (concat batches)) @ leftover n (concat batches) = concat batches \<and>
    length (leftover n (concat batches)) < n \<and> (\<forall>w\<in>set (windows n (concat batches)). length w = n)"
  using rewindow_batches [OF n, of f batches s] rewindow_ref [OF n, of "[]" f "concat batches" s] windows_concat [OF n] n
  by auto

theorem audio_batches_whole_witness:
  "fold (\<lambda>pcm (p, s). rewindow 2 (\<lambda>w s. s @ [w]) p pcm s) [[1], [2, 3], [4, 5]] ([], []) =
     ([5], [[1, 2], [3, 4]] :: i16 list list)"
  using audio_batches_whole [of 2 "\<lambda>w s. s @ [w]" "[[1], [2, 3], [4, 5]]" "[]"]
  by (simp add: windows.simps leftover_def)

end
