(* ===== verification/Audio_Jitter.thy ===== *)
theory Audio_Jitter
  imports Sat_Prelude
begin

text \<open>
  The reorder window of one audio stream (\<^verbatim>\<open>core/audio/audio_jitter.h\<close>): wrapping 16-bit sequence numbers
  in, packets in order and explicit gaps out.  The window's two slots, its drain loop and its push are
  modelled as written; the reference \<open>push_ref\<close> states in closed form what a push does, and the
  properties of the stream are proved of it.
\<close>

section \<open>The window\<close>

abbreviation (input) AUDIO_JITTER_WINDOW_FRAMES :: nat where
  "AUDIO_JITTER_WINDOW_FRAMES \<equiv> 2"

abbreviation (input) AUDIO_JITTER_MAX_CONCEAL_FRAMES :: nat where
  "AUDIO_JITTER_MAX_CONCEAL_FRAMES \<equiv> 2"

abbreviation (input) AUDIO_JITTER_MAX_PACKET_BYTES :: nat where
  "AUDIO_JITTER_MAX_PACKET_BYTES \<equiv> 1500"

abbreviation (input) AUDIO_JITTER_MAX_EVENTS_PER_PUSH :: nat where
  "AUDIO_JITTER_MAX_EVENTS_PER_PUSH \<equiv> 6"

text \<open>A gap carries the packet after the missing one when the window holds it.\<close>

datatype jitter_event = Packet u16 "u8 list" | Gap u16 "u8 list option"

datatype jitter_accept = Accepted | Late | Duplicate | Rejected

record jitter_slot =
  js_used :: bool
  js_seq :: u16
  js_bytes :: "u8 list"

record jitter_window =
  jw_slots :: "jitter_slot list"
  jw_primed :: bool
  jw_next :: u16
  jw_gaps :: nat

definition default_jitter_slot :: jitter_slot where
  "default_jitter_slot = \<lparr>js_used = False, js_seq = 0, js_bytes = []\<rparr>"

definition default_jitter_window :: jitter_window where
  "default_jitter_window =
     \<lparr>jw_slots = replicate AUDIO_JITTER_WINDOW_FRAMES default_jitter_slot, jw_primed = False, jw_next = 0, jw_gaps = 0\<rparr>"

definition jitter_reset :: "jitter_window \<Rightarrow> jitter_window" where
  "jitter_reset w =
     w\<lparr>jw_slots := map (\<lambda>s. s\<lparr>js_used := False\<rparr>) (jw_slots w), jw_primed := False, jw_next := 0, jw_gaps := 0\<rparr>"

text \<open>The wrapping distance from the awaited number, signed.\<close>

definition deltaFromNext :: "u16 \<Rightarrow> jitter_window \<Rightarrow> int" where
  "deltaFromNext seq w = sint (seq - jw_next w)"

definition usedSlots :: "jitter_window \<Rightarrow> nat" where
  "usedSlots w = length (filter js_used (jw_slots w))"

definition jitter_find :: "u16 \<Rightarrow> jitter_window \<Rightarrow> nat option" where
  "jitter_find seq w =
     List.find (\<lambda>i. js_used (jw_slots w ! i) \<and> js_seq (jw_slots w ! i) = seq) [0..<length (jw_slots w)]"

definition freeSlot :: "jitter_window \<Rightarrow> nat option" where
  "freeSlot w = List.find (\<lambda>i. \<not> js_used (jw_slots w ! i)) [0..<length (jw_slots w)]"

definition maxAhead :: "jitter_window \<Rightarrow> int" where
  "maxAhead w =
     fold (\<lambda>s best. if js_used s \<and> deltaFromNext (js_seq s) w > best then deltaFromNext (js_seq s) w else best)
       (jw_slots w) (- 1)"

definition oldestHeld :: "jitter_window \<Rightarrow> jitter_slot option" where
  "oldestHeld w =
     fold (\<lambda>s best. if \<not> js_used s then best
                    else case best of
                      None \<Rightarrow> Some s
                    | Some b \<Rightarrow> if deltaFromNext (js_seq s) w < deltaFromNext (js_seq b) w then Some s else best)
       (jw_slots w) None"

text \<open>
  One turn of the drain loop: the window after it, the events so far, and whether the loop goes on.
\<close>

definition drain_turn :: "jitter_window \<Rightarrow> jitter_event list \<Rightarrow> (jitter_window \<times> jitter_event list) option" where
  "drain_turn w ev =
     (case jitter_find (jw_next w) w of
        Some i \<Rightarrow>
          Some (w\<lparr>jw_slots := (jw_slots w)[i := (jw_slots w ! i)\<lparr>js_used := False\<rparr>], jw_next := jw_next w + 1, jw_gaps := 0\<rparr>,
                ev @ [Packet (js_seq (jw_slots w ! i)) (js_bytes (jw_slots w ! i))])
      | None \<Rightarrow>
          if maxAhead w < int AUDIO_JITTER_WINDOW_FRAMES then None
          else if jw_gaps w \<ge> AUDIO_JITTER_MAX_CONCEAL_FRAMES
          then (case oldestHeld w of
                  None \<Rightarrow> None
                | Some resume \<Rightarrow> Some (w\<lparr>jw_next := js_seq resume, jw_gaps := 0\<rparr>, ev))
          else Some (w\<lparr>jw_next := jw_next w + 1, jw_gaps := jw_gaps w + 1\<rparr>,
                     ev @ [Gap (jw_next w) (map_option (\<lambda>i. js_bytes (jw_slots w ! i)) (jitter_find (jw_next w + 1) w))]))"

lemma jitter_find_Some:
  "jitter_find q w = Some i \<Longrightarrow> i < length (jw_slots w) \<and> js_used (jw_slots w ! i) \<and> js_seq (jw_slots w ! i) = q"
  unfolding jitter_find_def using find_Some_set by fastforce

lemma jitter_find_None: "jitter_find q w = None \<Longrightarrow> s \<in> set (jw_slots w) \<Longrightarrow> js_used s \<Longrightarrow> js_seq s \<noteq> q"
  unfolding jitter_find_def by (metis (mono_tags, lifting) find_None_set in_set_conv_nth atLeastLessThan_iff set_upt zero_le)

lemma oldestHeld_used:
  assumes "oldestHeld w = Some s"
  shows "s \<in> set (jw_slots w) \<and> js_used s"
proof -
  let ?f = "\<lambda>s best. if \<not> js_used s then best else case best of None \<Rightarrow> Some s
      | Some b \<Rightarrow> if deltaFromNext (js_seq s) w < deltaFromNext (js_seq b) w then Some s else best"
  have "fold ?f ss b0 = Some s \<Longrightarrow> (\<forall>b. b0 = Some b \<longrightarrow> b \<in> set (jw_slots w) \<and> js_used b) \<Longrightarrow> set ss \<subseteq> set (jw_slots w) \<Longrightarrow>
      s \<in> set (jw_slots w) \<and> js_used s" for ss b0
    by (induction ss arbitrary: b0) (auto split: option.splits if_splits)
  from this [of "jw_slots w" None] show ?thesis using assms by (simp add: oldestHeld_def)
qed

function jitter_drain :: "jitter_window \<Rightarrow> jitter_event list \<Rightarrow> jitter_window \<times> jitter_event list" where
  "jitter_drain w ev =
     (if length ev \<ge> AUDIO_JITTER_MAX_EVENTS_PER_PUSH then (w, ev)
      else case drain_turn w ev of
        None \<Rightarrow> (w, ev)
      | Some (w1, ev1) \<Rightarrow> jitter_drain w1 ev1)"
  by auto

text \<open>A turn that adds no event resumes at a held packet, which the next turn emits.\<close>

termination
proof (relation "measures [\<lambda>(w, ev). AUDIO_JITTER_MAX_EVENTS_PER_PUSH - length ev,
    \<lambda>(w, ev). if jitter_find (jw_next w) w = None then 1 else 0]")
  fix w ev p w1 ev1
  assume room: "\<not> AUDIO_JITTER_MAX_EVENTS_PER_PUSH \<le> length (ev :: jitter_event list)"
    and turn: "drain_turn w ev = Some p" "(w1, ev1) = p"
  show "((w1, ev1), w, ev) \<in> measures [\<lambda>(w, ev). AUDIO_JITTER_MAX_EVENTS_PER_PUSH - length ev,
      \<lambda>(w, ev). if jitter_find (jw_next w) w = None then 1 else 0]"
  proof (cases "length ev1 = length ev")
    case False
    then have "length ev1 = length ev + 1"
      using turn by (auto simp: drain_turn_def split: option.splits if_splits)
    then have "AUDIO_JITTER_MAX_EVENTS_PER_PUSH - length ev1 < AUDIO_JITTER_MAX_EVENTS_PER_PUSH - length ev" using room by simp
    then show ?thesis by simp
  next
    case True
    then obtain s where s: "jitter_find (jw_next w) w = None" "oldestHeld w = Some s"
        "w1 = w\<lparr>jw_next := js_seq s, jw_gaps := 0\<rparr>" "ev1 = ev"
      using turn by (auto simp: drain_turn_def split: option.splits if_splits)
    have "jitter_find (js_seq s) w1 \<noteq> None"
      using jitter_find_None [of "js_seq s" w1 s] oldestHeld_used [OF s(2)] s(3) by auto
    then show ?thesis using s by simp
  qed
qed simp

declare jitter_drain.simps [simp del]

definition jitter_push :: "u16 \<Rightarrow> u8 list \<Rightarrow> jitter_window \<Rightarrow> jitter_accept \<times> jitter_event list \<times> jitter_window" where
  "jitter_push seq data w0 =
     (if data = [] \<or> length data > AUDIO_JITTER_MAX_PACKET_BYTES then (Rejected, [], w0)
      else let w = (if jw_primed w0 then w0 else w0\<lparr>jw_primed := True, jw_next := seq, jw_gaps := 0\<rparr>);
               delta = deltaFromNext seq w
           in if delta < 0 then (Late, [], w)
              else if delta = 0 \<and> usedSlots w = 0
              then (Accepted, [Packet seq data], w\<lparr>jw_next := jw_next w + 1, jw_gaps := 0\<rparr>)
              else if jitter_find seq w \<noteq> None then (Duplicate, [], w)
              else case freeSlot w of
                None \<Rightarrow> (Rejected, [], w)
              | Some i \<Rightarrow>
                  (case jitter_drain (w\<lparr>jw_slots := (jw_slots w)[i := \<lparr>js_used = True, js_seq = seq, js_bytes = data\<rparr>]\<rparr>) [] of
                     (w1, ev) \<Rightarrow> (Accepted, ev, w1)))"
section \<open>The reference\<close>

text \<open>
  What the loop does with one held packet \<open>d\<close> ahead of the awaited number: emitted when it is due, kept
  when only one ahead, concealed up to otherwise, at most two gaps in a row, then the window resumes at it.
\<close>

fun settle :: "nat \<Rightarrow> u16 \<Rightarrow> nat \<Rightarrow> u16 \<Rightarrow> u8 list \<Rightarrow> jitter_event list \<times> u16 \<times> nat \<times> u8 list option" where
  "settle 0 n g q bs = ([Packet q bs], n + 1, 0, None)"
| "settle (Suc 0) n g q bs = ([], n, g, Some bs)"
| "settle (Suc (Suc d)) n g q bs =
     (if g \<ge> AUDIO_JITTER_MAX_CONCEAL_FRAMES then ([Packet q bs], q + 1, 0, None)
      else case settle (Suc d) (n + 1) (g + 1) q bs of (ev, res) \<Rightarrow> (Gap n None # ev, res))"

text \<open>The state of a primed window: the awaited number, the running gaps, the packet after the awaited one.\<close>

type_synonym jitter_abs = "u16 \<times> nat \<times> u8 list option"

definition push_ref :: "u16 \<Rightarrow> u8 list \<Rightarrow> jitter_abs \<Rightarrow> jitter_accept \<times> jitter_event list \<times> jitter_abs" where
  "push_ref seq data = (\<lambda>(n, g, h).
     let delta = sint (seq - n); d = nat delta in
     if delta < 0 then (Late, [], (n, g, h))
     else if d = 1 \<and> h \<noteq> None then (Duplicate, [], (n, g, h))
     else case h of
       None \<Rightarrow> (Accepted, settle d n g seq data)
     | Some b \<Rightarrow>
         if d = 0 then (Accepted, [Packet seq data, Packet (n + 1) b], (n + 2, 0, None))
         else case settle (d - 2) (n + 2) 0 seq data of
           (ev, res) \<Rightarrow>
             (Accepted,
              (if g \<ge> AUDIO_JITTER_MAX_CONCEAL_FRAMES then [Packet (n + 1) b] else [Gap n (Some b), Packet (n + 1) b]) @ ev,
              res))"

section \<open>The loop computes the reference\<close>

lemma slots2:
  assumes "jw_slots w = [a, b]"
  shows "jitter_find q w = (if js_used a \<and> js_seq a = q then Some 0 else if js_used b \<and> js_seq b = q then Some 1 else None)"
    "freeSlot w = (if \<not> js_used a then Some 0 else if \<not> js_used b then Some 1 else None)"
    "usedSlots w = (if js_used a then 1 else 0) + (if js_used b then 1 else 0)"
proof -
  have "[0..<length (jw_slots w)] = [0, 1]" using assms by (simp add: upt_rec)
  then show "jitter_find q w = (if js_used a \<and> js_seq a = q then Some 0 else if js_used b \<and> js_seq b = q then Some 1 else None)"
      "freeSlot w = (if \<not> js_used a then Some 0 else if \<not> js_used b then Some 1 else None)"
    by (simp_all add: jitter_find_def freeSlot_def assms)
  show "usedSlots w = (if js_used a then 1 else 0) + (if js_used b then 1 else 0)" by (simp add: usedSlots_def assms)
qed

lemma ahead2:
  assumes "jw_slots w = [a, b]"
  shows "js_used a \<Longrightarrow> \<not> js_used b \<Longrightarrow> 0 \<le> deltaFromNext (js_seq a) w \<Longrightarrow> maxAhead w = deltaFromNext (js_seq a) w"
    "\<not> js_used a \<Longrightarrow> js_used b \<Longrightarrow> 0 \<le> deltaFromNext (js_seq b) w \<Longrightarrow> maxAhead w = deltaFromNext (js_seq b) w"
    "\<not> js_used a \<Longrightarrow> \<not> js_used b \<Longrightarrow> maxAhead w = - 1"
    "js_used a \<Longrightarrow> js_used b \<Longrightarrow> 0 \<le> deltaFromNext (js_seq a) w \<Longrightarrow> 0 \<le> deltaFromNext (js_seq b) w \<Longrightarrow>
       maxAhead w = max (deltaFromNext (js_seq a) w) (deltaFromNext (js_seq b) w)"
  by (auto simp: maxAhead_def assms)

lemma oldest2:
  assumes "jw_slots w = [a, b]"
  shows "js_used a \<Longrightarrow> \<not> js_used b \<Longrightarrow> oldestHeld w = Some a"
    "\<not> js_used a \<Longrightarrow> js_used b \<Longrightarrow> oldestHeld w = Some b"
    "js_used a \<Longrightarrow> js_used b \<Longrightarrow>
       oldestHeld w = Some (if deltaFromNext (js_seq b) w < deltaFromNext (js_seq a) w then b else a)"
  by (simp_all add: oldestHeld_def assms)

definition holding :: "jitter_window \<Rightarrow> (u16 \<times> u8 list) option \<Rightarrow> bool" where
  "holding w h \<longleftrightarrow>
     (\<exists>a b. jw_slots w = [a, b] \<and>
        (case h of
           None \<Rightarrow> \<not> js_used a \<and> \<not> js_used b
         | Some (q, bs) \<Rightarrow>
             (js_used a \<and> \<not> js_used b \<and> js_seq a = q \<and> js_bytes a = bs) \<or>
             (\<not> js_used a \<and> js_used b \<and> js_seq b = q \<and> js_bytes b = bs)))"

lemma sint_of_nat16: "d < 32768 \<Longrightarrow> sint (of_nat d :: u16) = int d"
  by (simp add: signed_of_nat signed_take_bit_int_eq_self)

lemma seq_of_delta:
  assumes "sint (x :: u16) = int d"
  shows "x = of_nat d" "d < 32768"
proof -
  show d: "d < 32768" using sint_less [of x] assms by simp
  have "sint x = sint (of_nat d :: u16)" using sint_of_nat16 [OF d] assms by simp
  then show "x = of_nat d" by (simp add: signed_word_eqI)
qed

lemma delta_of:
  assumes "js_seq s = jw_next w + of_nat d" "d < 32768"
  shows "deltaFromNext (js_seq s) w = int d"
  using assms by (simp add: deltaFromNext_def sint_of_nat16)

lemma of_nat16_eq: "d < 32768 \<Longrightarrow> e < 32768 \<Longrightarrow> (of_nat d :: u16) = of_nat e \<longleftrightarrow> d = e"
  using sint_of_nat16 by (metis of_nat_eq_iff)

lemma turn_none: "holding w None \<Longrightarrow> drain_turn w ev = None"
  by (auto simp: holding_def drain_turn_def slots2 ahead2)

lemma turn_single:
  assumes h: "holding w (Some (q, bs))" and q: "q = jw_next w + of_nat d" and d: "d < 32768"
  shows "d = 0 \<Longrightarrow> \<exists>w'. drain_turn w ev = Some (w', ev @ [Packet q bs]) \<and> holding w' None \<and> jw_next w' = jw_next w + 1 \<and>
      jw_gaps w' = 0 \<and> jw_primed w' = jw_primed w"
    "d = 1 \<Longrightarrow> drain_turn w ev = None"
    "2 \<le> d \<Longrightarrow> 2 \<le> jw_gaps w \<Longrightarrow> drain_turn w ev = Some (w\<lparr>jw_next := q, jw_gaps := 0\<rparr>, ev)"
    "2 \<le> d \<Longrightarrow> jw_gaps w < 2 \<Longrightarrow>
      drain_turn w ev = Some (w\<lparr>jw_next := jw_next w + 1, jw_gaps := jw_gaps w + 1\<rparr>, ev @ [Gap (jw_next w) None])"
proof -
  obtain a b where ab: "jw_slots w = [a, b]"
      "(js_used a \<and> \<not> js_used b \<and> js_seq a = q \<and> js_bytes a = bs) \<or> (\<not> js_used a \<and> js_used b \<and> js_seq b = q \<and> js_bytes b = bs)"
    using h by (auto simp: holding_def)
  have dl: "deltaFromNext q w = int d" using q d by (simp add: deltaFromNext_def sint_of_nat16)
  have ne: "d \<noteq> 0 \<Longrightarrow> q \<noteq> jw_next w" "2 \<le> d \<Longrightarrow> q \<noteq> jw_next w + 1"
    using q of_nat16_eq [OF d, of 0] of_nat16_eq [OF d, of 1] by auto
  show "\<exists>w'. drain_turn w ev = Some (w', ev @ [Packet q bs]) \<and> holding w' None \<and> jw_next w' = jw_next w + 1 \<and>
      jw_gaps w' = 0 \<and> jw_primed w' = jw_primed w" if "d = 0"
    using ab(2) that q by (auto simp: drain_turn_def slots2 [OF ab(1)] ab(1) holding_def)
  have f: "d \<noteq> 0 \<Longrightarrow> jitter_find (jw_next w) w = None" "2 \<le> d \<Longrightarrow> jitter_find (jw_next w + 1) w = None"
    using ab(2) ne by (auto simp: slots2 [OF ab(1)])
  have m: "maxAhead w = int d" using ab(2) dl by (auto simp: ahead2 [OF ab(1)])
  have o: "\<exists>s. oldestHeld w = Some s \<and> js_seq s = q" using ab(2) by (auto simp: oldest2 [OF ab(1)])
  show "drain_turn w ev = None" if "d = 1" using f m that by (simp add: drain_turn_def)
  show "drain_turn w ev = Some (w\<lparr>jw_next := q, jw_gaps := 0\<rparr>, ev)" if "2 \<le> d" "2 \<le> jw_gaps w"
    using f m o that by (auto simp: drain_turn_def)
  show "drain_turn w ev = Some (w\<lparr>jw_next := jw_next w + 1, jw_gaps := jw_gaps w + 1\<rparr>, ev @ [Gap (jw_next w) None])"
    if "2 \<le> d" "jw_gaps w < 2" using f m that by (simp add: drain_turn_def)
qed

text \<open>The window after the loop, by what the reference says it holds.\<close>

definition represents :: "jitter_window \<Rightarrow> jitter_abs \<Rightarrow> bool" where
  "represents w = (\<lambda>(n, g, h). jw_primed w \<and> jw_next w = n \<and> jw_gaps w = g \<and> holding w (map_option (\<lambda>b. (n + 1, b)) h))"

lemma holding_next: "holding (w\<lparr>jw_next := n, jw_gaps := g\<rparr>) h = holding w h"
  by (simp add: holding_def)

lemma drain_stop: "drain_turn w ev = None \<or> length ev \<ge> AUDIO_JITTER_MAX_EVENTS_PER_PUSH \<Longrightarrow> jitter_drain w ev = (w, ev)"
  by (auto simp: jitter_drain.simps [of w ev])

lemma drain_go:
  "drain_turn w ev = Some (w1, ev1) \<Longrightarrow> length ev < AUDIO_JITTER_MAX_EVENTS_PER_PUSH \<Longrightarrow> jitter_drain w ev = jitter_drain w1 ev1"
  by (simp add: jitter_drain.simps [of w ev])

lemma drain_due:
  assumes "holding w (Some (q, bs))" "q = jw_next w" "jw_primed w" "length ev < AUDIO_JITTER_MAX_EVENTS_PER_PUSH"
  shows "\<exists>w'. jitter_drain w ev = (w', ev @ [Packet q bs]) \<and> represents w' (q + 1, 0, None)"
proof -
  obtain w1 where w1: "drain_turn w ev = Some (w1, ev @ [Packet q bs])" "holding w1 None" "jw_next w1 = jw_next w + 1"
      "jw_gaps w1 = 0" "jw_primed w1 = jw_primed w"
    using turn_single(1) [OF assms(1), of 0 ev] assms(2) by auto
  have "jitter_drain w ev = (w1, ev @ [Packet q bs])"
    using drain_go [OF w1(1) assms(4)] drain_stop [of w1] turn_none [OF w1(2)] by simp
  then show ?thesis using w1 assms(2,3) by (auto simp: represents_def)
qed

lemma drain_single:
  assumes "holding w (Some (q, bs))" "jw_primed w" "jw_next w = n" "jw_gaps w = g" "q = n + of_nat d" "d < 32768" "g \<le> 2"
    "settle d n g q bs = (evs, res)" "length ev + (3 - g) \<le> AUDIO_JITTER_MAX_EVENTS_PER_PUSH"
  shows "\<exists>w'. jitter_drain w ev = (w', ev @ evs) \<and> represents w' res"
  using assms
proof (induction d n g q bs arbitrary: w ev evs rule: settle.induct)
  case (1 n g q bs)
  then show ?case using drain_due [of w q bs ev] by auto
next
  case (2 n g q bs)
  have "drain_turn w ev = None" using turn_single(2) [OF 2(1), of 1] 2 by simp
  then show ?case using 2 drain_stop [of w ev] by (auto simp: represents_def)
next
  case (3 d n g q bs)
  have q: "q = jw_next w + of_nat (Suc (Suc d))" using 3(4,6) by simp
  show ?case
  proof (cases "2 \<le> g")
    case True
    have t: "drain_turn w ev = Some (w\<lparr>jw_next := q, jw_gaps := 0\<rparr>, ev)"
      using turn_single(3) [OF 3(2) q 3(7)] True 3(5) by simp
    have "jitter_drain w ev = jitter_drain (w\<lparr>jw_next := q, jw_gaps := 0\<rparr>) ev"
      by (rule drain_go [OF t]) (use 3 True in auto)
    moreover have "\<exists>w'. jitter_drain (w\<lparr>jw_next := q, jw_gaps := 0\<rparr>) ev = (w', ev @ [Packet q bs]) \<and> represents w' (q + 1, 0, None)"
      by (rule drain_due) (use 3 True in \<open>auto simp: holding_next\<close>)
    ultimately show ?thesis using 3(9) True by auto
  next
    case False
    let ?w = "w\<lparr>jw_next := n + 1, jw_gaps := g + 1\<rparr>"
    have t: "drain_turn w ev = Some (?w, ev @ [Gap n None])"
      using turn_single(4) [OF 3(2) q 3(7)] False 3(4,5) by simp
    obtain evs1 where s: "settle (Suc d) (n + 1) (g + 1) q bs = (evs1, res)" "evs = Gap n None # evs1"
      using 3(9) False by (auto split: prod.splits)
    have go: "jitter_drain w ev = jitter_drain ?w (ev @ [Gap n None])" by (rule drain_go [OF t]) (use 3 False in auto)
    have "\<exists>w'. jitter_drain ?w (ev @ [Gap n None]) = (w', (ev @ [Gap n None]) @ evs1) \<and> represents w' res"
      by (rule 3(1)) (use 3 False s in \<open>auto simp: holding_next algebra_simps\<close>)
    then show ?thesis using go s(2) by simp
  qed
qed
definition holding2 :: "jitter_window \<Rightarrow> u16 \<times> u8 list \<Rightarrow> u16 \<times> u8 list \<Rightarrow> bool" where
  "holding2 w x y \<longleftrightarrow>
     (\<exists>a b. jw_slots w = [a, b] \<and> js_used a \<and> js_used b \<and>
        ((js_seq a, js_bytes a) = x \<and> (js_seq b, js_bytes b) = y \<or> (js_seq a, js_bytes a) = y \<and> (js_seq b, js_bytes b) = x))"

lemma turn_due2:
  assumes h: "holding2 w (q1, b1) (q2, b2)" and q: "q1 = jw_next w" "q1 \<noteq> q2"
  shows "\<exists>w'. drain_turn w ev = Some (w', ev @ [Packet q1 b1]) \<and> holding w' (Some (q2, b2)) \<and> jw_next w' = jw_next w + 1 \<and>
    jw_gaps w' = 0 \<and> jw_primed w' = jw_primed w"
proof -
  obtain a b where ab: "jw_slots w = [a, b]" "js_used a" "js_used b"
      "js_seq a = q1 \<and> js_bytes a = b1 \<and> js_seq b = q2 \<and> js_bytes b = b2 \<or>
       js_seq a = q2 \<and> js_bytes a = b2 \<and> js_seq b = q1 \<and> js_bytes b = b1"
    using h by (auto simp: holding2_def)
  then show ?thesis using q by (auto simp: drain_turn_def slots2 [OF ab(1)] ab(1) holding_def)
qed

lemma turn_apart2:
  assumes h: "holding2 w (q1, b1) (q2, b2)" and q: "q1 = jw_next w + 1" "q2 = jw_next w + of_nat d" "2 \<le> d" "d < 32768"
  shows "2 \<le> jw_gaps w \<Longrightarrow> drain_turn w ev = Some (w\<lparr>jw_next := q1, jw_gaps := 0\<rparr>, ev)"
    "jw_gaps w < 2 \<Longrightarrow>
      drain_turn w ev = Some (w\<lparr>jw_next := q1, jw_gaps := jw_gaps w + 1\<rparr>, ev @ [Gap (jw_next w) (Some b1)])"
proof -
  obtain a b where ab: "jw_slots w = [a, b]" "js_used a" "js_used b"
      "js_seq a = q1 \<and> js_bytes a = b1 \<and> js_seq b = q2 \<and> js_bytes b = b2 \<or>
       js_seq a = q2 \<and> js_bytes a = b2 \<and> js_seq b = q1 \<and> js_bytes b = b1"
    using h by (auto simp: holding2_def)
  have one: "(of_nat 1 :: u16) = 1" by simp
  have dl: "deltaFromNext q1 w = 1" "deltaFromNext q2 w = int d"
    using q sint_of_nat16 [of 1] sint_of_nat16 [OF q(4)] by (simp_all add: deltaFromNext_def)
  have ne: "q1 \<noteq> jw_next w" "q2 \<noteq> jw_next w" "q2 \<noteq> q1"
    using q of_nat16_eq [OF q(4), of 0] of_nat16_eq [OF q(4), of 1] by auto
  have f: "jitter_find (jw_next w) w = None" "\<exists>i. jitter_find (jw_next w + 1) w = Some i \<and> js_bytes (jw_slots w ! i) = b1"
    using ab(2-4) ne q(1) by (auto simp: slots2 [OF ab(1)] ab(1))
  have m: "maxAhead w = int d" using ab(2-4) dl q(3) ahead2(4) [OF ab(1)] by auto
  have o: "\<exists>s. oldestHeld w = Some s \<and> js_seq s = q1" using ab(2-4) dl q(3) by (auto simp: oldest2 [OF ab(1)])
  show "drain_turn w ev = Some (w\<lparr>jw_next := q1, jw_gaps := 0\<rparr>, ev)" if "2 \<le> jw_gaps w"
    using f m o that q(3) by (auto simp: drain_turn_def)
  show "drain_turn w ev = Some (w\<lparr>jw_next := q1, jw_gaps := jw_gaps w + 1\<rparr>, ev @ [Gap (jw_next w) (Some b1)])"
    if "jw_gaps w < 2" using f m that q by (auto simp: drain_turn_def)
qed

lemma holding2_next: "holding2 (w\<lparr>jw_next := n, jw_gaps := g\<rparr>) x y = holding2 w x y"
  by (simp add: holding2_def)

lemma holding2_sym: "holding2 w x y = holding2 w y x"
  by (auto simp: holding2_def)

lemma drain_due2:
  assumes h: "holding2 w (q1, b1) (q2, b2)" and p: "jw_primed w" and q: "q1 = jw_next w" "q2 = q1 + 1 + of_nat d" "d < 32767"
    and r: "settle d (q1 + 1) 0 q2 b2 = (evs, res)" and l: "length ev \<le> 2"
  shows "\<exists>w'. jitter_drain w ev = (w', ev @ Packet q1 b1 # evs) \<and> represents w' res"
proof -
  have ne: "q1 \<noteq> q2" using q of_nat16_eq [of "Suc d" 0] by auto
  obtain w1 where w1: "drain_turn w ev = Some (w1, ev @ [Packet q1 b1])" "holding w1 (Some (q2, b2))"
      "jw_next w1 = jw_next w + 1" "jw_gaps w1 = 0" "jw_primed w1 = jw_primed w"
    using turn_due2 [OF h q(1) ne] by blast
  have "\<exists>w'. jitter_drain w1 (ev @ [Packet q1 b1]) = (w', (ev @ [Packet q1 b1]) @ evs) \<and> represents w' res"
    by (rule drain_single [OF w1(2)]) (use w1 p q r l in \<open>auto simp: algebra_simps\<close>)
  then show ?thesis using drain_go [OF w1(1)] l by simp
qed

text \<open>The invariant between pushes.\<close>

definition jitter_ok :: "jitter_window \<Rightarrow> bool" where
  "jitter_ok w \<longleftrightarrow>
     jw_gaps w \<le> 2 \<and> (if jw_primed w then \<exists>h. holding w (map_option (\<lambda>b. (jw_next w + 1, b)) h) else holding w None)"

lemma settle_gaps: "settle d n g q bs = (ev, n', g', h) \<Longrightarrow> g \<le> 2 \<Longrightarrow> g' \<le> 2"
  by (induction d n g q bs arbitrary: ev rule: settle.induct) (auto split: if_splits prod.splits)

lemma insert_holding:
  assumes h: "holding w h0" and free: "freeSlot w = Some i"
  shows "h0 = None \<Longrightarrow> holding (w\<lparr>jw_slots := (jw_slots w)[i := \<lparr>js_used = True, js_seq = q, js_bytes = bs\<rparr>]\<rparr>) (Some (q, bs))"
    "h0 = Some x \<Longrightarrow> holding2 (w\<lparr>jw_slots := (jw_slots w)[i := \<lparr>js_used = True, js_seq = q, js_bytes = bs\<rparr>]\<rparr>) x (q, bs)"
proof -
  obtain a b where ab: "jw_slots w = [a, b]" using h by (auto simp: holding_def)
  show "holding (w\<lparr>jw_slots := (jw_slots w)[i := \<lparr>js_used = True, js_seq = q, js_bytes = bs\<rparr>]\<rparr>) (Some (q, bs))" if "h0 = None"
    using h free ab that by (auto simp: holding_def slots2 [OF ab] split: if_splits)
  show "holding2 (w\<lparr>jw_slots := (jw_slots w)[i := \<lparr>js_used = True, js_seq = q, js_bytes = bs\<rparr>]\<rparr>) x (q, bs)" if "h0 = Some x"
    using h free ab that by (cases x) (auto simp: holding_def holding2_def slots2 [OF ab] split: if_splits)
qed

lemma holding_facts:
  assumes "holding w h"
  shows "\<exists>i. freeSlot w = Some i" "usedSlots w = (case h of None \<Rightarrow> 0 | Some _ \<Rightarrow> 1)"
    "jitter_find q w \<noteq> None \<longleftrightarrow> (\<exists>bs. h = Some (q, bs))"
proof -
  obtain a b where ab: "jw_slots w = [a, b]" using assms by (auto simp: holding_def)
  show "\<exists>i. freeSlot w = Some i" "usedSlots w = (case h of None \<Rightarrow> 0 | Some _ \<Rightarrow> 1)"
      "jitter_find q w \<noteq> None \<longleftrightarrow> (\<exists>bs. h = Some (q, bs))"
    using assms by (auto simp: holding_def slots2 [OF ab] ab split: option.splits if_splits)
qed

lemma push_primed:
  assumes w: "represents w (n, g, h)" and data: "data \<noteq> []" "length data \<le> AUDIO_JITTER_MAX_PACKET_BYTES"
    and d: "sint (seq - n) = int d" and free: "freeSlot w = Some i"
  shows "jitter_push seq data w =
    (if d = 0 \<and> h = None then (Accepted, [Packet seq data], w\<lparr>jw_next := n + 1, jw_gaps := 0\<rparr>)
     else if d = 1 \<and> h \<noteq> None then (Duplicate, [], w)
     else case jitter_drain (w\<lparr>jw_slots := (jw_slots w)[i := \<lparr>js_used = True, js_seq = seq, js_bytes = data\<rparr>]\<rparr>) [] of
            (w1, ev) \<Rightarrow> (Accepted, ev, w1))"
proof -
  have f: "jw_primed w" "jw_next w = n" "holding w (map_option (\<lambda>b. (n + 1, b)) h)" using w by (simp_all add: represents_def)
  have "seq - n = of_nat d" by (rule seq_of_delta(1) [OF d])
  then have "seq = n + 1 \<longleftrightarrow> (of_nat d :: u16) = of_nat 1" by (auto simp: algebra_simps)
  moreover have "d < 32768" by (rule seq_of_delta(2) [OF d])
  ultimately have "seq = n + 1 \<longleftrightarrow> d = 1" using of_nat16_eq [of d 1] by simp
  then have "jitter_find seq w \<noteq> None \<longleftrightarrow> d = 1 \<and> h \<noteq> None" using holding_facts(3) [OF f(3), of seq] by (cases h) auto
  moreover have "usedSlots w = 0 \<longleftrightarrow> h = None" using holding_facts(2) [OF f(3)] by (cases h) auto
  ultimately show ?thesis using data d free f(1,2) by (simp add: jitter_push_def deltaFromNext_def)
qed

lemma push_alone:
  assumes w: "represents w (n, g, None)" "g \<le> 2" and i: "freeSlot w = Some i" and d: "d < 32768" "seq = n + of_nat d"
    and s: "settle d n g seq data = (evs, res)"
  shows "\<exists>w'. jitter_drain (w\<lparr>jw_slots := (jw_slots w)[i := \<lparr>js_used = True, js_seq = seq, js_bytes = data\<rparr>]\<rparr>) [] = (w', evs) \<and>
    represents w' res"
proof -
  let ?w = "w\<lparr>jw_slots := (jw_slots w)[i := \<lparr>js_used = True, js_seq = seq, js_bytes = data\<rparr>]\<rparr>"
  have f: "jw_primed ?w" "jw_next ?w = n" "jw_gaps ?w = g" "holding w None" using w by (simp_all add: represents_def)
  have "holding ?w (Some (seq, data))" by (rule insert_holding(1) [OF f(4) i]) simp
  from drain_single [OF this f(1-3) d(2,1) w(2) s, of "[]"] show ?thesis using w(2) by simp
qed

lemma push_behind:
  assumes w: "represents w (n, g, Some b)" "g \<le> 2" and i: "freeSlot w = Some i" and d: "d < 32768" "seq = n + of_nat d" "d \<noteq> 1"
    and s: "push_ref seq data (n, g, Some b) = (a, evs, res)"
  shows "\<exists>w'. jitter_drain (w\<lparr>jw_slots := (jw_slots w)[i := \<lparr>js_used = True, js_seq = seq, js_bytes = data\<rparr>]\<rparr>) [] = (w', evs) \<and>
    represents w' res"
proof -
  let ?w = "w\<lparr>jw_slots := (jw_slots w)[i := \<lparr>js_used = True, js_seq = seq, js_bytes = data\<rparr>]\<rparr>"
  have f: "jw_primed ?w" "jw_next ?w = n" "jw_gaps ?w = g" "holding w (Some (n + 1, b))" using w by (simp_all add: represents_def)
  have h2: "holding2 ?w (n + 1, b) (seq, data)" by (rule insert_holding(2) [OF f(4) i]) simp
  have dl: "sint (seq - n) = int d" using d sint_of_nat16 [OF d(1)] by simp
  show ?thesis
  proof (cases "d = 0")
    case True
    then have e: "seq = n" "evs = [Packet seq data, Packet (n + 1) b]" "res = (n + 2, 0, None)"
      using s d dl by (simp_all add: push_ref_def)
    have "\<exists>w'. jitter_drain ?w [] = (w', [] @ Packet seq data # [Packet (n + 1) b]) \<and> represents w' (n + 2, 0, None)"
      by (rule drain_due2 [of _ _ _ "n + 1" b 0]) (use h2 f e in \<open>simp_all add: holding2_sym [of _ "(n, data)"]\<close>)
    then show ?thesis using e by simp
  next
    case False
    then have d2: "2 \<le> d" using d(3) by simp
    define lead where "lead = (if 2 \<le> g then [] else [Gap n (Some b)])"
    define w1 where "w1 = ?w\<lparr>jw_next := n + 1, jw_gaps := (if 2 \<le> g then 0 else g + 1)\<rparr>"
    obtain ev1 where st: "settle (d - 2) (n + 2) 0 seq data = (ev1, res)" and evs: "evs = lead @ Packet (n + 1) b # ev1"
      using s d2 dl by (auto simp: push_ref_def Let_def lead_def split: prod.splits if_splits)
    have t: "drain_turn ?w [] = Some (w1, lead)"
      using turn_apart2 [OF h2 _ _ d2 d(1), of "[]"] d(2) f by (simp add: w1_def lead_def)
    have "\<exists>w'. jitter_drain w1 lead = (w', lead @ Packet (n + 1) b # ev1) \<and> represents w' res"
      by (rule drain_due2 [of _ _ _ seq data "d - 2"])
        (use h2 f d d2 st in \<open>simp_all add: w1_def holding2_next lead_def of_nat_diff add.commute [of 2 n]\<close>)
    then show ?thesis using drain_go [OF t] evs by simp
  qed
qed

text \<open>A push into a primed window refines the reference; in particular the full-window branch is never taken.\<close>

lemma push_refines:
  assumes w: "represents w (n, g, h)" "g \<le> 2" and data: "data \<noteq> []" "length data \<le> AUDIO_JITTER_MAX_PACKET_BYTES"
    and q: "jitter_push seq data w = (a, ev, w')"
  shows "\<exists>res. push_ref seq data (n, g, h) = (a, ev, res) \<and> represents w' res"
proof (cases "sint (seq - n) < 0")
  case True
  then show ?thesis using w data q by (auto simp: represents_def push_ref_def Let_def jitter_push_def deltaFromNext_def)
next
  case False
  define d where "d = nat (sint (seq - n))"
  have dl: "sint (seq - n) = int d" using False by (simp add: d_def)
  have d: "d < 32768" by (rule seq_of_delta(2) [OF dl])
  have "seq - n = of_nat d" by (rule seq_of_delta(1) [OF dl])
  then have sq: "seq = n + of_nat d" by (simp add: algebra_simps)
  have hw: "holding w (map_option (\<lambda>b. (n + 1, b)) h)" using w by (simp add: represents_def)
  obtain i where i: "freeSlot w = Some i" using holding_facts(1) [OF hw] by blast
  note push = push_primed [OF w(1) data dl i, unfolded q]
  obtain a1 evs res where ref: "push_ref seq data (n, g, h) = (a1, evs, res)" by (metis prod_cases3)
  consider "d = 1" "h \<noteq> None" | "d = 0" "h = None" | "d \<noteq> 0" "h = None" | b where "d \<noteq> 1" "h = Some b" by (cases h) auto
  then show ?thesis
  proof cases
    case 1
    then show ?thesis using push w(1) dl by (auto simp: push_ref_def)
  next
    case 2
    then show ?thesis using push w(1) dl by (auto simp: push_ref_def represents_def holding_next)
  next
    case 3
    have r: "a1 = Accepted" "settle d n g seq data = (evs, res)" using ref 3 dl by (simp_all add: push_ref_def)
    from push_alone [OF w(1) [unfolded 3(2)] w(2) i d sq r(2)] show ?thesis using push ref r(1) 3 by auto
  next
    case 4
    have r: "a1 = Accepted" using ref 4 dl by (auto simp: push_ref_def Let_def split: prod.splits if_splits)
    from push_behind [OF w(1) [unfolded 4(2)] w(2) i d sq 4(1) ref [unfolded 4(2)]]
    show ?thesis using push ref r 4 by auto
  qed
qed

lemma push_first:
  assumes "holding w None" "\<not> jw_primed w" "data \<noteq> []" "length data \<le> AUDIO_JITTER_MAX_PACKET_BYTES"
  shows "\<exists>w'. jitter_push seq data w = (Accepted, [Packet seq data], w') \<and> represents w' (seq + 1, 0, None)"
  using assms holding_facts(2) [of "w\<lparr>jw_primed := True, jw_next := seq, jw_gaps := 0\<rparr>" None]
  by (auto simp: jitter_push_def Let_def deltaFromNext_def represents_def holding_def)
section \<open>What the stream sees\<close>

fun event_seq :: "jitter_event \<Rightarrow> u16" where
  "event_seq (Packet q bs) = q"
| "event_seq (Gap q c) = q"

fun packets_of :: "jitter_event list \<Rightarrow> (u16 \<times> u8 list) list" where
  "packets_of [] = []"
| "packets_of (Packet q bs # ev) = (q, bs) # packets_of ev"
| "packets_of (Gap q c # ev) = packets_of ev"

text \<open>No more than two gaps in a row, \<open>g\<close> of them before the list; the count after it.\<close>

fun gap_runs :: "nat \<Rightarrow> jitter_event list \<Rightarrow> nat option" where
  "gap_runs g [] = Some g"
| "gap_runs g (Packet q bs # ev) = gap_runs 0 ev"
| "gap_runs g (Gap q c # ev) = (if g < AUDIO_JITTER_MAX_CONCEAL_FRAMES then gap_runs (g + 1) ev else None)"

text \<open>The events sit at increasing positions below \<open>m\<close>, counted from \<open>n\<close>.\<close>

definition in_order :: "u16 \<Rightarrow> nat \<Rightarrow> jitter_event list \<Rightarrow> bool" where
  "in_order n m ev \<longleftrightarrow>
     (\<exists>js. map event_seq ev = map (\<lambda>j. n + of_nat j) js \<and> sorted_wrt (<) js \<and> (\<forall>j\<in>set js. j < m))"

lemma packets_of_append [simp]: "packets_of (xs @ ys) = packets_of xs @ packets_of ys"
  by (induction xs rule: packets_of.induct) simp_all

lemma gap_runs_append: "gap_runs g (xs @ ys) = (case gap_runs g xs of None \<Rightarrow> None | Some g1 \<Rightarrow> gap_runs g1 ys)"
  by (induction g xs rule: gap_runs.induct) simp_all

lemma in_order_Nil [simp]: "in_order n m []"
  by (auto simp: in_order_def)

lemma in_order_append:
  assumes "in_order n m xs" "in_order (n + of_nat m) k ys"
  shows "in_order n (m + k) (xs @ ys)"
proof -
  obtain js where js: "map event_seq xs = map (\<lambda>j. n + of_nat j) js" "sorted_wrt (<) js" "\<forall>j\<in>set js. j < m"
    using assms(1) by (auto simp: in_order_def)
  obtain ks where ks: "map event_seq ys = map (\<lambda>j. n + of_nat m + of_nat j) ks" "sorted_wrt (<) ks" "\<forall>j\<in>set ks. j < k"
    using assms(2) by (auto simp: in_order_def)
  have "map event_seq (xs @ ys) = map (\<lambda>j. n + of_nat j) (js @ map ((+) m) ks)" using js(1) ks(1) by (simp add: add.assoc)
  moreover have "sorted_wrt (<) (js @ map ((+) m) ks)"
    using js(2,3) ks(2) by (auto simp: sorted_wrt_append sorted_wrt_map)
  moreover have "\<forall>j\<in>set (js @ map ((+) m) ks). j < m + k" using js(3) ks(3) by auto
  ultimately show ?thesis unfolding in_order_def by blast
qed

lemma in_order_one: "event_seq e = n + of_nat j \<Longrightarrow> j < m \<Longrightarrow> in_order n m [e]"
  unfolding in_order_def by (intro exI [of _ "[j]"]) simp

lemma settle_stream:
  assumes "settle d n g q bs = (ev, n', g', h)" "q = n + of_nat d" "g \<le> 2"
  shows "gap_runs g ev = Some g' \<and> length ev \<le> 3 \<and>
    (\<exists>m\<le>d + 1. n' = n + of_nat m \<and> in_order n m ev) \<and>
    (case h of None \<Rightarrow> packets_of ev = [(q, bs)] | Some b \<Rightarrow> packets_of ev = [] \<and> b = bs \<and> q = n' + 1)"
proof -
  have "gap_runs g ev = Some g' \<and> length ev \<le> 3 - g \<and> (\<exists>m\<le>d + 1. n' = n + of_nat m \<and> in_order n m ev) \<and>
      (case h of None \<Rightarrow> packets_of ev = [(q, bs)] | Some b \<Rightarrow> packets_of ev = [] \<and> b = bs \<and> q = n' + 1)"
    using assms
  proof (induction d n g q bs arbitrary: ev rule: settle.induct)
    case (1 n g q bs)
    then show ?case by (auto intro!: exI [of _ 1] in_order_one [of _ _ 0])
  next
    case (2 n g q bs)
    then show ?case by (auto intro!: exI [of _ 0])
  next
    case (3 d n g q bs)
    show ?case
    proof (cases "2 \<le> g")
      case True
      then have e: "ev = [Packet q bs]" "n' = q + 1" "g' = 0" "h = None" using 3(2) by simp_all
      have "in_order n (Suc (Suc d) + 1) ev" unfolding e by (rule in_order_one [of _ _ "Suc (Suc d)"]) (use 3(3) in simp_all)
      moreover have "n' = n + of_nat (Suc (Suc d) + 1)" using e 3(3) by simp
      ultimately have "\<exists>m\<le>Suc (Suc d) + 1. n' = n + of_nat m \<and> in_order n m ev" by blast
      then show ?thesis using e True 3(4) by simp
    next
      case False
      obtain ev1 where s: "settle (Suc d) (n + 1) (g + 1) q bs = (ev1, n', g', h)" and ev: "ev = [Gap n None] @ ev1"
        using 3(2) False by (auto split: prod.splits)
      have ih: "gap_runs (g + 1) ev1 = Some g' \<and> length ev1 \<le> 3 - (g + 1) \<and>
          (\<exists>m\<le>Suc d + 1. n' = n + 1 + of_nat m \<and> in_order (n + 1) m ev1) \<and>
          (case h of None \<Rightarrow> packets_of ev1 = [(q, bs)] | Some b \<Rightarrow> packets_of ev1 = [] \<and> b = bs \<and> q = n' + 1)"
        by (rule 3(1) [OF _ s]) (use False 3(3) in simp_all)
      then obtain m where m: "m \<le> Suc d + 1" "n' = n + 1 + of_nat m" "in_order (n + 1) m ev1" by blast
      have "in_order n (1 + m) ev"
        unfolding ev by (rule in_order_append [OF in_order_one [of _ _ 0]]) (use m(3) in simp_all)
      then have "\<exists>m\<le>Suc (Suc d) + 1. n' = n + of_nat m \<and> in_order n m ev"
        using m by (intro exI [of _ "1 + m"]) (simp add: algebra_simps)
      moreover have "length ev \<le> 3 - g"
      proof -
        have "length ev1 \<le> 3 - (g + 1)" using ih by blast
        then show ?thesis using False ev by simp
      qed
      ultimately show ?thesis using ih ev False by (cases h) auto
    qed
  qed
  then show ?thesis by auto
qed

definition held_packet :: "jitter_abs \<Rightarrow> (u16 \<times> u8 list) list" where
  "held_packet = (\<lambda>(n, g, h). case h of None \<Rightarrow> [] | Some b \<Rightarrow> [(n + 1, b)])"

lemma push_ref_lead:
  assumes q: "push_ref seq data (n, g, Some b) = (a, ev, n', g', h')" and g: "g \<le> 2"
    and dl: "sint (seq - n) = int d" and d2: "2 \<le> d"
  shows "gap_runs g ev = Some g' \<and> length ev \<le> 5 \<and> g' \<le> 2 \<and> a \<noteq> Rejected \<and>
    (\<exists>m\<le>32768. n' = n + of_nat m \<and> in_order n m ev) \<and>
    mset (packets_of ev) + mset (held_packet (n', g', h')) =
      mset (held_packet (n, g, Some b)) + (if a = Accepted then {#(seq, data)#} else {#})"
proof -
  have d: "d < 32768" "seq = n + of_nat d" using seq_of_delta [OF dl] by (simp_all add: algebra_simps)
  define lead where "lead = (if 2 \<le> g then [Packet (n + 1) b] else [Gap n (Some b)] @ [Packet (n + 1) b])"
  obtain ev1 where st: "settle (d - 2) (n + 2) 0 seq data = (ev1, n', g', h')" and e: "ev = lead @ ev1" "a = Accepted"
    using q d2 dl by (auto simp: push_ref_def Let_def lead_def split: prod.splits if_splits)
  have sq: "seq = n + 2 + of_nat (d - 2)" using d(2) d2 by (simp add: of_nat_diff)
  note s = settle_stream [OF st sq]
  obtain m where m: "m \<le> d - 2 + 1" "n' = n + 2 + of_nat m" "in_order (n + 2) m ev1" using s by auto
  have "in_order n 2 lead"
    using in_order_append [OF in_order_one [of "Gap n (Some b)" n 0 1] in_order_one [of "Packet (n + 1) b" "n + of_nat 1" 0 1]]
      in_order_one [of "Packet (n + 1) b" n 1 2]
    by (auto simp: lead_def numeral_2_eq_2)
  then have io: "in_order n (2 + m) ev" unfolding e(1) by (rule in_order_append) (use m(3) in simp)
  have "2 + m \<le> 32768" "n' = n + of_nat (2 + m)" using m(1,2) d(1) d2 by simp_all
  then have "\<exists>m\<le>32768. n' = n + of_nat m \<and> in_order n m ev" using io by blast
  moreover have "gap_runs g ev = Some g'" using s g by (simp add: e(1) gap_runs_append lead_def)
  moreover have "length ev \<le> 5" using s by (simp add: e(1) lead_def)
  moreover have "g' \<le> 2" by (rule settle_gaps [OF st]) simp
  ultimately show ?thesis using s e by (cases h') (auto simp: held_packet_def lead_def)
qed

lemma push_ref_stream:
  assumes q: "push_ref seq data (n, g, h) = (a, ev, n', g', h')" and g: "g \<le> 2"
  shows "gap_runs g ev = Some g' \<and> length ev \<le> 5 \<and> g' \<le> 2 \<and> a \<noteq> Rejected \<and>
    (\<exists>m\<le>32768. n' = n + of_nat m \<and> in_order n m ev) \<and>
    mset (packets_of ev) + mset (held_packet (n', g', h')) =
      mset (held_packet (n, g, h)) + (if a = Accepted then {#(seq, data)#} else {#})"
proof (cases "sint (seq - n) < 0 \<or> (nat (sint (seq - n)) = 1 \<and> h \<noteq> None)")
  case True
  then have "ev = []" "n' = n" "g' = g" "h' = h" "a = Late \<or> a = Duplicate"
    using q by (auto simp: push_ref_def Let_def split: if_splits)
  then show ?thesis using g by (auto intro!: exI [of _ 0])
next
  case False
  define d where "d = nat (sint (seq - n))"
  have dl: "sint (seq - n) = int d" using False by (simp add: d_def)
  have d: "d < 32768" "seq = n + of_nat d" using seq_of_delta [OF dl] by (simp_all add: algebra_simps)
  show ?thesis
  proof (cases h)
    case None
    then have e: "a = Accepted" "settle d n g seq data = (ev, n', g', h')" using q dl by (simp_all add: push_ref_def)
    note s = settle_stream [OF e(2) d(2) g]
    have "g' \<le> 2" by (rule settle_gaps [OF e(2) g])
    moreover have "\<exists>m\<le>32768. n' = n + of_nat m \<and> in_order n m ev" 
    proof -
      obtain m where "m \<le> d + 1" "n' = n + of_nat m" "in_order n m ev" using s by blast
      moreover have "d + 1 \<le> 32768" using d(1) by simp
      ultimately show ?thesis using le_trans by blast
    qed
    ultimately show ?thesis using s e(1) None by (cases h') (auto simp: held_packet_def)
  next
    case (Some b)
    show ?thesis
    proof (cases "d = 0")
      case True
      then have e: "a = Accepted" "ev = [Packet seq data] @ [Packet (n + 1) b]" "n' = n + 2" "g' = 0" "h' = None"
        using q dl Some by (auto simp: push_ref_def)
      have "in_order n (1 + 1) ev"
        unfolding e by (rule in_order_append [OF in_order_one [of _ _ 0]]) (use d True in \<open>auto intro: in_order_one [of _ _ 0]\<close>)
      then have "\<exists>m\<le>32768. n' = n + of_nat m \<and> in_order n m ev" using e(3) by (intro exI [of _ 2]) (simp add: numeral_2_eq_2)
      then show ?thesis using e Some by (simp add: held_packet_def)
    next
      case ne: False
      then have d2: "2 \<le> d" using False Some d_def by auto
      show ?thesis unfolding Some by (rule push_ref_lead [OF q [unfolded Some] g dl d2])
    qed
  qed
qed

lemma jitter_ok_reset: "length (jw_slots w) = 2 \<Longrightarrow> jitter_ok (jitter_reset w)" "jitter_ok default_jitter_window"
proof -
  assume "length (jw_slots w) = 2"
  then obtain a b where "jw_slots w = [a, b]" by (auto simp: numeral_2_eq_2 length_Suc_conv)
  then show "jitter_ok (jitter_reset w)" by (simp add: jitter_ok_def jitter_reset_def holding_def)
next
  show "jitter_ok default_jitter_window"
    by (simp add: jitter_ok_def default_jitter_window_def holding_def default_jitter_slot_def numeral_2_eq_2)
qed

definition window_abs :: "jitter_window \<Rightarrow> jitter_abs" where
  "window_abs w =
     (jw_next w, jw_gaps w, map_option (\<lambda>s. js_bytes s) (List.find js_used (jw_slots w)))"

lemma represents_abs:
  assumes "represents w x"
  shows "x = window_abs w"
proof -
  obtain n g h where x: "x = (n, g, h)" by (metis prod_cases3)
  have "holding w (map_option (\<lambda>b. (n + 1, b)) h)" "jw_next w = n" "jw_gaps w = g" using assms by (simp_all add: x represents_def)
  then show ?thesis by (cases h) (auto simp: x window_abs_def holding_def)
qed

lemma jitter_ok_primed:
  assumes "jitter_ok w" "jw_primed w"
  shows "represents w (window_abs w)" "fst (snd (window_abs w)) \<le> 2"
proof -
  obtain h where "holding w (map_option (\<lambda>b. (jw_next w + 1, b)) h)" using assms by (auto simp: jitter_ok_def)
  then have "represents w (jw_next w, jw_gaps w, h)" using assms(2) by (simp add: represents_def)
  then show "represents w (window_abs w)" using represents_abs by simp
  show "fst (snd (window_abs w)) \<le> 2" using assms by (simp add: window_abs_def jitter_ok_def)
qed

lemma represents_ok: "represents w (n, g, h) \<Longrightarrow> g \<le> 2 \<Longrightarrow> jitter_ok w \<and> jw_primed w"
  by (auto simp: represents_def jitter_ok_def)

definition window_held :: "jitter_window \<Rightarrow> (u16 \<times> u8 list) list" where
  "window_held w = map (\<lambda>s. (js_seq s, js_bytes s)) (filter js_used (jw_slots w))"

lemma represents_held: "represents w x \<Longrightarrow> window_held w = held_packet x"
  by (cases x) (auto simp: represents_def holding_def window_held_def held_packet_def split: option.splits)

text \<open>
  What a push of a well-formed packet achieves, from the position \<open>n0\<close> and the gap count \<open>g0\<close> it starts at.
\<close>

definition push_good :: "u16 \<Rightarrow> nat \<Rightarrow> jitter_window \<Rightarrow> u16 \<Rightarrow> u8 list \<Rightarrow> jitter_accept \<Rightarrow> jitter_event list \<Rightarrow> jitter_window \<Rightarrow> bool"
where
  "push_good n0 g0 w seq data a ev w' \<longleftrightarrow>
     jitter_ok w' \<and> jw_primed w' \<and> a \<noteq> Rejected \<and> length ev \<le> 5 \<and> gap_runs g0 ev = Some (jw_gaps w') \<and>
     (\<exists>m\<le>32768. jw_next w' = n0 + of_nat m \<and> in_order n0 m ev) \<and>
     mset (packets_of ev) + mset (window_held w') =
       mset (window_held w) + (if a = Accepted then {#(seq, data)#} else {#})"

lemma push_good_primed:
  assumes ok: "jitter_ok w" "jw_primed w" and data: "data \<noteq> []" "length data \<le> AUDIO_JITTER_MAX_PACKET_BYTES"
    and q: "jitter_push seq data w = (a, ev, w')"
  shows "push_good (jw_next w) (jw_gaps w) w seq data a ev w'"
proof -
  note r = jitter_ok_primed [OF ok]
  obtain n g h where x: "window_abs w = (n, g, h)" by (metis prod_cases3)
  have ng: "jw_next w = n" "jw_gaps w = g" using x by (simp_all add: window_abs_def)
  have g: "g \<le> 2" using r(2) x by simp
  obtain res where p: "push_ref seq data (n, g, h) = (a, ev, res)" "represents w' res"
    using push_refines [OF r(1) [unfolded x] g data q] by blast
  obtain n' g' h' where res: "res = (n', g', h')" by (metis prod_cases3)
  note s = push_ref_stream [OF p(1) [unfolded res] g]
  have w': "jw_next w' = n'" "jw_gaps w' = g'" using p(2) by (simp_all add: res represents_def)
  have "jitter_ok w' \<and> jw_primed w'" by (rule represents_ok [OF p(2) [unfolded res]]) (use s in blast)
  then show ?thesis
    using s unfolding push_good_def ng w' represents_held [OF p(2)] represents_held [OF r(1)] x res by blast
qed

lemma push_good_first:
  assumes ok: "jitter_ok w" "\<not> jw_primed w" and data: "data \<noteq> []" "length data \<le> AUDIO_JITTER_MAX_PACKET_BYTES"
    and q: "jitter_push seq data w = (a, ev, w')"
  shows "push_good seq 0 w seq data a ev w'"
proof -
  have h: "holding w None" using ok by (simp add: jitter_ok_def)
  have e: "a = Accepted" "ev = [Packet seq data]" and r: "represents w' (seq + 1, 0, None)"
    using push_first [OF h ok(2) data, of seq] q by auto
  have "jitter_ok w' \<and> jw_primed w'" by (rule represents_ok [OF r]) simp
  moreover have "jw_next w' = seq + of_nat 1" "jw_gaps w' = 0" using r by (simp_all add: represents_def)
  moreover have "in_order seq 1 ev" unfolding e by (rule in_order_one [of _ _ 0]) simp_all
  then have "\<exists>m\<le>32768. jw_next w' = seq + of_nat m \<and> in_order seq m ev" using calculation(2) by (intro exI [of _ 1]) simp
  moreover have "window_held w' = []" "window_held w = []"
    using represents_held [OF r] h by (auto simp: held_packet_def window_held_def holding_def)
  ultimately show ?thesis by (simp add: push_good_def e)
qed

lemma push_malformed:
  "data = [] \<or> length data > AUDIO_JITTER_MAX_PACKET_BYTES \<Longrightarrow> jitter_push seq data w = (Rejected, [], w)"
  by (auto simp: jitter_push_def)

section \<open>Whole streams\<close>

fun jitter_stream :: "(u16 \<times> u8 list) list \<Rightarrow> jitter_window \<Rightarrow> jitter_event list \<times> (u16 \<times> u8 list) list \<times> jitter_window" where
  "jitter_stream [] w = ([], [], w)"
| "jitter_stream ((seq, data) # ps) w =
     (case jitter_push seq data w of
        (a, ev, w1) \<Rightarrow> (case jitter_stream ps w1 of
           (evs, acc, w2) \<Rightarrow> (ev @ evs, (if a = Accepted then (seq, data) # acc else acc), w2)))"

text \<open>The first well-formed packet of a stream sets its origin.\<close>

lemma in_order_grow: "(\<exists>m\<le>k. P m) \<Longrightarrow> \<exists>m\<le>j + k. P m" for k :: nat
  by (meson trans_le_add2)

lemma jitter_stream_primed:
  assumes "jitter_ok w" "jw_primed w" "jitter_stream ps w = (evs, acc, w')"
  shows "jitter_ok w' \<and> gap_runs (jw_gaps w) evs = Some (jw_gaps w') \<and>
    (\<exists>m\<le>32768 * length ps. in_order (jw_next w) m evs \<and> jw_next w' = jw_next w + of_nat m) \<and>
    mset (packets_of evs) + mset (window_held w') = mset (window_held w) + mset acc"
  using assms
proof (induction ps arbitrary: w evs acc)
  case Nil
  then show ?case by (auto intro!: exI [of _ 0])
next
  case (Cons p ps)
  obtain seq data where p: "p = (seq, data)" by force
  obtain a ev w1 where q: "jitter_push seq data w = (a, ev, w1)" by (metis prod_cases3)
  obtain evs1 acc1 where r: "jitter_stream ps w1 = (evs1, acc1, w')" and e: "evs = ev @ evs1"
      "acc = (if a = Accepted then (seq, data) # acc1 else acc1)"
    using Cons.prems(3) q by (auto simp: p split: prod.splits)
  show ?case
  proof (cases "data = [] \<or> length data > AUDIO_JITTER_MAX_PACKET_BYTES")
    case True
    then show ?thesis using push_malformed [OF True, of seq w] q Cons.IH [OF Cons.prems(1,2)] r e
      by (simp add: in_order_grow)
  next
    case False
    then have "push_good (jw_next w) (jw_gaps w) w seq data a ev w1"
      using push_good_primed [OF Cons.prems(1,2) _ _ q] by simp
    then obtain m where g: "jitter_ok w1" "jw_primed w1" "gap_runs (jw_gaps w) ev = Some (jw_gaps w1)"
        "jw_next w1 = jw_next w + of_nat m" "in_order (jw_next w) m ev" "m \<le> 32768"
        "mset (packets_of ev) + mset (window_held w1) = mset (window_held w) + (if a = Accepted then {#(seq, data)#} else {#})"
      unfolding push_good_def by blast
    note ih = Cons.IH [OF g(1,2) r]
    obtain k where k: "in_order (jw_next w1) k evs1" "jw_next w' = jw_next w1 + of_nat k" "k \<le> 32768 * length ps"
      using ih by blast
    have "in_order (jw_next w) (m + k) evs" unfolding e(1) by (rule in_order_append [OF g(5)]) (use k(1) g(4) in simp)
    moreover have "jw_next w' = jw_next w + of_nat (m + k)" "m + k \<le> 32768 * length (p # ps)"
      using k(2,3) g(4,6) by simp_all
    moreover have "mset (packets_of evs) + mset (window_held w') = mset (window_held w) + mset acc"
      using ih g(7) by (simp add: e add.assoc)
    ultimately show ?thesis using ih g(3) unfolding e(1) gap_runs_append by (intro conjI) (auto simp del: mult_Suc_right)
  qed
qed

lemma jitter_stream_fresh:
  assumes "jitter_ok w" "\<not> jw_primed w" "jitter_stream ps w = (evs, acc, w')"
  shows "jitter_ok w' \<and> gap_runs 0 evs \<noteq> None \<and> (\<exists>n. \<exists>m\<le>32768 * length ps. in_order n m evs) \<and>
    mset (packets_of evs) + mset (window_held w') = mset acc"
  using assms
proof (induction ps arbitrary: evs acc)
  case Nil
  then have "window_held w = []" by (auto simp: jitter_ok_def window_held_def holding_def)
  then show ?case using Nil by auto
next
  case (Cons p ps)
  obtain seq data where p: "p = (seq, data)" by force
  obtain a ev w1 where q: "jitter_push seq data w = (a, ev, w1)" by (metis prod_cases3)
  obtain evs1 acc1 where r: "jitter_stream ps w1 = (evs1, acc1, w')" and e: "evs = ev @ evs1"
      "acc = (if a = Accepted then (seq, data) # acc1 else acc1)"
    using Cons.prems(3) q by (auto simp: p split: prod.splits)
  show ?case
  proof (cases "data = [] \<or> length data > AUDIO_JITTER_MAX_PACKET_BYTES")
    case True
    then show ?thesis using push_malformed [OF True, of seq w] q Cons.IH [OF Cons.prems(1,2)] r e
      by (auto intro: trans_le_add2)
  next
    case False
    then have "push_good seq 0 w seq data a ev w1" using push_good_first [OF Cons.prems(1,2) _ _ q] by simp
    then obtain m where g: "jitter_ok w1" "jw_primed w1" "gap_runs 0 ev = Some (jw_gaps w1)"
        "jw_next w1 = seq + of_nat m" "in_order seq m ev" "m \<le> 32768"
        "mset (packets_of ev) + mset (window_held w1) = mset (window_held w) + (if a = Accepted then {#(seq, data)#} else {#})"
      unfolding push_good_def by blast
    have h: "window_held w = []" using Cons.prems(1,2) by (auto simp: jitter_ok_def window_held_def holding_def)
    note st = jitter_stream_primed [OF g(1,2) r]
    obtain k where k: "in_order (jw_next w1) k evs1" "k \<le> 32768 * length ps" using st by blast
    have "in_order seq (m + k) evs" unfolding e(1) using in_order_append [OF g(5)] k(1) g(4) by simp
    moreover have "m + k \<le> 32768 * length (p # ps)" using k(2) g(6) by simp
    ultimately have "\<exists>n. \<exists>m\<le>32768 * length (p # ps). in_order n m evs" by blast
    moreover have "mset (packets_of evs) + mset (window_held w') = mset acc" using st g(7) h by (simp add: e add.assoc)
    ultimately show ?thesis using st g(3) by (simp add: e gap_runs_append)
  qed
qed

section \<open>Properties\<close>

text \<open>
  C11.  The reordering loop computes the reference: on a running window it accepts, refuses and emits
  exactly what the two-slot specification says, for every sequence number and payload, and its state
  again represents the specification's.
\<close>

theorem jitter_refines:
  assumes w: "represents w (n, g, h)" "g \<le> AUDIO_JITTER_MAX_CONCEAL_FRAMES"
    and data: "data \<noteq> []" "length data \<le> AUDIO_JITTER_MAX_PACKET_BYTES"
  shows "\<exists>a ev w' res. jitter_push seq data w = (a, ev, w') \<and> push_ref seq data (n, g, h) = (a, ev, res) \<and>
    represents w' res"
proof -
  obtain a ev w' where q: "jitter_push seq data w = (a, ev, w')" by (metis prod_cases3)
  show ?thesis using push_refines [OF w(1) _ data q] w(2) q by auto
qed

theorem jitter_refines_witness:
  "\<exists>a ev w' res. jitter_push 7 [1] (default_jitter_window\<lparr>jw_primed := True, jw_next := 5\<rparr>) = (a, ev, w') \<and>
     push_ref 7 [1] (5, 0, None) = (a, ev, res) \<and> represents w' res"
proof -
  have "represents (default_jitter_window\<lparr>jw_primed := True, jw_next := 5\<rparr>) (5, 0, None)"
    by (simp add: represents_def holding_def default_jitter_window_def default_jitter_slot_def numeral_2_eq_2)
  from jitter_refines [OF this, of "[1]" 7] show ?thesis by simp
qed

text \<open>
  C17.  A whole stream, whatever order, loss and duplication the network gave it: every accepted packet
  comes out once or is still held, nothing else comes out; the events stand at increasing positions,
  advancing by at most half the sequence space per packet; and never more than two gaps are concealed
  in a row.
\<close>

theorem jitter_stream_whole:
  "case jitter_stream ps default_jitter_window of (evs, acc, w') \<Rightarrow>
     mset (packets_of evs) + mset (window_held w') = mset acc \<and> gap_runs 0 evs \<noteq> None \<and>
     (\<exists>n. \<exists>m\<le>32768 * length ps. in_order n m evs)"
proof -
  obtain evs acc w' where q: "jitter_stream ps default_jitter_window = (evs, acc, w')" by (metis prod_cases3)
  have "\<not> jw_primed default_jitter_window" by (simp add: default_jitter_window_def)
  from jitter_stream_fresh [OF jitter_ok_reset(2) this q] show ?thesis by (simp add: q)
qed

end
