(* ===== verification/Mic_Worker.thy ===== *)
theory Mic_Worker
  imports Pointer_Worker Session_Audio Audio_Jitter
begin

text \<open>
  The microphone worker (\<^verbatim>\<open>core/mic_worker.cpp\<close>): packets that the receive thread queued pass the jitter
  window of their pad, are decoded, and the samples go to the pad's microphone.  The Opus decoder is
  the code behind \<^verbatim>\<open>IAudioDecoder\<close>: a record of functions over a decoder state, each returning the
  samples it wrote (none on failure).  The ring of packets and the counter \<^verbatim>\<open>late_\<close>, which the receive
  thread also bumps, are fields of the service state.
\<close>

section \<open>The worker's tables\<close>

record 'd mic_decoder =
  md_decode :: "'d \<Rightarrow> u8 list \<Rightarrow> nat \<Rightarrow> 'd \<times> i16 list"
  md_conceal :: "'d \<Rightarrow> nat \<Rightarrow> 'd \<times> i16 list"
  md_decodeFec :: "'d \<Rightarrow> u8 list \<Rightarrow> nat \<Rightarrow> 'd \<times> i16 list"

text \<open>\<^verbatim>\<open>codecs_\<close>: no factory, or what its \<^verbatim>\<open>makeMicDecoder\<close> returns.\<close>

type_synonym 'd mic_factory = "'d option option"

record 'd mic_pad =
  mic_gen :: u32
  mic_slot :: int
  mic_ctrlIdx :: nat
  mic_window :: jitter_window
  mic_decoder :: "'d option"

definition default_mic_pad :: "'d mic_pad" where
  "default_mic_pad = \<lparr>mic_gen = 0, mic_slot = -1, mic_ctrlIdx = 0, mic_window = default_jitter_window,
     mic_decoder = None\<rparr>"

record mic_session =
  mss_keyEpoch :: u32
  mss_noSinkLogged :: bool

record 'd mic_worker =
  mw_pads :: "'d mic_pad list"
  mw_sessions :: "mic_session list"
  mw_accepted :: u64
  mw_decoded :: u64
  mw_fecRecovered :: u64
  mw_concealed :: u64
  mw_packetsDone :: u64
  mw_lastAccepted :: bool
  mw_sweepsAsked :: u64
  mw_sweepsDone :: u64

definition default_mic_worker :: "'d mic_worker" where
  "default_mic_worker =
     \<lparr>mw_pads = replicate (MAX_BACKEND_CONTROLLERS + 1) default_mic_pad,
      mw_sessions = replicate MAX_SESSIONS \<lparr>mss_keyEpoch = 0, mss_noSinkLogged = False\<rparr>,
      mw_accepted = 0, mw_decoded = 0, mw_fecRecovered = 0, mw_concealed = 0, mw_packetsDone = 0,
      mw_lastAccepted = False, mw_sweepsAsked = 0, mw_sweepsDone = 0\<rparr>"

datatype mic_binding = MicBound | MicUnbound | MicChanging

datatype mic_delivery = Submitted | NoSink | NotBound

section \<open>Who the samples are for\<close>

definition mic_binding_of :: "int \<Rightarrow> nat \<Rightarrow> nat \<Rightarrow> u32 \<Rightarrow> hot_table \<Rightarrow> mic_binding" where
  "mic_binding_of slt i serial gen t =
     (if slt < 0 \<or> slt \<ge> int MAX_SESSIONS \<or> i \<ge> MAX_CONTROLLERS_PER_CONN then MicUnbound
      else case hs_read (slots t ! nat slt) (\<lambda>h. (hs_ctrl h ! i, hs_padGen h ! i)) of
             None \<Rightarrow> MicChanging
           | Some (word, padGen) \<Rightarrow>
               if word AND HOT_CTRL_ACTIVE \<noteq> 0 \<and> word AND HOT_CTRL_SERIAL_MASK = of_nat serial \<and> padGen = gen
               then MicBound else MicUnbound)"

definition mic_submit :: "mic_packet \<Rightarrow> i16 list \<Rightarrow> 'b svc \<Rightarrow> mic_delivery \<times> 'b svc" where
  "mic_submit packet pcm s =
     (if mic_binding_of (int (mp_slot packet)) (mp_ctrlIdx packet) (mp_serial packet) (mp_gen packet) (s_hot s) = MicBound
      then case gp_submitMicAudioPcm (s_port s) (mp_serial packet) pcm (s_backend s) of
             (ok, b) \<Rightarrow> (if ok then Submitted else NoSink, s\<lparr>s_backend := b\<rparr>)
      else (NotBound, s))"

fun mic_deviceName :: "nat \<Rightarrow> nat \<Rightarrow> u32 \<Rightarrow> hot_table \<Rightarrow> string option" where
  "mic_deviceName 0 slt keyEpoch t = None"
| "mic_deviceName (Suc attempts) slt keyEpoch t =
     (case hs_read (slots t ! slt) (\<lambda>h. (hs_keyEpoch h, hs_loadName h)) of
        Some (seenEpoch, out) \<Rightarrow> if seenEpoch = keyEpoch then Some (bytes_string out) else None
      | None \<Rightarrow> mic_deviceName attempts slt keyEpoch t)"

definition noteNoSink :: "mic_packet \<Rightarrow> 'd mic_worker \<times> 'b svc \<Rightarrow> 'd mic_worker \<times> 'b svc" where
  "noteNoSink packet = (\<lambda>(w, s).
     let e = mw_sessions w ! mp_slot packet;
         e1 = (if mss_keyEpoch e \<noteq> mp_keyEpoch packet
               then e\<lparr>mss_keyEpoch := mp_keyEpoch packet, mss_noSinkLogged := False\<rparr> else e);
         w1 = w\<lparr>mw_sessions := (mw_sessions w)[mp_slot packet := e1]\<rparr>
     in if mss_noSinkLogged e1 then (w1, s)
        else case mic_deviceName NAME_READ_ATTEMPTS (mp_slot packet) (mp_keyEpoch packet) (s_hot s) of
               None \<Rightarrow> (w1, s)
             | Some name \<Rightarrow>
                 (w\<lparr>mw_sessions := (mw_sessions w)[mp_slot packet := e1\<lparr>mss_noSinkLogged := True\<rparr>]\<rparr>,
                  logMsg INFO (''Mic audio from '' @ name @ '' controller #'' @ dec_string (mp_ctrlIdx packet) @
                    '' decodes but the emulated pad has no microphone endpoint'') s))"

section \<open>One packet\<close>

text \<open>One event of the window: the call of the decoder and the counter it bumps when it wrote samples.\<close>

definition decode_event :: "'d mic_decoder \<Rightarrow> jitter_event \<Rightarrow> 'd \<Rightarrow> 'd \<times> i16 list" where
  "decode_event dec ev d =
     (case ev of
        Packet _ bytes \<Rightarrow> md_decode dec d bytes AUDIO_FRAME_SAMPLES
      | Gap _ (Some carrier) \<Rightarrow> md_decodeFec dec d carrier AUDIO_FRAME_SAMPLES
      | Gap _ None \<Rightarrow> md_conceal dec d AUDIO_FRAME_SAMPLES)"

definition bump_event :: "jitter_event \<Rightarrow> 'd mic_worker \<Rightarrow> 'd mic_worker" where
  "bump_event ev w =
     (case ev of
        Packet _ _ \<Rightarrow> w\<lparr>mw_decoded := mw_decoded w + 1\<rparr>
      | Gap _ (Some _) \<Rightarrow> w\<lparr>mw_fecRecovered := mw_fecRecovered w + 1\<rparr>
      | Gap _ None \<Rightarrow> w\<lparr>mw_concealed := mw_concealed w + 1\<rparr>)"

fun play_events :: "'d mic_decoder \<Rightarrow> mic_packet \<Rightarrow> jitter_event list \<Rightarrow> 'd \<Rightarrow> 'd mic_worker \<times> 'b svc \<Rightarrow>
    'd \<times> 'd mic_worker \<times> 'b svc" where
  "play_events dec packet [] d (w, s) = (d, w, s)"
| "play_events dec packet (ev # evs) d (w, s) =
     (case decode_event dec ev d of
        (d1, pcm) \<Rightarrow>
          if pcm = [] then play_events dec packet evs d1 (w, s)
          else case mic_submit packet pcm s of
                 (NotBound, s1) \<Rightarrow> (d1, bump_event ev w, s1)
               | (NoSink, s1) \<Rightarrow> play_events dec packet evs d1 (noteNoSink packet (bump_event ev w, s1))
               | (Submitted, s1) \<Rightarrow> play_events dec packet evs d1 (bump_event ev w, s1))"

definition put_mic_pad :: "nat \<Rightarrow> 'd mic_pad \<Rightarrow> 'd mic_worker \<Rightarrow> 'd mic_worker" where
  "put_mic_pad i pad w = w\<lparr>mw_pads := (mw_pads w)[i := pad]\<rparr>"

definition mic_pad_for :: "mic_packet \<Rightarrow> 'd mic_pad \<Rightarrow> 'd mic_pad" where
  "mic_pad_for packet pad =
     (if mic_gen pad \<noteq> mp_gen packet
      then pad\<lparr>mic_gen := mp_gen packet, mic_slot := int (mp_slot packet), mic_ctrlIdx := mp_ctrlIdx packet,
               mic_window := jitter_reset (mic_window pad), mic_decoder := None\<rparr>
      else pad)"

definition mic_process :: "'d mic_decoder \<Rightarrow> 'd mic_factory \<Rightarrow> mic_packet \<Rightarrow> 'd mic_worker \<times> 'b svc \<Rightarrow>
    'd mic_worker \<times> 'b svc" where
  "mic_process dec codecs packet = (\<lambda>(w, s).
     let pad = mic_pad_for packet (mw_pads w ! mp_serial packet);
         (accept, events, win) = jitter_push (mp_seq packet) (mp_bytes packet) (mic_window pad);
         pad1 = pad\<lparr>mic_window := win\<rparr>
     in if accept \<noteq> Accepted
        then (put_mic_pad (mp_serial packet) pad1 (w\<lparr>mw_lastAccepted := False\<rparr>), s\<lparr>s_micLate := s_micLate s + 1\<rparr>)
        else
          let w1 = w\<lparr>mw_accepted := mw_accepted w + 1, mw_lastAccepted := True\<rparr>;
              decoder = (case mic_decoder pad1 of Some d \<Rightarrow> Some d
                         | None \<Rightarrow> (case codecs of Some made \<Rightarrow> made | None \<Rightarrow> None))
          in if events = [] then (put_mic_pad (mp_serial packet) pad1 w1, s)
             else case decoder of
                    None \<Rightarrow> (put_mic_pad (mp_serial packet) (pad1\<lparr>mic_decoder := None\<rparr>) w1, s)
                  | Some d \<Rightarrow>
                      (case play_events dec packet events d (w1, s) of
                         (d1, w2, s2) \<Rightarrow>
                           (put_mic_pad (mp_serial packet) (pad1\<lparr>mic_decoder := Some d1\<rparr>) w2, s2)))"

section \<open>The loop\<close>

text \<open>\<^verbatim>\<open>front\<close>, \<^verbatim>\<open>process\<close>, \<^verbatim>\<open>release\<close>: the packet leaves the ring after it was processed.\<close>

definition packet_turn :: "'d mic_decoder \<Rightarrow> 'd mic_factory \<Rightarrow> 'd mic_worker \<times> 'b svc \<Rightarrow>
    ('d mic_worker \<times> 'b svc) option" where
  "packet_turn dec codecs = (\<lambda>(w, s).
     case s_micQueue s of
       [] \<Rightarrow> None
     | packet # _ \<Rightarrow>
         (case mic_process dec codecs packet (w, s) of
            (w1, s1) \<Rightarrow> Some (w1\<lparr>mw_packetsDone := mw_packetsDone w1 + 1\<rparr>, s1\<lparr>s_micQueue := tl (s_micQueue s1)\<rparr>)))"

definition sweep_pad :: "hot_table \<Rightarrow> nat \<Rightarrow> 'd mic_pad \<Rightarrow> 'd mic_pad" where
  "sweep_pad t serial pad =
     (if mic_gen pad = 0 then pad
      else if mic_binding_of (mic_slot pad) (mic_ctrlIdx pad) serial (mic_gen pad) t \<noteq> MicUnbound then pad
      else pad\<lparr>mic_gen := 0, mic_window := jitter_reset (mic_window pad), mic_decoder := None\<rparr>)"

definition sweep :: "hot_table \<Rightarrow> 'd mic_worker \<Rightarrow> 'd mic_worker" where
  "sweep t w =
     fold (\<lambda>serial w. put_mic_pad serial (sweep_pad t serial (mw_pads w ! serial)) w)
       [1..<Suc MAX_BACKEND_CONTROLLERS] w"

definition sweep_turn :: "'d mic_worker \<times> 'b svc \<Rightarrow> 'd mic_worker \<times> 'b svc" where
  "sweep_turn = (\<lambda>(w, s). ((sweep (s_hot s) w)\<lparr>mw_sweepsDone := mw_sweepsAsked w\<rparr>, s))"
section \<open>The binding of a pad\<close>

lemma mic_binding_stable: "svc_inv F s \<Longrightarrow> mic_binding_of slt i x gen (s_hot s) \<noteq> MicChanging"
proof -
  assume inv: "svc_inv F s"
  have "hs_read (slots (s_hot s) ! j) f = Some (f (slots (s_hot s) ! j))" if "j < MAX_SESSIONS" for j and f :: "hot_slot \<Rightarrow> u32 \<times> u32"
    using hot_okD(5) [OF _ that] inv by (auto simp: svc_inv_def hs_read_def hs_writing_def)
  then show ?thesis by (auto simp: mic_binding_of_def nat_less_iff)
qed

lemma mic_bound_holder:
  assumes inv: "svc_inv F s" and b: "mic_binding_of slt i x gen (s_hot s) = MicBound" and x: "x \<le> MAX_BACKEND_CONTROLLERS"
  obtains r where "r \<in> snd ` set (s_conns s)" "int (slot r) = slt" "holds r x i" "plugGen (controllers r ! i) = gen"
proof -
  let ?h = "slots (s_hot s) ! nat slt"
  have hot: "hot_ok (snd ` set (s_conns s)) (s_hot s)" using inv by (simp add: svc_inv_def)
  have rng: "0 \<le> slt" "nat slt < 32" "i < 16" using b by (auto simp: mic_binding_of_def split: if_splits)
  have rd: "hs_read ?h f = Some (f ?h)" for f :: "hot_slot \<Rightarrow> u32 \<times> u32"
    using hot_okD(5) [OF hot rng(2)] by (simp add: hs_read_def hs_writing_def)
  have w: "hs_ctrl ?h ! i AND HOT_CTRL_ACTIVE \<noteq> 0" "hs_ctrl ?h ! i AND HOT_CTRL_SERIAL_MASK = of_nat x" "hs_padGen ?h ! i = gen"
    using b rng by (auto simp: mic_binding_of_def rd split: if_splits)
  have "\<not> vacant ?h" using w(1) rng(3) by (auto simp: vacant_def)
  then obtain r where r: "r \<in> snd ` set (s_conns s)" "slot r = nat slt"
    using hot rng(2) unfolding hot_ok_def by blast
  note m = hot_slot_row [OF inv r(1)]
  have len: "length (controllers r) = 16" and ok: "ctrl_ok i (controllers r ! i)"
    using m(4) rng(3) by (simp_all add: row_ok_def)
  have cw: "hs_ctrl ?h ! i = ctrlWord (controllers r ! i)" "hs_padGen ?h ! i = padGenWord (controllers r ! i)"
    using m(1) r(2) len rng(3) by (simp_all add: mirrors_def)
  have act: "active (controllers r ! i)" using w(1) ctrlWord_read(2) [OF ok] unfolding cw by blast
  have "unat (of_nat x :: u32) = serialNo (controllers r ! i)" using w(2) ctrlWord_read(1) [OF ok] unfolding cw by simp
  then have "serialNo (controllers r ! i) = x" using x by (simp add: unat_of_nat)
  then show thesis using that [OF r(1)] act len rng r(2) w(3) cw(2) by (simp add: holds_def padGenWord_def)
qed

lemma mic_holder_bound:
  assumes inv: "svc_inv F s" and r: "r \<in> snd ` set (s_conns s)" and h: "holds r x i"
  shows "mic_binding_of (int (slot r)) i x (plugGen (controllers r ! i)) (s_hot s) = MicBound"
proof -
  note rs = read_slot [OF inv r h]
  have "slot r < 32" using inv r by (auto simp: svc_inv_def rows_ok_def)
  then show ?thesis using rs by (simp add: mic_binding_of_def hot_slot_row(2) [OF inv r])
qed

section \<open>What the worker may change\<close>

definition mic_only :: "'b svc \<Rightarrow> 'b svc \<Rightarrow> bool" where
  "mic_only s s' \<longleftrightarrow>
     s' = s\<lparr>s_backend := s_backend s', s_micLate := s_micLate s', s_out := s_out s'\<rparr>"

lemma mic_only_refl [simp]: "mic_only s s"
  by (simp add: mic_only_def)

lemma mic_only_trans: "mic_only s s' \<Longrightarrow> mic_only s' s'' \<Longrightarrow> mic_only s s''"
  unfolding mic_only_def by (cases s; cases s'; cases s'') simp

lemma mic_onlyD:
  assumes "mic_only s s'"
  shows "s_conns s' = s_conns s" "s_hot s' = s_hot s" "s_micQueue s' = s_micQueue s" "s_port s' = s_port s"
  by (subst assms [unfolded mic_only_def], simp)+

lemma mic_only_inv: "mic_only s s' \<Longrightarrow> svc_inv F s \<Longrightarrow> svc_inv F s'"
proof -
  assume w: "mic_only s s'" and inv: "svc_inv F s"
  have "rx_only s (s\<lparr>s_backend := b, s_micLate := l, s_out := es\<rparr>)" for b l es
    by (simp add: rx_only_def queues_ok_def list_all2_refl)
  then have "rx_only s s'" using w unfolding mic_only_def by metis
  then show ?thesis using inv by (rule rx_only_inv)
qed

definition mic_ok :: "'d mic_worker \<Rightarrow> bool" where
  "mic_ok w \<longleftrightarrow> length (mw_pads w) = MAX_BACKEND_CONTROLLERS + 1 \<and> length (mw_sessions w) = MAX_SESSIONS \<and>
     (\<forall>pad\<in>set (mw_pads w). jitter_ok (mic_window pad))"

lemma mic_ok_default [simp]: "mic_ok default_mic_worker"
  by (simp add: mic_ok_def default_mic_worker_def default_mic_pad_def jitter_ok_reset)

lemma mic_ok_put: "mic_ok w \<Longrightarrow> jitter_ok (mic_window pad) \<Longrightarrow> mic_ok (put_mic_pad i pad w)"
  unfolding mic_ok_def put_mic_pad_def by (auto dest: set_update_subset_insert [THEN subsetD])

lemma mic_ok_fields:
  assumes "mw_pads w' = mw_pads w" "length (mw_sessions w') = length (mw_sessions w)"
  shows "mic_ok w' = mic_ok w"
  using assms by (simp add: mic_ok_def)

lemma put_mic_pad_simps [simp]:
  "mw_pads (put_mic_pad i pad w) = (mw_pads w)[i := pad]" "mw_sessions (put_mic_pad i pad w) = mw_sessions w"
  by (simp_all add: put_mic_pad_def)

lemma noteNoSink_frame:
  assumes "noteNoSink p (w, s) = (w', s')"
  shows "mw_pads w' = mw_pads w" "length (mw_sessions w') = length (mw_sessions w)" "mic_only s s'"
    "s_backend s' = s_backend s"
  using assms unfolding noteNoSink_def Let_def
  by (auto split: if_splits option.splits simp: mic_only_def logMsg_def emit_def)

lemma bump_event_simps [simp]: "mw_pads (bump_event ev w) = mw_pads w" "mw_sessions (bump_event ev w) = mw_sessions w"
  by (auto simp: bump_event_def split: jitter_event.splits option.splits)

section \<open>What reaches the microphone\<close>

text \<open>Reference: the outputs of the decoder over the events, in order.\<close>

fun decode_all :: "'d mic_decoder \<Rightarrow> jitter_event list \<Rightarrow> 'd \<Rightarrow> 'd \<times> i16 list list" where
  "decode_all dec [] d = (d, [])"
| "decode_all dec (ev # evs) d =
     (case decode_event dec ev d of (d1, pcm) \<Rightarrow> case decode_all dec evs d1 of (d2, rest) \<Rightarrow> (d2, pcm # rest))"

definition to_microphone :: "mic_packet \<Rightarrow> i16 list list \<Rightarrow> 'b svc \<Rightarrow> 'b" where
  "to_microphone p pcms s = fold (\<lambda>pcm b. snd (gp_submitMicAudioPcm (s_port s) (mp_serial p) pcm b)) pcms (s_backend s)"

definition mic_bound :: "mic_packet \<Rightarrow> 'b svc \<Rightarrow> bool" where
  "mic_bound p s \<longleftrightarrow>
     mic_binding_of (int (mp_slot p)) (mp_ctrlIdx p) (mp_serial p) (mp_gen p) (s_hot s) = MicBound"

lemma play_events_bound:
  assumes "mic_bound p s" "play_events dec p evs d (w, s) = (d', w', s')"
  shows "d' = fst (decode_all dec evs d) \<and> mic_only s s' \<and> mw_pads w' = mw_pads w \<and>
    length (mw_sessions w') = length (mw_sessions w) \<and>
    s_backend s' = to_microphone p (filter (\<lambda>pcm. pcm \<noteq> []) (snd (decode_all dec evs d))) s"
  using assms
proof (induction evs arbitrary: d w s)
  case Nil
  then show ?case by (simp add: to_microphone_def)
next
  case (Cons ev evs)
  obtain d1 pcm where d1: "decode_event dec ev d = (d1, pcm)" by force
  show ?case
  proof (cases "pcm = []")
    case True
    then show ?thesis using Cons.IH [of s d1 w] Cons.prems d1 by (simp split: prod.splits)
  next
    case False
    obtain ok b where sub: "gp_submitMicAudioPcm (s_port s) (mp_serial p) pcm (s_backend s) = (ok, b)" by force
    obtain w1 s1 where note1: "(if ok then (bump_event ev w, s\<lparr>s_backend := b\<rparr>) else noteNoSink p (bump_event ev w, s\<lparr>s_backend := b\<rparr>)) = (w1, s1)"
      by force
    have w1: "mw_pads w1 = mw_pads w" "length (mw_sessions w1) = length (mw_sessions w)" "mic_only (s\<lparr>s_backend := b\<rparr>) s1"
        "s_backend s1 = b"
      using note1 noteNoSink_frame [of p "bump_event ev w" "s\<lparr>s_backend := b\<rparr>" w1 s1] by (auto split: if_splits)
    have only: "mic_only s s1" by (rule mic_only_trans [OF _ w1(3)]) (simp add: mic_only_def)
    have bd: "mic_bound p s1" using Cons.prems(1) mic_onlyD(2) [OF only] by (simp add: mic_bound_def)
    have rest: "play_events dec p evs d1 (w1, s1) = (d', w', s')"
      using Cons.prems d1 False sub note1 by (cases ok) (simp_all add: mic_submit_def mic_bound_def)
    show ?thesis
      using Cons.IH [OF bd rest] w1 only mic_only_trans mic_onlyD(4) [OF only] False d1 sub
      by (auto simp: to_microphone_def split: prod.splits)
  qed
qed

lemma play_events_unbound:
  assumes "\<not> mic_bound p s" "play_events dec p evs d (w, s) = (d', w', s')"
  shows "s' = s \<and> mw_pads w' = mw_pads w \<and> mw_sessions w' = mw_sessions w"
  using assms
proof (induction evs arbitrary: d w)
  case (Cons ev evs)
  then show ?case by (auto simp: mic_submit_def mic_bound_def split: prod.splits if_splits)
qed simp
lemma jitter_ok_push: "jitter_ok w \<Longrightarrow> jitter_push seq data w = (a, ev, w') \<Longrightarrow> jitter_ok w'"
proof (cases "data = [] \<or> length data > AUDIO_JITTER_MAX_PACKET_BYTES")
  case True
  assume "jitter_ok w" "jitter_push seq data w = (a, ev, w')"
  then show ?thesis using push_malformed [OF True, of seq w] by simp
next
  case False
  assume w: "jitter_ok w" and q: "jitter_push seq data w = (a, ev, w')"
  obtain evs acc where "jitter_stream [(seq, data)] w = (evs, acc, w')" using q by simp
  then show ?thesis
    using jitter_stream_primed [OF w] jitter_stream_fresh [OF w] by (cases "jw_primed w") blast+
qed

lemma jitter_ok_length: "jitter_ok w \<Longrightarrow> length (jw_slots w) = 2"
  by (auto simp: jitter_ok_def holding_def split: if_splits)

lemma mic_pad_for_ok: "jitter_ok (mic_window pad) \<Longrightarrow> jitter_ok (mic_window (mic_pad_for p pad))"
  by (simp add: mic_pad_for_def jitter_ok_reset jitter_ok_length)

text \<open>The parts of the processing of one packet.\<close>

definition mic_ready :: "'d mic_factory \<Rightarrow> 'd mic_pad \<Rightarrow> 'd option" where
  "mic_ready codecs pad =
     (case mic_decoder pad of Some d \<Rightarrow> Some d | None \<Rightarrow> (case codecs of Some made \<Rightarrow> made | None \<Rightarrow> None))"

lemma mic_process_spec:
  assumes q: "mic_process dec codecs p (w, s) = (w', s')" and ok: "mic_ok w" "mp_serial p \<le> MAX_BACKEND_CONTROLLERS"
    and push: "jitter_push (mp_seq p) (mp_bytes p) (mic_window (mic_pad_for p (mw_pads w ! mp_serial p))) = (accept, evs, win)"
  shows "mic_ok w'" "mic_only s s'" "\<exists>d. mw_pads w' = (mw_pads w)[mp_serial p :=
       (mic_pad_for p (mw_pads w ! mp_serial p))\<lparr>mic_window := win, mic_decoder := d\<rparr>]"
    "s_backend s' = (case mic_ready codecs (mic_pad_for p (mw_pads w ! mp_serial p)) of
       Some d \<Rightarrow> if accept = Accepted \<and> mic_bound p s
         then to_microphone p (filter (\<lambda>pcm. pcm \<noteq> []) (snd (decode_all dec evs d))) s else s_backend s
     | None \<Rightarrow> s_backend s)"
proof -
  define pad where "pad = mic_pad_for p (mw_pads w ! mp_serial p)"
  have "jitter_ok (mic_window (mw_pads w ! mp_serial p))" using ok by (simp add: mic_ok_def)
  then have win: "jitter_ok win" using jitter_ok_push mic_pad_for_ok push by blast
  have put: "mic_ok (put_mic_pad (mp_serial p) (pad\<lparr>mic_window := win, mic_decoder := d\<rparr>) v)"
    if "mw_pads v = mw_pads w" "length (mw_sessions v) = length (mw_sessions w)" for d v
    by (rule mic_ok_put) (use ok win mic_ok_fields [OF that] in simp_all)
  have upd: "\<exists>d. (mw_pads w)[mp_serial p := pad\<lparr>mic_window := win\<rparr>] =
      (mw_pads w)[mp_serial p := pad\<lparr>mic_window := win, mic_decoder := d\<rparr>]"
    by (rule exI [of _ "mic_decoder pad"]) simp
  have same: "mic_ready codecs (pad\<lparr>mic_window := win\<rparr>) = mic_ready codecs pad" by (simp add: mic_ready_def)
  let ?w1 = "w\<lparr>mw_accepted := mw_accepted w + 1, mw_lastAccepted := True\<rparr>"
  have q': "(if accept \<noteq> Accepted then (put_mic_pad (mp_serial p) (pad\<lparr>mic_window := win\<rparr>) (w\<lparr>mw_lastAccepted := False\<rparr>),
        s\<lparr>s_micLate := s_micLate s + 1\<rparr>)
      else if evs = [] then (put_mic_pad (mp_serial p) (pad\<lparr>mic_window := win\<rparr>) ?w1, s)
      else case mic_ready codecs pad of
          None \<Rightarrow> (put_mic_pad (mp_serial p) (pad\<lparr>mic_window := win, mic_decoder := None\<rparr>) ?w1, s)
        | Some d \<Rightarrow> (case play_events dec p evs d (?w1, s) of (d1, w2, s2) \<Rightarrow>
            (put_mic_pad (mp_serial p) (pad\<lparr>mic_window := win, mic_decoder := Some d1\<rparr>) w2, s2))) = (w', s')"
    using q unfolding mic_process_def prod.case Let_def pad_def [symmetric] push [folded pad_def]
      mic_ready_def [symmetric] same .
  have "mic_ok w' \<and> mic_only s s' \<and> (\<exists>d. mw_pads w' = (mw_pads w)[mp_serial p := pad\<lparr>mic_window := win, mic_decoder := d\<rparr>]) \<and>
    s_backend s' = (case mic_ready codecs pad of
       Some d \<Rightarrow> if accept = Accepted \<and> mic_bound p s
         then to_microphone p (filter (\<lambda>pcm. pcm \<noteq> []) (snd (decode_all dec evs d))) s else s_backend s
     | None \<Rightarrow> s_backend s)"
  proof (cases "accept = Accepted \<and> evs \<noteq> [] \<and> mic_ready codecs pad \<noteq> None")
    case True
    then obtain d where d: "mic_ready codecs pad = Some d" by auto
    obtain d1 w2 s2 where pl: "play_events dec p evs d (?w1, s) = (d1, w2, s2)" by (metis prod_cases3)
    have res: "w' = put_mic_pad (mp_serial p) (pad\<lparr>mic_window := win, mic_decoder := Some d1\<rparr>) w2" "s' = s2"
      using q' True d pl by simp_all
    show ?thesis
    proof (cases "mic_bound p s")
      case bd: True
      show ?thesis using play_events_bound [OF bd pl] put [of w2] d True bd by (auto simp: res)
    next
      case nb: False
      show ?thesis using play_events_unbound [OF nb pl] put [of w2] d True nb by (auto simp: res)
    qed
  next
    case False
    then show ?thesis
      using q' put [of w "mic_decoder pad"] put [of ?w1 "mic_decoder pad"] put [of ?w1 None]
        put [of "w\<lparr>mw_lastAccepted := False\<rparr>" "mic_decoder pad"]
      by (auto simp: mic_only_def to_microphone_def upd split: if_splits option.splits)
  qed
  then show "mic_ok w'" "mic_only s s'" "\<exists>d. mw_pads w' = (mw_pads w)[mp_serial p :=
       (mic_pad_for p (mw_pads w ! mp_serial p))\<lparr>mic_window := win, mic_decoder := d\<rparr>]"
    "s_backend s' = (case mic_ready codecs (mic_pad_for p (mw_pads w ! mp_serial p)) of
       Some d \<Rightarrow> if accept = Accepted \<and> mic_bound p s
         then to_microphone p (filter (\<lambda>pcm. pcm \<noteq> []) (snd (decode_all dec evs d))) s else s_backend s
     | None \<Rightarrow> s_backend s)"
    unfolding pad_def by blast+
qed
lemma packet_turn_inv:
  assumes inv: "svc_inv F s" and w: "mic_ok w" and q: "packet_turn dec codecs (w, s) = Some (w', s')"
  shows "svc_inv F s'" "mic_ok w'" "s_micQueue s' = tl (s_micQueue s)" "s_conns s' = s_conns s"
proof -
  obtain p rest where fr: "s_micQueue s = p # rest" using q by (auto simp: packet_turn_def split: list.splits)
  obtain w1 s1 where m: "mic_process dec codecs p (w, s) = (w1, s1)" by force
  have res: "w' = w1\<lparr>mw_packetsDone := mw_packetsDone w1 + 1\<rparr>" "s' = s1\<lparr>s_micQueue := tl (s_micQueue s1)\<rparr>"
    using q fr m by (auto simp: packet_turn_def)
  have "queues_ok s" using inv by (simp add: svc_inv_def env_ok_def)
  then have x: "mp_serial p \<le> MAX_BACKEND_CONTROLLERS" using fr by (simp add: queues_ok_def)
  obtain a evs win where push: "jitter_push (mp_seq p) (mp_bytes p) (mic_window (mic_pad_for p (mw_pads w ! mp_serial p))) = (a, evs, win)"
    by (metis prod_cases3)
  note sp = mic_process_spec [OF m w x push]
  have i1: "svc_inv F s1" by (rule mic_only_inv [OF sp(2) inv])
  show "s_micQueue s' = tl (s_micQueue s)" "s_conns s' = s_conns s"
    using mic_onlyD [OF sp(2)] by (simp_all add: res)
  show "svc_inv F s'"
    using svc_inv_fewer [OF i1, of "s_frames s1" "s_commands s1" "tl (s_micQueue s1)"] mic_onlyD(3) [OF sp(2)] fr
    by (auto simp: res)
  show "mic_ok w'" using sp(1) mic_ok_fields [of w' w1] by (simp add: res)
qed

text \<open>
  A run of packets of one plug of a pad passes the window as one stream: the events that are decoded
  are those of \<^const>\<open>jitter_stream\<close>.
\<close>

lemma mic_run_stream:
  assumes "mic_ok w" "x \<le> MAX_BACKEND_CONTROLLERS" "\<forall>p\<in>set ps. mp_serial p = x \<and> mp_gen p = g"
    "mic_gen (mw_pads w ! x) = g" "fold (mic_process dec codecs) ps (w, s) = (w', s')"
    "jitter_stream (map (\<lambda>p. (mp_seq p, mp_bytes p)) ps) (mic_window (mw_pads w ! x)) = (evs, acc, win)"
  shows "mic_window (mw_pads w' ! x) = win \<and> mic_ok w' \<and> mic_only s s'"
  using assms
proof (induction ps arbitrary: w s evs acc)
  case (Cons p ps)
  obtain w1 s1 where m: "mic_process dec codecs p (w, s) = (w1, s1)" by force
  have p: "mp_serial p = x" "mp_gen p = g" using Cons.prems by simp_all
  have pad: "mic_pad_for p (mw_pads w ! mp_serial p) = mw_pads w ! x"
    using p Cons.prems by (simp add: mic_pad_for_def)
  obtain a ev win1 where push: "jitter_push (mp_seq p) (mp_bytes p) (mic_window (mw_pads w ! x)) = (a, ev, win1)"
    by (metis prod_cases3)
  obtain evs1 acc1 where st: "jitter_stream (map (\<lambda>p. (mp_seq p, mp_bytes p)) ps) win1 = (evs1, acc1, win)"
    using Cons.prems(6) push by (auto split: prod.splits)
  note sp = mic_process_spec [OF m Cons.prems(1) _ push [folded pad]]
  have len: "x < length (mw_pads w)" using Cons.prems by (simp add: mic_ok_def)
  obtain d where "mw_pads w1 = (mw_pads w)[x := (mw_pads w ! x)\<lparr>mic_window := win1, mic_decoder := d\<rparr>]"
    using sp(3) p Cons.prems unfolding pad by auto
  then have w1: "mic_window (mw_pads w1 ! x) = win1" "mic_gen (mw_pads w1 ! x) = g"
    using len Cons.prems by simp_all
  have "mic_window (mw_pads w' ! x) = win \<and> mic_ok w' \<and> mic_only s1 s'"
    by (rule Cons.IH) (use Cons.prems m w1 st sp(1) p in auto)
  then show ?case using mic_only_trans sp(2) p Cons.prems by auto
qed simp

section \<open>The sweep\<close>

lemma sweep_fold:
  assumes "distinct xs" "\<forall>x\<in>set xs. x < length (mw_pads w)"
  shows "mw_pads (fold (\<lambda>x w. put_mic_pad x (sweep_pad t x (mw_pads w ! x)) w) xs w) =
    map (\<lambda>x. if x \<in> set xs then sweep_pad t x (mw_pads w ! x) else mw_pads w ! x) [0..<length (mw_pads w)] \<and>
    mw_sessions (fold (\<lambda>x w. put_mic_pad x (sweep_pad t x (mw_pads w ! x)) w) xs w) = mw_sessions w"
  using assms
proof (induction xs arbitrary: w)
  case Nil
  then show ?case by (simp add: map_nth)
next
  case (Cons x xs)
  show ?case
    using Cons.IH [of "put_mic_pad x (sweep_pad t x (mw_pads w ! x)) w"] Cons.prems
    by (auto intro!: nth_equalityI simp: nth_list_update)
qed

lemma sweep_pads:
  assumes "length (mw_pads w) = MAX_BACKEND_CONTROLLERS + 1" "1 \<le> x" "x \<le> MAX_BACKEND_CONTROLLERS"
  shows "mw_pads (sweep t w) ! x = sweep_pad t x (mw_pads w ! x)"
  using sweep_fold [of "[1..<Suc MAX_BACKEND_CONTROLLERS]" w t] assms
  unfolding sweep_def by (simp only: length_map) (simp add: less_Suc_eq_le del: upt_Suc)

text \<open>After a sweep only pads that a session holds keep a window and a decoder.\<close>

lemma sweep_holders:
  assumes inv: "svc_inv F s" and w: "mic_ok w" and x: "1 \<le> x" "x \<le> MAX_BACKEND_CONTROLLERS"
    and pad: "pad = mw_pads (sweep (s_hot s) w) ! x"
  shows "mic_gen pad \<noteq> 0 \<Longrightarrow> \<exists>r\<in>snd ` set (s_conns s). holds r x (mic_ctrlIdx pad) \<and>
      plugGen (controllers r ! mic_ctrlIdx pad) = mic_gen pad"
    "mic_gen pad = 0 \<Longrightarrow> mic_gen (mw_pads w ! x) \<noteq> 0 \<Longrightarrow> mic_decoder pad = None \<and> \<not> jw_primed (mic_window pad)"
    "r \<in> snd ` set (s_conns s) \<Longrightarrow> holds r x i \<Longrightarrow> mic_gen (mw_pads w ! x) = plugGen (controllers r ! i) \<Longrightarrow>
      mic_slot (mw_pads w ! x) = int (slot r) \<Longrightarrow> mic_ctrlIdx (mw_pads w ! x) = i \<Longrightarrow> pad = mw_pads w ! x"
proof -
  let ?old = "mw_pads w ! x"
  let ?b = "mic_binding_of (mic_slot ?old) (mic_ctrlIdx ?old) x (mic_gen ?old) (s_hot s)"
  have p: "pad = sweep_pad (s_hot s) x ?old" unfolding pad by (rule sweep_pads) (use w x in \<open>simp_all add: mic_ok_def\<close>)
  have st: "?b \<noteq> MicChanging" by (rule mic_binding_stable [OF inv])
  show "\<exists>r\<in>snd ` set (s_conns s). holds r x (mic_ctrlIdx pad) \<and> plugGen (controllers r ! mic_ctrlIdx pad) = mic_gen pad"
    if "mic_gen pad \<noteq> 0"
  proof -
    have same: "pad = ?old" "?b = MicBound" using that st p by (auto simp: sweep_pad_def split: if_splits intro: mic_binding.exhaust)
    show ?thesis using mic_bound_holder [OF inv same(2) x(2)] same(1) by metis
  qed
  show "mic_decoder pad = None \<and> \<not> jw_primed (mic_window pad)" if "mic_gen pad = 0" "mic_gen ?old \<noteq> 0"
    using that p by (auto simp: sweep_pad_def jitter_reset_def split: if_splits)
  show "pad = ?old" if "r \<in> snd ` set (s_conns s)" "holds r x i" "mic_gen ?old = plugGen (controllers r ! i)"
      "mic_slot ?old = int (slot r)" "mic_ctrlIdx ?old = i"
    using mic_holder_bound [OF inv that(1,2)] that p by (simp add: sweep_pad_def)
qed

lemma sweep_turn_inv:
  assumes "svc_inv F s" "mic_ok w" "sweep_turn (w, s) = (w', s')"
  shows "svc_inv F s' \<and> mic_ok w' \<and> s' = s"
proof -
  have pads: "mw_pads (sweep (s_hot s) w) = map (\<lambda>x. if x \<in> set [1..<Suc MAX_BACKEND_CONTROLLERS]
      then sweep_pad (s_hot s) x (mw_pads w ! x) else mw_pads w ! x) [0..<length (mw_pads w)]"
    "mw_sessions (sweep (s_hot s) w) = mw_sessions w"
    using sweep_fold [of "[1..<Suc MAX_BACKEND_CONTROLLERS]" w "s_hot s"] assms(2)
    unfolding sweep_def mic_ok_def by auto
  have "jitter_ok (mic_window (sweep_pad t x pad))" if "jitter_ok (mic_window pad)" for t x and pad :: "'b mic_pad"
    using that by (simp add: sweep_pad_def jitter_ok_reset jitter_ok_length)
  then have "mic_ok (sweep (s_hot s) w)" using assms(2) unfolding mic_ok_def pads by auto
  then show ?thesis using assms mic_ok_fields [of w' "sweep (s_hot s) w"] by (auto simp: sweep_turn_def)
qed

end
