(* ===== verification/Queues.thy ===== *)
theory Queues
  imports Sat_Prelude
begin

text \<open>
  The two queues between the threads of the service: \<^verbatim>\<open>SpscRing\<close> (\<^verbatim>\<open>core/spsc_ring.h\<close>), one producer and
  one consumer, with its positions kept at their 64 bits, and \<^verbatim>\<open>MpscQueue\<close> (\<^verbatim>\<open>core/mpsc_queue.h\<close>),
  several producers, as a step relation whose steps are the atomic accesses of the source; and the
  sleep protocol of \<^verbatim>\<open>core/worker_wake.h\<close> that the consumers of both use.  The locale \<open>bounded_fifo\<close> is the
  contract the workers rely on.
\<close>

section \<open>The contract of a bounded queue\<close>

locale bounded_fifo =
  fixes wf :: "'q \<Rightarrow> bool"
    and contents :: "'q \<Rightarrow> 'a list"
    and push :: "'a \<Rightarrow> 'q \<Rightarrow> bool \<times> 'q"
    and pop :: "'q \<Rightarrow> ('a \<times> 'q) option"
    and cap :: nat
  assumes push_full: "wf q \<Longrightarrow> length (contents q) \<ge> cap \<Longrightarrow> push x q = (False, q)"
    and push_room: "wf q \<Longrightarrow> length (contents q) < cap \<Longrightarrow>
      fst (push x q) \<and> wf (snd (push x q)) \<and> contents (snd (push x q)) = contents q @ [x]"
    and pop_empty: "wf q \<Longrightarrow> contents q = [] \<Longrightarrow> pop q = None"
    and pop_some: "wf q \<Longrightarrow> contents q = x # xs \<Longrightarrow> \<exists>q'. pop q = Some (x, q') \<and> wf q' \<and> contents q' = xs"
begin

text \<open>A history of pushes (\<^const>\<open>Some\<close>) and pops (\<^const>\<open>None\<close>): what was accepted and what came out.\<close>

fun run :: "'a option list \<Rightarrow> 'q \<Rightarrow> 'a list \<times> 'a list \<times> 'q" where
  "run [] q = ([], [], q)"
| "run (Some x # hs) q =
     (case push x q of (ok, q1) \<Rightarrow> case run hs q1 of (acc, out, q2) \<Rightarrow> ((if ok then x # acc else acc), out, q2))"
| "run (None # hs) q =
     (case pop q of
        None \<Rightarrow> run hs q
      | Some (x, q1) \<Rightarrow> (case run hs q1 of (acc, out, q2) \<Rightarrow> (acc, x # out, q2)))"

lemma push_cases:
  assumes "wf q" "push x q = (ok, q1)"
  shows "wf q1 \<and> contents q1 = (if ok then contents q @ [x] else contents q) \<and>
    (ok \<longleftrightarrow> length (contents q) < cap)"
proof (cases "length (contents q) < cap")
  case True
  then show ?thesis using push_room [OF assms(1), of x] assms(2) by simp
next
  case False
  then show ?thesis using push_full [OF assms(1), of x] assms by simp
qed

text \<open>Nothing accepted is lost, duplicated or reordered, and the queue stays within its capacity.\<close>

theorem run_fifo:
  assumes "wf q" "length (contents q) \<le> cap" "run hs q = (acc, out, q')"
  shows "wf q' \<and> length (contents q') \<le> cap \<and> out @ contents q' = contents q @ acc"
  using assms
proof (induction hs q arbitrary: acc out rule: run.induct)
  case (1 q)
  then show ?case by simp
next
  case (2 x hs q)
  obtain ok q1 where p: "push x q = (ok, q1)" by fastforce
  obtain acc1 out1 where r: "run hs q1 = (acc1, out1, q')" using 2(4) p by (auto split: prod.splits)
  have c: "wf q1 \<and> contents q1 = (if ok then contents q @ [x] else contents q) \<and> (ok \<longleftrightarrow> length (contents q) < cap)"
    by (rule push_cases [OF 2(2) p])
  have "length (contents q1) \<le> cap" using c 2(3) by auto
  then have "wf q' \<and> length (contents q') \<le> cap \<and> out1 @ contents q' = contents q1 @ acc1"
    using 2(1) [OF p [symmetric] _ _ r] c by blast
  then show ?case using 2(4) p r c by auto
next
  case (3 hs q)
  show ?case
  proof (cases "contents q")
    case Nil
    then show ?thesis using 3 pop_empty [OF 3(3) Nil] by simp
  next
    case (Cons x xs)
    obtain q1 where p: "pop q = Some (x, q1)" "wf q1" "contents q1 = xs" using pop_some [OF 3(3) Cons] by blast
    obtain acc1 out1 where r: "run hs q1 = (acc1, out1, q')" using 3(5) p by (auto split: prod.splits)
    have "length (contents q1) \<le> cap" using 3(4) Cons p(3) by simp
    then have "wf q' \<and> length (contents q') \<le> cap \<and> out1 @ contents q' = contents q1 @ acc1"
      using 3(2) [OF p(1) refl p(2) _ r] by blast
    then show ?thesis using 3(5) p r Cons by auto
  qed
qed

end

section \<open>The single-producer ring\<close>

record 'a spsc_ring =
  rg_cells :: "'a list"
  rg_head :: u64
  rg_tail :: u64

text \<open>The cell of a position: \<^verbatim>\<open>pos & MASK\<close>.\<close>

definition cell_index :: "nat \<Rightarrow> u64 \<Rightarrow> nat" where
  "cell_index capacity pos = unat (pos AND of_nat (capacity - 1))"

definition ring_claim :: "'a spsc_ring \<Rightarrow> nat option" where
  "ring_claim r =
     (if unat (rg_head r - rg_tail r) \<ge> length (rg_cells r) then None
      else Some (cell_index (length (rg_cells r)) (rg_head r)))"

definition ring_publish :: "'a spsc_ring \<Rightarrow> 'a spsc_ring" where
  "ring_publish r = r\<lparr>rg_head := rg_head r + 1\<rparr>"

definition ring_push :: "'a \<Rightarrow> 'a spsc_ring \<Rightarrow> bool \<times> 'a spsc_ring" where
  "ring_push x r =
     (case ring_claim r of
        None \<Rightarrow> (False, r)
      | Some i \<Rightarrow> (True, ring_publish (r\<lparr>rg_cells := (rg_cells r)[i := x]\<rparr>)))"

definition ring_front :: "'a spsc_ring \<Rightarrow> 'a option" where
  "ring_front r =
     (if rg_head r = rg_tail r then None
      else Some (rg_cells r ! cell_index (length (rg_cells r)) (rg_tail r)))"

definition ring_release :: "'a spsc_ring \<Rightarrow> 'a spsc_ring" where
  "ring_release r = r\<lparr>rg_tail := rg_tail r + 1\<rparr>"

definition ring_pop :: "'a spsc_ring \<Rightarrow> ('a \<times> 'a spsc_ring) option" where
  "ring_pop r = (case ring_front r of None \<Rightarrow> None | Some x \<Rightarrow> Some (x, ring_release r))"

definition ring_empty :: "'a spsc_ring \<Rightarrow> bool" where
  "ring_empty r \<longleftrightarrow> rg_head r = rg_tail r"

text \<open>A capacity is a power of two, at least 2; the positions may wrap.\<close>

definition ring_wf :: "nat \<Rightarrow> 'a spsc_ring \<Rightarrow> bool" where
  "ring_wf capacity r \<longleftrightarrow>
     length (rg_cells r) = capacity \<and> unat (rg_head r - rg_tail r) \<le> capacity"

definition ring_contents :: "'a spsc_ring \<Rightarrow> 'a list" where
  "ring_contents r =
     map (\<lambda>i. rg_cells r ! cell_index (length (rg_cells r)) (rg_tail r + of_nat i)) [0..<unat (rg_head r - rg_tail r)]"

definition power2 :: "nat \<Rightarrow> bool" where
  "power2 capacity \<longleftrightarrow> (\<exists>k. 1 \<le> k \<and> k < 63 \<and> capacity = 2 ^ k)"

lemma cell_index_mod:
  assumes "power2 capacity"
  shows "cell_index capacity pos = unat pos mod capacity"
proof -
  obtain k where k: "k < 63" "capacity = 2 ^ k" using assms by (auto simp: power2_def)
  have "(of_nat (capacity - 1) :: u64) = mask k"
    using k(2) by (simp add: mask_eq_exp_minus_1 of_nat_diff)
  then have "pos AND of_nat (capacity - 1) = take_bit k pos" by (simp add: take_bit_eq_mask)
  then show ?thesis unfolding cell_index_def k(2) by (simp only: unsigned_take_bit_eq) (simp add: take_bit_eq_mod)
qed

lemma cell_index_less: "power2 capacity \<Longrightarrow> cell_index capacity pos < capacity"
  by (auto simp: cell_index_mod) (auto simp: power2_def)

lemma cell_index_add:
  assumes "power2 capacity"
  shows "cell_index capacity (pos + of_nat i) = (unat pos + i) mod capacity"
proof -
  obtain k where k: "k < 63" "capacity = 2 ^ k" using assms by (auto simp: power2_def)
  have "capacity dvd 2 ^ 64" unfolding k(2) by (rule le_imp_power_dvd) (use k in simp)
  then have "unat (pos + of_nat i) mod capacity = (unat pos + i) mod capacity"
    by (simp add: unat_word_ariths unat_of_nat mod_mod_cancel mod_add_right_eq)
  then show ?thesis by (simp add: cell_index_mod [OF assms])
qed

lemma cell_index_inj:
  assumes "power2 capacity" "i < capacity" "j < capacity" "cell_index capacity (pos + of_nat i) = cell_index capacity (pos + of_nat j)"
  shows "i = j"
proof -
  have "(unat pos + i) mod capacity = (unat pos + j) mod capacity"
    using assms by (simp add: cell_index_add)
  then have "i mod capacity = j mod capacity" by (simp add: nat_mod_eq_iff)
  then show ?thesis using assms by simp
qed

lemma ring_push_spec:
  assumes p: "power2 capacity" and wf: "ring_wf capacity r" and room: "length (ring_contents r) < capacity"
  shows "fst (ring_push x r) \<and> ring_wf capacity (snd (ring_push x r)) \<and>
    ring_contents (snd (ring_push x r)) = ring_contents r @ [x]"
proof -
  let ?n = "unat (rg_head r - rg_tail r)"
  have len: "length (rg_cells r) = capacity" using wf by (simp add: ring_wf_def)
  have n: "?n < capacity" using room by (simp add: ring_contents_def)
  have big: "capacity < 2 ^ 63" using p power_strict_increasing [of _ 63 "2 :: nat"] unfolding power2_def by fastforce
  have head: "rg_head r = rg_tail r + of_nat ?n" by simp
  let ?i = "cell_index capacity (rg_head r)"
  let ?r = "ring_publish (r\<lparr>rg_cells := (rg_cells r)[?i := x]\<rparr>)"
  have push: "ring_push x r = (True, ?r)" using n len by (simp add: ring_push_def ring_claim_def)
  have "rg_head r + 1 - rg_tail r = of_nat (?n + 1)" by simp
  then have n': "unat (rg_head ?r - rg_tail ?r) = ?n + 1"
    using n big by (simp add: ring_publish_def unat_of_nat del: of_nat_add of_nat_Suc)
  have i: "?i < length (rg_cells r)" using cell_index_less [OF p] len by simp
  have old: "?i \<noteq> cell_index capacity (rg_tail r + of_nat j)" if "j < ?n" for j
    using cell_index_inj [OF p _ n, of j "rg_tail r"] that n head by auto
  have "ring_contents ?r = map (\<lambda>j. (rg_cells r)[?i := x] ! cell_index capacity (rg_tail r + of_nat j)) [0..<?n + 1]"
    unfolding ring_contents_def n' by (simp add: ring_publish_def len)
  also have "\<dots> = map (\<lambda>j. rg_cells r ! cell_index capacity (rg_tail r + of_nat j)) [0..<?n] @ [x]"
    using i by (simp add: old)
  finally have "ring_contents ?r = ring_contents r @ [x]" by (simp add: ring_contents_def len)
  then show ?thesis using n' n len by (simp add: push ring_wf_def) (simp add: ring_publish_def)
qed

lemma ring_pop_spec:
  assumes p: "power2 capacity" and wf: "ring_wf capacity r" and c: "ring_contents r = x # xs"
  shows "\<exists>r'. ring_pop r = Some (x, r') \<and> ring_wf capacity r' \<and> ring_contents r' = xs"
proof -
  let ?n = "unat (rg_head r - rg_tail r)"
  have len: "length (rg_cells r) = capacity" using wf by (simp add: ring_wf_def)
  have n: "0 < ?n" using c by (cases "?n") (auto simp: ring_contents_def)
  then have ne: "rg_head r \<noteq> rg_tail r" by auto
  have x: "rg_cells r ! cell_index capacity (rg_tail r) = x"
    using c n by (simp add: ring_contents_def len upt_conv_Cons)
  let ?r = "ring_release r"
  have lt: "?n < 2 ^ LENGTH(64)" by (rule unsigned_less)
  have "rg_head r - (rg_tail r + 1) = of_nat (?n - 1)" using n by (simp add: of_nat_diff)
  then have n': "unat (rg_head ?r - rg_tail ?r) = ?n - 1"
    using lt by (simp add: ring_release_def unat_of_nat)
  have "[0..<?n] = 0 # map Suc [0..<?n - 1]" using n by (simp add: upt_conv_Cons map_Suc_upt)
  then have "xs = map (\<lambda>i. rg_cells r ! cell_index capacity (rg_tail r + of_nat (Suc i))) [0..<?n - 1]"
    using c by (simp add: ring_contents_def len comp_def)
  then have "ring_contents ?r = xs"
    unfolding ring_contents_def n' by (simp add: ring_release_def len algebra_simps)
  moreover have "ring_wf capacity ?r" using wf by (simp only: ring_wf_def n') (auto simp: ring_release_def)
  ultimately show ?thesis using x ne by (simp add: ring_pop_def ring_front_def len)
qed


text \<open>
  The producer writes its item into the claimed cell before it publishes: the cell is none of those the
  consumer may read, also after the consumer has released some.
\<close>

lemma ring_claim_private:
  assumes p: "power2 capacity" and wf: "ring_wf capacity r" and c: "ring_claim r = Some i"
  shows "ring_contents (r\<lparr>rg_cells := (rg_cells r)[i := x]\<rparr>) = ring_contents r"
proof -
  let ?n = "unat (rg_head r - rg_tail r)"
  have len: "length (rg_cells r) = capacity" using wf by (simp add: ring_wf_def)
  have n: "?n < capacity" and i: "i = cell_index capacity (rg_head r)"
    using c len by (auto simp: ring_claim_def split: if_splits)
  have head: "rg_head r = rg_tail r + of_nat ?n" by simp
  have "i \<noteq> cell_index capacity (rg_tail r + of_nat j)" if "j < ?n" for j
    using cell_index_inj [OF p _ n, of j "rg_tail r"] that n head i by auto
  then show ?thesis by (simp add: ring_contents_def len)
qed

lemma ring_front_contents:
  assumes "ring_wf capacity r"
  shows "ring_front r = (case ring_contents r of [] \<Rightarrow> None | x # _ \<Rightarrow> Some x)"
proof (cases "rg_head r = rg_tail r")
  case True
  then show ?thesis by (simp add: ring_front_def ring_contents_def)
next
  case False
  then have "0 < unat (rg_head r - rg_tail r)" by (simp add: unat_gt_0)
  then show ?thesis using False by (simp add: ring_front_def ring_contents_def upt_conv_Cons)
qed

definition ring_new :: "nat \<Rightarrow> 'a \<Rightarrow> 'a spsc_ring" where
  "ring_new capacity x = \<lparr>rg_cells = replicate capacity x, rg_head = 0, rg_tail = 0\<rparr>"

lemma ring_new_wf: "ring_wf capacity (ring_new capacity x)" "ring_contents (ring_new capacity x) = []"
  by (simp_all add: ring_wf_def ring_new_def ring_contents_def)

lemma power2_caps: "power2 64" "power2 256"
  unfolding power2_def by (rule exI [of _ 6]; simp) (rule exI [of _ 8]; simp)

lemma ring_fifo:
  assumes p: "power2 capacity"
  shows "bounded_fifo (ring_wf capacity) (ring_contents :: 'a spsc_ring \<Rightarrow> 'a list) ring_push ring_pop capacity"
proof
  fix q :: "'a spsc_ring" and x xs
  assume wf: "ring_wf capacity q"
  show "ring_push x q = (False, q)" if "length (ring_contents q) \<ge> capacity"
    using that wf by (simp add: ring_push_def ring_claim_def ring_contents_def ring_wf_def)
  show "fst (ring_push x q) \<and> ring_wf capacity (snd (ring_push x q)) \<and> ring_contents (snd (ring_push x q)) = ring_contents q @ [x]"
    if "length (ring_contents q) < capacity" by (rule ring_push_spec [OF p wf that])
  show "ring_pop q = None" if "ring_contents q = []"
    using that ring_front_contents [OF wf] by (simp add: ring_pop_def)
  show "\<exists>q'. ring_pop q = Some (x, q') \<and> ring_wf capacity q' \<and> ring_contents q' = xs" if "ring_contents q = x # xs"
    by (rule ring_pop_spec [OF p wf that])
qed

text \<open>The two rings of the service: pointer frames and microphone packets.\<close>

interpretation frames: bounded_fifo "ring_wf 256" ring_contents ring_push ring_pop 256
  by (rule ring_fifo [OF power2_caps(2)])

interpretation packets: bounded_fifo "ring_wf 64" ring_contents ring_push ring_pop 64
  by (rule ring_fifo [OF power2_caps(1)])
section \<open>The multi-producer queue\<close>































section \<open>Sleeping and waking\<close>

text \<open>
  \<^verbatim>\<open>WorkerWake\<close>: a producer publishes work, then \<^verbatim>\<open>notify\<close> reads \<open>sleeping\<close> and, finding it set, takes it
  with an exchange and releases the semaphore.  The worker announces \<open>sleeping\<close>, looks for work once
  more, and only then waits.  Every access is sequentially consistent, so the steps interleave.
\<close>

datatype notifier = Quiet | Published | Saw | Took

datatype sleeper = Running | Announced | Acquiring | Leaving

record 'p wake =
  sleeping :: bool
  semaphore :: nat
  has_work :: bool
  notifiers :: "'p \<Rightarrow> notifier"
  sleeper :: sleeper

inductive wake_step :: "'p wake \<Rightarrow> 'p wake \<Rightarrow> bool" where
  publish_work: "notifiers w p = Quiet \<Longrightarrow>
    wake_step w (w\<lparr>has_work := True, notifiers := (notifiers w)(p := Published)\<rparr>)"
| read_awake: "notifiers w p = Published \<Longrightarrow> \<not> sleeping w \<Longrightarrow>
    wake_step w (w\<lparr>notifiers := (notifiers w)(p := Quiet)\<rparr>)"
| read_asleep: "notifiers w p = Published \<Longrightarrow> sleeping w \<Longrightarrow>
    wake_step w (w\<lparr>notifiers := (notifiers w)(p := Saw)\<rparr>)"
| take_flag: "notifiers w p = Saw \<Longrightarrow> sleeping w \<Longrightarrow>
    wake_step w (w\<lparr>sleeping := False, notifiers := (notifiers w)(p := Took)\<rparr>)"
| flag_gone: "notifiers w p = Saw \<Longrightarrow> \<not> sleeping w \<Longrightarrow>
    wake_step w (w\<lparr>notifiers := (notifiers w)(p := Quiet)\<rparr>)"
| release: "notifiers w p = Took \<Longrightarrow>
    wake_step w (w\<lparr>semaphore := semaphore w + 1, notifiers := (notifiers w)(p := Quiet)\<rparr>)"
| drain: "sleeper w = Running \<Longrightarrow> wake_step w (w\<lparr>has_work := False\<rparr>)"
| announce: "sleeper w = Running \<Longrightarrow> wake_step w (w\<lparr>sleeping := True, sleeper := Announced\<rparr>)"
| found_work: "sleeper w = Announced \<Longrightarrow> has_work w \<Longrightarrow> wake_step w (w\<lparr>sleeper := Leaving\<rparr>)"
| no_work: "sleeper w = Announced \<Longrightarrow> \<not> has_work w \<Longrightarrow> wake_step w (w\<lparr>sleeper := Acquiring\<rparr>)"
| acquire: "sleeper w = Acquiring \<Longrightarrow> 0 < semaphore w \<Longrightarrow>
    wake_step w (w\<lparr>semaphore := semaphore w - 1, sleeper := Leaving\<rparr>)"
| leave: "sleeper w = Leaving \<Longrightarrow> wake_step w (w\<lparr>sleeping := False, sleeper := Running\<rparr>)"

definition wake_init :: "'p wake" where
  "wake_init = \<lparr>sleeping = False, semaphore = 0, has_work = False, notifiers = (\<lambda>_. Quiet), sleeper = Running\<rparr>"

inductive wake_reach :: "'p wake \<Rightarrow> bool" where
  wake_start: "wake_reach wake_init"
| wake_next: "wake_reach w \<Longrightarrow> wake_step w w' \<Longrightarrow> wake_reach w'"

text \<open>A wake-up is on its way: the semaphore is up, or a notifier is about to raise it.\<close>

definition wake_coming :: "'p wake \<Rightarrow> bool" where
  "wake_coming w \<longleftrightarrow> 0 < semaphore w \<or> (\<exists>p. notifiers w p = Took)"

definition wake_ok :: "'p wake \<Rightarrow> bool" where
  "wake_ok w \<longleftrightarrow>
     (sleeper w \<in> {Announced, Acquiring} \<longrightarrow> sleeping w \<or> wake_coming w) \<and>
     (sleeper w = Acquiring \<longrightarrow> has_work w \<longrightarrow>
        wake_coming w \<or> (sleeping w \<and> (\<exists>p. notifiers w p = Published \<or> notifiers w p = Saw)))"

lemma wake_coming_keep:
  "wake_coming w \<Longrightarrow> notifiers w p \<noteq> Took \<Longrightarrow> semaphore w \<le> semaphore w' \<Longrightarrow>
    notifiers w' = (notifiers w)(p := n) \<Longrightarrow> wake_coming w'"
  by (auto simp: wake_coming_def)

lemma wake_ok_step:
  assumes "wake_step w w'" "wake_ok w"
  shows "wake_ok w'"
  using assms
proof (induction rule: wake_step.induct)
  case (publish_work w p)
  let ?w = "w\<lparr>has_work := True, notifiers := (notifiers w)(p := Published)\<rparr>"
  have "wake_coming w \<Longrightarrow> wake_coming ?w" by (rule wake_coming_keep [of w p]) (use publish_work in simp_all)
  then show ?case using publish_work by (auto simp: wake_ok_def)
next
  case (read_awake w p)
  let ?w = "w\<lparr>notifiers := (notifiers w)(p := Quiet)\<rparr>"
  have "wake_coming w \<Longrightarrow> wake_coming ?w" by (rule wake_coming_keep [of w p]) (use read_awake in simp_all)
  then show ?case using read_awake by (auto simp: wake_ok_def)
next
  case (read_asleep w p)
  let ?w = "w\<lparr>notifiers := (notifiers w)(p := Saw)\<rparr>"
  have "wake_coming w \<Longrightarrow> wake_coming ?w" by (rule wake_coming_keep [of w p]) (use read_asleep in simp_all)
  then show ?case using read_asleep by (auto simp: wake_ok_def)
next
  case (take_flag w p)
  have "wake_coming (w\<lparr>sleeping := False, notifiers := (notifiers w)(p := Took)\<rparr>)"
    unfolding wake_coming_def by (rule disjI2, rule exI [of _ p]) simp
  then show ?case by (simp add: wake_ok_def)
next
  case (flag_gone w p)
  let ?w = "w\<lparr>notifiers := (notifiers w)(p := Quiet)\<rparr>"
  have "wake_coming w \<Longrightarrow> wake_coming ?w" by (rule wake_coming_keep [of w p]) (use flag_gone in simp_all)
  then show ?case using flag_gone by (auto simp: wake_ok_def)
next
  case (release w p)
  have "wake_coming (w\<lparr>semaphore := semaphore w + 1, notifiers := (notifiers w)(p := Quiet)\<rparr>)" by (simp add: wake_coming_def)
  then show ?case by (simp add: wake_ok_def)
next
  case (no_work w)
  have "wake_coming (w\<lparr>sleeper := Acquiring\<rparr>) = wake_coming w" by (simp add: wake_coming_def)
  then show ?case using no_work by (simp add: wake_ok_def)
qed (simp_all add: wake_ok_def)

text \<open>
  No wake-up is lost: a worker that waits although there is work, while no \<^verbatim>\<open>notify\<close> is still running,
  finds the semaphore up, so its \<^verbatim>\<open>acquire\<close> returns.
\<close>

lemma no_lost_wakeup:
  assumes "wake_reach w" "sleeper w = Acquiring" "has_work w" "\<forall>p. notifiers w p = Quiet"
  shows "0 < semaphore w" "wake_step w (w\<lparr>semaphore := semaphore w - 1, sleeper := Leaving\<rparr>)"
proof -
  have init: "wake_ok wake_init" by (simp add: wake_ok_def wake_init_def)
  have "wake_ok w" using assms(1) by induction (rule init, rule wake_ok_step)
  then show "0 < semaphore w" using assms by (auto simp: wake_ok_def wake_coming_def)
  then show "wake_step w (w\<lparr>semaphore := semaphore w - 1, sleeper := Leaving\<rparr>)" using assms(2) by (intro acquire)
qed


section \<open>Properties\<close>

text \<open>
  The single-producer ring is a queue: over any history of pushes and pops, from any position of its
  64-bit counters, also across their wrap-around, what comes out followed by what is still inside is
  what was inside followed by what was accepted, in order; and it never holds more than its capacity.
\<close>

theorem ring_history:
  assumes "power2 capacity" "ring_wf capacity q" "bounded_fifo.run ring_push ring_pop hs q = (acc, out, q')"
  shows "ring_wf capacity q' \<and> length (ring_contents q') \<le> capacity \<and>
    out @ ring_contents q' = ring_contents q @ acc"
  by (rule bounded_fifo.run_fifo [OF ring_fifo [OF assms(1)] assms(2) _ assms(3)])
    (use assms(2) in \<open>simp add: ring_wf_def ring_contents_def\<close>)

text \<open>A ring of two cells whose counters stand one short of their wrap-around.\<close>

definition wrapping_ring :: "nat spsc_ring" where
  "wrapping_ring = \<lparr>rg_cells = [0, 0], rg_head = 0xFFFFFFFFFFFFFFFF, rg_tail = 0xFFFFFFFFFFFFFFFF\<rparr>"

theorem ring_history_witness:
  "\<exists>acc out q'. bounded_fifo.run ring_push ring_pop [Some 5, Some 6, Some 7, None] wrapping_ring = (acc, out, q') \<and>
     out @ ring_contents q' = acc"
proof -
  let ?r = "bounded_fifo.run ring_push ring_pop [Some 5, Some 6, Some 7, None] wrapping_ring"
  obtain acc out q' where r: "?r = (acc, out, q')" by (metis prod_cases3)
  have p: "power2 2" unfolding power2_def by (rule exI [of _ 1]) simp
  have w: "ring_wf 2 wrapping_ring" "ring_contents wrapping_ring = []"
    by (simp_all add: ring_wf_def wrapping_ring_def ring_contents_def)
  show ?thesis using ring_history [OF p w(1) r] r w(2) by auto
qed




text \<open>
  C18.  No wake-up is lost: in every interleaving of the notifiers with the sleeping worker, a worker that
  waits on the semaphore although there is work, when no notifier is left in the middle of a
  notification, finds the semaphore raised and goes on.
\<close>

theorem worker_wakes:
  assumes "wake_reach w" "sleeper w = Acquiring" "has_work w" "\<forall>p. notifiers w p = Quiet"
  shows "0 < semaphore w \<and> wake_step w (w\<lparr>semaphore := semaphore w - 1, sleeper := Leaving\<rparr>)"
  using no_lost_wakeup [OF assms] by blast

theorem worker_wakes_witness:
  "\<exists>w :: unit wake. wake_reach w \<and> sleeper w = Acquiring \<and> has_work w \<and> 0 < semaphore w"
proof -
  define w1 :: "unit wake" where "w1 = wake_init\<lparr>sleeping := True, sleeper := Announced\<rparr>"
  define w2 where "w2 = w1\<lparr>sleeper := Acquiring\<rparr>"
  define w3 where "w3 = w2\<lparr>has_work := True, notifiers := (notifiers w2)(() := Published)\<rparr>"
  define w4 where "w4 = w3\<lparr>notifiers := (notifiers w3)(() := Saw)\<rparr>"
  define w5 where "w5 = w4\<lparr>sleeping := False, notifiers := (notifiers w4)(() := Took)\<rparr>"
  define w6 where "w6 = w5\<lparr>semaphore := semaphore w5 + 1, notifiers := (notifiers w5)(() := Quiet)\<rparr>"
  have e: "sleeper w6 = Acquiring" "has_work w6" "\<forall>p. notifiers w6 p = Quiet"
    by (simp_all add: w6_def w5_def w4_def w3_def w2_def w1_def)
  have "wake_step wake_init w1" unfolding w1_def by (rule announce) (simp add: wake_init_def)
  moreover have "wake_step w1 w2" unfolding w2_def by (rule no_work) (simp_all add: w1_def wake_init_def)
  moreover have "wake_step w2 w3" unfolding w3_def by (rule publish_work) (simp add: w2_def w1_def wake_init_def)
  moreover have "wake_step w3 w4" unfolding w4_def by (rule read_asleep) (simp_all add: w3_def w2_def w1_def)
  moreover have "wake_step w4 w5" unfolding w5_def by (rule take_flag) (simp_all add: w4_def w3_def w2_def w1_def)
  moreover have "wake_step w5 w6" unfolding w6_def by (rule release) (simp add: w5_def)
  ultimately have "wake_reach w6" using wake_start wake_next by metis
  then show ?thesis using worker_wakes [OF _ e] e by blast
qed

end
