(* ===== verification/Service_System.thy ===== *)
theory Service_System
  imports Session_Upsert Session_View Mic_Worker Queues
begin

text \<open>
  The service as one system: its state, the two workers and the audio lanes, the entry points of every
  thread as one step relation, and the invariant of the reachable states.  A step is one whole
  operation.  The operations of the receive thread, of the backend's callbacks and of the workers keep
  \<open>svc_inv F\<close> for every \<open>F\<close>, so they also keep it between the locked sections of a topology operation,
  where \<open>F\<close> are the serials that operation holds.
\<close>

section \<open>Steps\<close>

record ('b, 'e, 'd) sys =
  y_svc :: "'b svc"
  y_lanes :: "'e audio_lanes"
  y_pointer :: pointer_worker
  y_mic :: "'d mic_worker"

definition sys_init ::
  "'b gamepad_port \<Rightarrow> 'b \<Rightarrow> (u8 list \<Rightarrow> u8 list \<Rightarrow> u32 \<Rightarrow> u8 list) option \<Rightarrow> u32 list \<Rightarrow> ('b, 'e, 'd) sys" where
  "sys_init prt b kd rs =
     \<lparr>y_svc = init_svc prt b kd rs, y_lanes = default_audio_lanes, y_pointer = default_pointer_worker,
      y_mic = default_mic_worker\<rparr>"

text \<open>
  The operations on the service state: the REST threads (sessions and controllers), the receive
  thread, the feedback callbacks of the backend, and the maintenance tick.
\<close>

inductive svc_step :: "'b svc \<Rightarrow> 'b svc \<Rightarrow> bool" where
  upsert: "length pairingKey = CRYPTO_KEY_SIZE \<Longrightarrow>
    upsertSession now0 now1 now2 dev name ip pairingKey descs mouse version s = Some (res, s') \<Longrightarrow> svc_step s s'"
| apply_controller: "applyController now cid dev d s = (ares, s') \<Longrightarrow> svc_step s s'"
| remove_controller: "removeController now cid dev i s = (rres, s') \<Longrightarrow> svc_step s s'"
| close_by_id: "closeSessionById cid dev reason notify s = (n, s') \<Longrightarrow> svc_step s s'"
| close_for_device: "closeSessionsForDevice dev reason s = (k, s') \<Longrightarrow> svc_step s s'"
| close_all: "svc_step s (closeAllSessions reason s)"
| reap: "reapTimedOut topoFree now s = (k, s') \<Longrightarrow> svc_step s s'"
| heartbeat: "svc_step s (handleHeartbeat tok s)"
| gamepad: "handleGamepadData now tok i report s = (ok, s') \<Longrightarrow> svc_step s s'"
| gamepad_fused: "handleGamepadDataAndUpdate now tok counter ip4 port i report s = (ok, s') \<Longrightarrow> svc_step s s'"
| post_decrypt: "svc_step s (updatePostDecryptV4 now tok counter ip4 port s)"
| motion: "handleMotionData tok i mreport s = (ok, s') \<Longrightarrow> svc_step s s'"
| battery: "handleBatteryUpdate tok i breport s = (ok, s') \<Longrightarrow> svc_step s s'"
| touchpad: "handleTouchpadData tok i treport s = (ok, s') \<Longrightarrow> svc_step s s'"
| mic_audio: "handleMicAudio now tok i seq opus s = (ok, s') \<Longrightarrow> svc_step s s'"
| rumble: "svc_step s (handleRumbleFromBackend now serial rreport w s)"
| lightbar: "svc_step s (handleLightbarFromBackend serial rd g b s)"
| trigger_effects: "svc_step s (handleTriggerEffectsFromBackend serial te s)"
| player_leds: "svc_step s (handlePlayerLedsFromBackend serial m s)"
| mic_led: "svc_step s (handleMicLedFromBackend serial st s)"
| refresh: "refreshRumble now s = (k, s') \<Longrightarrow> svc_step s s'"
| idle_input: "svc_step s (refreshIdleInput s)"
| policy: "svc_step s (setAudioPolicy fn s)"

text \<open>The steps of the system: a service operation, an audio callback, or a turn of a worker.\<close>

inductive sys_step :: "('b, 'e, 'd) sys \<Rightarrow> ('b, 'e, 'd) sys \<Rightarrow> bool" where
  service: "svc_step (y_svc y) s' \<Longrightarrow> sys_step y (y\<lparr>y_svc := s'\<rparr>)"
| speaker: "handleSpeakerAudioFromBackend enc cods serial pcm (y_lanes y, y_svc y) = (ok, a', s') \<Longrightarrow>
    sys_step y (y\<lparr>y_svc := s', y_lanes := a'\<rparr>)"
| haptic: "handleHapticAudioFromBackend now level enc cods serial pcm (y_lanes y, y_svc y) = (ok, a', s') \<Longrightarrow>
    sys_step y (y\<lparr>y_svc := s', y_lanes := a'\<rparr>)"
| pointer_frame: "frame_turn now (y_pointer y, y_svc y) = Some (w', s') \<Longrightarrow>
    sys_step y (y\<lparr>y_svc := s', y_pointer := w'\<rparr>)"
| pointer_commands: "drainCommands now (y_pointer y, y_svc y) = (any, w', s') \<Longrightarrow>
    sys_step y (y\<lparr>y_svc := s', y_pointer := w'\<rparr>)"
| mic_packet: "packet_turn dec codecs (y_mic y, y_svc y) = Some (m', s') \<Longrightarrow>
    sys_step y (y\<lparr>y_svc := s', y_mic := m'\<rparr>)"
| mic_sweep: "sweep_turn (y_mic y, y_svc y) = (m', s') \<Longrightarrow> sys_step y (y\<lparr>y_svc := s', y_mic := m'\<rparr>)"

inductive sys_reach :: "('b, 'e, 'd) sys \<Rightarrow> bool" where
  start: "sources_ok kd rs \<Longrightarrow> sys_reach (sys_init prt b kd rs)"
| step: "sys_reach y \<Longrightarrow> sys_step y y' \<Longrightarrow> sys_reach y'"

section \<open>The invariant\<close>

definition sys_inv :: "('b, 'e, 'd) sys \<Rightarrow> bool" where
  "sys_inv y \<longleftrightarrow> svc_inv {#} (y_svc y) \<and> lanes_ok (y_lanes y) \<and> worker_ok (y_pointer y) \<and> mic_ok (y_mic y)"

lemma updatePostDecryptV4_rx_only: "rx_only s (updatePostDecryptV4 now tok counter ip port s)"
  by (simp add: updatePostDecryptV4_def recordHotDatagram_rx_only)

lemma gamepad_rx_only:
  "rx_only s (snd (handleGamepadData now tok i report s))"
  "rx_only s (snd (handleGamepadDataAndUpdate now tok counter ip port i report s))"
  by (simp_all add: handleGamepadData_def handleGamepadDataAndUpdate_def submitHotFrame_rx_only)

lemma setAudioPolicy_inv: "svc_inv F s \<Longrightarrow> svc_inv F (setAudioPolicy fn s)"
  by (simp add: setAudioPolicy_def svc_inv_def env_ok_def queues_ok_def commands_ok_def bal_def)

lemma svc_step_inv:
  assumes "svc_step s s'" "svc_inv {#} s"
  shows "svc_inv {#} s'"
  using assms
proof (induction rule: svc_step.induct)
  case (upsert pairingKey now0 now1 now2 dev name ip descs mouse version s res s')
  then show ?case using upsertSession_inv by blast
next
  case (touchpad tok i treport s ok s')
  then have "length (tokens (s_hot s)) = MAX_SESSIONS" by (simp add: svc_inv_def hot_ok_def)
  then show ?case using touchpad rx_only_inv [OF handleTouchpadData_rx_only] by (metis snd_conv)
next
  case (mic_audio now tok i seq opus s ok s')
  then have "length (tokens (s_hot s)) = MAX_SESSIONS" by (simp add: svc_inv_def hot_ok_def)
  then show ?case using mic_audio rx_only_inv [OF handleMicAudio_rx_only] by (metis snd_conv)
qed (use applyController_inv removeController_inv closeSessionById_inv closeSessionsForDevice_inv(1)
      closeAllSessions_inv(1) reapTimedOut_inv(1) feedback_inv refreshRumble_spec(1) refreshIdleInput_inv setAudioPolicy_inv
      rx_only_inv [OF handleHeartbeat_rx_only] rx_only_inv [OF gamepad_rx_only(1)] rx_only_inv [OF gamepad_rx_only(2)]
      rx_only_inv [OF updatePostDecryptV4_rx_only] rx_only_inv [OF handleMotionData_rx_only]
      rx_only_inv [OF handleBatteryUpdate_rx_only] in \<open>blast | metis snd_conv\<close>)+

lemma sys_step_inv:
  assumes "sys_step y y'" "sys_inv y"
  shows "sys_inv y'"
  using assms
proof (induction rule: sys_step.induct)
  case (service y s')
  then show ?case using svc_step_inv by (auto simp: sys_inv_def)
next
  case (speaker enc cods serial pcm y ok a' s')
  then show ?case using handleSpeakerAudio_effects [of "{#}" "y_svc y" "y_lanes y"] by (auto simp: sys_inv_def)
next
  case (haptic now level enc cods serial pcm y ok a' s')
  then show ?case using handleHapticAudio_effects [of "{#}" "y_svc y" "y_lanes y"] by (auto simp: sys_inv_def)
next
  case (pointer_frame now y w' s')
  then show ?case using frame_turn_inv [of "{#}" "y_svc y" "y_pointer y"] by (auto simp: sys_inv_def)
next
  case (pointer_commands now y any w' s')
  then show ?case using drainCommands_inv [of "{#}" "y_svc y" "y_pointer y"] by (auto simp: sys_inv_def)
next
  case (mic_packet dec codecs y m' s')
  then show ?case using packet_turn_inv [of "{#}" "y_svc y" "y_mic y"] by (auto simp: sys_inv_def)
next
  case (mic_sweep y m' s')
  then show ?case using sweep_turn_inv [of "{#}" "y_svc y" "y_mic y"] by (auto simp: sys_inv_def)
qed

lemma sys_reach_inv: "sys_reach y \<Longrightarrow> sys_inv y"
proof (induction rule: sys_reach.induct)
  case (start kd rs prt b)
  then show ?case by (simp add: sys_inv_def sys_init_def init_inv)
next
  case (step y y')
  then show ?case using sys_step_inv by blast
qed

lemma sys_reachD:
  assumes "sys_reach y"
  shows "svc_inv {#} (y_svc y)" "lanes_ok (y_lanes y)" "worker_ok (y_pointer y)" "mic_ok (y_mic y)"
  using sys_reach_inv [OF assms] by (simp_all add: sys_inv_def)

lemma reach_row:
  assumes "sys_reach y" "find_conn tok (y_svc y) = Some r"
  shows "token r = tok" "r \<in> snd ` set (s_conns (y_svc y))"
proof -
  have m: "(tok, r) \<in> set (s_conns (y_svc y))" using assms(2) by (simp add: find_conn_def map_of_SomeD)
  then show "token r = tok" using sys_reachD(1) [OF assms(1)] by (auto simp: svc_inv_def rows_ok_def)
  show "r \<in> snd ` set (s_conns (y_svc y))" using m by force
qed

lemma no_row: "find_conn tok s = None \<Longrightarrow> tok \<notin> fst ` set (s_conns s)"
  by (simp add: find_conn_def map_of_eq_None_iff)

end
