(* ===== verification/Session_Converge.thy ===== *)
theory Session_Converge
  imports Session_Upsert
begin

text \<open>
  What a topology change leaves behind.  A declarative request names controllers by index; the
  server plans one change per index, plugs in two rounds and commits under the lock.  The lemmas
  here follow each plan to the row: an index reported as applied carries its descriptor, an index
  that was to be removed or whose plug failed carries nothing, an index whose replug failed keeps
  its pad, and every index the request says nothing of is as it was.
\<close>

section \<open>The fate of a plan\<close>

definition tuned :: "controller_descriptor \<Rightarrow> controller \<Rightarrow> bool" where
  "tuned d c \<longleftrightarrow>
     active c \<and> controllerType c = d_type d \<and> caps c = d_caps d \<and>
     touchpadMode c = safeTouchpadMode (d_touchpadMode d) \<and> preferredBackend c = d_preferredBackend d"

definition fate :: "pad_change \<Rightarrow> connection \<Rightarrow> bool" where
  "fate pad r \<longleftrightarrow>
     (let c = controllers r ! d_ctrlIdx (pd_desc pad) in
      case pd_kind pad of
        Refuse \<Rightarrow> pd_result pad \<noteq> APPLY_OK
      | Update \<Rightarrow> pd_result pad = APPLY_OK \<and> tuned (pd_desc pad) c
      | Remove \<Rightarrow> \<not> active c
      | Replug \<Rightarrow> if pd_result pad = APPLY_OK then tuned (pd_desc pad) c else active c
      | ReplugInPlace \<Rightarrow> if pd_result pad = APPLY_OK then tuned (pd_desc pad) c else \<not> active c
      | Add \<Rightarrow> if pd_result pad = APPLY_OK then tuned (pd_desc pad) c else \<not> active c)"

definition ready :: "pad_change \<Rightarrow> bool" where
  "ready pad \<longleftrightarrow> (pd_result pad = APPLY_OK \<longleftrightarrow> pd_kind pad \<noteq> Refuse)"

text \<open>What a request can see of a controller.\<close>

definition pad_face :: "controller \<Rightarrow> bool \<times> u8 \<times> u16 \<times> u8 \<times> string" where
  "pad_face c = (active c, controllerType c, caps c, touchpadMode c, preferredBackend c)"

lemma fate_cong:
  assumes "pad_face (controllers r' ! d_ctrlIdx (pd_desc pad)) = pad_face (controllers r ! d_ctrlIdx (pd_desc pad))"
  shows "fate pad r' = fate pad r"
  using assms by (simp add: fate_def tuned_def pad_face_def Let_def split: pad_kind.split)

lemma takeDescriptorLocked_tuned:
  assumes "takeDescriptorLocked d c s = (c', s')" "active c"
  shows "tuned d (seedRumbleLocked p c')"
  using assms by (auto simp: takeDescriptorLocked_def resetControllerStreamState_def tuned_def
      seedRumbleLocked_def Let_def split: prod.splits)

lemma releasePointerLocked_active: "releasePointerLocked c s = (c', s') \<Longrightarrow> active c' = active c"
  by (auto simp: releasePointerLocked_def split: if_splits prod.splits)

lemma bindPadLocked_tuned:
  assumes "bindPadLocked i pad r s = (r', s')" "i < length (controllers r)"
  shows "tuned (pd_desc pad) (controllers r' ! i)"
  using assms takeDescriptorLocked_tuned
  by (fastforce simp: bindPadLocked_def adjustActivePadsLocked_def set_ctrl_def Let_def split: prod.splits)

lemma vacatePadLocked_inactive:
  assumes "vacatePadLocked i (r, ret, s) = (r', ret', s')" "i < length (controllers r)"
  shows "\<not> active (controllers r' ! i)"
  using assms
  by (auto simp: vacatePadLocked_def adjustActivePadsLocked_def set_ctrl_def Let_def split: prod.splits if_splits)

lemma removePadLocked_inactive:
  assumes "removePadLocked i (r, ret, s) = (r', ret', s')" "i < length (controllers r)"
  shows "\<not> active (controllers r' ! i)"
  using assms unfolding removePadLocked_def prod.case by (rule vacatePadLocked_inactive)

lemma commitPadLocked_fate:
  assumes ok: "pad_ok b r pad" and len: "length (controllers r) = 16" and rd: "ready pad"
    and c: "commitPadLocked b pad (r, ret, s) = (pad', r', ret', s')"
  shows "if \<not> b \<and> pd_waits pad then pad' = pad else fate pad' r'"
proof -
  let ?i = "d_ctrlIdx (pd_desc pad)"
  note defs = fate_def commitPadLocked_def pad_ok_def ready_def Let_def
  have apply_errs: "APPLY_ERR_NO_SLOTS \<noteq> APPLY_OK" "APPLY_ERR_BACKEND_UNAVAIL \<noteq> APPLY_OK"
    "APPLY_ERR_PLUGIN_FAIL \<noteq> APPLY_OK" "APPLY_ERR_REPLUG_FAIL \<noteq> APPLY_OK" by simp_all
  show ?thesis
  proof (cases "pd_kind pad")
    case Refuse
    then show ?thesis using c ok rd by (auto simp: defs)
  next
    case Update
    then have i: "?i < 16" "active (controllers r ! ?i)" "\<not> b" "\<not> pd_waits pad"
      using ok by (auto simp: defs split: if_splits)
    obtain c1 s1 where rl: "releasePointerLocked (controllers r ! ?i) s = (c1, s1)" by force
    have "active c1" using releasePointerLocked_active [OF rl] i(2) by simp
    then show ?thesis
      using c Update rd i len rl by (auto simp: defs updatePadLocked_def set_ctrl_def tuned_def split: if_splits)
  next
    case Remove
    then have i: "?i < 16" "\<not> b" "\<not> pd_waits pad" using ok by (auto simp: defs split: if_splits)
    have "removePadLocked ?i (r, ret, s) = (r', ret', s')" "pad' = pad" using c Remove by (auto simp: defs)
    then show ?thesis using removePadLocked_inactive [of ?i r] Remove i len by (simp add: defs)
  next
    case Replug
    then have i: "?i < 16" "active (controllers r ! ?i)" "\<not> b" "\<not> pd_waits pad"
      using ok by (auto simp: defs split: if_splits)
    obtain c1 s1 where rl: "releasePointerLocked (controllers r ! ?i) s = (c1, s1)" by force
    have a: "active c1" using releasePointerLocked_active [OF rl] i(2) by simp
    obtain c2 s2 where tk: "takeDescriptorLocked (pd_desc pad) (c1\<lparr>serialNo := pd_serial pad\<rparr>) s1 = (c2, s2)" by force
    show ?thesis
      using c Replug rd i len rl tk takeDescriptorLocked_tuned [OF tk] a
      by (auto simp: defs replugPadLocked_def set_ctrl_def split: if_splits)
  next
    case ReplugInPlace
    then have i: "?i < 16" using ok by (auto simp: defs split: if_splits)
    show ?thesis
    proof (cases b)
      case False
      then show ?thesis using c ReplugInPlace ok by (auto simp: defs)
    next
      case True
      then have "\<not> active (controllers r ! ?i)" using ok by (auto simp: defs)
      moreover obtain r1 s1 where bd: "bindPadLocked ?i pad r s = (r1, s1)" by force
      ultimately show ?thesis
        using c ReplugInPlace True rd i len bindPadLocked_tuned [OF bd]
        by (auto simp: defs refitPadLocked_def split: if_splits)
    qed
  next
    case Add
    then have i: "?i < 16" "\<not> active (controllers r ! ?i)" using ok by (auto simp: defs split: if_splits)
    obtain r1 s1 where bd: "bindPadLocked ?i pad r s = (r1, s1)" by force
    show ?thesis
      using c Add rd i len bd bindPadLocked_tuned [OF bd]
      by (auto simp: defs addPadLocked_def split: if_splits)
  qed
qed

section \<open>The rounds\<close>

text \<open>Before a round a plan that takes no part has met its fate; after it, all but the waiting ones have.\<close>

definition before_round :: "bool \<Rightarrow> connection \<Rightarrow> pad_change list \<Rightarrow> bool" where
  "before_round b r pads \<longleftrightarrow> (\<forall>pad\<in>set pads. if b \<and> \<not> pd_waits pad then fate pad r else ready pad)"

definition after_round :: "bool \<Rightarrow> connection \<Rightarrow> pad_change list \<Rightarrow> bool" where
  "after_round b r pads \<longleftrightarrow> (\<forall>pad\<in>set pads. if \<not> b \<and> pd_waits pad then ready pad else fate pad r)"

definition untouched :: "pad_change list \<Rightarrow> connection \<Rightarrow> connection \<Rightarrow> bool" where
  "untouched pads r r' \<longleftrightarrow>
     (\<forall>j<MAX_CONTROLLERS_PER_CONN. j \<notin> (\<lambda>pad. d_ctrlIdx (pd_desc pad)) ` set pads \<longrightarrow>
        pad_face (controllers r' ! j) = pad_face (controllers r ! j))"

lemma commit_loop_fate:
  assumes "focus (O' + pend b pads) K (r, ret, s)" "pads_ok b r pads"
    and "mapS (commit_one b) pads (r, ret, s) = (pads', r', ret', s')" "before_round b r pads"
  shows "after_round b r' pads'"
  using assms
proof (induction pads arbitrary: r ret s pads')
  case Nil
  then show ?case by (simp add: after_round_def)
next
  case (Cons pad pads)
  let ?i = "d_ctrlIdx (pd_desc pad)"
  obtain pad1 r1 ret1 s1 where c: "commit_one b pad (r, ret, s) = (pad1, r1, ret1, s1)"
    by (metis prod_cases4)
  obtain pads1 where m: "mapS (commit_one b) pads (r1, ret1, s1) = (pads1, r', ret', s')"
      and pads': "pads' = pad1 # pads1"
    using Cons.prems(3) c by (auto split: prod.splits)
  have m1: "mapS (commit_one b) [pad] (r, ret, s) = ([pad1], r1, ret1, s1)" using c by simp
  have f: "focus ((O' + pend b pads) + pend b [pad]) K (r, ret, s)" "pads_ok b r [pad]"
    using Cons.prems(1,2) by (auto simp: pads_ok_def ac_simps)
  note one = commit_loop [OF f m1]
  have len: "length (controllers r) = 16" using f(1) by (simp add: focus.simps row_ok_def)
  have f1: "focus (O' + pend b pads) K (r1, ret1, s1)" and sp: "same_plan pad pad1" using one by simp_all
  have oth: "controllers r1 ! d_ctrlIdx (pd_desc p) = controllers r ! d_ctrlIdx (pd_desc p)"
    if "p \<in> set pads" for p
    using one Cons.prems(2) that by (fastforce simp: pads_ok_def image_iff)
  have ok1: "pads_ok b r1 pads"
  proof -
    have "pad_ok b r1 p = pad_ok b r p" if "p \<in> set pads" for p
      unfolding pad_ok_def Let_def oth [OF that] ..
    then show ?thesis using Cons.prems(2) by (simp add: pads_ok_def)
  qed
  have bf1: "before_round b r1 pads"
    using Cons.prems(4) fate_cong [of r1 _ r] oth by (simp add: before_round_def)
  note rest = commit_loop [OF f1 ok1 m]
  have fat: "if \<not> b \<and> pd_waits pad1 then ready pad1 else fate pad1 r1"
  proof (cases "b \<and> \<not> pd_waits pad")
    case True
    then show ?thesis using c Cons.prems(4) by (simp add: commit_one_def before_round_def)
  next
    case False
    then have cl: "commitPadLocked b pad (r, ret, s) = (pad1, r1, ret1, s1)" and ok: "pad_ok b r pad"
        and rd: "ready pad"
      using c Cons.prems(2,4) by (auto simp: commit_one_def before_round_def pads_ok_def takes_part_def)
    show ?thesis
      using commitPadLocked_fate [OF ok len rd cl] rd sp by (auto simp: same_plan_def split: if_splits)
  qed
  have "d_ctrlIdx (pd_desc pad1) = ?i" using sp by (simp add: same_plan_def)
  then have "controllers r' ! d_ctrlIdx (pd_desc pad1) = controllers r1 ! d_ctrlIdx (pd_desc pad1)"
    using rest Cons.prems(2) by (auto simp: pads_ok_def)
  then have "fate pad1 r' = fate pad1 r1" by (intro fate_cong) simp
  then show ?case
    using Cons.IH [OF f1 ok1 m bf1] fat unfolding pads' by (simp add: after_round_def)
qed

lemma commitPadsLocked_fate:
  assumes f: "focus (O' + pend b (tc_pads change)) K (r, tc_retired change, s)"
    and ok: "pads_ok b r (tc_pads change)" and bf: "before_round b r (tc_pads change)"
    and c: "commitPadsLocked b r change s = (r', change', s')"
  shows "after_round b r' (tc_pads change')" "untouched (tc_pads change) r r'"
proof -
  obtain ch1 s1 where cl: "clear_reopened change s = (ch1, s1)" by force
  have ch1: "tc_pads ch1 = tc_pads change" "tc_retired ch1 = tc_retired change"
    using cl by (auto simp: clear_reopened_def split: if_splits)
  note f1 = clear_reopened_focus(1) [OF f cl]
  obtain pads' ret' where m: "mapS (commit_one b) (tc_pads ch1) (r, tc_retired ch1, s1)
      = (pads', r', ret', s')" and ch': "change' = ch1\<lparr>tc_pads := pads', tc_retired := ret'\<rparr>"
    using c cl unfolding commitPadsLocked_def commit_one_def [abs_def]
    by (auto split: prod.splits)
  show "after_round b r' (tc_pads change')"
    using commit_loop_fate [OF f1 _ m] ok bf unfolding ch1 by (simp add: ch')
  show "untouched (tc_pads change) r r'"
    using commit_loop [OF f1 _ m] ok unfolding ch1 by (simp add: untouched_def)
qed

lemma deref_put_row:
  assumes "token r \<in> fst ` set (s_conns s)"
  shows "deref (token r) (put_row r s) = r"
proof -
  have "map_of (map (\<lambda>e. if fst e = k then (fst e, r) else e) es) k = Some r" if "k \<in> fst ` set es"
    for k and es :: "(u32 \<times> connection) list"
    using that by (induction es) auto
  then show ?thesis using assms by (simp add: deref_def find_conn_def put_row_def)
qed

lemma publishControllersLocked_core:
  assumes "publishControllersLocked now r s = (r', s')"
  shows "same_core r r'" "s_conns s' = s_conns s"
proof -
  have "same_core r r' \<and> s_conns s' = s_conns s"
  proof (cases "controllersPublished r (s_hot s)")
    case True
    then show ?thesis using assms by (simp add: publishControllersLocked_def)
  next
    case False
    then have "sendSeededRumbleLocked now r (s\<lparr>s_hot := ConnectionWrite r (\<lambda>t. t) (s_hot s)\<rparr>) = (r', s')"
      using assms by (simp add: publishControllersLocked_def)
    from sendSeededRumbleLocked_core [OF this] show ?thesis by (simp add: quiet_def same_rows_def)
  qed
  then show "same_core r r'" "s_conns s' = s_conns s" by blast+
qed

lemma same_core_face:
  assumes "same_core r r'" "length (controllers r) = 16" "j < MAX_CONTROLLERS_PER_CONN"
  shows "pad_face (controllers r' ! j) = pad_face (controllers r ! j)"
  using same_core_nth [OF assms(1), of j] assms(2,3) by (simp add: pad_core_def pad_face_def)

text \<open>A refusal is the only plan whose index may lie outside the table; its fate reads no controller.\<close>

lemma fate_core:
  assumes "same_core r r'" "length (controllers r) = 16"
    and "pd_kind pad \<noteq> Refuse \<longrightarrow> d_ctrlIdx (pd_desc pad) < MAX_CONTROLLERS_PER_CONN"
  shows "fate pad r' = fate pad r"
proof (cases "pd_kind pad = Refuse")
  case True
  then show ?thesis by (simp add: fate_def Let_def)
next
  case False
  then show ?thesis using same_core_face [OF assms(1,2)] assms(3) by (intro fate_cong) simp
qed

definition in_table :: "pad_change list \<Rightarrow> bool" where
  "in_table pads \<longleftrightarrow>
     (\<forall>pad\<in>set pads. pd_kind pad \<noteq> Refuse \<longrightarrow> d_ctrlIdx (pd_desc pad) < MAX_CONTROLLERS_PER_CONN)"

lemma in_table_same:
  assumes "list_all2 (\<lambda>p p'. pd_kind p' = pd_kind p \<and> pd_desc p' = pd_desc p) pads pads'"
  shows "in_table pads' = in_table pads"
  using assms by (induction rule: list_all2_induct) (auto simp: in_table_def)

lemma after_round_core:
  assumes "same_core r r'" "length (controllers r) = 16" "in_table pads"
  shows "after_round b r' pads = after_round b r pads"
  using fate_core [OF assms(1,2)] assms(3) by (simp add: after_round_def in_table_def)

lemma commit_and_publish_fate:
  assumes inv: "svc_inv (F + pend b (tc_pads change) + mset (map rt_serial (tc_retired change))) s"
    and tok: "tok \<in> fst ` set (s_conns s)" and ok: "pads_ok b (deref tok s) (tc_pads change)"
    and bf: "before_round b (deref tok s) (tc_pads change)" and it: "in_table (tc_pads change)"
    and c: "commit_and_publish b now tok change s = (change', s')"
  shows "after_round b (deref tok s') (tc_pads change')" "in_table (tc_pads change')"
    "untouched (tc_pads change) (deref tok s) (deref tok s')"
    "list_all2 same_plan (tc_pads change) (tc_pads change')"
proof -
  note o = inv_open [OF inv tok]
  obtain r1 s1 where cm: "commitPadsLocked b (deref tok s) change s = (r1, change', s1)"
    using c unfolding commit_and_publish_def by (auto split: prod.splits)
  obtain r2 s2 where pb: "publishControllersLocked now r1 s1 = (r2, s2)" by force
  have s': "s' = put_row r2 s2"
    using c cm pb unfolding commit_and_publish_def by (auto split: prod.splits)
  have "bal (held_rows (s_conns s) + (F + pend b (tc_pads change) +
      mset (map rt_serial (tc_retired change)))) s" using inv by (simp add: svc_inv_def)
  then have f: "focus ((held_rows (others tok (s_conns s)) + F) + pend b (tc_pads change))
      (count_rows (others tok (s_conns s))) (deref tok s, tc_retired change, s)"
    using inv o(4,7,8) by (simp add: focus.simps bal_def svc_inv_def ac_simps)
  note cb = commitPadsLocked_balance [OF f ok cm]
  note cf = commitPadsLocked_fate [OF f ok bf cm]
  note pc = publishControllersLocked_core [OF pb]
  have "token r2 = tok" "s_conns s2 = s_conns s"
    using cb pc o(2) by (auto simp: same_session_def same_rows_def same_core_def)
  then have d: "deref tok s' = r2" using deref_put_row [of r2 s2] tok s' by simp
  have len: "length (controllers r1) = 16" using cb by (simp add: focus.simps row_ok_def)
  show sp: "list_all2 same_plan (tc_pads change) (tc_pads change')" using cb by blast
  then have "list_all2 (\<lambda>p p'. pd_kind p' = pd_kind p \<and> pd_desc p' = pd_desc p) (tc_pads change) (tc_pads change')"
    by (rule list_all2_mono) (simp add: same_plan_def)
  then show it': "in_table (tc_pads change')" using it in_table_same by blast
  show "after_round b (deref tok s') (tc_pads change')"
    using cf(1) after_round_core [OF pc(1) len it'] by (simp add: d)
  show "untouched (tc_pads change) (deref tok s) (deref tok s')"
    using cf(2) same_core_face [OF pc(1) len] by (simp add: untouched_def d)
qed

definition same_ask :: "pad_change \<Rightarrow> pad_change \<Rightarrow> bool" where
  "same_ask p p' \<longleftrightarrow> pd_kind p' = pd_kind p \<and> pd_desc p' = pd_desc p \<and> pd_waits p' = pd_waits p"

lemma same_ask_trans: "list_all2 same_ask xs ys \<Longrightarrow> list_all2 same_ask ys zs \<Longrightarrow> list_all2 same_ask xs zs"
  by (rule list_all2_trans [of same_ask same_ask same_ask]) (auto simp: same_ask_def)

lemma same_ask_idx:
  assumes "list_all2 same_ask pads pads'"
  shows "map pd_desc pads' = map pd_desc pads" "map pd_kind pads' = map pd_kind pads"
    "in_table pads' = in_table pads" "untouched pads' r r' = untouched pads r r'"
proof -
  show d: "map pd_desc pads' = map pd_desc pads" "map pd_kind pads' = map pd_kind pads"
    using assms by (induction rule: list_all2_induct) (auto simp: same_ask_def)
  show "in_table pads' = in_table pads"
    using assms by (intro in_table_same, elim list_all2_mono) (auto simp: same_ask_def)
  have "(\<lambda>pad. d_ctrlIdx (pd_desc pad)) ` set pads' = (\<lambda>pad. d_ctrlIdx (pd_desc pad)) ` set pads"
    using arg_cong [OF d(1), of "\<lambda>ds. d_ctrlIdx ` set ds"] by (simp add: image_image)
  then show "untouched pads' r r' = untouched pads r r'" by (simp add: untouched_def)
qed

lemma same_ask_filter:
  assumes "list_all2 same_ask pads pads'"
  shows "map pd_desc (filter (\<lambda>pad. pd_kind pad \<noteq> Remove) pads')
    = map pd_desc (filter (\<lambda>pad. pd_kind pad \<noteq> Remove) pads)"
  using assms by (induction rule: list_all2_induct) (auto simp: same_ask_def)

text \<open>The plug rounds and the second allocation change no plan's kind, descriptor or result.\<close>

definition same_verdict :: "pad_change \<Rightarrow> pad_change \<Rightarrow> bool" where
  "same_verdict p p' \<longleftrightarrow> same_ask p p' \<and> pd_result p' = pd_result p"

lemma same_verdict_ask: "list_all2 same_verdict xs ys \<Longrightarrow> list_all2 same_ask xs ys"
  by (erule list_all2_mono) (simp add: same_verdict_def)

lemma same_verdictD:
  assumes "same_verdict p p'"
  shows "fate p' r = fate p r" "ready p' = ready p" "pd_waits p' = pd_waits p"
proof -
  have e: "pd_kind p' = pd_kind p" "pd_desc p' = pd_desc p" "pd_waits p' = pd_waits p"
      "pd_result p' = pd_result p"
    using assms by (simp_all add: same_verdict_def same_ask_def)
  show "fate p' r = fate p r" "ready p' = ready p" "pd_waits p' = pd_waits p"
    unfolding fate_def ready_def e by (rule refl)+
qed

lemma same_verdict_rounds:
  assumes "list_all2 same_verdict pads pads'"
  shows "before_round b r pads' = before_round b r pads" "after_round b r pads' = after_round b r pads"
  using assms
  by (induction rule: list_all2_induct) (auto simp: before_round_def after_round_def same_verdictD)

lemma plug_outcome_verdict: "list_all2 plug_outcome xs ys \<Longrightarrow> list_all2 same_verdict xs ys"
proof (erule list_all2_mono)
  fix p p' assume a: "plug_outcome p p'"
  then have e: "p' = p\<lparr>pd_busDown := pd_busDown p', pd_plugged := pd_plugged p'\<rparr>" by (simp add: plug_outcome_def)
  have "pd_result p' = pd_result p" by (subst e) simp
  then show "same_verdict p p'" using plug_outcomeD [OF a] by (simp add: same_verdict_def same_ask_def)
qed

lemma allocateWaitingLocked_verdict:
  assumes "allocateWaitingLocked change s = (waiting, change', s')"
  shows "list_all2 same_verdict (tc_pads change) (tc_pads change')"
    "waiting = list_ex pad_waiting (tc_pads change)"
proof -
  obtain pads1 p1 where m1: "mapS wait_in_place (tc_pads change) (s_pool s) = (pads1, p1)" by force
  obtain pads2 p2 where m2: "mapS wait_add pads1 p1 = (pads2, p2)" by force
  have one: "list_all2 same_verdict (tc_pads change) pads1"
    using mapS_inv [of "\<lambda>_. True" "s_pool s" "tc_pads change" wait_in_place same_verdict] m1
    by (auto simp: wait_in_place_def same_verdict_def same_ask_def split: prod.splits)
  have two: "list_all2 same_verdict pads1 pads2"
    using mapS_inv [of "\<lambda>_. True" p1 pads1 wait_add same_verdict] m2
    by (auto simp: wait_add_def same_verdict_def same_ask_def split: prod.splits)
  have "list_all2 same_verdict (tc_pads change) pads2"
    by (rule list_all2_trans [OF _ one two]) (auto simp: same_verdict_def same_ask_def)
  then show "list_all2 same_verdict (tc_pads change) (tc_pads change')"
      "waiting = list_ex pad_waiting (tc_pads change)"
    using assms m1 m2 by (auto simp: allocateWaitingLocked_def)
qed

lemma settlePadChange_fate:
  assumes inv: "svc_inv (F + mset (map rt_serial (tc_retired change))) s"
    and tok: "tok \<in> fst ` set (s_conns s)" and w: "waiting_ok (deref tok s) (tc_pads change)"
    and af: "after_round False (deref tok s) (tc_pads change)" and it: "in_table (tc_pads change)"
    and p: "settlePadChange now tok change s = (change', s')"
  shows "after_round True (deref tok s') (tc_pads change')" "list_all2 same_ask (tc_pads change) (tc_pads change')"
    "untouched (tc_pads change) (deref tok s) (deref tok s')"
proof -
  obtain ret s1 where u: "unplugRetired (tc_retired change) s = (ret, s1)" by force
  have sb: "same_but_backend s s1" and rs: "map rt_serial ret = map rt_serial (tc_retired change)"
    using unplugRetired_spec [OF u] by blast+
  have i1: "svc_inv (F + mset (map rt_serial ret)) s1"
    using inv unfolding rs same_but_backend_inv [OF sb] .
  have d1: "deref tok s1 = deref tok s" "s_conns s1 = s_conns s"
    using same_but_backend_deref [OF sb] same_but_backendD(1) [OF sb] by blast+
  obtain wt ch2 s2 where sa: "settle_and_allocate ret change s1 = (wt, ch2, s2)" by (metis prod_cases3)
  have w1: "waiting_ok (deref tok s1) (tc_pads change)" using w d1 by simp
  note st = settle_and_allocate_inv [OF i1 w1 sa]
  have d2: "deref tok s2 = deref tok s" "s_conns s2 = s_conns s"
    using same_rows_deref [OF st(2)] st(2) d1 by (simp_all add: same_rows_def)
  have "allocateWaitingLocked (change\<lparr>tc_retired := []\<rparr>) (settleRetiredLocked ret s1) = (wt, ch2, s2)"
    using sa by (simp add: settle_and_allocate_def)
  from allocateWaitingLocked_verdict [OF this]
  have v2: "list_all2 same_verdict (tc_pads change) (tc_pads ch2)" and wt: "wt = list_ex pad_waiting (tc_pads change)"
    by simp_all
  have "after_round True (deref tok s') (tc_pads change') \<and> list_all2 same_ask (tc_pads change) (tc_pads change') \<and>
    untouched (tc_pads change) (deref tok s) (deref tok s')"
  proof (cases wt)
    case False
    then have e: "change' = ch2" "s' = s2" using p u sa by (simp_all add: settlePadChange_def)
    have "\<not> pd_waits pad" if "pad \<in> set (tc_pads change)" for pad
      using that False w wt by (auto simp: list_ex_iff pad_waiting_def waiting_ok_def waits_ok_def)
    then have "after_round True (deref tok s) (tc_pads change)" using af by (simp add: after_round_def)
    then show ?thesis
      using same_verdict_rounds [OF v2] same_verdict_ask [OF v2] d2 by (simp add: e untouched_def)
  next
    case True
    obtain ch3 s3 where pl: "plugPads True ch2 s2 = (ch3, s3)" by force
    note pi = plugPads_inv [OF pl st(1)]
    have cp: "commit_and_publish True now tok ch3 s3 = (change', s')"
      using p u sa pl True by (simp add: settlePadChange_def)
    note po = plug_outcome_pads_ok [OF pi(5) st(3)]
    have i3: "svc_inv (F + pend True (tc_pads ch3) + mset (map rt_serial (tc_retired ch3))) s3"
      using pi(1,4) po(2) st(4) by simp
    have t3: "tok \<in> fst ` set (s_conns s3)" using tok pi(3) d2 by simp
    have ok3: "pads_ok True (deref tok s3) (tc_pads ch3)" using po(1) pi(2) by simp
    note v3 = plug_outcome_verdict [OF pi(5)]
    have a3: "list_all2 same_ask (tc_pads change) (tc_pads ch3)"
      using same_ask_trans same_verdict_ask [OF v2] same_verdict_ask [OF v3] by blast
    have "before_round True (deref tok s) (tc_pads change)"
      using af by (auto simp: after_round_def before_round_def split: if_splits)
    then have bf3: "before_round True (deref tok s3) (tc_pads ch3)"
      using same_verdict_rounds(1) [OF v2] same_verdict_rounds(1) [OF v3] pi(2) d2 by simp
    have it3: "in_table (tc_pads ch3)" using it same_ask_idx(3) [OF a3] by simp
    note cf = commit_and_publish_fate [OF i3 t3 ok3 bf3 it3 cp]
    have "list_all2 same_ask (tc_pads ch3) (tc_pads change')"
      using cf(4) by (rule list_all2_mono) (simp add: same_plan_def same_ask_def)
    then show ?thesis
      using cf(1,3) same_ask_trans [OF a3] same_ask_idx(4) [OF a3] pi(2) d2 by simp
  qed
  then show "after_round True (deref tok s') (tc_pads change')" "list_all2 same_ask (tc_pads change) (tc_pads change')"
    "untouched (tc_pads change) (deref tok s) (deref tok s')" by blast+
qed

lemma convergePads_fate:
  assumes inv: "svc_inv (F + pend False (tc_pads change)) s"
    and tok: "tok \<in> fst ` set (s_conns s)" and ret: "tc_retired change = []"
    and ok: "pads_ok False (deref tok s) (tc_pads change)"
    and rd: "\<forall>pad\<in>set (tc_pads change). ready pad" and it: "in_table (tc_pads change)"
    and p: "convergePads now tok change s = (change', s')"
  shows "\<forall>pad\<in>set (tc_pads change'). fate pad (deref tok s')"
    "list_all2 same_ask (tc_pads change) (tc_pads change')"
    "untouched (tc_pads change) (deref tok s) (deref tok s')"
proof -
  obtain ch1 s1 where pl: "plugPads False change s = (ch1, s1)" by force
  note pi = plugPads_inv [OF pl inv]
  note po = plug_outcome_pads_ok [OF pi(5) ok]
  note v1 = plug_outcome_verdict [OF pi(5)]
  obtain ch2 s2 where cp: "commit_and_publish False now tok ch1 s1 = (ch2, s2)" by force
  have i1: "svc_inv (F + pend False (tc_pads ch1) + mset (map rt_serial (tc_retired ch1))) s1"
    using pi(1,4) po(2) ret by simp
  have t1: "tok \<in> fst ` set (s_conns s1)" using tok pi(3) by simp
  have ok1: "pads_ok False (deref tok s1) (tc_pads ch1)" using po(1) pi(2) by simp
  have bf1: "before_round False (deref tok s1) (tc_pads ch1)"
    using rd same_verdict_rounds(1) [OF v1, of False "deref tok s1"] by (simp add: before_round_def)
  have it1: "in_table (tc_pads ch1)" using it same_ask_idx(3) [OF same_verdict_ask [OF v1]] by simp
  note cc = commit_and_publish_inv [OF i1 t1 ok1 cp]
  note cf = commit_and_publish_fate [OF i1 t1 ok1 bf1 it1 cp]
  have sp: "settlePadChange now tok ch2 s2 = (change', s')"
    using p pl cp by (simp add: convergePads_def)
  have i2: "svc_inv (F + mset (map rt_serial (tc_retired ch2))) s2" using cc by blast
  have t2: "tok \<in> fst ` set (s_conns s2)" using cc t1 by simp
  have w2: "waiting_ok (deref tok s2) (tc_pads ch2)" using cc by simp
  note se = settlePadChange_fate [OF i2 t2 w2 cf(1,2) sp]
  have "list_all2 same_ask (tc_pads ch1) (tc_pads ch2)"
    using cf(4) by (rule list_all2_mono) (simp add: same_plan_def same_ask_def)
  then have a2: "list_all2 same_ask (tc_pads change) (tc_pads ch2)"
    using same_ask_trans same_verdict_ask [OF v1] by blast
  show "\<forall>pad\<in>set (tc_pads change'). fate pad (deref tok s')" using se(1) by (simp add: after_round_def)
  show "list_all2 same_ask (tc_pads change) (tc_pads change')" by (rule same_ask_trans [OF a2 se(2)])
  show "untouched (tc_pads change) (deref tok s) (deref tok s')"
    using cf(3) se(3) same_ask_idx(4) [OF a2] same_ask_idx(4) [OF same_verdict_ask [OF v1]] pi(2)
    by (simp add: untouched_def)
qed

section \<open>What the plans cover\<close>

lemma planPadLocked_ready:
  assumes "planPadLocked r d s = (pad, s1)"
  shows "ready pad \<and> pd_desc pad = d \<and> pd_kind pad \<noteq> Remove \<and>
    (pd_kind pad \<noteq> Refuse \<longrightarrow> d_ctrlIdx d < MAX_CONTROLLERS_PER_CONN)"
  using assms
  by (auto simp: planPadLocked_def default_pad_change_def ready_def Let_def split: if_splits prod.splits)

lemma deferUnservedAdds_same:
  "list_all2 (\<lambda>p p'. pd_kind p' = pd_kind p \<and> pd_desc p' = pd_desc p \<and> pd_result p' = pd_result p)
     pads (deferUnservedAdds pads)"
  by (rule list_all2_mono [OF deferUnservedAdds_map]) auto

lemma plan_loop_ready:
  assumes "mapS (planPadLocked r) ds s = (pads, s1)"
  shows "(\<forall>pad\<in>set pads. ready pad \<and> pd_kind pad \<noteq> Remove \<and>
      (pd_kind pad \<noteq> Refuse \<longrightarrow> d_ctrlIdx (pd_desc pad) < MAX_CONTROLLERS_PER_CONN)) \<and>
    map pd_desc pads = ds"
  using assms
proof (induction ds arbitrary: s pads)
  case (Cons d ds)
  obtain pad s2 where p: "planPadLocked r d s = (pad, s2)" by force
  obtain pads2 where m: "mapS (planPadLocked r) ds s2 = (pads2, s1)" and pads: "pads = pad # pads2"
    using Cons.prems p by (auto split: prod.splits)
  show ?case using Cons.IH [OF m] planPadLocked_ready [OF p] unfolding pads by auto
qed simp

lemma planSessionPadsLocked_covers:
  assumes p: "planSessionPadsLocked r desired s = (pads, s1)"
  shows "\<forall>pad\<in>set pads. ready pad" "in_table pads"
    "map pd_desc (filter (\<lambda>pad. pd_kind pad \<noteq> Remove) pads) = desired"
    "i < MAX_CONTROLLERS_PER_CONN \<Longrightarrow> i \<notin> d_ctrlIdx ` set desired \<Longrightarrow>
       (\<exists>pad\<in>set pads. pd_kind pad = Remove \<and> d_ctrlIdx (pd_desc pad) = i) \<or>
       (\<not> active (controllers r ! i) \<and> i \<notin> (\<lambda>pad. d_ctrlIdx (pd_desc pad)) ` set pads)"
proof -
  obtain planned s2 where m: "mapS (planPadLocked r) desired s = (planned, s2)" by force
  define gone where "gone = filter (\<lambda>i. active (controllers r ! i) \<and> i \<notin> d_ctrlIdx ` set desired)
    [0..<MAX_CONTROLLERS_PER_CONN]"
  have pads: "pads = deferUnservedAdds (map planRemoval gone @ planned)"
    using p m unfolding planSessionPadsLocked_def gone_def by (simp add: Let_def)
  note lp = plan_loop_ready [OF m]
  have rem: "pd_kind (planRemoval i) = Remove" "d_ctrlIdx (pd_desc (planRemoval i)) = i"
      "pd_result (planRemoval i) = APPLY_OK" for i
    by (simp_all add: planRemoval_def default_pad_change_def)
  have lt: "i \<in> set gone \<longleftrightarrow> i < MAX_CONTROLLERS_PER_CONN \<and> active (controllers r ! i) \<and> i \<notin> d_ctrlIdx ` set desired" for i
    by (auto simp: gone_def)
  let ?raw = "map planRemoval gone @ planned"
  have l2: "list_all2 (\<lambda>p p'. pd_kind p' = pd_kind p \<and> pd_desc p' = pd_desc p \<and> pd_result p' = pd_result p) ?raw pads"
    unfolding pads by (rule deferUnservedAdds_same)
  have tbl: "in_table ?raw" using lp rem lt by (auto simp: in_table_def)
  have rdy: "\<forall>pad\<in>set ?raw. ready pad" using lp rem by (auto simp: ready_def)
  show "in_table pads" using tbl in_table_same [of ?raw pads] list_all2_mono [OF l2] by fastforce
  show "\<forall>pad\<in>set pads. ready pad"
    using rdy list_all2_memD [OF l2] by (fastforce simp: ready_def)
  have kinds: "map (\<lambda>p. (pd_kind p, pd_desc p)) pads = map (\<lambda>p. (pd_kind p, pd_desc p)) ?raw"
    using l2 by (induction rule: list_all2_induct) auto
  have fil: "map pd_desc (filter (\<lambda>pad. pd_kind pad \<noteq> Remove) xs)
      = map snd (filter (\<lambda>kd. fst kd \<noteq> Remove) (map (\<lambda>p. (pd_kind p, pd_desc p)) xs))" for xs
    by (induction xs) auto
  have "filter (\<lambda>pad. pd_kind pad \<noteq> Remove) (map planRemoval gone) = []"
    using rem(1) by (simp add: filter_empty_conv)
  moreover have "filter (\<lambda>pad. pd_kind pad \<noteq> Remove) planned = planned" using lp by (intro filter_True) blast
  ultimately have "map pd_desc (filter (\<lambda>pad. pd_kind pad \<noteq> Remove) ?raw) = desired" using lp by simp
  then show "map pd_desc (filter (\<lambda>pad. pd_kind pad \<noteq> Remove) pads) = desired"
    unfolding fil kinds by simp
  have mem: "(\<exists>p\<in>set pads. Q (pd_kind p) (pd_desc p)) \<longleftrightarrow> (\<exists>p\<in>set ?raw. Q (pd_kind p) (pd_desc p))" for Q
  proof -
    have conv: "(\<exists>p\<in>set xs. Q (pd_kind p) (pd_desc p)) \<longleftrightarrow> (\<exists>(k, d)\<in>set (map (\<lambda>p. (pd_kind p, pd_desc p)) xs). Q k d)" for xs
      by auto
    show ?thesis unfolding conv [of pads] conv [of ?raw] kinds by (rule refl)
  qed
  show "(\<exists>pad\<in>set pads. pd_kind pad = Remove \<and> d_ctrlIdx (pd_desc pad) = i) \<or>
       (\<not> active (controllers r ! i) \<and> i \<notin> (\<lambda>pad. d_ctrlIdx (pd_desc pad)) ` set pads)"
    if i: "i < MAX_CONTROLLERS_PER_CONN" "i \<notin> d_ctrlIdx ` set desired"
  proof (cases "active (controllers r ! i)")
    case True
    then have "i \<in> set gone" using i lt by blast
    then have "\<exists>p\<in>set ?raw. pd_kind p = Remove \<and> d_ctrlIdx (pd_desc p) = i" using rem by auto
    then show ?thesis using mem [of "\<lambda>k d. k = Remove \<and> d_ctrlIdx d = i"] by blast
  next
    case False
    have "d_ctrlIdx (pd_desc p) \<noteq> i" if "p \<in> set ?raw" for p
    proof -
      from that consider "p \<in> planRemoval ` set gone" | "pd_desc p \<in> set desired" using lp by auto
      then show ?thesis using rem(2) lt False i(2) by cases auto
    qed
    then have "\<not> (\<exists>p\<in>set pads. d_ctrlIdx (pd_desc p) = i)" using mem [of "\<lambda>k d. d_ctrlIdx d = i"] by blast
    then show ?thesis using False by blast
  qed
qed

section \<open>The entry points\<close>

lemma closeBusIfIdle_deref: "deref tok (closeBusIfIdle idle s) = deref tok s"
  by (simp add: closeBusIfIdle_def deref_def find_conn_def logMsg_def emit_def split: prod.split)

lemma fate_applied:
  assumes "fate pad r" "pd_result pad = APPLY_OK" "pd_kind pad \<noteq> Remove"
  shows "tuned (pd_desc pad) (controllers r ! d_ctrlIdx (pd_desc pad))"
  using assms by (auto simp: fate_def Let_def split: pad_kind.splits)

lemma applyController_converges:
  assumes inv: "svc_inv F s" and a: "applyController now cid dev d s = (Some (res, ep), s')"
    and r: "findByConnectionId cid s = Some r"
  shows "ar_ctrlIdx res = d_ctrlIdx d"
    "ar_result res = APPLY_OK \<Longrightarrow> tuned d (controllers (deref (token r) s') ! d_ctrlIdx d)"
    "j < MAX_CONTROLLERS_PER_CONN \<Longrightarrow> j \<noteq> d_ctrlIdx d \<Longrightarrow>
       pad_face (controllers (deref (token r) s') ! j) = pad_face (controllers r ! j)"
proof -
  have dev: "deviceId r = dev" using a r by (auto simp: applyController_def split: if_splits)
  note rd = row_deref [OF inv conjunct2 [OF findByConnectionId_mem [OF r]]]
  obtain pad s1 where pp: "planPadLocked r d s = (pad, s1)" by force
  let ?ch = "empty_change\<lparr>tc_pads := deferUnservedAdds [pad]\<rparr>"
  obtain ch2 s2 where cv: "convergePads now (token r) ?ch s1 = (ch2, s2)" by force
  have res: "res = applyResultLocked (deref (token r) s2) (hd (tc_pads ch2)) s2"
      "s' = closeBusIfIdle (busIdleLocked s2) s2"
    using a r dev pp cv by (simp_all add: applyController_def Let_def)
  have "bal (held_rows (s_conns s) + F) s" using inv by (simp add: svc_inv_def)
  note pl = planPadLocked_ok [OF this pp]
  have one: "pads_ok False r [pad]" using pl by (simp add: pads_ok_def)
  note df = deferUnservedAdds_ok [OF one]
  have sr: "same_rows s s1" using pl by blast
  obtain pad1 where pad1: "deferUnservedAdds [pad] = [pad1]" "pd_kind pad1 = pd_kind pad"
      "pd_desc pad1 = d" "ready pad1"
    using deferUnservedAdds_same [of "[pad]"] planPadLocked_ready [OF pp]
    by (auto simp: list_all2_Cons1 ready_def)
  have i1: "svc_inv (F + pend False (tc_pads ?ch)) s1"
    using pl df(2) by (intro same_rows_inv [OF sr _ inv]) (simp_all add: ac_simps takes_part_def)
  have d1: "deref (token r) s1 = r" using same_rows_deref [OF sr] rd(2) by simp
  have t1: "token r \<in> fst ` set (s_conns s1)" using sr rd(1) by (simp add: same_rows_def)
  have "in_table (tc_pads ?ch)" using planPadLocked_ready [OF pp] pad1 by (simp add: in_table_def)
  note cf = convergePads_fate [OF i1 t1 _ _ _ this cv]
  have ok: "tc_retired ?ch = []" "pads_ok False (deref (token r) s1) (tc_pads ?ch)"
      "\<forall>pad\<in>set (tc_pads ?ch). ready pad"
    using df(1) pad1 d1 by (simp_all add: empty_change_def)
  obtain pad2 where pad2: "tc_pads ch2 = [pad2]" "same_ask pad1 pad2"
    using cf(2) [OF ok] pad1(1) by (auto simp: list_all2_Cons1)
  have k: "pd_kind pad2 \<noteq> Remove" "pd_desc pad2 = d"
    using pad2(2) pad1(2,3) planPadLocked_ready [OF pp] by (simp_all add: same_ask_def)
  show "ar_ctrlIdx res = d_ctrlIdx d" by (simp add: res pad2 k applyResultLocked_def Let_def)
  show "tuned d (controllers (deref (token r) s') ! d_ctrlIdx d)" if "ar_result res = APPLY_OK"
    using fate_applied [of pad2] cf(1) [OF ok] k that
    by (simp add: res pad2 applyResultLocked_def Let_def closeBusIfIdle_deref)
  show "pad_face (controllers (deref (token r) s') ! j) = pad_face (controllers r ! j)"
    if "j < MAX_CONTROLLERS_PER_CONN" "j \<noteq> d_ctrlIdx d"
    using cf(3) [OF ok] that pad1 d1 by (simp add: untouched_def res closeBusIfIdle_deref)
qed

lemma removeController_converges:
  assumes inv: "svc_inv F s" and a: "removeController now cid dev i s = (Some ep, s')"
    and r: "findByConnectionId cid s = Some r"
  shows "i < MAX_CONTROLLERS_PER_CONN \<Longrightarrow> \<not> active (controllers (deref (token r) s') ! i)"
    "j < MAX_CONTROLLERS_PER_CONN \<Longrightarrow> j \<noteq> i \<Longrightarrow>
       pad_face (controllers (deref (token r) s') ! j) = pad_face (controllers r ! j)"
proof -
  have dev: "deviceId r = dev" using a r by (auto simp: removeController_def split: if_splits)
  note rd = row_deref [OF inv conjunct2 [OF findByConnectionId_mem [OF r]]]
  let ?present = "i < MAX_CONTROLLERS_PER_CONN \<and> active (controllers r ! i)"
  let ?ch = "empty_change\<lparr>tc_pads := (if ?present then [planRemoval i] else [])\<rparr>"
  obtain ch2 s2 where cv: "convergePads now (token r) ?ch s = (ch2, s2)" by force
  have s': "s' = closeBusIfIdle (busIdleLocked s2) s2"
    using a r dev cv by (simp add: removeController_def Let_def)
  have rem: "pd_kind (planRemoval i) = Remove" "d_ctrlIdx (pd_desc (planRemoval i)) = i"
      "pd_result (planRemoval i) = APPLY_OK" "pd_serial (planRemoval i) = 0"
      "\<not> pd_waits (planRemoval i)" "\<not> pd_plugged (planRemoval i)"
    by (simp_all add: planRemoval_def default_pad_change_def)
  have ok: "pads_ok False (deref (token r) s) (tc_pads ?ch)" and pe: "pend False (tc_pads ?ch) = {#}"
    using rd(2) rem by (auto simp: pads_ok_def pad_ok_def Let_def pser_def)
  have ri: "\<forall>pad\<in>set (tc_pads ?ch). ready pad" "in_table (tc_pads ?ch)" "tc_retired ?ch = []"
    using rem by (auto simp: ready_def in_table_def empty_change_def)
  have i0: "svc_inv (F + pend False (tc_pads ?ch)) s" using inv pe by simp
  note cf = convergePads_fate [OF i0 rd(1) ri(3) ok ri(1,2) cv]
  show "\<not> active (controllers (deref (token r) s') ! i)" if i: "i < MAX_CONTROLLERS_PER_CONN"
  proof (cases ?present)
    case True
    then obtain pad2 where pad2: "tc_pads ch2 = [pad2]" "same_ask (planRemoval i) pad2"
      using cf(2) by (auto simp: list_all2_Cons1)
    then show ?thesis using cf(1) rem by (simp add: fate_def same_ask_def s' closeBusIfIdle_deref Let_def)
  next
    case False
    then show ?thesis using cf(3) i rd(2) by (auto simp: untouched_def pad_face_def s' closeBusIfIdle_deref)
  qed
  show "pad_face (controllers (deref (token r) s') ! j) = pad_face (controllers r ! j)"
    if "j < MAX_CONTROLLERS_PER_CONN" "j \<noteq> i"
    using cf(3) that rem rd(2) by (auto simp: untouched_def s' closeBusIfIdle_deref)
qed

lemma same_pads_face:
  assumes "same_pads r r'" "j < length (controllers r)"
  shows "pad_face (controllers r' ! j) = pad_face (controllers r ! j)"
proof -
  have e: "controllers r' ! j = (controllers r ! j)\<lparr>pointerStamp := pointerStamp (controllers r' ! j)\<rparr>"
    using assms list_all2_nthD [of _ "controllers r" "controllers r'" j] by (auto simp: same_pads_def)
  show ?thesis by (subst e) (simp add: pad_face_def)
qed

lemma upsert_commit_fate:
  assumes st: "seat (F + pend False (tc_pads change)) os rb s"
    and os: "os = (case existing of None \<Rightarrow> s_conns s | Some tok \<Rightarrow> others tok (s_conns s))"
    and rb: "rb = (case existing of None \<Rightarrow> m_row mint | Some tok \<Rightarrow> deref tok s)"
    and tok: "\<And>tok. existing = Some tok \<Longrightarrow> token (deref tok s) = tok"
    and ok: "pads_ok False rb (tc_pads change)" and ret: "tc_retired change = []"
    and rd: "\<forall>pad\<in>set (tc_pads change). ready pad" and it: "in_table (tc_pads change)"
    and c: "upsert_commit now existing name ip mouse version mint change s = (change', s')"
  shows "after_round False (deref (m_token mint) s') (tc_pads change')"
    "list_all2 same_ask (tc_pads change) (tc_pads change')"
    "untouched (tc_pads change) rb (deref (m_token mint) s')"
proof -
  let ?T = "m_token mint"
  let ?m = "mouse \<and> gp_supportsRelativeMouse (s_port s) (s_backend s)"
  let ?tf = "taken_fields now name ip ?m version mint"
  obtain r0 s0 where a: "adoptSessionLocked existing name mint s = (r0, s0)" by force
  note ad = adoptSessionLocked_spec [OF a os rb tok]
  obtain cs where r0: "r0 = rb\<lparr>controllers := cs, token := ?T\<rparr>" using ad(4) by blast
  have q0: "s_pool s0 = s_pool s" "s_activePads s0 = s_activePads s"
      "s_port s0 = s_port s" "s_backend s0 = s_backend s"
    using ad(3) by (simp_all add: quiet_def same_rows_def)
  have pads: "same_pads rb (?tf r0)" using ad(2) by (simp add: same_pads_def)
  obtain r2 s2 where cm: "commitPadsLocked False (?tf r0) change s0 = (r2, change', s2)"
    using c a q0 r0 unfolding upsert_commit_def taken_fields_def by (auto simp: Let_def split: prod.splits)
  obtain r3 s3 where pb: "publishSessionLocked now r2 s2 = (r3, s3)" by force
  have s': "s' = put_row r3 s3"
    using c a cm pb q0 r0 unfolding upsert_commit_def taken_fields_def
    by (auto simp: Let_def split: prod.splits)
  have rbl: "length (controllers rb) = 16" using st by (simp add: seat_def row_ok_def)
  have f: "focus ((held_rows os + F) + pend False (tc_pads change)) (count_rows os)
      (?tf r0, tc_retired change, s0)"
    using st same_padsD(1,2) [OF pads] ret pads
    by (simp add: focus.simps seat_def bal_def q0 same_pads_def ac_simps)
  have ok0: "pads_ok False (?tf r0) (tc_pads change)" using ok same_padsD(3) [OF pads rbl] by simp
  have bf: "before_round False (?tf r0) (tc_pads change)" using rd by (simp add: before_round_def)
  note cb = commitPadsLocked_balance [OF f ok0 cm]
  note cf = commitPadsLocked_fate [OF f ok0 bf cm]
  have sc: "same_core r2 r3" "s_conns s3 = s_conns s2"
    using sendSeededRumbleLocked_core [OF pb [unfolded publishSessionLocked_def]]
    by (simp_all add: quiet_def same_rows_def)
  have "token r3 = ?T" "s_conns s3 = os @ [(?T, r0)]"
    using cb sc ad(1) r0 by (auto simp: same_session_def same_rows_def same_core_def)
  then have d: "deref ?T s' = r3" using deref_put_row [of r3 s3] s' by simp
  have len: "length (controllers r2) = 16" using cb by (simp add: focus.simps row_ok_def)
  show sa: "list_all2 same_ask (tc_pads change) (tc_pads change')"
    using cb by (auto elim: list_all2_mono simp: same_plan_def same_ask_def)
  have it': "in_table (tc_pads change')" using it same_ask_idx(3) [OF sa] by simp
  show "after_round False (deref ?T s') (tc_pads change')"
    using cf(1) after_round_core [OF sc(1) len it'] by (simp add: d)
  show "untouched (tc_pads change) rb (deref ?T s')"
    using cf(2) same_core_face [OF sc(1) len] same_pads_face [OF pads] rbl by (simp add: untouched_def d)
qed

lemma upsertSession_converges:
  fixes s :: "'b svc"
  assumes inv: "svc_inv F s"
    and key: "s_keyDeriver s = None \<longrightarrow> length pairingKey = CRYPTO_KEY_SIZE"
    and u: "upsertSession now0 now1 now2 dev name ip pairingKey descs mouse version s = Some (res, s')"
    and ok: "ur_ok res"
  shows "map ar_ctrlIdx (ur_controllers res) = idxs (dedupDescriptors descs)"
    "a \<in> set (ur_controllers res) \<Longrightarrow> ar_result a = APPLY_OK \<Longrightarrow>
       \<exists>d. last_at (ar_ctrlIdx a) descs = Some d \<and>
           tuned d (controllers (deref (ur_token res) s') ! ar_ctrlIdx a)"
    "i < MAX_CONTROLLERS_PER_CONN \<Longrightarrow> last_at i descs = None \<Longrightarrow>
       \<not> active (controllers (deref (ur_token res) s') ! i)"
proof -
  let ?ds = "dedupDescriptors descs"
  have ds: "distinct (idxs ?ds)" "set ?ds = {d. last_at (d_ctrlIdx d) descs = Some d}"
    using dedupDescriptors_spec by blast+
  obtain mint existing change2 change3 change4 os rb and change :: topology_change and t s1 s2 s3 s4 :: "'b svc"
    where pt: "planSessionPadsLocked rb (dedupDescriptors descs) t = (tc_pads change, s1)"
      "list_all2 plug_outcome (tc_pads change) (tc_pads change2)"
      "seat (F + pend False (tc_pads change2)) os rb s2"
      "os = (case existing of None \<Rightarrow> s_conns s2 | Some tok \<Rightarrow> others tok (s_conns s2))"
      "rb = (case existing of None \<Rightarrow> m_row mint | Some tok \<Rightarrow> deref tok s2)"
      "\<forall>tok. existing = Some tok \<longrightarrow> token (deref tok s2) = tok"
      "pads_ok False rb (tc_pads change2)" "tc_retired change2 = []"
      "m_token mint \<notin> fst ` set (s_conns s2)" "m_token mint \<noteq> 0" "length (m_key mint) = CRYPTO_KEY_SIZE"
      "upsert_commit now1 existing name ip mouse version mint change2 s2 = (change3, s3)"
      and p4: "settlePadChange now2 (m_token mint) change3 s3 = (change4, s4)"
      and res: "res = upsert_result (deref (m_token mint) s4) change4 mouse s4"
      "s' = closeBusIfIdle (busIdleLocked s4) s4"
      and conns2: "s_conns s2 = s_conns s"
      and ex: "existing = map_option token (findByDeviceId dev s)" "deviceId rb = dev"
    by (rule upsertSession_parts [OF inv key u ok])
  let ?T = "m_token mint"
  note cov = planSessionPadsLocked_covers [OF pt(1)]
  note v2 = plug_outcome_verdict [OF pt(2)]
  have rd2: "\<forall>pad\<in>set (tc_pads change2). ready pad"
    using cov(1) same_verdict_rounds(1) [OF v2, of False rb] by (simp add: before_round_def)
  have it2: "in_table (tc_pads change2)" using cov(2) same_ask_idx(3) [OF same_verdict_ask [OF v2]] by simp
  note ci = upsert_commit_inv [OF pt(3-5) pt(6) [rule_format] pt(7-12)]
  note cf = upsert_commit_fate [OF pt(3-5) pt(6) [rule_format] pt(7,8) rd2 it2 pt(12)]
  have i3: "svc_inv (F + mset (map rt_serial (tc_retired change3))) s3"
    and w3: "waiting_ok (deref ?T s3) (tc_pads change3)" using ci by blast+
  have T3: "?T \<in> fst ` set (s_conns s3)" using ci last_row by blast
  have it3: "in_table (tc_pads change3)" using it2 same_ask_idx(3) [OF cf(2)] by simp
  note sf = settlePadChange_fate [OF i3 T3 w3 cf(1) it3 p4]
  have i4: "svc_inv F s4" and T4: "?T \<in> fst ` set (s_conns s4)"
    using settlePadChange_inv [OF i3 T3 w3 p4] T3 by simp_all
  have rt: "ur_token res = ?T" using res(1) inv_open(2) [OF i4 T4] by (simp add: upsert_result_def)
  have d': "deref (ur_token res) s' = deref ?T s4" by (simp add: rt res(2) closeBusIfIdle_deref)
  have sa: "list_all2 same_ask (tc_pads change) (tc_pads change4)"
    using same_ask_trans [OF same_ask_trans [OF same_verdict_ask [OF v2] cf(2)] sf(2)] .
  have un: "untouched (tc_pads change) rb (deref ?T s4)"
    using cf(3) sf(3) same_ask_idx(4) [OF cf(2)] same_ask_idx(4) [OF same_verdict_ask [OF v2]]
    by (simp add: untouched_def)
  have fa: "fate pad (deref ?T s4)" if "pad \<in> set (tc_pads change4)" for pad
    using sf(1) that by (simp add: after_round_def)
  have asked: "map pd_desc (filter (\<lambda>pad. pd_kind pad \<noteq> Remove) (tc_pads change4)) = ?ds"
    using sa cov(3) by (metis same_ask_filter)
  show "map ar_ctrlIdx (ur_controllers res) = idxs ?ds"
    unfolding asked [symmetric]
    by (simp add: res(1) upsert_result_def applyResultLocked_def Let_def idxs_def comp_def)
  show "\<exists>d. last_at (ar_ctrlIdx a) descs = Some d \<and> tuned d (controllers (deref (ur_token res) s') ! ar_ctrlIdx a)"
    if a: "a \<in> set (ur_controllers res)" "ar_result a = APPLY_OK"
  proof -
    obtain pad where pad: "pad \<in> set (tc_pads change4)" "pd_kind pad \<noteq> Remove"
        "a = applyResultLocked (deref ?T s4) pad s4"
      using a(1) by (auto simp: res(1) upsert_result_def)
    have "pd_desc pad \<in> set ?ds" unfolding asked [symmetric] using pad(1,2) by auto
    then show ?thesis
      using ds(2) fate_applied [OF fa [OF pad(1)] _ pad(2)] a(2)
      by (auto simp: pad(3) d' applyResultLocked_def Let_def)
  qed
  show "\<not> active (controllers (deref (ur_token res) s') ! i)"
    if i: "i < MAX_CONTROLLERS_PER_CONN" "last_at i descs = None"
  proof -
    have "i \<notin> d_ctrlIdx ` set ?ds" using ds(2) i(2) by auto
    then consider (gone) pad where "pad \<in> set (tc_pads change)" "pd_kind pad = Remove" "d_ctrlIdx (pd_desc pad) = i"
      | (free) "\<not> active (controllers rb ! i)" "i \<notin> (\<lambda>pad. d_ctrlIdx (pd_desc pad)) ` set (tc_pads change)"
      using cov(4) [OF i(1)] by blast
    then show ?thesis
    proof cases
      case gone
      obtain pad' where "pad' \<in> set (tc_pads change4)" "same_ask pad pad'"
        using list_all2_memD1 [OF sa gone(1)] by blast
      then show ?thesis using fa [of pad'] gone(2,3) d' by (simp add: fate_def same_ask_def Let_def)
    next
      case free
      then show ?thesis using un i(1) d' by (simp add: untouched_def pad_face_def)
    qed
  qed
qed

end
