(* ===== verification/Sample_Session.thy ===== *)
theory Sample_Session
  imports Session_Converge
begin

text \<open>
  A service with one open session, on which the properties of the session components are applied.
  The backend is a small one that accepts every plug and remembers the plugged serials and the
  pointer buttons held on the host.  The session is opened by \<^const>\<open>upsertSession\<close> from the initial state,
  and the state it leaves is read off one locked section at a time.
\<close>

section \<open>The backend and the request\<close>

type_synonym sample = "nat list \<times> mouse_buttons"

definition sample_port :: "sample gamepad_port" where
  "sample_port =
     \<lparr>gp_ensureBusOpen = \<lambda>b. (True, b), gp_closeBus = \<lambda>b. b, gp_isBusOpen = \<lambda>b. True,
      gp_pluginDevicePreferring = \<lambda>x _ _ (ps, m). (True, (x # ps, m)),
      gp_backendIdForSerial = \<lambda>_ _. ''sample'', gp_supportsIdentity = \<lambda>_ _. True,
      gp_unplugDevice = \<lambda>x (ps, m). (True, (filter (\<lambda>y. y \<noteq> x) ps, m)),
      gp_isDevicePlugged = \<lambda>x (ps, m). x \<in> set ps, gp_submitReport = \<lambda>_ _ b. (True, b),
      gp_refreshIdleInput = \<lambda>b. b, gp_submitMotion = \<lambda>_ _ b. (True, b),
      gp_supportsMotionForType = \<lambda>_ _. True, gp_motionBackendOk = \<lambda>_ _. True,
      gp_submitBattery = \<lambda>_ _ b. (True, b), gp_submitTouchpad = \<lambda>_ _ b. (True, b),
      gp_submitRelativeMouse = \<lambda>_ _ held _ (ps, m). (True, (ps, held)),
      gp_supportsRelativeMouse = \<lambda>_. True, gp_submitMicAudioPcm = \<lambda>_ _ b. (True, b)\<rparr>"

definition sample_desc :: controller_descriptor where
  "sample_desc =
     \<lparr>d_ctrlIdx = 0, d_type = CONTROLLER_TYPE_DUALSENSE, d_caps = 0xFFFF,
      d_touchpadMode = TOUCHPAD_MODE_MOUSE, d_preferredBackend = []\<rparr>"

definition sample_init :: "sample svc" where
  "sample_init = init_svc sample_port ([], no_buttons) None [1, 2, 3, 4, 5, 6, 7, 8]"

definition sample_request :: "'b svc \<Rightarrow> (session_upsert_result \<times> 'b svc) option" where
  "sample_request = upsertSession 0 0 0 ''d'' ''n'' ''10.0.0.2'' (replicate 32 7) [sample_desc] True 4"

section \<open>The plan\<close>

definition sample_pool :: serial_pool where
  "sample_pool = default_serial_pool
     \<lparr>hidMotors := (hidMotors default_serial_pool)[1 := 0],
      serialInUse := (serialInUse default_serial_pool)[0 := True], serialScanStart := 1\<rparr>"

definition sample_new :: connection where
  "sample_new = default_connection
     \<lparr>connectionId := CONNECTION_ID_PREFIX @ hexEncodeBE32 1, deviceId := ''d'', slot := 0, row := 1,
      connectedAt := 0\<rparr>"

definition sample_mint :: session_mint where
  "sample_mint = empty_mint\<lparr>m_row := sample_new, m_token := 2, m_salt := writeLE32 3 @ writeLE32 4,
     m_key := replicate 32 7\<rparr>"

definition sample_pad :: pad_change where
  "sample_pad = default_pad_change
     \<lparr>pd_kind := Add, pd_desc := sample_desc, pd_appliedType := CONTROLLER_TYPE_DUALSENSE, pd_serial := 1\<rparr>"

definition sample_planned :: "sample svc" where
  "sample_planned = sample_init\<lparr>s_rng := [5, 6, 7, 8], s_nextRow := 1, s_pool := sample_pool\<rparr>"

lemma sample_reserve:
  "reserveSessionLocked 0 ''d'' ''n'' empty_mint sample_init
     = Some (True, empty_mint\<lparr>m_row := sample_new\<rparr>,
             sample_init\<lparr>s_rng := [2, 3, 4, 5, 6, 7, 8], s_nextRow := 1\<rparr>)"
proof -
  have "hot_findFree default_hot_table = Some 0"
    unfolding hot_findFree_def default_hot_table_def default_hot_slot_def
    by (simp add: upt_rec hs_writing_def)
  then show ?thesis
    by (simp add: reserveSessionLocked_def sample_init_def init_svc_def findByConnectionId_def
        empty_mint_def sample_new_def Let_def)
qed

lemma sample_mintSessionKey:
  "mintSessionKeyLocked (replicate 32 7) (empty_mint\<lparr>m_row := sample_new\<rparr>)
       (sample_init\<lparr>s_rng := [2, 3, 4, 5, 6, 7, 8], s_nextRow := 1\<rparr>)
     = Some (sample_mint, sample_init\<lparr>s_rng := [5, 6, 7, 8], s_nextRow := 1\<rparr>)"
proof -
  have "draw_salt 2 (a # b # rs) = Some (writeLE32 a @ writeLE32 b, rs)" for a b rs
    by (simp add: numeral_eq_Suc)
  then show ?thesis
    unfolding mintSessionKeyLocked_def generateUniqueToken_def
    by (simp add: sample_init_def init_svc_def sample_mint_def)
qed

lemma sample_planPads:
  "planSessionPadsLocked sample_new [sample_desc] (sample_init\<lparr>s_rng := [5, 6, 7, 8], s_nextRow := 1\<rparr>)
     = ([sample_pad], sample_planned)"
proof -
  have c: "controllers sample_new = replicate 16 default_controller"
    by (simp add: sample_new_def default_connection_def)
  have "allocateSerial default_serial_pool = (1, sample_pool)"
    by (simp add: allocateSerial_def sample_pool_def upt_rec default_serial_pool_def serial_free_def)
  then have "planPadLocked sample_new sample_desc (sample_init\<lparr>s_rng := [5, 6, 7, 8], s_nextRow := 1\<rparr>)
      = (sample_pad, sample_planned)"
    using c by (simp add: planPadLocked_def sample_pad_def sample_planned_def sample_desc_def
        default_controller_def sample_init_def init_svc_def sample_port_def Let_def)
  moreover have "filter (\<lambda>i. active (controllers sample_new ! i) \<and> i \<notin> d_ctrlIdx ` set [sample_desc]) [0..<16] = []"
    unfolding c by (simp add: filter_empty_conv default_controller_def)
  ultimately show ?thesis
    unfolding planSessionPadsLocked_def by (simp add: deferUnservedAdds_def sample_pad_def)
qed

lemma sample_plan:
  "upsert_plan 0 ''d'' ''n'' (replicate 32 7) (dedupDescriptors [sample_desc]) sample_init
     = Some (True, sample_mint, None, empty_change\<lparr>tc_pads := [sample_pad]\<rparr>, sample_planned)"
proof -
  have "findByDeviceId ''d'' sample_init = None" "dedupDescriptors [sample_desc] = [sample_desc]"
      "m_row sample_mint = sample_new"
    by (simp_all add: findByDeviceId_def sample_init_def init_svc_def dedupDescriptors_def
        dedup_insert_def sample_mint_def)
  then show ?thesis
    by (simp add: upsert_plan_def sample_reserve sample_mintSessionKey sample_planPads Let_def)
qed

section \<open>Plug and commit\<close>

definition sample_plugged :: pad_change where
  "sample_plugged = sample_pad\<lparr>pd_plugged := True\<rparr>"

definition sample_change :: topology_change where
  "sample_change = empty_change\<lparr>tc_pads := [sample_plugged]\<rparr>"

definition sample_bus :: "sample svc" where
  "sample_bus = sample_planned\<lparr>s_backend := ([1], no_buttons)\<rparr>"

lemma sample_plug:
  "plugPads False (empty_change\<lparr>tc_pads := [sample_pad]\<rparr>) sample_planned = (sample_change, sample_bus)"
  by (simp add: plugPads_def plug_pad_def plugsInRound_def sample_pad_def sample_plugged_def
      sample_change_def default_pad_change_def open_bus_def sample_planned_def sample_init_def
      init_svc_def sample_port_def sample_bus_def empty_change_def)

text \<open>What the bound controller has.\<close>

definition sample_ctrl :: "controller \<Rightarrow> bool" where
  "sample_ctrl c \<longleftrightarrow> tuned sample_desc c \<and> serialNo c = 1 \<and> hidRumble c = no_rumble"

lemma sample_bind:
  assumes "hidMotors (s_pool s) ! 1 = 0"
  shows "\<exists>c r' s'. bindPadLocked 0 sample_plugged r s = (r', s') \<and> controllers r' = (controllers r)[0 := c] \<and>
    sample_ctrl c \<and> token r' = token r \<and> s_conns s' = s_conns s"
  using assms
  unfolding bindPadLocked_def takeDescriptorLocked_def resetControllerStreamState_def sample_ctrl_def
    tuned_def seedRumbleLocked_def adjustActivePadsLocked_def takePointerStampLocked_def
  by (auto simp: Let_def sample_plugged_def sample_pad_def default_pad_change_def sample_desc_def
      set_ctrl_def safeTouchpadMode_def no_rumble_def)

lemma sendSeededRumbleLocked_idle:
  assumes "\<And>c. c \<in> set (controllers r) \<Longrightarrow> \<not> motors_held (hidRumble c)"
  shows "sendSeededRumbleLocked now r s = (r, s)"
proof -
  have "mapS (\<lambda>c t. if active c \<and> motors_held (hidRumble c) \<and> \<not> lastRumbleValid c
         then case forwardRumbleLocked now r c RUMBLE_WIRE_DURATION_MS False t of
                (_, c', t') \<Rightarrow> (c', t')
         else (c, t)) cs s = (cs, s)"
    if "\<And>c. c \<in> set cs \<Longrightarrow> \<not> motors_held (hidRumble c)" for cs
    using that by (induction cs) auto
  then show ?thesis using assms by (auto simp: sendSeededRumbleLocked_def)
qed

lemma sample_commit:
  "\<exists>c r s3. upsert_commit 0 None ''n'' ''10.0.0.2'' True 4 sample_mint sample_change sample_bus
       = (sample_change, s3) \<and> s_conns s3 = [(2, r)] \<and>
     controllers r = (replicate 16 default_controller)[0 := c] \<and> sample_ctrl c \<and> token r = 2"
proof -
  define r0 where "r0 = sample_new\<lparr>token := 2\<rparr>"
  define m where "m = logMsg INFO (''Session created for '' @ ''n'' @ '' ('' @ connectionId sample_new @ '')'')
    (sample_bus\<lparr>s_conns := [(2, r0)]\<rparr>)"
  have ad: "adoptSessionLocked None ''n'' sample_mint sample_bus = (r0, m)"
    unfolding adoptSessionLocked_def m_def r0_def
    by (simp add: Let_def sample_mint_def sample_bus_def sample_planned_def sample_init_def init_svc_def)
  have pm: "s_pool m = sample_pool" "s_conns m = [(2, r0)]"
      "gp_supportsRelativeMouse (s_port m) (s_backend m)"
    by (simp_all add: m_def logMsg_def emit_def sample_bus_def sample_planned_def sample_init_def
        init_svc_def sample_port_def)
  define r1 where "r1 = taken_fields 0 ''n'' ''10.0.0.2'' True 4 sample_mint r0"
  have c1: "controllers r1 = replicate 16 default_controller" "token r1 = 2"
    by (simp_all add: r1_def r0_def sample_mint_def sample_new_def default_connection_def)
  have "hidMotors (s_pool m) ! 1 = 0" by (simp add: pm sample_pool_def default_serial_pool_def)
  from sample_bind [OF this, of r1] obtain c r' s' where
    b: "bindPadLocked 0 sample_plugged r1 m = (r', s')" "controllers r' = (controllers r1)[0 := c]"
      "sample_ctrl c" "token r' = token r1" "s_conns s' = s_conns m" by blast
  define s2 where "s2 = logMsg INFO (''Controller #'' @ dec_string 0 @ '' plugged as '' @
    controllerTypeLabel CONTROLLER_TYPE_DUALSENSE @ '' (serial '' @ dec_string 1 @ '') for '' @ deviceName r') s'"
  have cm: "commitPadsLocked False r1 sample_change m = (r', sample_change, s2)"
    using b(1) by (simp add: commitPadsLocked_def sample_change_def clear_reopened_def empty_change_def
        commitPadLocked_def addPadLocked_def sample_plugged_def sample_pad_def default_pad_change_def
        sample_desc_def s2_def)
  define s3 where "s3 = s2\<lparr>s_hot := hot_publish (slot r') (token r')
    (ConnectionWrite r' (upd_slot (slot r') (publishSessionKeyLocked 0 r')) (s_hot s2))\<rparr>"
  have pb: "publishSessionLocked 0 r' s2 = (r', s3)"
    unfolding publishSessionLocked_def s3_def
  proof (rule sendSeededRumbleLocked_idle)
    fix x assume "x \<in> set (controllers r')"
    then have "x = c \<or> x = default_controller"
      unfolding b(2) c1 by (auto dest!: in_set_conv_nth [THEN iffD1] simp: nth_list_update split: if_splits)
    then show "\<not> motors_held (hidRumble x)"
      using b(3) by (auto simp: sample_ctrl_def default_controller_def motors_held_def no_rumble_def)
  qed
  have "upsert_commit 0 None ''n'' ''10.0.0.2'' True 4 sample_mint sample_change sample_bus
      = (sample_change, put_row r' s3)"
    unfolding upsert_commit_def using ad cm pb pm(3)
    by (simp add: r1_def taken_fields_def Let_def sample_mint_def r0_def)
  then show ?thesis using b pm c1 by (auto simp: put_row_def s3_def s2_def logMsg_def emit_def)
qed

section \<open>The open session\<close>

definition sample_open :: "session_upsert_result \<times> sample svc" where
  "sample_open = the (sample_request sample_init)"

abbreviation sample_result :: session_upsert_result where "sample_result \<equiv> fst sample_open"
abbreviation sample_svc :: "sample svc" where "sample_svc \<equiv> snd sample_open"

definition sample_row :: connection where
  "sample_row = deref 2 sample_svc"

lemma sample_settle:
  "\<exists>s4. settlePadChange 0 2 sample_change s3 = (sample_change, s4) \<and> s_conns s4 = s_conns s3"
  by (simp add: settlePadChange_def sample_change_def empty_change_def unplugRetired_def
      settle_and_allocate_def allocateWaitingLocked_def settleRetiredLocked_def wait_in_place_def
      wait_add_def sample_plugged_def sample_pad_def default_pad_change_def pad_waiting_def)

lemma sample_opened:
  "sample_request sample_init = Some sample_open"
  "ur_ok sample_result" "ur_token sample_result = 2"
  "map ar_result (ur_controllers sample_result) = [APPLY_OK]"
  "s_conns sample_svc = [(2, sample_row)]" "find_conn 2 sample_svc = Some sample_row"
  "\<exists>c. controllers sample_row = (replicate 16 default_controller)[0 := c] \<and> sample_ctrl c"
proof -
  obtain c r s3 where c0: "upsert_commit 0 None ''n'' ''10.0.0.2'' True 4 sample_mint sample_change sample_bus
        = (sample_change, s3)" "s_conns s3 = [(2, r)]"
      "controllers r = (replicate 16 default_controller)[0 := c]" "sample_ctrl c" "token r = 2"
    using sample_commit by blast
  obtain s4 where s4: "settlePadChange 0 2 sample_change s3 = (sample_change, s4)" "s_conns s4 = s_conns s3"
    using sample_settle by blast
  have "m_token sample_mint = 2" by (simp add: sample_mint_def)
  then have u: "sample_request sample_init
      = Some (upsert_result (deref 2 s4) sample_change True s4, closeBusIfIdle (busIdleLocked s4) s4)"
    unfolding sample_request_def upsertSession_def sample_plan using sample_plug c0(1) s4(1)
    by (simp add: Let_def)
  then have so: "sample_open = (upsert_result (deref 2 s4) sample_change True s4,
      closeBusIfIdle (busIdleLocked s4) s4)" by (simp add: sample_open_def)
  show "sample_request sample_init = Some sample_open" using u so by simp
  have d: "deref 2 s4 = r" using s4(2) c0(2) by (simp add: deref_def find_conn_def)
  show "ur_ok sample_result" "ur_token sample_result = 2"
      "map ar_result (ur_controllers sample_result) = [APPLY_OK]"
    using c0(5) by (simp_all add: so upsert_result_def d sample_change_def sample_plugged_def sample_pad_def
        default_pad_change_def applyResultLocked_def Let_def)
  have "s_conns (closeBusIfIdle b s4) = s_conns s4" for b
    by (simp add: closeBusIfIdle_def logMsg_def emit_def split: prod.split)
  then have cs: "s_conns sample_svc = [(2, r)]" using c0(2) s4(2) by (simp add: so)
  then have "sample_row = r" by (simp add: sample_row_def deref_def find_conn_def)
  then show "s_conns sample_svc = [(2, sample_row)]" "find_conn 2 sample_svc = Some sample_row"
      "\<exists>c. controllers sample_row = (replicate 16 default_controller)[0 := c] \<and> sample_ctrl c"
    using cs c0(3,4) by (auto simp: find_conn_def)
qed

lemma sample_init_inv: "svc_inv {#} sample_init" "s_keyDeriver sample_init = None"
proof -
  have "sources_ok None [1, 2, 3, 4, 5, 6, 7, 8]" by (simp add: sources_ok_def)
  then show "svc_inv {#} sample_init" unfolding sample_init_def by (rule init_inv)
  show "s_keyDeriver sample_init = None" by (simp add: sample_init_def init_svc_def)
qed

lemma sample_upserted:
  "upsertSession 0 0 0 ''d'' ''n'' ''10.0.0.2'' (replicate 32 7) [sample_desc] True 4 sample_init
     = Some (sample_result, sample_svc)"
  using sample_opened(1) by (simp add: sample_request_def)

lemma sample_inv: "svc_inv {#} sample_svc"
  by (rule upsertSession_inv [OF sample_init_inv(1) _ sample_upserted]) simp

lemma sample_pads:
  "active (controllers sample_row ! 0)" "serialNo (controllers sample_row ! 0) = 1"
  "tuned sample_desc (controllers sample_row ! 0)"
  "0 < i \<Longrightarrow> i < 16 \<Longrightarrow> \<not> active (controllers sample_row ! i)"
  using sample_opened(7) by (auto simp: sample_ctrl_def tuned_def default_controller_def)

end
