(* ===== verification/Sample_System.thy ===== *)
theory Sample_System
  imports Service_System Sample_Session
begin

text \<open>
  The system after one session has been opened: a reachable state of the whole service, on which the
  properties of the reachable states are applied.
\<close>

definition sample_sys :: "(sample, unit, unit) sys" where
  "sample_sys = (sys_init sample_port ([], no_buttons) None [1, 2, 3, 4, 5, 6, 7, 8])\<lparr>y_svc := sample_svc\<rparr>"

lemma sample_sys_svc [simp]: "y_svc sample_sys = sample_svc"
  by (simp add: sample_sys_def)

lemma sample_reach: "sys_reach sample_sys"
proof -
  let ?y = "sys_init sample_port ([], no_buttons) None [1, 2, 3, 4, 5, 6, 7, 8] :: (sample, unit, unit) sys"
  have "sys_reach ?y" by (rule sys_reach.start) (simp add: sources_ok_def)
  moreover have "svc_step (y_svc ?y) sample_svc"
    using svc_step.upsert [OF _ sample_upserted] by (simp add: sys_init_def sample_init_def)
  then have "sys_step ?y sample_sys" unfolding sample_sys_def by (rule sys_step.service)
  ultimately show ?thesis by (rule sys_reach.step)
qed

lemma sample_mem: "sample_row \<in> snd ` set (s_conns sample_svc)"
  by (simp add: sample_opened(5))

lemma sample_token: "token sample_row = 2" "deviceId sample_row = ''d''"
  using upsertSession_ok(5) [OF sample_init_inv(1) _ sample_upserted sample_opened(2)]
    inv_open(2) [OF sample_inv, of 2] sample_opened(3,5,6)
  by (auto simp: sample_row_def)

lemma sample_holds: "holds sample_row 1 0"
proof -
  have "length (controllers sample_row) = 16" using sample_opened(7) by auto
  then show ?thesis using sample_pads(1,2) by (simp add: holds_def)
qed

end
