(* ===== verification/Hot_Protocol.thy ===== *)
theory Hot_Protocol
  imports Sat_Prelude
begin

text \<open>
  The concurrency protocol of \<^verbatim>\<open>core/hot_table.h\<close>, one step per atomic access: the generation lock of a
  slot (\<^verbatim>\<open>beginWrite\<close>, \<^verbatim>\<open>endWrite\<close>, \<^verbatim>\<open>read\<close>), the sections of the receive-side threads (\<^verbatim>\<open>RxEpoch::enter\<close>,
  \<^verbatim>\<open>exit\<close>) and the writer's wait for them (\<^verbatim>\<open>waitQuiescent\<close> in \<^verbatim>\<open>HotWrite\<close>).  One writer at a time, because
  writers hold the topology lock; any number of readers, the first of which are the participants of the
  epoch.  A read loads any words in any order, and a write stores any words in any order, so the theory
  covers every \<^verbatim>\<open>load\<close> that is passed to \<^verbatim>\<open>read\<close>; a lock whose writer waits for nobody (\<^verbatim>\<open>RxPad\<close>) is the case
  without participants.  Accesses are sequentially consistent, which is what the fences and the process
  barrier of the source are for.  The count of generation changes and the history of published contents
  are recorded for the statements only; no step reads them.
\<close>

section \<open>States\<close>

datatype hot_writer = Quiet | Waiting nat | Spinning nat u64 | Storing

text \<open>
  A reader is idle, inside its section, or in a read: whether that read is inside the section, the count at
  which it began, the generation it loaded and the words it has loaded so far; then the same once the
  read has returned true.
\<close>

datatype 'v hot_reader =
    Idle
  | Inside
  | Reading bool nat u32 "(nat \<times> 'v) list"
  | Valid bool nat "(nat \<times> 'v) list"

record 'v hot_state =
  hp_gen :: u32
  hp_words :: "'v list"
  hp_writer :: hot_writer
  hp_epochs :: "u64 list"
  hp_readers :: "'v hot_reader list"
  hp_count :: nat
  hp_hist :: "'v list list"

definition hot_start :: "nat \<Rightarrow> nat \<Rightarrow> 'v list \<Rightarrow> 'v hot_state" where
  "hot_start participants threads ws =
     \<lparr>hp_gen = 0, hp_words = ws, hp_writer = Quiet, hp_epochs = replicate participants 0,
      hp_readers = replicate (max participants threads) Idle, hp_count = 0, hp_hist = [ws]\<rparr>"

definition put_reader :: "nat \<Rightarrow> 'v hot_reader \<Rightarrow> 'v hot_state \<Rightarrow> 'v hot_state" where
  "put_reader i rd q = q\<lparr>hp_readers := (hp_readers q)[i := rd]\<rparr>"

definition bump_epoch :: "nat \<Rightarrow> 'v hot_state \<Rightarrow> 'v hot_state" where
  "bump_epoch i q = q\<lparr>hp_epochs := (hp_epochs q)[i := hp_epochs q ! i + 1]\<rparr>"

definition bump_gen :: "'v hot_state \<Rightarrow> 'v hot_state" where
  "bump_gen q = q\<lparr>hp_gen := hp_gen q + 1, hp_count := hp_count q + 1\<rparr>"

section \<open>Steps\<close>

text \<open>\<^verbatim>\<open>HotWrite\<close>: begin the write, wait out each participant in turn, store, end the write.\<close>

inductive writer_step :: "'v hot_state \<Rightarrow> 'v hot_state \<Rightarrow> bool" where
  begin_write: "hp_writer q = Quiet \<Longrightarrow> writer_step q ((bump_gen q)\<lparr>hp_writer := Waiting 0\<rparr>)"
| wait_even: "hp_writer q = Waiting k \<Longrightarrow> k < length (hp_epochs q) \<Longrightarrow> hp_epochs q ! k AND 1 = 0 \<Longrightarrow>
    writer_step q (q\<lparr>hp_writer := Waiting (Suc k)\<rparr>)"
| wait_odd: "hp_writer q = Waiting k \<Longrightarrow> k < length (hp_epochs q) \<Longrightarrow> hp_epochs q ! k AND 1 \<noteq> 0 \<Longrightarrow>
    writer_step q (q\<lparr>hp_writer := Spinning k (hp_epochs q ! k)\<rparr>)"
| wait_over: "hp_writer q = Spinning k seen \<Longrightarrow> hp_epochs q ! k \<noteq> seen \<Longrightarrow>
    writer_step q (q\<lparr>hp_writer := Waiting (Suc k)\<rparr>)"
| quiescent: "hp_writer q = Waiting (length (hp_epochs q)) \<Longrightarrow> writer_step q (q\<lparr>hp_writer := Storing\<rparr>)"
| store_word: "hp_writer q = Storing \<Longrightarrow> writer_step q (q\<lparr>hp_words := (hp_words q)[j := v]\<rparr>)"
| end_write: "hp_writer q = Storing \<Longrightarrow>
    writer_step q ((bump_gen q)\<lparr>hp_writer := Quiet, hp_hist := hp_hist q @ [hp_words q]\<rparr>)"

text \<open>\<^verbatim>\<open>RxEpoch::enter\<close> and \<^verbatim>\<open>exit\<close> of participant \<open>i\<close>; its section may hold any number of reads.\<close>

inductive section_step :: "nat \<Rightarrow> 'v hot_state \<Rightarrow> 'v hot_state \<Rightarrow> bool" where
  enter: "i < length (hp_epochs q) \<Longrightarrow> hp_readers q ! i = Idle \<Longrightarrow>
    section_step i q (put_reader i Inside (bump_epoch i q))"
| leave: "hp_readers q ! i \<in> {Inside, Valid True n buf} \<Longrightarrow> section_step i q (put_reader i Idle (bump_epoch i q))"

text \<open>\<^verbatim>\<open>HotSlot::read\<close> and \<^verbatim>\<open>RxPad::read\<close>: a read that meets an odd generation fails at once and has no step.\<close>

definition back_from :: "bool \<Rightarrow> 'v hot_reader" where
  "back_from ins = (if ins then Inside else Idle)"

inductive reader_step :: "nat \<Rightarrow> 'v hot_state \<Rightarrow> 'v hot_state \<Rightarrow> bool" where
  first_load: "hp_readers q ! i = back_from ins \<Longrightarrow> hp_gen q AND 1 = 0 \<Longrightarrow>
    reader_step i q (put_reader i (Reading ins (hp_count q) (hp_gen q) []) q)"
| load_word: "hp_readers q ! i = Reading ins n g buf \<Longrightarrow> k < length (hp_words q) \<Longrightarrow>
    reader_step i q (put_reader i (Reading ins n g (buf @ [(k, hp_words q ! k)])) q)"
| unchanged: "hp_readers q ! i = Reading ins n g buf \<Longrightarrow> hp_gen q = g \<Longrightarrow>
    reader_step i q (put_reader i (Valid ins n buf) q)"
| changed: "hp_readers q ! i = Reading ins n g buf \<Longrightarrow> hp_gen q \<noteq> g \<Longrightarrow>
    reader_step i q (put_reader i (back_from ins) q)"
| again: "hp_readers q ! i = Valid ins n buf \<Longrightarrow> reader_step i q (put_reader i (back_from ins) q)"

inductive hot_reach :: "nat \<Rightarrow> nat \<Rightarrow> 'v list \<Rightarrow> 'v hot_state \<Rightarrow> bool" for participants threads ws where
  start: "hot_reach participants threads ws (hot_start participants threads ws)"
| by_writer: "hot_reach participants threads ws q \<Longrightarrow> writer_step q q' \<Longrightarrow> hot_reach participants threads ws q'"
| by_section: "hot_reach participants threads ws q \<Longrightarrow> i < length (hp_readers q) \<Longrightarrow> section_step i q q' \<Longrightarrow>
    hot_reach participants threads ws q'"
| by_reader: "hot_reach participants threads ws q \<Longrightarrow> i < length (hp_readers q) \<Longrightarrow> reader_step i q q' \<Longrightarrow>
    hot_reach participants threads ws q'"

section \<open>The invariant\<close>

fun in_section :: "'v hot_reader \<Rightarrow> bool" where
  "in_section Idle = False"
| "in_section Inside = True"
| "in_section (Reading ins _ _ _) = ins"
| "in_section (Valid ins _ _) = ins"

definition matches :: "'v list \<Rightarrow> (nat \<times> 'v) list \<Rightarrow> bool" where
  "matches ws buf \<longleftrightarrow> (\<forall>(k, v)\<in>set buf. k < length ws \<and> ws ! k = v)"

text \<open>The writer has not passed participant \<open>i\<close>: it will still look at its epoch, or waits for it to change.\<close>

fun not_past :: "nat \<Rightarrow> u64 list \<Rightarrow> hot_writer \<Rightarrow> bool" where
  "not_past i eps Quiet = True"
| "not_past i eps (Waiting k) = (k \<le> i)"
| "not_past i eps (Spinning k seen) = (k < i \<or> k = i \<and> seen = eps ! i)"
| "not_past i eps Storing = False"

text \<open>
  What is known of a reader's words: read inside the section they are the slot's words, and the writer
  stands before the reader; read outside they are the slot's words as long as no write has begun.
\<close>

definition seen_ok :: "nat \<Rightarrow> bool \<Rightarrow> nat \<Rightarrow> (nat \<times> 'v) list \<Rightarrow> 'v hot_state \<Rightarrow> bool" where
  "seen_ok i ins n buf q \<longleftrightarrow> even n \<and> n \<le> hp_count q \<and>
     (if ins then i < length (hp_epochs q) \<and> hp_count q \<le> n + 1 \<and> not_past i (hp_epochs q) (hp_writer q) \<and>
        matches (hp_words q) buf
      else hp_count q = n \<longrightarrow> matches (hp_words q) buf)"

fun reader_ok :: "nat \<Rightarrow> 'v hot_state \<Rightarrow> 'v hot_reader \<Rightarrow> bool" where
  "reader_ok i q Idle = True"
| "reader_ok i q Inside = (i < length (hp_epochs q))"
| "reader_ok i q (Reading ins n g buf) = (g = of_nat n \<and> seen_ok i ins n buf q)"
| "reader_ok i q (Valid ins n buf) =
     ((ins \<longrightarrow> seen_ok i ins n buf q) \<and>
      (ins \<or> hp_count q < 2 ^ 32 \<longrightarrow> n div 2 < length (hp_hist q) \<and> matches (hp_hist q ! (n div 2)) buf))"

definition writer_ok :: "'v hot_state \<Rightarrow> bool" where
  "writer_ok q \<longleftrightarrow> hp_gen q = of_nat (hp_count q) \<and> (even (hp_count q) \<longleftrightarrow> hp_writer q = Quiet) \<and>
     length (hp_hist q) = hp_count q div 2 + 1 \<and> (hp_writer q \<noteq> Storing \<longrightarrow> last (hp_hist q) = hp_words q) \<and>
     (case hp_writer q of Waiting k \<Rightarrow> k \<le> length (hp_epochs q)
      | Spinning k seen \<Rightarrow> k < length (hp_epochs q) \<and> seen AND 1 \<noteq> 0 | _ \<Rightarrow> True)"

definition hp_ok :: "'v hot_state \<Rightarrow> bool" where
  "hp_ok q \<longleftrightarrow> writer_ok q \<and> length (hp_epochs q) \<le> length (hp_readers q) \<and>
     (\<forall>i<length (hp_epochs q). hp_epochs q ! i AND 1 \<noteq> 0 \<longleftrightarrow> in_section (hp_readers q ! i)) \<and>
     (\<forall>i<length (hp_readers q). reader_ok i q (hp_readers q ! i))"

lemma hp_ok_start: "hp_ok (hot_start participants threads ws)"
  by (simp add: hp_ok_def writer_ok_def hot_start_def)

lemma word_parity: "(x + 1) AND 1 \<noteq> 0 \<longleftrightarrow> x AND 1 = (0 :: 'a :: len word)"
  by (simp add: and_one_eq mod_2_eq_odd)

lemma even_count: "of_nat n AND 1 = (0 :: u32) \<longleftrightarrow> even n"
  by (simp add: and_one_eq mod_2_eq_odd)


lemma hp_okD:
  assumes "hp_ok q"
  shows "writer_ok q" "length (hp_epochs q) \<le> length (hp_readers q)"
    "i < length (hp_epochs q) \<Longrightarrow> hp_epochs q ! i AND 1 \<noteq> 0 \<longleftrightarrow> in_section (hp_readers q ! i)"
    "i < length (hp_readers q) \<Longrightarrow> reader_ok i q (hp_readers q ! i)"
  using assms by (simp_all add: hp_ok_def)

lemmas writer_fields = bump_gen_def writer_ok_def seen_ok_def

lemma seen_ok_writer:
  assumes "writer_step q q'" "writer_ok q" "seen_ok i ins n buf q"
    "ins \<Longrightarrow> hp_epochs q ! i AND 1 \<noteq> 0"
  shows "seen_ok i ins n buf q'"
  using assms
proof (cases rule: writer_step.cases)
  case begin_write
  have "hp_count q = n" if "ins"
    using that begin_write(2) assms(2,3) by (auto simp: writer_fields le_Suc_eq)
  then show ?thesis using begin_write assms(2,3) by (auto simp: writer_fields)
next
  case (wait_even k)
  then show ?thesis using assms(2-4) by (cases "k = i") (auto simp: writer_fields split: if_splits)
next
  case (store_word j v)
  then show ?thesis using assms(2,3) by (auto simp: writer_fields split: if_splits)
qed (use assms(2-4) in \<open>auto simp: writer_fields split: if_splits\<close>)

lemma hist_writer:
  assumes "writer_step q q'"
  shows "hp_count q \<le> hp_count q'" "k < length (hp_hist q) \<Longrightarrow> k < length (hp_hist q') \<and> hp_hist q' ! k = hp_hist q ! k"
    "hp_epochs q' = hp_epochs q" "hp_readers q' = hp_readers q"
  using assms by (cases rule: writer_step.cases; simp add: bump_gen_def nth_append)+

lemma writer_ok_writer:
  assumes "writer_step q q'" "writer_ok q"
  shows "writer_ok q'"
  using assms by (cases rule: writer_step.cases) (auto simp: writer_fields split: if_splits)

lemma writer_step_ok:
  assumes st: "writer_step q q'" and ok: "hp_ok q"
  shows "hp_ok q'"
proof -
  note h = hist_writer [OF st]
  have "reader_ok i q' (hp_readers q ! i)" if i: "i < length (hp_readers q)" for i
  proof -
    note r = hp_okD(4) [OF ok i]
    have sec: "hp_epochs q ! i AND 1 \<noteq> 0" if "in_section (hp_readers q ! i)" "i < length (hp_epochs q)"
      using hp_okD(3) [OF ok] that by blast
    note seen = seen_ok_writer [OF st hp_okD(1) [OF ok]]
    show ?thesis
    proof (cases "hp_readers q ! i")
      case (Reading ins n g buf)
      then have "seen_ok i ins n buf q'" using r sec by (intro seen) (auto simp: seen_ok_def)
      then show ?thesis using Reading r by simp
    next
      case (Valid ins n buf)
      have "seen_ok i ins n buf q'" if "ins"
        using that Valid r sec by (intro seen) (auto simp: seen_ok_def)
      then show ?thesis using Valid r h(1) h(2) [of "n div 2"] by auto
    qed (use r h in simp_all)
  qed
  then show ?thesis using ok writer_ok_writer [OF st] by (simp add: hp_ok_def h(3,4))
qed


section \<open>Sections and reads\<close>

lemma other_epoch: "j \<noteq> i \<Longrightarrow> (hp_epochs (bump_epoch i q)) ! j = hp_epochs q ! j"
  by (simp add: bump_epoch_def)

lemma seen_ok_epoch:
  assumes "seen_ok j ins n buf q" "j \<noteq> i"
  shows "seen_ok j ins n buf (put_reader i rd (bump_epoch i q))"
proof -
  have "not_past j ((hp_epochs q)[i := x]) w = not_past j (hp_epochs q) w" for x w
    using assms(2) by (cases w) auto
  then show ?thesis using assms(1) by (simp add: seen_ok_def put_reader_def bump_epoch_def split: if_splits)
qed

lemma reader_ok_epoch:
  "reader_ok j q r \<Longrightarrow> j \<noteq> i \<Longrightarrow> reader_ok j (put_reader i rd (bump_epoch i q)) r"
  by (cases r) (auto simp: seen_ok_epoch, auto simp: put_reader_def bump_epoch_def)

lemma section_step_ok:
  assumes st: "section_step i q q'" and ok: "hp_ok q" and i: "i < length (hp_readers q)"
  shows "hp_ok q'"
proof -
  obtain rd where q': "q' = put_reader i rd (bump_epoch i q)" and e: "i < length (hp_epochs q)"
    and rd: "in_section rd \<longleftrightarrow> \<not> in_section (hp_readers q ! i)" "rd \<in> {Idle, Inside}"
    using st
  proof (cases rule: section_step.cases)
    case enter
    then show ?thesis by (intro that [of Inside]) auto
  next
    case (leave n buf)
    then have "i < length (hp_epochs q)" using hp_okD(4) [OF ok i] by (auto simp: seen_ok_def)
    then show ?thesis using leave by (intro that [of Idle]) auto
  qed
  have "writer_ok q'" using hp_okD(1) [OF ok]
    by (auto simp: q' writer_ok_def put_reader_def bump_epoch_def split: hot_writer.splits)
  moreover have "hp_epochs q' ! j AND 1 \<noteq> 0 \<longleftrightarrow> in_section (hp_readers q' ! j)" if "j < length (hp_epochs q)" for j
    using hp_okD(3) [OF ok that] e i rd
    by (cases "j = i") (auto simp: q' put_reader_def bump_epoch_def word_parity)
  moreover have "reader_ok j q' (hp_readers q' ! j)" if "j < length (hp_readers q)" for j
  proof (cases "j = i")
    case True
    then show ?thesis using rd(2) e i by (auto simp: q' put_reader_def bump_epoch_def)
  next
    case False
    have "hp_readers q' ! j = hp_readers q ! j" using False by (simp add: q' put_reader_def bump_epoch_def)
    then show ?thesis using reader_ok_epoch [OF hp_okD(4) [OF ok that] False] by (simp add: q')
  qed
  ultimately show ?thesis using hp_okD(2) [OF ok] by (simp add: hp_ok_def) (simp add: q' put_reader_def bump_epoch_def)
qed

lemma reader_ok_other: "reader_ok j (put_reader i rd q) r = reader_ok j q r"
  by (cases r) (simp_all add: seen_ok_def put_reader_def)

lemma writer_ok_other: "writer_ok (put_reader i rd q) = writer_ok q"
  by (simp add: writer_ok_def put_reader_def split: hot_writer.splits)

text \<open>When the generation a read began with is still there, no write has begun since.\<close>

lemma count_unchanged:
  assumes w: "writer_ok q" and s: "seen_ok i ins n buf q" and g: "hp_gen q = of_nat n"
    and c: "ins \<or> hp_count q < 2 ^ 32"
  shows "hp_count q = n"
proof (cases ins)
  case True
  then have "hp_count q = n \<or> hp_count q = n + 1" "even n" using s by (auto simp: seen_ok_def)
  moreover have "(of_nat (hp_count q) :: u32) AND 1 = of_nat n AND 1" using w g by (simp add: writer_ok_def)
  then have "even (hp_count q) = even n" by (metis even_count)
  ultimately show ?thesis by auto
next
  case False
  then have lim: "hp_count q < 2 ^ 32" "n \<le> hp_count q" using c s by (auto simp: seen_ok_def)
  have "take_bit 32 (hp_count q) = take_bit 32 n"
    using w g word_of_nat_eq_iff [where 'a = 32, of "hp_count q" n] by (simp add: writer_ok_def)
  then show ?thesis using lim by (metis le_less_trans take_bit_nat_eq_self)
qed

lemma validated:
  assumes w: "writer_ok q" and s: "seen_ok i ins n buf q" and g: "hp_gen q = of_nat n"
    and c: "ins \<or> hp_count q < 2 ^ 32"
  shows "n div 2 < length (hp_hist q) \<and> matches (hp_hist q ! (n div 2)) buf"
proof -
  note n = count_unchanged [OF assms]
  have "hp_writer q = Quiet" using w s n by (auto simp: writer_ok_def seen_ok_def)
  then have "last (hp_hist q) = hp_words q" "length (hp_hist q) = n div 2 + 1"
    using w n by (auto simp: writer_ok_def)
  moreover have "matches (hp_words q) buf" using s n by (auto simp: seen_ok_def split: if_splits)
  ultimately show ?thesis by (metis add_diff_cancel_right' add_gr_0 last_conv_nth less_add_one list.size(3) not_less_zero zero_less_one)
qed

lemma reader_step_ok:
  assumes st: "reader_step i q q'" and ok: "hp_ok q" and i: "i < length (hp_readers q)"
  shows "hp_ok q'"
proof -
  note r = hp_okD(4) [OF ok i] and w = hp_okD(1) [OF ok]
  obtain rd where q': "q' = put_reader i rd q" and sec: "in_section rd = in_section (hp_readers q ! i)"
    and rd: "reader_ok i q rd"
    using st
  proof (cases rule: reader_step.cases)
    case (first_load ins)
    then have "even (hp_count q)" "hp_writer q = Quiet" using w even_count by (auto simp: writer_ok_def)
    then have "reader_ok i q (Reading ins (hp_count q) (hp_gen q) [])"
      using w r first_load(2) by (auto simp: writer_ok_def seen_ok_def matches_def back_from_def split: if_splits)
    then show ?thesis using first_load
      by (intro that [of "Reading ins (hp_count q) (hp_gen q) []"]) (simp_all add: back_from_def)
  next
    case (load_word ins n g buf k)
    then have "reader_ok i q (Reading ins n g (buf @ [(k, hp_words q ! k)]))"
      using r by (auto simp: seen_ok_def matches_def)
    then show ?thesis using load_word by (intro that [of "Reading ins n g (buf @ [(k, hp_words q ! k)])"]) simp_all
  next
    case (unchanged ins n g buf)
    then have "reader_ok i q (Valid ins n buf)" using r validated [OF w, of i ins n buf] by auto
    then show ?thesis using unchanged by (intro that [of "Valid ins n buf"]) simp_all
  next
    case (changed ins n g buf)
    then show ?thesis using r by (intro that [of "back_from ins"]) (auto simp: back_from_def seen_ok_def)
  next
    case (again ins n buf)
    then show ?thesis using r by (intro that [of "back_from ins"]) (auto simp: back_from_def seen_ok_def)
  qed
  have "in_section (hp_readers q' ! j) = in_section (hp_readers q ! j)" for j
    using sec i by (cases "j = i") (simp_all add: q' put_reader_def)
  moreover have "reader_ok j q' (hp_readers q' ! j)" if "j < length (hp_readers q)" for j
    using rd i hp_okD(4) [OF ok that] unfolding q' reader_ok_other
    by (cases "j = i") (simp_all add: put_reader_def)
  moreover have "writer_ok q'" using w by (simp add: q' writer_ok_other)
  ultimately show ?thesis using ok by (simp add: hp_ok_def) (simp add: q' put_reader_def)
qed

lemma hot_reach_ok: "hot_reach participants threads ws q \<Longrightarrow> hp_ok q"
  by (induction rule: hot_reach.induct) (auto intro: hp_ok_start writer_step_ok section_step_ok reader_step_ok)

section \<open>Waiting ends\<close>

definition participants_out :: "'v hot_state \<Rightarrow> bool" where
  "participants_out q \<longleftrightarrow> (\<forall>i<length (hp_epochs q). \<not> in_section (hp_readers q ! i))"

lemma waiting_ends:
  assumes "hp_ok q" "participants_out q" "hp_writer q = Waiting k"
  shows "\<exists>q'. writer_step\<^sup>*\<^sup>* q q' \<and> hp_writer q' = Storing \<and> hp_words q' = hp_words q"
  using assms
proof (induction "length (hp_epochs q) - k" arbitrary: q k)
  case 0
  then have "k = length (hp_epochs q)" using hp_okD(1) by (force simp: writer_ok_def)
  then have "writer_step q (q\<lparr>hp_writer := Storing\<rparr>)" using 0 by (intro quiescent) simp
  then show ?case by (intro exI [of _ "q\<lparr>hp_writer := Storing\<rparr>"] conjI r_into_rtranclp) simp_all
next
  case (Suc m)
  let ?q = "q\<lparr>hp_writer := Waiting (Suc k)\<rparr>"
  have k: "k < length (hp_epochs q)" using Suc.hyps(2) by simp
  then have "hp_epochs q ! k AND 1 = 0" using hp_okD(3) [OF Suc.prems(1) k] Suc.prems(2) by (auto simp: participants_out_def)
  then have st: "writer_step q ?q" using Suc.prems(3) k by (intro wait_even)
  have "participants_out ?q" "m = length (hp_epochs ?q) - Suc k"
    using Suc.prems(2) Suc.hyps(2) by (simp_all add: participants_out_def)
  then obtain q' where "writer_step\<^sup>*\<^sup>* ?q q'" "hp_writer q' = Storing" "hp_words q' = hp_words ?q"
    using Suc.hyps(1) [of ?q "Suc k"] writer_step_ok [OF st Suc.prems(1)] by auto
  then show ?case using st by (intro exI [of _ q']) (auto intro: converse_rtranclp_into_rtranclp)
qed

section \<open>The protocol as a contract\<close>

text \<open>
  C5.  A read of the table is atomic: whatever the interleaving, the words that a read returns are words of
  one published content, never a mix of two, for a reader inside its section without any bound and for
  one outside as long as the 32-bit generation has not gone round; and what a reader inside its section
  has read stays the content of the slot until it leaves the section, because no store happens before.
\<close>

theorem hot_reads_atomic:
  assumes q: "hot_reach participants threads ws q" and i: "i < length (hp_readers q)"
    and v: "hp_readers q ! i = Valid ins n buf"
  shows "(ins \<or> hp_count q < 2 ^ 32 \<longrightarrow> (\<exists>content\<in>set (hp_hist q). matches content buf)) \<and>
    (ins \<longrightarrow> matches (hp_words q) buf \<and> hp_writer q \<noteq> Storing)"
proof -
  have r: "reader_ok i q (Valid ins n buf)" using hp_okD(4) [OF hot_reach_ok [OF q] i] v by simp
  have "\<exists>content\<in>set (hp_hist q). matches content buf" if "ins \<or> hp_count q < 2 ^ 32"
    using r that by (intro bexI [of _ "hp_hist q ! (n div 2)"]) auto
  moreover have "matches (hp_words q) buf \<and> hp_writer q \<noteq> Storing" if "ins"
    using r that by (auto simp: seen_ok_def)
  ultimately show ?thesis by blast
qed

theorem hot_reads_atomic_witness:
  "\<exists>q. hot_reach 1 1 [7 :: nat] q \<and> hp_readers q = [Valid True 0 [(0, 7)]] \<and> matches (hp_words q) [(0, 7)]"
proof -
  let ?a = "hot_start 1 1 [7 :: nat]"
  let ?b = "put_reader 0 Inside (bump_epoch 0 ?a)"
  let ?c = "put_reader 0 (Reading True (hp_count ?b) (hp_gen ?b) []) ?b"
  let ?d = "put_reader 0 (Reading True (hp_count ?b) (hp_gen ?b) ([] @ [(0, hp_words ?c ! 0)])) ?c"
  let ?e = "put_reader 0 (Valid True (hp_count ?b) ([] @ [(0, hp_words ?c ! 0)])) ?d"
  note defs = hot_start_def put_reader_def bump_epoch_def back_from_def
  have a: "hot_reach 1 1 [7] ?a" by (rule start)
  have b: "hot_reach 1 1 [7] ?b" by (rule by_section [OF a _ enter]) (simp_all add: defs)
  have c: "hot_reach 1 1 [7] ?c" by (rule by_reader [OF b _ first_load]) (simp_all add: defs)
  have d: "hot_reach 1 1 [7] ?d" by (rule by_reader [OF c _ load_word]) (simp_all add: defs)
  have e: "hot_reach 1 1 [7] ?e" by (rule by_reader [OF d _ unchanged]) (simp_all add: defs)
  have v: "hp_readers ?e = [Valid True 0 [(0, 7)]]" by (simp add: defs)
  show ?thesis using hot_reads_atomic [OF e, of 0 True 0 "[(0, 7)]"] e v by (intro exI [of _ ?e]) simp
qed

text \<open>
  C31.  A writer waits for sections only: once no participant is inside its section, the writer that has begun
  gets to its stores by its own steps, from wherever in the wait it stands, and has stored nothing before.
\<close>

theorem quiescence_reached:
  assumes q: "hot_reach participants threads ws q" and o: "participants_out q" and w: "hp_writer q \<notin> {Quiet, Storing}"
  shows "\<exists>q'. writer_step\<^sup>*\<^sup>* q q' \<and> hp_writer q' = Storing \<and> hp_words q' = hp_words q \<and> last (hp_hist q) = hp_words q"
proof -
  note ok = hot_reach_ok [OF q]
  have l: "last (hp_hist q) = hp_words q" using hp_okD(1) [OF ok] w by (auto simp: writer_ok_def)
  show ?thesis
  proof (cases "hp_writer q")
    case (Spinning k seen)
    let ?q = "q\<lparr>hp_writer := Waiting (Suc k)\<rparr>"
    have "k < length (hp_epochs q)" "seen AND 1 \<noteq> 0" using hp_okD(1) [OF ok] Spinning by (auto simp: writer_ok_def)
    then have "hp_epochs q ! k \<noteq> seen" using hp_okD(3) [OF ok, of k] o by (auto simp: participants_out_def)
    then have st: "writer_step q ?q" using Spinning by (intro wait_over)
    have "participants_out ?q" using o by (simp add: participants_out_def)
    then obtain q' where "writer_step\<^sup>*\<^sup>* ?q q'" "hp_writer q' = Storing" "hp_words q' = hp_words ?q"
      using waiting_ends [OF writer_step_ok [OF st ok]] by auto
    then show ?thesis using st l by (intro exI [of _ q']) (auto intro: converse_rtranclp_into_rtranclp)
  qed (use waiting_ends [OF ok o] l w in auto)
qed

theorem quiescence_reached_witness:
  "\<exists>q q'. hot_reach 1 1 [7 :: nat] q \<and> hp_writer q = Waiting 0 \<and> writer_step\<^sup>*\<^sup>* q q' \<and> hp_writer q' = Storing"
proof -
  let ?a = "hot_start 1 1 [7 :: nat]"
  let ?b = "(bump_gen ?a)\<lparr>hp_writer := Waiting 0\<rparr>"
  have b: "hot_reach 1 1 [7] ?b" by (rule by_writer [OF start begin_write]) (simp add: hot_start_def)
  moreover have "participants_out ?b" by (simp add: participants_out_def bump_gen_def hot_start_def)
  ultimately obtain q' where "writer_step\<^sup>*\<^sup>* ?b q'" "hp_writer q' = Storing"
    using quiescence_reached [OF b] by auto
  then show ?thesis using b by (intro exI [of _ ?b] exI [of _ q']) simp
qed

end
