(* ===== verification/Net_Crypto.thy ===== *)
theory Net_Crypto
  imports Wire_Codec Domain_Types
begin

text \<open>
  \<^verbatim>\<open>net/session_crypto.cpp\<close>: key derivation, the proof of possession of the pairing key, and the nonce and
  additional data of a datagram.  The primitives of libsodium are the fields of the record \<open>sodium\<close>, a
  parameter of the functions that call them; \<^verbatim>\<open>sodium_memcmp\<close> is equality and \<^verbatim>\<open>sodium_memzero\<close> has no
  effect on the result.
\<close>

section \<open>The primitives\<close>

record sodium =
  so_hmacsha256 :: "u8 list \<Rightarrow> u8 list \<Rightarrow> u8 list"
  so_bin2hex :: "u8 list \<Rightarrow> string"
  so_aead_encrypt :: "u8 list \<Rightarrow> u8 list \<Rightarrow> u8 list \<Rightarrow> u8 list \<Rightarrow> u8 list option"
  so_aead_decrypt :: "u8 list \<Rightarrow> u8 list \<Rightarrow> u8 list \<Rightarrow> u8 list \<Rightarrow> u8 list option"

text \<open>
  What libsodium documents of them: a MAC of 32 bytes, lower-case hexadecimal, and an authenticated cipher
  (arguments: key, nonce, additional data, text) that opens what it sealed and adds a tag of 16 bytes.
\<close>

definition sodium_laws :: "sodium \<Rightarrow> bool" where
  "sodium_laws so \<longleftrightarrow>
     (\<forall>k m. length (so_hmacsha256 so k m) = CRYPTO_KEY_SIZE) \<and> so_bin2hex so = hexEncode \<and>
     (\<forall>k n a m c. so_aead_encrypt so k n a m = Some c \<longrightarrow>
        so_aead_decrypt so k n a c = Some m \<and> length c = length m + AUTH_TAG_SIZE)"

abbreviation (input) "CRYPTO_DIR_CLIENT_TO_SERVER \<equiv> 0 :: u8"
abbreviation (input) "CRYPTO_DIR_SERVER_TO_CLIENT \<equiv> 1 :: u8"

section \<open>Keys and proofs\<close>

definition deriveSessionKey :: "sodium \<Rightarrow> u8 list \<Rightarrow> u8 list \<Rightarrow> u32 \<Rightarrow> u8 list" where
  "deriveSessionKey so pairingKey salt tok =
     (let prk = so_hmacsha256 so salt pairingKey;
          info = string_bytes ''satellite-session-v1'' @ writeBE32 tok @ [1]
      in so_hmacsha256 so prk info)"

definition hexNibbleAt :: "char \<Rightarrow> int" where
  "hexNibbleAt c =
     (let v = (of_char c :: int) in
      if 48 \<le> v \<and> v \<le> 57 then v - 48
      else if 97 \<le> v \<and> v \<le> 102 then v - 97 + 10
      else if 65 \<le> v \<and> v \<le> 70 then v - 65 + 10
      else -1)"

definition proof_message :: "string \<Rightarrow> u8 list" where
  "proof_message dev = string_bytes (''satellite-proof:'' @ dev)"

definition computeHmacProof :: "sodium \<Rightarrow> u8 list \<Rightarrow> string \<Rightarrow> string" where
  "computeHmacProof so pairingKey dev = so_bin2hex so (so_hmacsha256 so pairingKey (proof_message dev))"

text \<open>The loop that decodes the supplied proof: \<^const>\<open>None\<close> at the first character that is no hexadecimal digit.\<close>

fun proof_bytes :: "string \<Rightarrow> u8 list option" where
  "proof_bytes (a # b # cs) =
     (if hexNibbleAt a < 0 \<or> hexNibbleAt b < 0 then None
      else map_option ((#) (word_of_int (push_bit 4 (hexNibbleAt a) OR hexNibbleAt b))) (proof_bytes cs))"
| "proof_bytes _ = Some []"

definition verifyHmacProof :: "sodium \<Rightarrow> u8 list \<Rightarrow> string \<Rightarrow> string \<Rightarrow> bool" where
  "verifyHmacProof so pairingKey dev proofHex =
     (if length proofHex \<noteq> CRYPTO_KEY_SIZE * 2 then False
      else case proof_bytes proofHex of
             None \<Rightarrow> False
           | Some supplied \<Rightarrow> supplied = so_hmacsha256 so pairingKey (proof_message dev))"

section \<open>Datagrams\<close>

definition build_nonce :: "u8 \<Rightarrow> u32 \<Rightarrow> u8 list" where
  "build_nonce direction counter = direction # replicate 7 0 @ writeBE32 counter"

definition encryptPacket :: "sodium \<Rightarrow> u8 list \<Rightarrow> u8 \<Rightarrow> u32 \<Rightarrow> u32 \<Rightarrow> u8 list \<Rightarrow> u8 list option" where
  "encryptPacket so key direction counter tok plaintext =
     so_aead_encrypt so key (build_nonce direction counter) (writeBE32 tok) plaintext"

definition decryptPacket :: "sodium \<Rightarrow> u8 list \<Rightarrow> u8 \<Rightarrow> u32 \<Rightarrow> u32 \<Rightarrow> u8 list \<Rightarrow> u8 list option" where
  "decryptPacket so key direction counter tok ciphertext =
     so_aead_decrypt so key (build_nonce direction counter) (writeBE32 tok) ciphertext"

section \<open>Nonces\<close>

lemma writeBE32_inj: "writeBE32 v = writeBE32 w \<longleftrightarrow> v = w"
proof
  assume "writeBE32 v = writeBE32 w"
  then have "readBE32 ([] @ writeBE32 v @ []) 0 = readBE32 ([] @ writeBE32 w @ []) 0" by simp
  then show "v = w" unfolding readBE32_write [OF list.size(3)] by simp
qed simp

lemma build_nonce_inj: "build_nonce d c = build_nonce e k \<longleftrightarrow> d = e \<and> c = k"
  by (simp add: build_nonce_def writeBE32_inj)

lemma encrypt_decrypt:
  assumes "sodium_laws so" "encryptPacket so key d c tok m = Some ct"
  shows "decryptPacket so key d c tok ct = Some m" "length ct = length m + AUTH_TAG_SIZE"
  using assms unfolding sodium_laws_def encryptPacket_def decryptPacket_def by blast+

section \<open>Proofs\<close>

definition lower_hex :: "char \<Rightarrow> char" where
  "lower_hex c = (if 65 \<le> (of_char c :: nat) \<and> (of_char c :: nat) \<le> 70 then char_of ((of_char c :: nat) + 32) else c)"

lemma hex_digit_code: "n < 16 \<Longrightarrow> (of_char (HEX_DIGITS ! n) :: nat) = (if n < 10 then 48 + n else 87 + n)"
proof -
  have "\<forall>n<16. (of_char (HEX_DIGITS ! n) :: nat) = (if n < 10 then 48 + n else 87 + n)"
    by (simp add: HEX_DIGITS_def eval_nat_numeral All_less_Suc)
  then show "n < 16 \<Longrightarrow> ?thesis" by blast
qed

lemma char_code_eq: "c = d \<longleftrightarrow> (of_char c :: nat) = of_char d"
  by simp

text \<open>A character is read as the nibble \<open>n\<close> exactly when it is the digit of \<open>n\<close>, in either case.\<close>

lemma hexNibbleAt_digit:
  assumes "n < 16"
  shows "hexNibbleAt c = int n \<longleftrightarrow> lower_hex c = HEX_DIGITS ! n"
proof -
  have c: "(of_char c :: nat) < 256" using nat_of_char_less_256 [of c] by simp
  have i: "(of_char c :: int) = int (of_char c)" by (simp add: of_nat_of_char)
  have "(of_char (lower_hex c) :: nat) =
      (if 65 \<le> (of_char c :: nat) \<and> (of_char c :: nat) \<le> 70 then of_char c + 32 else of_char c)"
    using c by (simp add: lower_hex_def)
  then show ?thesis unfolding char_code_eq hex_digit_code [OF assms] hexNibbleAt_def Let_def i
    using assms by (auto split: if_splits)
qed

lemma hexNibbleAt_range: "0 \<le> hexNibbleAt c \<Longrightarrow> hexNibbleAt c < 16"
  by (auto simp: hexNibbleAt_def Let_def split: if_splits)

lemma nibble_byte:
  assumes "0 \<le> hi" "hi < 16" "0 \<le> lo" "lo < 16"
  shows "uint (word_of_int (push_bit 4 hi OR lo) :: u8) = 16 * hi + lo"
  using ds4_mid_byte [of "lo * 256" hi] assms
  by (simp add: int_and_masks take_bit_int_eq_self drop_bit_eq_div)

lemma nibble_split:
  assumes "0 \<le> l" "l < 16"
  shows "16 * h + l = u \<longleftrightarrow> h = u div 16 \<and> l = u mod (16 :: int)"
proof
  have "(16 * h + l) div 16 = h" "(16 * h + l) mod 16 = l" using assms by simp_all
  then show "16 * h + l = u \<Longrightarrow> h = u div 16 \<and> l = u mod 16" by auto
qed simp

lemma hex_pair_byte:
  assumes "0 \<le> hexNibbleAt a" "0 \<le> hexNibbleAt b"
  shows "word_of_int (push_bit 4 (hexNibbleAt a) OR hexNibbleAt b) = v \<longleftrightarrow> [lower_hex a, lower_hex b] = hex_pair v"
proof -
  note r = assms hexNibbleAt_range [OF assms(1)] hexNibbleAt_range [OF assms(2)]
  have hi: "uint (drop_bit 4 v) = uint v div 16" by (simp only: uint_nat unat_drop_bit_eq) (simp add: drop_bit_eq_div zdiv_int)
  have lo: "uint (v AND 15) = uint v mod 16" by (simp only: and_masks unsigned_take_bit_eq) (simp add: take_bit_eq_mod)
  have "word_of_int (push_bit 4 (hexNibbleAt a) OR hexNibbleAt b) = v \<longleftrightarrow> 16 * hexNibbleAt a + hexNibbleAt b = uint v"
    using nibble_byte [of "hexNibbleAt a" "hexNibbleAt b"] r by (metis word_uint_eq_iff)
  also have "\<dots> \<longleftrightarrow> hexNibbleAt a = int (unat (drop_bit 4 v)) \<and> hexNibbleAt b = int (unat (v AND 15))"
    unfolding uint_nat [symmetric] hi lo by (rule nibble_split) (use r in simp_all)
  also have "\<dots> \<longleftrightarrow> [lower_hex a, lower_hex b] = hex_pair v"
    unfolding hexNibbleAt_digit [OF nibble_less(1)] hexNibbleAt_digit [OF nibble_less(2)] by (simp add: hex_pair_def)
  finally show ?thesis .
qed

text \<open>The proof decodes to a MAC exactly when it is its hexadecimal text, in either case.\<close>

lemma proof_bytes_hex:
  "even (length cs) \<Longrightarrow> proof_bytes cs = Some bs \<longleftrightarrow> map lower_hex cs = hexEncode bs"
proof (induction cs arbitrary: bs rule: proof_bytes.induct)
  case (1 a b cs)
  show ?case
  proof (cases bs)
    case Nil
    then show ?thesis by (simp add: hexEncode_def)
  next
    case (Cons v vs)
    have bad: "[lower_hex a, lower_hex b] \<noteq> hex_pair v" if "hexNibbleAt a < 0 \<or> hexNibbleAt b < 0"
      using that hexNibbleAt_digit [OF nibble_less(1), of a v] hexNibbleAt_digit [OF nibble_less(2), of b v]
      by (auto simp: hex_pair_def)
    obtain x y where xy: "hex_pair v = [x, y]" by (simp add: hex_pair_def)
    show ?thesis
    proof (cases "hexNibbleAt a < 0 \<or> hexNibbleAt b < 0")
      case True
      then show ?thesis using bad Cons xy by (auto simp: hexEncode_Cons)
    next
      case False
      then have "proof_bytes cs = Some vs \<longleftrightarrow> map lower_hex cs = hexEncode vs" using 1 by simp
      then show ?thesis using False hex_pair_byte [of a b v] Cons xy by (auto simp: hexEncode_Cons)
    qed
  qed
qed (auto simp: hexEncode_concat hex_pair_def neq_Nil_conv)

text \<open>
  C32.  The proof of possession is exact: a supplied text is accepted if and only if it is the hexadecimal
  text of the MAC over the device's message under the pairing key, upper or lower case; so the proof that
  the other side computes is accepted, and a text of any other length or with any other character is not.
\<close>

theorem proof_exact:
  assumes "sodium_laws so"
  shows "(verifyHmacProof so pairingKey dev p \<longleftrightarrow> map lower_hex p = computeHmacProof so pairingKey dev) \<and>
    verifyHmacProof so pairingKey dev (computeHmacProof so pairingKey dev)"
proof -
  let ?mac = "so_hmacsha256 so pairingKey (proof_message dev)"
  have laws: "length ?mac = 32" "so_bin2hex so = hexEncode" using assms by (simp_all add: sodium_laws_def)
  have v: "verifyHmacProof so pairingKey dev p \<longleftrightarrow> map lower_hex p = hexEncode ?mac" for p
  proof (cases "length p = 64")
    case True
    then show ?thesis using proof_bytes_hex [of p ?mac] by (auto simp: verifyHmacProof_def split: option.splits)
  next
    case False
    then have "map lower_hex p \<noteq> hexEncode ?mac" using laws(1) hexEncode_length by (metis length_map mult_2 numeral_Bit0)
    then show ?thesis using False by (simp add: verifyHmacProof_def)
  qed
  have "lower_hex (HEX_DIGITS ! n) = HEX_DIGITS ! n" if "n < 16" for n
    using hex_digit_code [OF that] by (auto simp: lower_hex_def split: if_splits)
  then have "map lower_hex (hex_pair b) = hex_pair b" for b by (simp add: hex_pair_def nibble_less)
  then have "map lower_hex (hexEncode bs) = hexEncode bs" for bs
    by (induction bs) (simp_all add: hexEncode_Cons, simp add: hexEncode_def)
  then show ?thesis using v laws(2) by (simp add: computeHmacProof_def)
qed

text \<open>An instance of the primitives: a MAC that is a prefix of key and message, and a cipher that appends a tag of the nonce and the additional data.\<close>

definition toy_sodium :: sodium where
  "toy_sodium =
     \<lparr>so_hmacsha256 = (\<lambda>k m. take 32 (k @ m @ replicate 32 0)), so_bin2hex = hexEncode,
      so_aead_encrypt = (\<lambda>k n a m. Some (m @ take 16 (n @ a @ replicate 16 0))),
      so_aead_decrypt = (\<lambda>k n a c.
        if 16 \<le> length c \<and> drop (length c - 16) c = take 16 (n @ a @ replicate 16 0)
        then Some (take (length c - 16) c) else None)\<rparr>"

lemma toy_sodium_laws: "sodium_laws toy_sodium"
  by (simp add: sodium_laws_def toy_sodium_def min_def)

theorem proof_exact_witness:
  "verifyHmacProof toy_sodium [1, 2] ''d'' (computeHmacProof toy_sodium [1, 2] ''d'')"
  using proof_exact [OF toy_sodium_laws] by blast

end
