(* ===== verification/Net_Receive.thy ===== *)
theory Net_Receive
  imports Net_Crypto Service_System
begin

text \<open>
  The receive side between the socket and the service: \<^verbatim>\<open>net/inner_dispatch.cpp\<close>, the datagram handler and the
  loops of \<^verbatim>\<open>net/receiver.cpp\<close>, the counters of \<^verbatim>\<open>app/wire_stats.h\<close> and \<^verbatim>\<open>app/app_state.h\<close> that they bump, and
  \<^verbatim>\<open>core/unknown_token_log.h\<close>.  A datagram is the bytes \<^verbatim>\<open>recvfrom\<close> returned with the sender's address; a
  read past the bytes a function was given is \<^const>\<open>None\<close>.  Sockets, threads and priorities are not
  modelled; \<^verbatim>\<open>recvfrom\<close>'s result and the three clock reads of a datagram are arguments.
\<close>

section \<open>Counters\<close>

record wire_stats =
  w_rxHeartbeat :: u64
  w_rxMotion :: u64
  w_rxBattery :: u64
  w_rxPointer :: u64
  w_rxMicAudio :: u64
  w_rxMalformed :: u64
  w_rxUnknownType :: u64
  w_rxRunt :: u64
  w_rxUnknownToken :: u64
  w_rxUnknownTokenSender :: u32
  w_txPackets :: u64
  w_txBytes :: u64
  w_txHeartbeatAck :: u64
  w_txRumble :: u64
  w_txLightbar :: u64
  w_txTriggerEffects :: u64
  w_txPlayerLeds :: u64
  w_txSpeakerAudio :: u64
  w_txHapticAudio :: u64
  w_txMicLed :: u64
  w_txSessionClose :: u64
  w_txUnroutable :: u64
  w_txEncryptFailed :: u64
  w_txOversize :: u64
  w_txSendFailed :: u64
  w_sessionsReaped :: u64

definition no_wire_stats :: wire_stats where
  "no_wire_stats =
     \<lparr>w_rxHeartbeat = 0, w_rxMotion = 0, w_rxBattery = 0, w_rxPointer = 0, w_rxMicAudio = 0, w_rxMalformed = 0,
      w_rxUnknownType = 0, w_rxRunt = 0, w_rxUnknownToken = 0, w_rxUnknownTokenSender = 0, w_txPackets = 0,
      w_txBytes = 0, w_txHeartbeatAck = 0, w_txRumble = 0, w_txLightbar = 0, w_txTriggerEffects = 0,
      w_txPlayerLeds = 0, w_txSpeakerAudio = 0, w_txHapticAudio = 0, w_txMicLed = 0, w_txSessionClose = 0,
      w_txUnroutable = 0, w_txEncryptFailed = 0, w_txOversize = 0, w_txSendFailed = 0, w_sessionsReaped = 0\<rparr>"

definition isDispatchedInboundType :: "u16 \<Rightarrow> bool" where
  "isDispatchedInboundType msgType \<longleftrightarrow>
     msgType \<in> {MSG_GAMEPAD_DATA, MSG_HEARTBEAT_PING, MSG_MOTION, MSG_BATTERY, MSG_TOUCHPAD, MSG_MIC_AUDIO}"

definition recordInbound :: "u16 \<Rightarrow> bool \<Rightarrow> wire_stats \<Rightarrow> wire_stats" where
  "recordInbound msgType handled w =
     (if \<not> handled
      then if isDispatchedInboundType msgType then w\<lparr>w_rxMalformed := w_rxMalformed w + 1\<rparr>
           else w\<lparr>w_rxUnknownType := w_rxUnknownType w + 1\<rparr>
      else if msgType = MSG_HEARTBEAT_PING then w\<lparr>w_rxHeartbeat := w_rxHeartbeat w + 1\<rparr>
      else if msgType = MSG_MOTION then w\<lparr>w_rxMotion := w_rxMotion w + 1\<rparr>
      else if msgType = MSG_BATTERY then w\<lparr>w_rxBattery := w_rxBattery w + 1\<rparr>
      else if msgType = MSG_TOUCHPAD then w\<lparr>w_rxPointer := w_rxPointer w + 1\<rparr>
      else if msgType = MSG_MIC_AUDIO then w\<lparr>w_rxMicAudio := w_rxMicAudio w + 1\<rparr>
      else w)"

text \<open>The receiver's own counters, and the high-water mark that the loop keeps.\<close>

record receiver =
  rv_wire :: wire_stats
  rv_packetCount :: u64
  rv_submitOk :: u64
  rv_submitFail :: u64
  rv_lastLoopUs :: u64
  rv_maxLoopUs :: u64
  rv_decryptFail :: u64
  rv_replayDrop :: u64
  rv_senderIP :: u32
  rv_localMaxUs :: u64

definition resetReceiverCounters :: "receiver \<Rightarrow> receiver" where
  "resetReceiverCounters v =
     v\<lparr>rv_wire := no_wire_stats, rv_packetCount := 0, rv_submitOk := 0, rv_submitFail := 0, rv_lastLoopUs := 0,
       rv_maxLoopUs := 0, rv_decryptFail := 0, rv_replayDrop := 0, rv_senderIP := 0\<rparr>"

section \<open>The inner message\<close>

record dispatch_result =
  dr_wasGamepadData :: bool
  dr_gamepadOk :: bool
  dr_handled :: bool

definition no_dispatch :: dispatch_result where
  "no_dispatch = \<lparr>dr_wasGamepadData = False, dr_gamepadOk = False, dr_handled = False\<rparr>"

abbreviation (input) "MOTION_WIRE_PAYLOAD_BYTES \<equiv> 16 :: nat"
abbreviation (input) "TOUCHPAD_WIRE_PAYLOAD_BYTES_V1 \<equiv> 15 :: nat"
abbreviation (input) "TOUCHPAD_WIRE_PAYLOAD_BYTES_V2 \<equiv> 18 :: nat"
abbreviation (input) "GAMEPAD_DATA_MIN_LEN \<equiv> 13 :: nat"

text \<open>\<open>payload\<close> holds the message's bytes and nothing else; its length is \<^verbatim>\<open>msgLen\<close>.\<close>

definition dispatchInnerMessage :: "ticks \<Rightarrow> u32 \<Rightarrow> u16 \<Rightarrow> u8 list \<Rightarrow> 'b svc \<Rightarrow> (dispatch_result \<times> 'b svc) option" where
  "dispatchInnerMessage now tok msgType payload s =
     (let msgLen = length payload; done = no_dispatch\<lparr>dr_handled := True\<rparr> in
      if msgType = MSG_GAMEPAD_DATA
      then if msgLen < 13 then Some (no_dispatch, s)
           else do { i \<leftarrow> byte_at payload 0; report \<leftarrow> loadGamepadReport payload 1;
                     case handleGamepadData now tok (unat i) report s of
                       (ok, s1) \<Rightarrow> Some (done\<lparr>dr_wasGamepadData := True, dr_gamepadOk := ok\<rparr>, s1) }
      else if msgType = MSG_HEARTBEAT_PING then Some (done, handleHeartbeat tok s)
      else if msgType = MSG_MOTION
      then if msgLen < 1 + MOTION_WIRE_PAYLOAD_BYTES then Some (no_dispatch, s)
           else do { i \<leftarrow> byte_at payload 0; report \<leftarrow> decodeMotionReport payload 1;
                     Some (done, snd (handleMotionData tok (unat i) report s)) }
      else if msgType = MSG_BATTERY
      then if msgLen < 3 then Some (no_dispatch, s)
           else do { i \<leftarrow> byte_at payload 0; level \<leftarrow> byte_at payload 1; status \<leftarrow> byte_at payload 2;
                     Some (done, snd (handleBatteryUpdate tok (unat i) \<lparr>bat_level = level, bat_status = status\<rparr> s)) }
      else if msgType = MSG_TOUCHPAD
      then if msgLen < 1 + TOUCHPAD_WIRE_PAYLOAD_BYTES_V1 then Some (no_dispatch, s)
           else do { i \<leftarrow> byte_at payload 0;
                     report \<leftarrow> (if msgLen \<ge> 1 + TOUCHPAD_WIRE_PAYLOAD_BYTES_V2 then decodeTouchpadReportV2 payload 1
                               else decodeTouchpadReportV1 payload 1);
                     Some (done, snd (handleTouchpadData tok (unat i) report s)) }
      else if msgType = MSG_MIC_AUDIO
      then if msgLen < AUDIO_WIRE_MIN_PAYLOAD_BYTES then Some (no_dispatch, s)
           else do { hdr \<leftarrow> decodeAudioFrameHeader payload 0;
                     Some (done, snd (handleMicAudio now tok (unat (ah_ctrlIdx hdr)) (ah_seq hdr)
                       (drop AUDIO_WIRE_HEADER_BYTES payload) s)) }
      else Some (no_dispatch, s))"

definition parseInnerHeader :: "u8 list \<Rightarrow> (u16 \<times> nat) option" where
  "parseInnerHeader plaintext =
     do { msgType \<leftarrow> readBE16 plaintext 0; msgLen \<leftarrow> readBE16 plaintext 2;
          if INNER_HEADER_SIZE + unat msgLen \<le> length plaintext then Some (msgType, unat msgLen) else None }"

section \<open>One datagram\<close>

text \<open>The three clock reads of \<^verbatim>\<open>handleDatagram\<close> and its callees: at the start, in the service, at the end.\<close>

record datagram =
  dg_bytes :: "u8 list"
  dg_ip :: u32
  dg_port :: u16
  dg_t0 :: ticks
  dg_now :: ticks
  dg_t1 :: ticks

abbreviation (input) "MIN_DATAGRAM_BYTES \<equiv> 28 :: nat"

definition recordGamepadLoop :: "ticks \<Rightarrow> ticks \<Rightarrow> bool \<Rightarrow> receiver \<Rightarrow> receiver" where
  "recordGamepadLoop t0 t1 ok v =
     (let us = word_of_int ((t1 - t0) div 1000);
          v1 = v\<lparr>rv_lastLoopUs := us\<rparr>;
          v2 = (if us > rv_localMaxUs v1
                then v1\<lparr>rv_localMaxUs := us, rv_maxLoopUs := (if us > rv_maxLoopUs v1 then us else rv_maxLoopUs v1)\<rparr>
                else v1)
      in if ok then v2\<lparr>rv_submitOk := rv_submitOk v2 + 1\<rparr> else v2\<lparr>rv_submitFail := rv_submitFail v2 + 1\<rparr>)"

definition count_packet :: "u32 \<Rightarrow> receiver \<Rightarrow> receiver" where
  "count_packet ip v =
     (let v1 = v\<lparr>rv_packetCount := rv_packetCount v + 1\<rparr>
      in if rv_packetCount v1 AND 255 = 0 then v1\<lparr>rv_senderIP := ip\<rparr> else v1)"

text \<open>The message that a datagram carries past the key lookup, the replay check and the cipher.\<close>

datatype opened = UnknownToken | Replayed | Undecryptable | Malformed | Opened u32 u32 u16 "u8 list"

definition open_datagram :: "sodium \<Rightarrow> u8 list \<Rightarrow> hot_table \<Rightarrow> opened option" where
  "open_datagram so buf t =
     do { tok \<leftarrow> readBE32 buf 0; counter \<leftarrow> readBE32 buf 4;
          case getDecryptInfo tok t of
            None \<Rightarrow> Some UnknownToken
          | Some (key, lastCounter, seenCounter) \<Rightarrow>
              if seenCounter \<and> counter \<le> lastCounter then Some Replayed
              else case decryptPacket so key CRYPTO_DIR_CLIENT_TO_SERVER counter tok (drop HEADER_SIZE buf) of
                     None \<Rightarrow> Some Undecryptable
                   | Some plaintext \<Rightarrow>
                       (case parseInnerHeader plaintext of
                          None \<Rightarrow> Some Malformed
                        | Some (msgType, msgLen) \<Rightarrow>
                            Some (Opened tok counter msgType (take msgLen (drop INNER_HEADER_SIZE plaintext)))) }"

definition on_wire :: "(wire_stats \<Rightarrow> wire_stats) \<Rightarrow> receiver \<Rightarrow> receiver" where
  "on_wire f v = v\<lparr>rv_wire := f (rv_wire v)\<rparr>"

definition handleDatagram :: "sodium \<Rightarrow> datagram \<Rightarrow> receiver \<times> 'b svc \<Rightarrow> (receiver \<times> 'b svc) option" where
  "handleDatagram so d = (\<lambda>(v, s).
     do { what \<leftarrow> open_datagram so (dg_bytes d) (s_hot s);
          case what of
            UnknownToken \<Rightarrow> Some (on_wire (\<lambda>w. w\<lparr>w_rxUnknownToken := w_rxUnknownToken w + 1, w_rxUnknownTokenSender := dg_ip d\<rparr>) v, s)
          | Replayed \<Rightarrow> Some (v\<lparr>rv_replayDrop := rv_replayDrop v + 1\<rparr>, s)
          | Undecryptable \<Rightarrow> Some (v\<lparr>rv_decryptFail := rv_decryptFail v + 1\<rparr>, s)
          | Malformed \<Rightarrow> Some (on_wire (\<lambda>w. w\<lparr>w_rxMalformed := w_rxMalformed w + 1\<rparr>) v, s)
          | Opened tok counter msgType payload \<Rightarrow>
              if msgType = MSG_GAMEPAD_DATA \<and> length payload \<ge> GAMEPAD_DATA_MIN_LEN
              then do { i \<leftarrow> byte_at payload 0; report \<leftarrow> loadGamepadReport payload 1;
                        case handleGamepadDataAndUpdate (dg_now d) tok counter (dg_ip d) (dg_port d) (unat i) report s of
                          (ok, s1) \<Rightarrow> Some (count_packet (dg_ip d) (recordGamepadLoop (dg_t0 d) (dg_t1 d) ok v), s1) }
              else do { (dr, s1) \<leftarrow> dispatchInnerMessage (dg_now d) tok msgType payload
                          (updatePostDecryptV4 (dg_now d) tok counter (dg_ip d) (dg_port d) s);
                        let v1 = on_wire (recordInbound msgType (dr_handled dr)) v in
                        Some (count_packet (dg_ip d)
                          (if dr_wasGamepadData dr then recordGamepadLoop (dg_t0 d) (dg_t1 d) (dr_gamepadOk dr) v1 else v1), s1) } })"

text \<open>One turn of \<^verbatim>\<open>receiveLoop\<close>; \<^const>\<open>None\<close> in the first argument is a timeout or an error of \<^verbatim>\<open>recvfrom\<close>.\<close>

definition receive_turn :: "sodium \<Rightarrow> datagram option \<Rightarrow> receiver \<times> 'b svc \<Rightarrow> (receiver \<times> 'b svc) option" where
  "receive_turn so got = (\<lambda>(v, s).
     case got of
       None \<Rightarrow> Some (v, s)
     | Some d \<Rightarrow>
         if length (dg_bytes d) < MIN_DATAGRAM_BYTES
         then Some (on_wire (\<lambda>w. w\<lparr>w_rxRunt := w_rxRunt w + 1\<rparr>) v, s)
         else handleDatagram so d (v, s))"

section \<open>Traffic for sessions that do not exist\<close>

abbreviation (input) "UNKNOWN_TOKEN_QUIET_PERIOD \<equiv> sec (HEARTBEAT_INTERVAL_SEC * HEARTBEAT_MISS_MAX)"

record unknown_token_log =
  ut_lastTotal :: u64
  ut_stretchStartTotal :: u64
  ut_stretchOpen :: bool
  ut_lastDropAt :: ticks

definition senderClause :: "u32 \<Rightarrow> string" where
  "senderClause ip = (if ip = 0 then [] else '' from '' @ formatIPv4Nbo ip)"

definition openedMessage :: "u32 \<Rightarrow> string" where
  "openedMessage ip =
     ''Dropping datagrams'' @ senderClause ip @
     '' for a session this Satellite does not have (Satellite restarted, or the '' @
     ''session was reaped); the dish opens a new session on its own once its '' @
     ''heartbeats go unanswered''"

definition endedMessage :: "u32 \<Rightarrow> u64 \<Rightarrow> string" where
  "endedMessage ip cnt =
     ''Datagrams'' @ senderClause ip @
     '' for a session this Satellite does not have have stopped after '' @ dec_string (unat cnt) @
     (if cnt = 1 then '' dropped datagram'' else '' dropped datagrams'')"

definition observe :: "u64 \<Rightarrow> u32 \<Rightarrow> ticks \<Rightarrow> unknown_token_log \<Rightarrow> (log_level \<times> string) option \<times> unknown_token_log" where
  "observe droppedTotal ip now u =
     (if droppedTotal < ut_lastTotal u then (None, u\<lparr>ut_lastTotal := droppedTotal, ut_stretchOpen := False\<rparr>)
      else let newDrops = droppedTotal > ut_lastTotal u; before = ut_lastTotal u;
               u1 = u\<lparr>ut_lastTotal := droppedTotal\<rparr>
           in if newDrops
              then let u2 = u1\<lparr>ut_lastDropAt := now\<rparr>
                   in if ut_stretchOpen u2 then (None, u2)
                      else (Some (WARN, openedMessage ip), u2\<lparr>ut_stretchOpen := True, ut_stretchStartTotal := before\<rparr>)
              else if \<not> ut_stretchOpen u1 \<or> \<not> (now - ut_lastDropAt u1 \<ge> UNKNOWN_TOKEN_QUIET_PERIOD) then (None, u1)
              else (Some (INFO, endedMessage ip (droppedTotal - ut_stretchStartTotal u1)), u1\<lparr>ut_stretchOpen := False\<rparr>))"

section \<open>Maintenance\<close>

record maintenance =
  mt_sinceReapMs :: int
  mt_unknownTokens :: unknown_token_log

definition reportUnknownTokenTraffic :: "ticks \<Rightarrow> maintenance \<times> receiver \<times> 'b svc \<Rightarrow> maintenance \<times> receiver \<times> 'b svc" where
  "reportUnknownTokenTraffic now = (\<lambda>(m, v, s).
     case observe (w_rxUnknownToken (rv_wire v)) (w_rxUnknownTokenSender (rv_wire v)) now (mt_unknownTokens m) of
       (line, u) \<Rightarrow> (m\<lparr>mt_unknownTokens := u\<rparr>, v, case line of None \<Rightarrow> s | Some (lvl, msg) \<Rightarrow> logMsg lvl msg s))"

text \<open>One turn of \<^verbatim>\<open>maintenanceLoop\<close> after its sleep.\<close>

definition maintenance_turn ::
  "bool \<Rightarrow> ticks \<Rightarrow> maintenance \<times> receiver \<times> 'b svc \<Rightarrow> maintenance \<times> receiver \<times> 'b svc" where
  "maintenance_turn topoFree now = (\<lambda>(m, v, s).
     let s1 = refreshIdleInput (snd (refreshRumble now s));
         m1 = m\<lparr>mt_sinceReapMs := mt_sinceReapMs m + RUMBLE_REFRESH_MS div 2\<rparr>
     in if mt_sinceReapMs m1 < 1000 then (m1, v, s1)
        else case reapTimedOut topoFree now s1 of
               (reaped, s2) \<Rightarrow>
                 reportUnknownTokenTraffic now
                   (m1\<lparr>mt_sinceReapMs := 0\<rparr>,
                    if reaped > 0 then on_wire (\<lambda>w. w\<lparr>w_sessionsReaped := w_sessionsReaped w + of_nat reaped\<rparr>) v else v, s2))"

section \<open>No read past a buffer\<close>

lemma dispatch_total: "\<exists>dr s'. dispatchInnerMessage now tok ty payload s = Some (dr, s')"
proof -
  have "dispatchInnerMessage now tok ty payload s \<noteq> None"
    by (auto simp: dispatchInnerMessage_def Let_def Option.bind_eq_None_conv not_less simp del: not_None_eq split: prod.splits)
  then show ?thesis by auto
qed

lemma open_total: "8 \<le> length buf \<Longrightarrow> \<exists>x. open_datagram so buf t = Some x"
  by (cases "readBE32 buf 0"; cases "readBE32 buf 4") (auto simp: open_datagram_def split: option.splits prod.splits)

lemma handleDatagram_total:
  assumes "8 \<le> length (dg_bytes d)"
  shows "\<exists>v' s'. handleDatagram so d (v, s) = Some (v', s')"
proof -
  obtain x where x: "open_datagram so (dg_bytes d) (s_hot s) = Some x" using open_total [OF assms] by blast
  show ?thesis
  proof (cases x)
    case (Opened tok c ty payload)
    show ?thesis
    proof (cases "ty = MSG_GAMEPAD_DATA \<and> GAMEPAD_DATA_MIN_LEN \<le> length payload")
      case True
      then obtain b r where "byte_at payload 0 = Some b" "loadGamepadReport payload 1 = Some r"
        by (cases "loadGamepadReport payload 1"; cases "byte_at payload 0") auto
      then show ?thesis using x Opened True by (auto simp: handleDatagram_def split: prod.splits)
    next
      case False
      obtain dr s1 where "dispatchInnerMessage (dg_now d) tok ty payload
          (updatePostDecryptV4 (dg_now d) tok c (dg_ip d) (dg_port d) s) = Some (dr, s1)"
        using dispatch_total by blast
      then show ?thesis using x Opened False by (auto simp: handleDatagram_def Let_def)
    qed
  qed (use x in \<open>simp_all add: handleDatagram_def\<close>)
qed

section \<open>The table after a datagram\<close>

lemma on_rx_pad_hot [simp]: "s_hot (on_rx_pad pad f s) = s_hot s"
  by (simp add: on_rx_pad_def)

lemma logMsg_hot [simp]: "s_hot (logMsg lvl msg s) = s_hot s"
  by (simp add: logMsg_def emit_def)

lemma handlers_hot:
  "s_hot (handleHeartbeat tok s) = s_hot s"
  "s_hot (snd (handleGamepadData now tok i report s)) = s_hot s"
  "s_hot (snd (handleMotionData tok i m s)) = s_hot s"
  "s_hot (snd (handleBatteryUpdate tok i b s)) = s_hot s"
  "s_hot (snd (handleTouchpadData tok i t s)) = s_hot s"
  "s_hot (snd (handleMicAudio now tok i q opus s)) = s_hot s"
proof -
  have drop: "s_hot (snd (dropMicFrame pad k cause u)) = s_hot u" for pad k cause and u :: "'a svc"
    by (simp add: dropMicFrame_def Let_def bump_micDropped_def split: option.split)
  have hand: "s_hot (snd (handOverMicFrame pad k q opus u)) = s_hot u" for pad k q opus and u :: "'a svc"
    by (simp add: handOverMicFrame_def bump_micDropped_def)
  show "s_hot (handleHeartbeat tok s) = s_hot s"
    by (simp add: handleHeartbeat_def emit_def split: option.split prod.split)
  show "s_hot (snd (handleGamepadData now tok i report s)) = s_hot s"
    by (simp add: handleGamepadData_def submitHotFrame_def Let_def split: option.split prod.split)
  show "s_hot (snd (handleMotionData tok i m s)) = s_hot s"
    by (simp add: handleMotionData_def split: option.split prod.split)
  show "s_hot (snd (handleBatteryUpdate tok i b s)) = s_hot s"
    by (simp add: handleBatteryUpdate_def split: option.split prod.split)
  show "s_hot (snd (handleTouchpadData tok i t s)) = s_hot s"
    by (simp add: handleTouchpadData_def Let_def pushFrame_def split: option.split prod.split)
  show "s_hot (snd (handleMicAudio now tok i q opus s)) = s_hot s"
    by (simp add: handleMicAudio_def Let_def drop hand split: option.split prod.split)
qed

lemma dispatch_hot:
  assumes "dispatchInnerMessage now tok ty payload s = Some (dr, s')"
  shows "s_hot s' = s_hot s"
  using assms
  by (auto simp: dispatchInnerMessage_def Let_def case_prod_beta handlers_hot Option.bind_eq_Some_conv
      split: if_splits)

text \<open>What a datagram leaves of the table: nothing new, or the record of an opened datagram.\<close>

lemma handleDatagram_hot:
  assumes h: "handleDatagram so d (v, s) = Some (v', s')"
    and x: "open_datagram so (dg_bytes d) (s_hot s) = Some x"
  shows "(\<forall>tok c ty p. x \<noteq> Opened tok c ty p) \<Longrightarrow> s' = s"
    "x = Opened tok c ty p \<Longrightarrow>
       s_hot s' = s_hot (updatePostDecryptV4 (dg_now d) tok c (dg_ip d) (dg_port d) s)"
proof -
  show "s' = s" if "\<forall>tok c ty p. x \<noteq> Opened tok c ty p"
    using h x that by (cases x) (auto simp: handleDatagram_def)
  show "s_hot s' = s_hot (updatePostDecryptV4 (dg_now d) tok c (dg_ip d) (dg_port d) s)" if o: "x = Opened tok c ty p"
  proof (cases "ty = MSG_GAMEPAD_DATA \<and> GAMEPAD_DATA_MIN_LEN \<le> length p")
    case True
    then obtain i report where "s' = snd (handleGamepadDataAndUpdate (dg_now d) tok c (dg_ip d) (dg_port d) i report s)"
      using h x o by (auto simp: handleDatagram_def case_prod_beta Option.bind_eq_Some_conv)
    then show ?thesis by (simp add: fused_hot_path handlers_hot)
  next
    case False
    then obtain dr where "dispatchInnerMessage (dg_now d) tok ty p
        (updatePostDecryptV4 (dg_now d) tok c (dg_ip d) (dg_port d) s) = Some (dr, s')"
      using h x o by (auto simp: handleDatagram_def Let_def Option.bind_eq_Some_conv split: if_splits)
    then show ?thesis by (rule dispatch_hot)
  qed
qed

lemma decryptInfo_other:
  assumes "tok' \<noteq> tok"
  shows "getDecryptInfo tok' (s_hot (updatePostDecryptV4 now tok c ip port s)) = getDecryptInfo tok' (s_hot s)"
proof (cases "hot_find (s_hot s) tok")
  case None
  then show ?thesis by (simp add: updatePostDecryptV4_def recordHotDatagram_def)
next
  case (Some k)
  have "hot_find (upd_slot k f (s_hot s)) tok' = hot_find (s_hot s) tok'" for f by (simp add: hot_find_def upd_slot_def)
  moreover have "slots (upd_slot k f (s_hot s)) ! j = slots (s_hot s) ! j" if "hot_find (s_hot s) tok' = Some j" for f j
  proof -
    have "j \<noteq> k" using that Some assms by (auto simp: hot_find_def split: if_splits dest!: find_Some_set)
    then show ?thesis by (simp add: upd_slot_def)
  qed
  ultimately have "getDecryptInfo tok' (upd_slot k f (s_hot s)) = getDecryptInfo tok' (s_hot s)" for f
    by (cases "hot_find (s_hot s) tok'") (simp_all add: getDecryptInfo_def)
  then show ?thesis using Some by (simp add: updatePostDecryptV4_def recordHotDatagram_def split: option.split)
qed

section \<open>A run of datagrams\<close>

lemma svc_reach: "sys_reach y \<Longrightarrow> svc_step (y_svc y) s' \<Longrightarrow> sys_reach (y\<lparr>y_svc := s'\<rparr>)"
  by (rule sys_reach.step [OF _ sys_step.service])

lemma dispatch_reach:
  assumes y: "sys_reach y" and d: "dispatchInnerMessage now tok ty payload (y_svc y) = Some (dr, s')"
  shows "sys_reach (y\<lparr>y_svc := s'\<rparr>)"
proof -
  have "svc_step s (handleHeartbeat tok s)" for s :: "'a svc" by (rule svc_step.heartbeat)
  moreover have "svc_step s (snd (handleGamepadData now tok i g s))" for s :: "'a svc" and i g
    by (rule svc_step.gamepad) (rule prod.collapse [symmetric])
  moreover have "svc_step s (snd (handleMotionData tok i m s))" for s :: "'a svc" and i m
    by (rule svc_step.motion) (rule prod.collapse [symmetric])
  moreover have "svc_step s (snd (handleBatteryUpdate tok i b s))" for s :: "'a svc" and i b
    by (rule svc_step.battery) (rule prod.collapse [symmetric])
  moreover have "svc_step s (snd (handleTouchpadData tok i t s))" for s :: "'a svc" and i t
    by (rule svc_step.touchpad) (rule prod.collapse [symmetric])
  moreover have "svc_step s (snd (handleMicAudio now tok i q opus s))" for s :: "'a svc" and i q opus
    by (rule svc_step.mic_audio) (rule prod.collapse [symmetric])
  ultimately have "s' = y_svc y \<or> svc_step (y_svc y) s'" using d
    by (auto simp: dispatchInnerMessage_def Let_def case_prod_beta Option.bind_eq_Some_conv split: if_splits)
  then show ?thesis using y svc_reach [OF y] by auto
qed

text \<open>A turn of the receive loop is made of operations of the service, so it keeps what every operation keeps.\<close>

lemma receive_turn_reach:
  assumes y: "sys_reach y" and q: "receive_turn so got (v, y_svc y) = Some (v', s')"
  shows "sys_reach (y\<lparr>y_svc := s'\<rparr>)"
proof -
  have same: "y\<lparr>y_svc := y_svc y\<rparr> = y" by simp
  show ?thesis
  proof (cases "s' = y_svc y")
    case True
    then show ?thesis using y by simp
  next
    case False
    then obtain d where d: "handleDatagram so d (v, y_svc y) = Some (v', s')"
      using q by (auto simp: receive_turn_def split: option.splits if_splits)
    then obtain x where x: "open_datagram so (dg_bytes d) (s_hot (y_svc y)) = Some x"
      by (auto simp: handleDatagram_def Option.bind_eq_Some_conv)
    obtain tok c ty p where o: "x = Opened tok c ty p" using handleDatagram_hot(1) [OF d x] False by blast
    show ?thesis
    proof (cases "ty = MSG_GAMEPAD_DATA \<and> GAMEPAD_DATA_MIN_LEN \<le> length p")
      case True
      then obtain i report where "s' = snd (handleGamepadDataAndUpdate (dg_now d) tok c (dg_ip d) (dg_port d) i report (y_svc y))"
        using d x o by (auto simp: handleDatagram_def case_prod_beta Option.bind_eq_Some_conv)
      then show ?thesis using svc_reach [OF y svc_step.gamepad_fused [OF prod.collapse [symmetric]]] by simp
    next
      case False
      let ?s1 = "updatePostDecryptV4 (dg_now d) tok c (dg_ip d) (dg_port d) (y_svc y)"
      obtain dr where dr: "dispatchInnerMessage (dg_now d) tok ty p ?s1 = Some (dr, s')"
        using d x o False by (auto simp: handleDatagram_def Let_def Option.bind_eq_Some_conv split: if_splits)
      have "sys_reach (y\<lparr>y_svc := ?s1\<rparr>)" by (rule svc_reach [OF y svc_step.post_decrypt])
      from dispatch_reach [OF this] dr show ?thesis by simp
    qed
  qed
qed

fun receive_all :: "sodium \<Rightarrow> datagram option list \<Rightarrow> receiver \<times> 'b svc \<Rightarrow> (receiver \<times> 'b svc) option" where
  "receive_all so [] vs = Some vs"
| "receive_all so (g # gs) vs = do { vs1 \<leftarrow> receive_turn so g vs; receive_all so gs vs1 }"

text \<open>The counter that a turn takes for a token, and the counters that a run takes for it.\<close>

definition taken_now :: "sodium \<Rightarrow> u32 \<Rightarrow> datagram option \<Rightarrow> 'b svc \<Rightarrow> u32 option" where
  "taken_now so tok got s =
     (case got of
        None \<Rightarrow> None
      | Some d \<Rightarrow>
          if length (dg_bytes d) < MIN_DATAGRAM_BYTES then None
          else case open_datagram so (dg_bytes d) (s_hot s) of
                 Some (Opened t c _ _) \<Rightarrow> if t = tok then Some c else None
               | _ \<Rightarrow> None)"

fun taken_all :: "sodium \<Rightarrow> u32 \<Rightarrow> datagram option list \<Rightarrow> receiver \<times> 'b svc \<Rightarrow> u32 list" where
  "taken_all so tok [] vs = []"
| "taken_all so tok (g # gs) (v, s) =
     (case taken_now so tok g s of Some c \<Rightarrow> [c] | None \<Rightarrow> []) @
     (case receive_turn so g (v, s) of Some vs1 \<Rightarrow> taken_all so tok gs vs1 | None \<Rightarrow> [])"

definition replay_floor :: "u32 \<Rightarrow> 'b svc \<Rightarrow> u32 option" where
  "replay_floor tok s = (case getDecryptInfo tok (s_hot s) of Some (_, l, True) \<Rightarrow> Some l | _ \<Rightarrow> None)"

lemma opened_above:
  assumes "open_datagram so buf (s_hot s) = Some (Opened tok c ty p)"
  shows "\<exists>info. getDecryptInfo tok (s_hot s) = Some info" "replay_floor tok s = Some l \<Longrightarrow> l < c"
proof -
  obtain t k where rd: "readBE32 buf 0 = Some t" "readBE32 buf 4 = Some k"
    using assms by (auto simp: open_datagram_def Option.bind_eq_Some_conv)
  obtain key l0 seen where info: "getDecryptInfo t (s_hot s) = Some (key, l0, seen)"
    using assms rd by (cases "getDecryptInfo t (s_hot s)") (auto simp: open_datagram_def)
  have fresh: "\<not> (seen \<and> k \<le> l0)" using assms rd info by (auto simp: open_datagram_def)
  obtain m where m: "decryptPacket so key CRYPTO_DIR_CLIENT_TO_SERVER k t (drop HEADER_SIZE buf) = Some m"
    using assms rd info fresh
    by (cases "decryptPacket so key CRYPTO_DIR_CLIENT_TO_SERVER k t (drop HEADER_SIZE buf)") (auto simp: open_datagram_def)
  have tk: "t = tok" "k = c"
    using assms rd info fresh m by (cases "parseInnerHeader m"; force simp: open_datagram_def)+
  then show "\<exists>info. getDecryptInfo tok (s_hot s) = Some info" using info by blast
  show "l < c" if "replay_floor tok s = Some l"
    using that info fresh tk by (auto simp: replay_floor_def split: bool.splits)
qed

lemma receive_turn_total: "\<exists>v' s'. receive_turn so g (v, s) = Some (v', s')"
proof (cases "\<exists>d. g = Some d \<and> 28 \<le> length (dg_bytes d)")
  case True
  then obtain d where d: "g = Some d" "28 \<le> length (dg_bytes d)" by blast
  then have "\<exists>v' s'. handleDatagram so d (v, s) = Some (v', s')" by (intro handleDatagram_total) simp
  then show ?thesis using d by (auto simp: receive_turn_def)
next
  case False
  then show ?thesis by (cases g) (auto simp: receive_turn_def)
qed

lemma turn_floor:
  assumes y: "sys_reach y" and q: "receive_turn so g (v, y_svc y) = Some (v', s')"
  shows "taken_now so tok g (y_svc y) = None \<Longrightarrow> replay_floor tok s' = replay_floor tok (y_svc y)"
    "taken_now so tok g (y_svc y) = Some c \<Longrightarrow> replay_floor tok s' = Some c \<and>
       (\<forall>l. replay_floor tok (y_svc y) = Some l \<longrightarrow> l < c)"
proof -
  consider (same) "s' = y_svc y" "taken_now so tok g (y_svc y) = None"
    | (opn) d t k ty p where "g = Some d" "handleDatagram so d (v, y_svc y) = Some (v', s')"
      "open_datagram so (dg_bytes d) (s_hot (y_svc y)) = Some (Opened t k ty p)"
      "taken_now so tok g (y_svc y) = (if t = tok then Some k else None)"
  proof (cases "\<exists>d. g = Some d \<and> \<not> length (dg_bytes d) < MIN_DATAGRAM_BYTES")
    case False
    then show ?thesis using q by (intro same) (auto simp: receive_turn_def taken_now_def split: option.splits if_splits)
  next
    case True
    then obtain d where d: "g = Some d" "\<not> length (dg_bytes d) < MIN_DATAGRAM_BYTES" by blast
    then have h: "handleDatagram so d (v, y_svc y) = Some (v', s')" using q by (simp add: receive_turn_def)
    then obtain x where x: "open_datagram so (dg_bytes d) (s_hot (y_svc y)) = Some x"
      by (auto simp: handleDatagram_def Option.bind_eq_Some_conv)
    show ?thesis
    proof (cases "\<exists>t k ty p. x = Opened t k ty p")
      case True
      then show ?thesis using d h x by (elim exE) (intro opn, auto simp: taken_now_def)
    next
      case False
      then have "s' = y_svc y" by (intro handleDatagram_hot(1) [OF h x]) blast
      then show ?thesis using d x False by (intro same) (auto simp: taken_now_def split: opened.splits)
    qed
  qed
  note c = this
  have set: "replay_floor t s' = Some k \<and> (\<forall>l. replay_floor t (y_svc y) = Some l \<longrightarrow> l < k)"
    if o: "g = Some d" "handleDatagram so d (v, y_svc y) = Some (v', s')"
      "open_datagram so (dg_bytes d) (s_hot (y_svc y)) = Some (Opened t k ty p)" for d t k ty p
  proof -
    note a = opened_above [OF o(3)]
    have "t \<in> fst ` set (s_conns (y_svc y))"
      using a(1) getDecryptInfo_none [OF sys_reachD(1) [OF y], of t] by (metis option.distinct(1))
    then obtain r where r: "find_conn t (y_svc y) = Some r" by (cases "find_conn t (y_svc y)") (auto dest: no_row)
    have "getDecryptInfo t (s_hot s') = Some (sessionKey r, k, True)"
      using handleDatagram_hot(2) [OF o(2,3) refl] reach_row [OF y r] replay_recorded [OF sys_reachD(1) [OF y], of r]
      by (simp add: updatePostDecryptV4_def)
    then show ?thesis using a(2) by (simp add: replay_floor_def)
  qed
  show "replay_floor tok s' = replay_floor tok (y_svc y)" if "taken_now so tok g (y_svc y) = None"
    using c
  proof cases
    case (opn d t k ty p)
    then have "t \<noteq> tok" using that by (auto split: if_splits)
    then have "getDecryptInfo tok (s_hot s') = getDecryptInfo tok (s_hot (y_svc y))"
      unfolding handleDatagram_hot(2) [OF opn(2,3) refl] by (intro decryptInfo_other) simp
    then show ?thesis by (simp add: replay_floor_def)
  qed simp
  show "replay_floor tok s' = Some c \<and> (\<forall>l. replay_floor tok (y_svc y) = Some l \<longrightarrow> l < c)"
    if "taken_now so tok g (y_svc y) = Some c" for c
    using c
  proof cases
    case (opn d t k ty p)
    then show ?thesis using that set [OF opn(1-3)] by (auto split: if_splits)
  qed (use that in simp)
qed

lemma taken_sorted:
  assumes "sys_reach y"
  shows "sorted_wrt (<) (taken_all so tok gs (v, y_svc y)) \<and>
    (\<forall>c\<in>set (taken_all so tok gs (v, y_svc y)). \<forall>l. replay_floor tok (y_svc y) = Some l \<longrightarrow> l < c)"
  using assms
proof (induction gs arbitrary: v y)
  case Nil
  then show ?case by simp
next
  case (Cons g gs)
  obtain v' s' where q: "receive_turn so g (v, y_svc y) = Some (v', s')" using receive_turn_total by blast
  have reach: "sys_reach (y\<lparr>y_svc := s'\<rparr>)" by (rule receive_turn_reach [OF Cons.prems q])
  note ih = Cons.IH [OF reach, of v']
  note f = turn_floor [OF Cons.prems q, of tok]
  show ?case
  proof (cases "taken_now so tok g (y_svc y)")
    case None
    then show ?thesis using ih f(1) q by simp
  next
    case (Some c)
    note fl = f(2) [OF Some]
    have "\<forall>k\<in>set (taken_all so tok gs (v', s')). c < k" using ih fl by simp
    then show ?thesis using ih fl q Some by (auto dest: less_trans)
  qed
qed

lemma receive_all_reach:
  assumes "sys_reach y"
  shows "\<exists>v' s'. receive_all so gs (v, y_svc y) = Some (v', s') \<and> sys_reach (y\<lparr>y_svc := s'\<rparr>)"
  using assms
proof (induction gs arbitrary: v y)
  case Nil
  then show ?case by simp
next
  case (Cons g gs)
  obtain v1 s1 where q: "receive_turn so g (v, y_svc y) = Some (v1, s1)" using receive_turn_total by blast
  from Cons.IH [OF receive_turn_reach [OF Cons.prems q], of v1] q show ?case by simp
qed

section \<open>A frame from a client\<close>

text \<open>The datagram a client sends: its token and counter in clear, the inner message sealed.\<close>

definition inner_message :: "u16 \<Rightarrow> u8 list \<Rightarrow> u8 list" where
  "inner_message msgType payload = writeBE16 msgType @ writeBE16 (of_nat (length payload)) @ payload"

definition client_datagram :: "u32 \<Rightarrow> u32 \<Rightarrow> u8 list \<Rightarrow> u8 list" where
  "client_datagram tok c ct = writeBE32 tok @ writeBE32 c @ ct"

lemma parse_inner_message:
  assumes "length payload < 65536"
  shows "parseInnerHeader (inner_message ty payload) = Some (ty, length payload)"
    "drop 4 (inner_message ty payload) = payload"
proof -
  have "readBE16 (inner_message ty payload) 0 = Some ty"
    using readBE16_write [of "[]" 0 ty] by (simp add: inner_message_def)
  moreover have "readBE16 (inner_message ty payload) 2 = Some (of_nat (length payload))"
    using readBE16_write [of "writeBE16 ty" 2] by (simp add: inner_message_def)
  moreover have "unat (of_nat (length payload) :: u16) = length payload" using assms by (simp add: unat_of_nat)
  ultimately show "parseInnerHeader (inner_message ty payload) = Some (ty, length payload)"
    by (simp add: parseInnerHeader_def) (simp add: inner_message_def)
  show "drop 4 (inner_message ty payload) = payload" by (simp add: inner_message_def writeBE16_def)
qed

lemma open_client_datagram:
  assumes laws: "sodium_laws so" and info: "getDecryptInfo tok t = Some (key, l, seen)" "\<not> (seen \<and> c \<le> l)"
    and ct: "encryptPacket so key CRYPTO_DIR_CLIENT_TO_SERVER c tok (inner_message ty payload) = Some ct"
    and p: "length payload < 65536"
  shows "open_datagram so (client_datagram tok c ct) t = Some (Opened tok c ty payload)"
    "28 \<le> length (client_datagram tok c ct)"
proof -
  note e = encrypt_decrypt [OF laws ct]
  have "readBE32 (client_datagram tok c ct) 0 = Some tok" "readBE32 (client_datagram tok c ct) 4 = Some c"
    using readBE32_write [of "[]" 0 tok] readBE32_write [of "writeBE32 tok" 4 c] by (simp_all add: client_datagram_def)
  moreover have "drop 8 (client_datagram tok c ct) = ct" by (simp add: client_datagram_def writeBE32_def)
  ultimately show "open_datagram so (client_datagram tok c ct) t = Some (Opened tok c ty payload)"
    using info e(1) parse_inner_message [OF p] by (simp add: open_datagram_def)
  show "28 \<le> length (client_datagram tok c ct)"
    using e(2) by (simp add: client_datagram_def inner_message_def)
qed

lemma gamepad_datagram:
  assumes y: "sys_reach y" and r: "r \<in> snd ` set (s_conns (y_svc y))" and h: "holds r x i"
    and laws: "sodium_laws so" and fresh: "\<forall>l. replay_floor (token r) (y_svc y) = Some l \<longrightarrow> l < c"
    and ct: "encryptPacket so (sessionKey r) CRYPTO_DIR_CLIENT_TO_SERVER c (token r)
      (inner_message MSG_GAMEPAD_DATA (of_nat i # gamepadWire report)) = Some ct"
    and d: "dg_bytes d = client_datagram (token r) c ct"
  shows "\<exists>v' s'. receive_turn so (Some d) (v, y_svc y) = Some (v', s') \<and>
    s_backend s' = snd (gp_submitReport (s_port (y_svc y)) x report (s_backend (y_svc y))) \<and>
    replay_floor (token r) s' = Some c"
proof -
  note inv = sys_reachD(1) [OF y]
  let ?p = "of_nat i # gamepadWire report"
  let ?s1 = "updatePostDecryptV4 (dg_now d) (token r) c (dg_ip d) (dg_port d) (y_svc y)"
  have i: "i < 16" "active (controllers r ! i)" "serialNo (controllers r ! i) = x"
    using h inv r by (auto simp: holds_def svc_inv_def rows_ok_def row_ok_def)
  obtain l seen where info: "getDecryptInfo (token r) (s_hot (y_svc y)) = Some (sessionKey r, l, seen)"
    using getDecryptInfo_row [OF inv r] by blast
  have "\<not> (seen \<and> c \<le> l)" using fresh info by (auto simp: replay_floor_def)
  note o = open_client_datagram [OF laws info this ct]
  have len: "length ?p = 13" by (simp add: gamepadWire_def writeLE16_def)
  have ld: "byte_at ?p 0 = Some (of_nat i)" "loadGamepadReport ?p 1 = Some report"
    using loadGamepadReport_wire [of "[of_nat i]" 1 report "[]"] by simp_all
  have n: "unat (of_nat i :: u8) = i" using i(1) by (simp add: unat_of_nat)
  have rx: "rx_only (y_svc y) ?s1" by (rule updatePostDecryptV4_rx_only)
  have inv1: "svc_inv {#} ?s1" by (rule rx_only_inv [OF rx inv])
  have same: "s_conns ?s1 = s_conns (y_svc y)" "s_port ?s1 = s_port (y_svc y)" using rx by (simp_all add: rx_only_def)
  have bk: "s_backend ?s1 = s_backend (y_svc y)"
    by (simp add: updatePostDecryptV4_def recordHotDatagram_def split: option.split)
  have r1: "r \<in> snd ` set (s_conns ?s1)" unfolding same by (rule r)
  have sub: "s_backend (snd (handleGamepadData (dg_now d) (token r) i report ?s1)) =
      snd (gp_submitReport (s_port (y_svc y)) x report (s_backend (y_svc y)))"
    using submitHotFrame_row [OF inv1 r1] i unfolding handleGamepadData_def
    by (simp add: same bk case_prod_beta)
  obtain v' s' where q: "receive_turn so (Some d) (v, y_svc y) = Some (v', s')" using receive_turn_total by blast
  have "s' = snd (handleGamepadDataAndUpdate (dg_now d) (token r) c (dg_ip d) (dg_port d) i report (y_svc y))"
    using q o(2) len ld n o(1) by (simp add: d receive_turn_def handleDatagram_def case_prod_beta)
  moreover have "replay_floor (token r) s' = Some c"
    by (rule conjunct1 [OF turn_floor(2) [OF y q]]) (use o len in \<open>simp add: taken_now_def d\<close>)
  ultimately show ?thesis using q sub by (auto simp: fused_hot_path)
qed

section \<open>Every datagram is counted\<close>






end
