(* ===== verification/Net_Send.thy ===== *)
theory Net_Send
  imports Net_Receive "HOL-Library.Sublist"
begin

text \<open>
  The send side: \<^verbatim>\<open>adapters/client_adapter.cpp\<close>.  Each message the service hands to its client port becomes an
  inner message, is sealed under the session's key with the slot's next counter, and leaves as one
  datagram.  The result of \<^verbatim>\<open>sendto\<close> is a parameter.  The gate of a slot and the acknowledgement parked
  behind it are taken here as one thread sees them; \<open>Tx_Gate\<close> treats their interleaving.
\<close>

section \<open>Counting\<close>

definition recordOutbound :: "u16 \<Rightarrow> nat \<Rightarrow> wire_stats \<Rightarrow> wire_stats" where
  "recordOutbound msgType n w0 =
     (let w = w0\<lparr>w_txPackets := w_txPackets w0 + 1, w_txBytes := w_txBytes w0 + of_nat n\<rparr> in
      if msgType = MSG_HEARTBEAT_ACK then w\<lparr>w_txHeartbeatAck := w_txHeartbeatAck w + 1\<rparr>
      else if msgType = MSG_RUMBLE then w\<lparr>w_txRumble := w_txRumble w + 1\<rparr>
      else if msgType = MSG_LIGHTBAR then w\<lparr>w_txLightbar := w_txLightbar w + 1\<rparr>
      else if msgType = MSG_TRIGGER_EFFECTS then w\<lparr>w_txTriggerEffects := w_txTriggerEffects w + 1\<rparr>
      else if msgType = MSG_PLAYER_LEDS then w\<lparr>w_txPlayerLeds := w_txPlayerLeds w + 1\<rparr>
      else if msgType = MSG_SPEAKER_AUDIO then w\<lparr>w_txSpeakerAudio := w_txSpeakerAudio w + 1\<rparr>
      else if msgType = MSG_HAPTIC_AUDIO then w\<lparr>w_txHapticAudio := w_txHapticAudio w + 1\<rparr>
      else if msgType = MSG_MIC_LED then w\<lparr>w_txMicLed := w_txMicLed w + 1\<rparr>
      else if msgType = MSG_SESSION_CLOSE then w\<lparr>w_txSessionClose := w_txSessionClose w + 1\<rparr>
      else w)"

section \<open>Sealing\<close>

text \<open>The adapter: whether it has a socket, the counters, and the datagrams that have left, with their address.\<close>

record sender =
  tx_sock :: bool
  tx_wire :: wire_stats
  tx_sent :: "(u64 \<times> u8 list) list"

type_synonym send_port = "u64 \<Rightarrow> u8 list \<Rightarrow> bool"

definition tx_bump :: "(wire_stats \<Rightarrow> wire_stats) \<Rightarrow> sender \<Rightarrow> sender" where
  "tx_bump f x = x\<lparr>tx_wire := f (tx_wire x)\<rparr>"

definition sealAndSend :: "sodium \<Rightarrow> send_port \<Rightarrow> u32 \<Rightarrow> u8 list \<Rightarrow> u8 list \<Rightarrow> sender \<times> hot_slot \<Rightarrow> (sender \<times> hot_slot) option" where
  "sealAndSend so sendto tok key inner = (\<lambda>(x, h).
     do { msgType \<leftarrow> readBE16 inner 0;
          if \<not> tx_sock x then Some (tx_bump (\<lambda>w. w\<lparr>w_txUnroutable := w_txUnroutable w + 1\<rparr>) x, h)
          else if length inner > MAX_INNER_MESSAGE_BYTES
          then Some (tx_bump (\<lambda>w. w\<lparr>w_txOversize := w_txOversize w + 1\<rparr>) x, h)
          else if hs_clientAddr h = 0 then Some (tx_bump (\<lambda>w. w\<lparr>w_txUnroutable := w_txUnroutable w + 1\<rparr>) x, h)
          else let counter = hs_txCounter h + 1; h1 = h\<lparr>hs_txCounter := counter\<rparr> in
            case encryptPacket so key CRYPTO_DIR_SERVER_TO_CLIENT counter tok inner of
              None \<Rightarrow> Some (tx_bump (\<lambda>w. w\<lparr>w_txEncryptFailed := w_txEncryptFailed w + 1\<rparr>) x, h1)
            | Some ct \<Rightarrow>
                let pkt = writeBE32 tok @ writeBE32 counter @ ct in
                if sendto (hs_clientAddr h) pkt
                then Some (tx_bump (recordOutbound msgType (length pkt)) (x\<lparr>tx_sent := tx_sent x @ [(hs_clientAddr h, pkt)]\<rparr>), h1)
                else Some (tx_bump (\<lambda>w. w\<lparr>w_txSendFailed := w_txSendFailed w + 1\<rparr>) x, h1) })"

section \<open>The parked acknowledgement\<close>

definition ACK_PRESENT :: u64 where
  "ACK_PRESENT = push_bit 63 1"

definition packAck :: "bool \<Rightarrow> u8 \<Rightarrow> u16 \<Rightarrow> u16 \<Rightarrow> u64" where
  "packAck backendAvailable pads epch bitmap =
     ACK_PRESENT OR (if backendAvailable then 1 else 0) OR push_bit 8 (ucast pads) OR push_bit 16 (ucast epch) OR
     push_bit 32 (ucast bitmap)"

definition ack_inner :: "u64 \<Rightarrow> u8 list" where
  "ack_inner ack =
     [ucast (drop_bit 8 MSG_HEARTBEAT_ACK), ucast MSG_HEARTBEAT_ACK, 0, 6, ucast (ack AND 1), ucast (drop_bit 8 ack),
      ucast (drop_bit 24 ack), ucast (drop_bit 16 ack), ucast (drop_bit 40 ack), ucast (drop_bit 32 ack)]"

text \<open>
  \<^verbatim>\<open>releaseGate\<close> of the thread that holds the gate, with no other thread in between: the second look at the
  parked acknowledgement finds none, so the loop ends after one round.
\<close>

definition releaseGate :: "sodium \<Rightarrow> send_port \<Rightarrow> u32 \<Rightarrow> u8 list \<Rightarrow> sender \<times> hot_slot \<Rightarrow> (sender \<times> hot_slot) option" where
  "releaseGate so sendto tok key = (\<lambda>(x, h).
     let ack = hs_txDeferredAck h; h1 = h\<lparr>hs_txDeferredAck := 0\<rparr> in
     do { (x2, h2) \<leftarrow> (if ack \<noteq> 0 then sealAndSend so sendto tok key (ack_inner ack) (x, h1) else Some (x, h1));
          Some (x2, h2\<lparr>hs_txGate := 0\<rparr>) })"

text \<open>\<^verbatim>\<open>holdGate\<close> spins while another thread has the gate; alone, it takes a free gate and would not return otherwise.\<close>

definition sendSealed :: "sodium \<Rightarrow> send_port \<Rightarrow> u32 \<Rightarrow> u8 list \<Rightarrow> u8 list \<Rightarrow> sender \<times> hot_slot \<Rightarrow> (sender \<times> hot_slot) option" where
  "sendSealed so sendto tok key inner = (\<lambda>(x, h).
     if hs_txGate h \<noteq> 0 then None
     else do { xh \<leftarrow> sealAndSend so sendto tok key inner (x, h\<lparr>hs_txGate := 1\<rparr>); releaseGate so sendto tok key xh })"

definition sendHeartbeatAck ::
  "sodium \<Rightarrow> send_port \<Rightarrow> session_endpoint \<Rightarrow> bool \<Rightarrow> u8 \<Rightarrow> u16 \<Rightarrow> u16 \<Rightarrow> sender \<times> hot_slot \<Rightarrow> (sender \<times> hot_slot) option" where
  "sendHeartbeatAck so sendto to avail pads epch bitmap = (\<lambda>(x, h).
     let h1 = h\<lparr>hs_txDeferredAck := packAck avail pads epch bitmap\<rparr>
     in if hs_txGate h1 = 0 then releaseGate so sendto (ep_token to) (ep_key to) (x, h1\<lparr>hs_txGate := 1\<rparr>)
        else Some (x, h1))"

section \<open>The messages\<close>

definition sendSessionClose_inner :: "u8 \<Rightarrow> u8 list" where
  "sendSessionClose_inner reason = inner_message MSG_SESSION_CLOSE [reason]"

definition sendRumble_inner :: "nat \<Rightarrow> rumble_report \<Rightarrow> u8 list" where
  "sendRumble_inner i report =
     inner_message MSG_RUMBLE ([of_nat i] @ writeBE16 (strongMagnitude report) @ writeBE16 (weakMagnitude report) @
       writeBE16 (durationMs report))"

definition sendLightbar_inner :: "nat \<Rightarrow> u8 \<Rightarrow> u8 \<Rightarrow> u8 \<Rightarrow> u8 list" where
  "sendLightbar_inner i r g b = inner_message MSG_LIGHTBAR [of_nat i, r, g, b]"

definition sendTriggerEffects_inner :: "nat \<Rightarrow> trigger_effects_report \<Rightarrow> u8 list" where
  "sendTriggerEffects_inner i report = inner_message MSG_TRIGGER_EFFECTS ([of_nat i] @ te_left report @ te_right report)"

definition sendPlayerLeds_inner :: "nat \<Rightarrow> u8 \<Rightarrow> u8 list" where
  "sendPlayerLeds_inner i ledMask = inner_message MSG_PLAYER_LEDS [of_nat i, ledMask]"

definition sendMicLed_inner :: "nat \<Rightarrow> u8 \<Rightarrow> u8 list" where
  "sendMicLed_inner i state = inner_message MSG_MIC_LED [of_nat i, state]"

text \<open>\<^verbatim>\<open>sendAudioMessage\<close>: an empty and an oversized packet never leave.\<close>

definition sendAudioMessage_inner :: "u16 \<Rightarrow> nat \<Rightarrow> u16 \<Rightarrow> u8 list \<Rightarrow> u8 list option" where
  "sendAudioMessage_inner msgType i seq opus =
     (if opus = [] then None
      else if AUDIO_WIRE_HEADER_BYTES + length opus > MAX_INNER_PAYLOAD_BYTES then None
      else Some (inner_message msgType (encodeAudioFrameHeader (of_nat i) seq @ opus)))"

text \<open>What leaves of an effect of the service: to whom, and the inner message.\<close>

definition effect_inner :: "effect \<Rightarrow> (session_endpoint \<times> u8 list) option" where
  "effect_inner e =
     (case e of
        SendHeartbeatAck to avail pads epch bitmap \<Rightarrow> Some (to, ack_inner (packAck avail pads epch bitmap))
      | SendSessionClose to reason \<Rightarrow> Some (to, sendSessionClose_inner reason)
      | SendRumble to i report \<Rightarrow> Some (to, sendRumble_inner i report)
      | SendLightbar to i r g b \<Rightarrow> Some (to, sendLightbar_inner i r g b)
      | SendTriggerEffects to i report \<Rightarrow> Some (to, sendTriggerEffects_inner i report)
      | SendPlayerLeds to i leds \<Rightarrow> Some (to, sendPlayerLeds_inner i leds)
      | SendSpeakerAudio to i seq opus \<Rightarrow> map_option (Pair to) (sendAudioMessage_inner MSG_SPEAKER_AUDIO i seq opus)
      | SendHapticAudio to i seq opus \<Rightarrow> map_option (Pair to) (sendAudioMessage_inner MSG_HAPTIC_AUDIO i seq opus)
      | SendMicLed to i state \<Rightarrow> Some (to, sendMicLed_inner i state)
      | LogMsg _ _ \<Rightarrow> None)"

text \<open>One call of the client port, on the slot the message is for.\<close>

definition send_effect :: "sodium \<Rightarrow> send_port \<Rightarrow> effect \<Rightarrow> sender \<times> hot_slot \<Rightarrow> (sender \<times> hot_slot) option" where
  "send_effect so sendto e xh =
     (case e of
        SendHeartbeatAck to avail pads epch bitmap \<Rightarrow> sendHeartbeatAck so sendto to avail pads epch bitmap xh
      | _ \<Rightarrow> (case effect_inner e of
                None \<Rightarrow> Some xh
              | Some (to, inner) \<Rightarrow> sendSealed so sendto (ep_token to) (ep_key to) inner xh))"

section \<open>Well-formed messages\<close>

lemma bit_ACK_PRESENT [simp]: "bit ACK_PRESENT n \<longleftrightarrow> n = 63"
  by (simp only: ACK_PRESENT_def bit_push_bit_iff bit_1_iff) auto








section \<open>A stream of sealed messages\<close>

fun seal_all :: "sodium \<Rightarrow> send_port \<Rightarrow> u32 \<Rightarrow> u8 list \<Rightarrow> u8 list list \<Rightarrow> sender \<times> hot_slot \<Rightarrow> (sender \<times> hot_slot) option" where
  "seal_all so sendto tok key [] xh = Some xh"
| "seal_all so sendto tok key (m # ms) xh = do { xh1 \<leftarrow> sealAndSend so sendto tok key m xh; seal_all so sendto tok key ms xh1 }"

text \<open>One message: the counter stays, or moves by one; at most one datagram leaves, under the new counter.\<close>

lemma seal_one:
  assumes laws: "sodium_laws so" and q: "sealAndSend so sendto tok key m (x, h) = Some (x', h')"
  shows "(hs_txCounter h' = hs_txCounter h \<and> tx_sent x' = tx_sent x) \<or>
    (hs_txCounter h' = hs_txCounter h + 1 \<and>
       (tx_sent x' = tx_sent x \<or>
        (\<exists>ct. tx_sent x' = tx_sent x @ [(hs_clientAddr h, client_datagram tok (hs_txCounter h + 1) ct)] \<and>
           decryptPacket so key CRYPTO_DIR_SERVER_TO_CLIENT (hs_txCounter h + 1) tok ct = Some m \<and>
           length ct \<le> MAX_INNER_MESSAGE_BYTES + AUTH_TAG_SIZE \<and> hs_clientAddr h \<noteq> 0)))"
proof -
  let ?enc = "encryptPacket so key CRYPTO_DIR_SERVER_TO_CLIENT (hs_txCounter h + 1) tok m"
  obtain ty where ty: "readBE16 m 0 = Some ty" using q by (cases "readBE16 m 0") (simp_all add: sealAndSend_def)
  show ?thesis
  proof (cases "tx_sock x \<and> length m \<le> MAX_INNER_MESSAGE_BYTES \<and> hs_clientAddr h \<noteq> 0")
    case False
    then have "h' = h \<and> tx_sent x' = tx_sent x"
      using q ty by (simp add: sealAndSend_def not_less split: if_splits) (auto simp: tx_bump_def)
    then show ?thesis by simp
  next
    case True
    note go = True
    show ?thesis
    proof (cases ?enc)
      case None
      then show ?thesis using q ty go by (simp add: sealAndSend_def Let_def) (auto simp: tx_bump_def)
    next
      case (Some ct)
      note e = encrypt_decrypt [OF laws Some]
      let ?pkt = "client_datagram tok (hs_txCounter h + 1) ct"
      have "h' = h\<lparr>hs_txCounter := hs_txCounter h + 1\<rparr>"
        "tx_sent x' = (if sendto (hs_clientAddr h) ?pkt then tx_sent x @ [(hs_clientAddr h, ?pkt)] else tx_sent x)"
        using q ty go Some by (simp_all add: sealAndSend_def Let_def client_datagram_def split: if_splits)
          (auto simp: tx_bump_def)
      then show ?thesis using e go by (cases "sendto (hs_clientAddr h) ?pkt") (auto intro!: exI [of _ ct])
    qed
  qed
qed

text \<open>A datagram of the stream: its address, how many messages after the start its counter was drawn, the message, the text.\<close>

record sealed =
  se_addr :: u64
  se_step :: nat
  se_msg :: "u8 list"
  se_ct :: "u8 list"

definition sealed_packet :: "u32 \<Rightarrow> u32 \<Rightarrow> sealed \<Rightarrow> u64 \<times> u8 list" where
  "sealed_packet tok c e = (se_addr e, client_datagram tok (c + of_nat (se_step e)) (se_ct e))"

definition sealed_ok :: "sodium \<Rightarrow> u32 \<Rightarrow> u8 list \<Rightarrow> u32 \<Rightarrow> nat \<Rightarrow> sealed \<Rightarrow> bool" where
  "sealed_ok so tok key c n e \<longleftrightarrow> se_addr e \<noteq> 0 \<and> 1 \<le> se_step e \<and> se_step e \<le> n \<and>
     length (se_ct e) \<le> MAX_INNER_MESSAGE_BYTES + AUTH_TAG_SIZE \<and>
     decryptPacket so key CRYPTO_DIR_SERVER_TO_CLIENT (c + of_nat (se_step e)) tok (se_ct e) = Some (se_msg e)"

definition later :: "sealed \<Rightarrow> sealed" where
  "later e = e\<lparr>se_step := Suc (se_step e)\<rparr>"

lemma later_facts:
  "sealed_packet tok c (later e) = sealed_packet tok (c + 1) e" "se_msg (later e) = se_msg e" "se_step (later e) = Suc (se_step e)"
  "sealed_ok so tok key (c + 1) n e \<Longrightarrow> sealed_ok so tok key c (Suc n) (later e)"
  by (simp_all add: sealed_packet_def sealed_ok_def later_def add_ac)

lemma seal_all_stream:
  assumes laws: "sodium_laws so" and q: "seal_all so sendto tok key ms (x, h) = Some (x', h')"
  shows "\<exists>new. tx_sent x' = tx_sent x @ map (sealed_packet tok (hs_txCounter h)) new \<and> subseq (map se_msg new) ms \<and>
    sorted_wrt (<) (map se_step new) \<and> (\<forall>e\<in>set new. sealed_ok so tok key (hs_txCounter h) (length ms) e)"
  using q
proof (induction ms arbitrary: x h)
  case Nil
  then show ?case by (intro exI [of _ "[]"]) simp
next
  case (Cons m ms)
  obtain x1 h1 where s1: "sealAndSend so sendto tok key m (x, h) = Some (x1, h1)"
    and rest: "seal_all so sendto tok key ms (x1, h1) = Some (x', h')"
    using Cons.prems by (auto simp: Option.bind_eq_Some_conv)
  obtain new where new: "tx_sent x' = tx_sent x1 @ map (sealed_packet tok (hs_txCounter h1)) new"
    "subseq (map se_msg new) ms" "sorted_wrt (<) (map se_step new)"
    "\<forall>e\<in>set new. sealed_ok so tok key (hs_txCounter h1) (length ms) e"
    using Cons.IH [OF rest] by blast
  let ?up = "map later new"
  have up: "map se_msg ?up = map se_msg new" "map se_step ?up = map Suc (map se_step new)"
    "map (sealed_packet tok (hs_txCounter h)) ?up = map (sealed_packet tok (hs_txCounter h + 1)) new"
    by (simp_all add: later_facts)
  have srt: "sorted_wrt (<) (map Suc (map se_step new))" using new(3) by (simp add: sorted_wrt_map)
  from seal_one [OF laws s1] consider
      (same) "hs_txCounter h1 = hs_txCounter h" "tx_sent x1 = tx_sent x"
    | (gone) "hs_txCounter h1 = hs_txCounter h + 1" "tx_sent x1 = tx_sent x"
    | (sent) ct where "hs_txCounter h1 = hs_txCounter h + 1" "hs_clientAddr h \<noteq> 0"
        "tx_sent x1 = tx_sent x @ [(hs_clientAddr h, client_datagram tok (hs_txCounter h + 1) ct)]"
        "decryptPacket so key CRYPTO_DIR_SERVER_TO_CLIENT (hs_txCounter h + 1) tok ct = Some m"
        "length ct \<le> MAX_INNER_MESSAGE_BYTES + AUTH_TAG_SIZE"
    by blast
  then show ?case
  proof cases
    case same
    have "\<forall>e\<in>set new. sealed_ok so tok key (hs_txCounter h) (length (m # ms)) e"
      using new(4) same(1) by (auto simp: sealed_ok_def)
    moreover have "subseq (map se_msg new) (m # ms)" using new(2) by (rule list_emb_Cons)
    ultimately show ?thesis using new(1,3) same by (intro exI [of _ new]) simp
  next
    case gone
    have "\<forall>e\<in>set ?up. sealed_ok so tok key (hs_txCounter h) (length (m # ms)) e"
      using new(4) gone(1) by (auto intro: later_facts(4))
    moreover have "subseq (map se_msg ?up) (m # ms)" unfolding up(1) using new(2) by (rule list_emb_Cons)
    moreover have "sorted_wrt (<) (map se_step ?up)" unfolding up(2) by (rule srt)
    moreover have "tx_sent x' = tx_sent x @ map (sealed_packet tok (hs_txCounter h)) ?up"
      unfolding up(3) using new(1) gone by simp
    ultimately show ?thesis by blast
  next
    case (sent ct)
    let ?e = "\<lparr>se_addr = hs_clientAddr h, se_step = 1, se_msg = m, se_ct = ct\<rparr>"
    have "sealed_ok so tok key (hs_txCounter h) (length (m # ms)) ?e" using sent by (simp add: sealed_ok_def)
    then have "\<forall>e\<in>set (?e # ?up). sealed_ok so tok key (hs_txCounter h) (length (m # ms)) e"
      using new(4) sent(1) by (auto intro: later_facts(4))
    moreover have "\<forall>k\<in>set (map Suc (map se_step new)). 1 < k" using new(4) by (auto simp: sealed_ok_def)
    then have "sorted_wrt (<) (map se_step (?e # ?up))" using srt unfolding list.map(2) up(2) by simp
    moreover have "subseq (map se_msg (?e # ?up)) (m # ms)" using new(2) unfolding list.map(2) up(1) by simp
    moreover have "map (sealed_packet tok (hs_txCounter h)) (?e # ?up) =
        (hs_clientAddr h, client_datagram tok (hs_txCounter h + 1) ct) # map (sealed_packet tok (hs_txCounter h1)) new"
      unfolding list.map(2) up(3) sent(1) by (simp add: sealed_packet_def)
    then have "tx_sent x' = tx_sent x @ map (sealed_packet tok (hs_txCounter h)) (?e # ?up)"
      using new(1) sent(3) by simp
    ultimately show ?thesis by blast
  qed
qed

text \<open>
  C7.  The stream to a client is sealed soundly: of any sequence of fewer than four billion messages sealed
  on a slot under one key, the datagrams that leave are those of a subsequence of the messages, in order;
  each goes to an address, is no longer than a datagram may be and opens, under the counter in its header,
  to its message; and no two of them, nor one of them and one of the client's, share a nonce.
\<close>

theorem sealed_stream:
  assumes laws: "sodium_laws so" and q: "seal_all so sendto tok key ms (x, h) = Some (x', h')" and n: "length ms < 2 ^ 32"
  shows "\<exists>new. tx_sent x' = tx_sent x @ map (sealed_packet tok (hs_txCounter h)) new \<and> subseq (map se_msg new) ms \<and>
    (\<forall>e\<in>set new. sealed_ok so tok key (hs_txCounter h) (length ms) e \<and>
       length (snd (sealed_packet tok (hs_txCounter h) e)) \<le> 1500) \<and>
    distinct (map (\<lambda>e. build_nonce CRYPTO_DIR_SERVER_TO_CLIENT (hs_txCounter h + of_nat (se_step e))) new) \<and>
    (\<forall>e\<in>set new. \<forall>c. build_nonce CRYPTO_DIR_SERVER_TO_CLIENT (hs_txCounter h + of_nat (se_step e)) \<noteq>
       build_nonce CRYPTO_DIR_CLIENT_TO_SERVER c)"
proof -
  obtain new where new: "tx_sent x' = tx_sent x @ map (sealed_packet tok (hs_txCounter h)) new" "subseq (map se_msg new) ms"
    "sorted_wrt (<) (map se_step new)" "\<forall>e\<in>set new. sealed_ok so tok key (hs_txCounter h) (length ms) e"
    using seal_all_stream [OF laws q] by blast
  have len: "\<forall>e\<in>set new. length (snd (sealed_packet tok (hs_txCounter h) e)) \<le> 1500"
    using new(4) by (auto simp: sealed_ok_def sealed_packet_def client_datagram_def)
  have lim: "k < 2 ^ 32" if "k \<in> set (map se_step new)" for k using new(4) n that by (auto simp: sealed_ok_def)
  have inj: "inj_on (\<lambda>k. build_nonce CRYPTO_DIR_SERVER_TO_CLIENT (hs_txCounter h + of_nat k)) (set (map se_step new))"
  proof (rule inj_onI)
    fix j k
    assume jk: "j \<in> set (map se_step new)" "k \<in> set (map se_step new)"
      "build_nonce CRYPTO_DIR_SERVER_TO_CLIENT (hs_txCounter h + of_nat j) =
       build_nonce CRYPTO_DIR_SERVER_TO_CLIENT (hs_txCounter h + of_nat k)"
    then have "take_bit 32 j = take_bit 32 k"
      using word_of_nat_eq_iff [where 'a = 32, of j k] by (simp add: build_nonce_inj)
    then show "j = k" unfolding take_bit_nat_eq_self [OF lim [OF jk(1)]] take_bit_nat_eq_self [OF lim [OF jk(2)]] .
  qed
  have "distinct (map se_step new)" using new(3) by (simp add: strict_sorted_iff)
  then have "distinct (map (\<lambda>k. build_nonce CRYPTO_DIR_SERVER_TO_CLIENT (hs_txCounter h + of_nat k)) (map se_step new))"
    using inj by (simp only: distinct_map)
  then show ?thesis using new(1,2,4) len by (intro exI [of _ new]) (simp add: comp_def build_nonce_inj)
qed

theorem sealed_stream_witness:
  "\<exists>x' h'. seal_all toy_sodium (\<lambda>_ _. True) 7 [1, 2] [[0, 9, 0, 0], [0, 20, 0, 0]]
      (\<lparr>tx_sock = True, tx_wire = no_wire_stats, tx_sent = []\<rparr>, default_hot_slot\<lparr>hs_clientAddr := 5\<rparr>) = Some (x', h') \<and>
    (\<exists>new. tx_sent x' = map (sealed_packet 7 0) new \<and> subseq (map se_msg new) [[0, 9, 0, 0], [0, 20, 0, 0]])"
proof -
  let ?x = "\<lparr>tx_sock = True, tx_wire = no_wire_stats, tx_sent = []\<rparr>" and ?h = "default_hot_slot\<lparr>hs_clientAddr := 5\<rparr>"
  let ?ms = "[[0, 9, 0, 0], [0, 20, 0, 0]] :: u8 list list"
  have "\<exists>x' h'. seal_all toy_sodium (\<lambda>_ _. True) 7 [1, 2] ?ms (?x, ?h) = Some (x', h')"
    by (simp add: sealAndSend_def readBE16_def Let_def encryptPacket_def toy_sodium_def tx_bump_def)
  then obtain x' h' where q: "seal_all toy_sodium (\<lambda>_ _. True) 7 [1, 2] ?ms (?x, ?h) = Some (x', h')" by blast
  from sealed_stream [OF toy_sodium_laws q] q show ?thesis by (auto simp: default_hot_slot_def)
qed

end
