(* ===== verification/Tx_Gate.thy ===== *)
theory Tx_Gate
  imports Sat_Prelude "HOL-Library.Sublist"
begin

text \<open>
  The send gate of a slot in \<^verbatim>\<open>adapters/client_adapter.cpp\<close>, one step per atomic access, for any number of
  threads.  A sender spins for the gate, seals its message and releases; the receive thread must not spin,
  so \<^verbatim>\<open>sendHeartbeatAck\<close> parks its acknowledgement and only tries the gate; whoever releases the gate sends
  what is parked, and looks again after it has let go.  Accesses are sequentially consistent, as their
  memory order says.  The lists of acknowledgements asked for, taken and sent are recorded for the
  statements only.
\<close>

section \<open>Threads\<close>

datatype gate_thread =
    Resting
  | Stored
  | Wanting
  | Sealing
  | Taking
  | Acking u64
  | Freeing
  | Looking
  | Retrying

record gate =
  g_gate :: u32
  g_parked :: u64
  g_threads :: "gate_thread list"
  g_asked :: "u64 list"
  g_taken :: "u64 list"
  g_sent :: "u64 list"

definition gate_start :: "nat \<Rightarrow> gate" where
  "gate_start n = \<lparr>g_gate = 0, g_parked = 0, g_threads = replicate n Resting, g_asked = [], g_taken = [], g_sent = []\<rparr>"

definition now_at :: "nat \<Rightarrow> gate_thread \<Rightarrow> gate \<Rightarrow> gate" where
  "now_at i t q = q\<lparr>g_threads := (g_threads q)[i := t]\<rparr>"

inductive gate_step :: "nat \<Rightarrow> gate \<Rightarrow> gate \<Rightarrow> bool" where
  park: "g_threads q ! i = Resting \<Longrightarrow> a \<noteq> 0 \<Longrightarrow>
    gate_step i q ((now_at i Stored q)\<lparr>g_parked := a, g_asked := g_asked q @ [a]\<rparr>)"
| park_hold: "g_threads q ! i = Stored \<Longrightarrow> g_gate q = 0 \<Longrightarrow> gate_step i q ((now_at i Taking q)\<lparr>g_gate := 1\<rparr>)"
| park_leave: "g_threads q ! i = Stored \<Longrightarrow> g_gate q \<noteq> 0 \<Longrightarrow> gate_step i q (now_at i Resting q)"
| want: "g_threads q ! i = Resting \<Longrightarrow> gate_step i q (now_at i Wanting q)"
| hold: "g_threads q ! i = Wanting \<Longrightarrow> g_gate q = 0 \<Longrightarrow> gate_step i q ((now_at i Sealing q)\<lparr>g_gate := 1\<rparr>)"
| seal: "g_threads q ! i = Sealing \<Longrightarrow> gate_step i q (now_at i Taking q)"
| take_none: "g_threads q ! i = Taking \<Longrightarrow> g_parked q = 0 \<Longrightarrow> gate_step i q (now_at i Freeing q)"
| take_one: "g_threads q ! i = Taking \<Longrightarrow> g_parked q \<noteq> 0 \<Longrightarrow>
    gate_step i q ((now_at i (Acking (g_parked q)) q)\<lparr>g_parked := 0, g_taken := g_taken q @ [g_parked q]\<rparr>)"
| send_ack: "g_threads q ! i = Acking a \<Longrightarrow> gate_step i q ((now_at i Freeing q)\<lparr>g_sent := g_sent q @ [a]\<rparr>)"
| let_go: "g_threads q ! i = Freeing \<Longrightarrow> gate_step i q ((now_at i Looking q)\<lparr>g_gate := 0\<rparr>)"
| look_none: "g_threads q ! i = Looking \<Longrightarrow> g_parked q = 0 \<Longrightarrow> gate_step i q (now_at i Resting q)"
| look_one: "g_threads q ! i = Looking \<Longrightarrow> g_parked q \<noteq> 0 \<Longrightarrow> gate_step i q (now_at i Retrying q)"
| again: "g_threads q ! i = Retrying \<Longrightarrow> g_gate q = 0 \<Longrightarrow> gate_step i q ((now_at i Taking q)\<lparr>g_gate := 1\<rparr>)"
| leave: "g_threads q ! i = Retrying \<Longrightarrow> g_gate q \<noteq> 0 \<Longrightarrow> gate_step i q (now_at i Resting q)"

inductive gate_reach :: "nat \<Rightarrow> gate \<Rightarrow> bool" for n where
  start: "gate_reach n (gate_start n)"
| step: "gate_reach n q \<Longrightarrow> i < n \<Longrightarrow> gate_step i q q' \<Longrightarrow> gate_reach n q'"

section \<open>The invariant\<close>

text \<open>The threads that have the gate, and the ones that will still look at what is parked.\<close>

fun has_gate :: "gate_thread \<Rightarrow> bool" where
  "has_gate Sealing = True"
| "has_gate Taking = True"
| "has_gate (Acking _) = True"
| "has_gate Freeing = True"
| "has_gate _ = False"

definition will_look :: "gate_thread \<Rightarrow> bool" where
  "will_look t \<longleftrightarrow> has_gate t \<or> t \<in> {Stored, Looking, Retrying}"

definition holders :: "gate \<Rightarrow> nat set" where
  "holders q = {i. i < length (g_threads q) \<and> has_gate (g_threads q ! i)}"

definition owner_ok :: "gate \<Rightarrow> bool" where
  "owner_ok q \<longleftrightarrow> (if g_gate q = 0 then holders q = {} else \<exists>i. holders q = {i})"

definition parked_list :: "gate \<Rightarrow> u64 list" where
  "parked_list q = (if g_parked q \<noteq> 0 then [g_parked q] else [])"

definition list_ok :: "gate \<Rightarrow> bool" where
  "list_ok q \<longleftrightarrow> subseq (g_taken q @ parked_list q) (g_asked q) \<and>
     (g_asked q \<noteq> [] \<longrightarrow> g_taken q @ parked_list q \<noteq> [] \<and> last (g_taken q @ parked_list q) = last (g_asked q))"

definition look_ok :: "gate \<Rightarrow> bool" where
  "look_ok q \<longleftrightarrow> (g_parked q \<noteq> 0 \<longrightarrow> (\<exists>t\<in>set (g_threads q). will_look t))"

definition hand_ok :: "gate \<Rightarrow> bool" where
  "hand_ok q \<longleftrightarrow> (if \<exists>i<length (g_threads q). \<exists>a. g_threads q ! i = Acking a
     then \<forall>i<length (g_threads q). \<forall>a. g_threads q ! i = Acking a \<longrightarrow> g_taken q = g_sent q @ [a]
     else g_taken q = g_sent q)"

definition gate_ok :: "nat \<Rightarrow> gate \<Rightarrow> bool" where
  "gate_ok n q \<longleftrightarrow> length (g_threads q) = n \<and> owner_ok q \<and> list_ok q \<and> look_ok q \<and> hand_ok q"

lemma gate_ok_start: "gate_ok n (gate_start n)"
  by (auto simp: gate_ok_def owner_ok_def holders_def list_ok_def look_ok_def hand_ok_def parked_list_def gate_start_def)

lemma holders_update:
  "i < length (g_threads q) \<Longrightarrow>
     holders (now_at i t q) = (if has_gate t then insert i (holders q) else holders q - {i})"
  by (auto simp: holders_def now_at_def nth_list_update split: if_splits)

lemma holders_fields [simp]:
  "holders (q\<lparr>g_gate := g\<rparr>) = holders q" "holders (q\<lparr>g_parked := p\<rparr>) = holders q"
  "holders (q\<lparr>g_asked := as\<rparr>) = holders q" "holders (q\<lparr>g_taken := ts\<rparr>) = holders q" "holders (q\<lparr>g_sent := ss\<rparr>) = holders q"
  by (simp_all add: holders_def)

lemma now_at_fields [simp]:
  "g_gate (now_at i t q) = g_gate q" "g_parked (now_at i t q) = g_parked q" "g_asked (now_at i t q) = g_asked q"
  "g_taken (now_at i t q) = g_taken q" "g_sent (now_at i t q) = g_sent q"
  "length (g_threads (now_at i t q)) = length (g_threads q)"
  by (simp_all add: now_at_def)

lemma in_holders: "i < length (g_threads q) \<Longrightarrow> has_gate (g_threads q ! i) \<longleftrightarrow> i \<in> holders q"
  by (simp add: holders_def)

lemma owner_step:
  assumes st: "gate_step i q q'" and ok: "owner_ok q" and i: "i < length (g_threads q)"
  shows "owner_ok q'"
  using st ok in_holders [OF i]
  by (cases rule: gate_step.cases) (auto simp: owner_ok_def holders_update [OF i] split: if_splits)

lemma list_step:
  assumes st: "gate_step i q q'" and ok: "list_ok q"
  shows "list_ok q'"
proof -
  have "subseq (g_taken q) (g_asked q)" using ok subseq_order.trans [of "g_taken q" "g_taken q @ parked_list q"]
    by (auto simp: list_ok_def)
  with st ok show ?thesis
    by (cases rule: gate_step.cases) (auto simp: list_ok_def parked_list_def subseq_append')
qed

lemma look_step:
  assumes st: "gate_step i q q'" and ok: "owner_ok q" "look_ok q" and i: "i < length (g_threads q)"
  shows "look_ok q'"
proof -
  have new: "\<exists>u\<in>set (g_threads (now_at i t q)). will_look u" if "will_look t" for t
    using that i by (auto simp: now_at_def intro!: bexI [of _ t] set_update_memI)
  have other: "\<exists>u\<in>set (g_threads (now_at i t q)). will_look u" if held: "g_gate q \<noteq> 0" "\<not> has_gate (g_threads q ! i)" for t
  proof -
    obtain j where "holders q = {j}" using ok(1) held(1) by (auto simp: owner_ok_def split: if_splits)
    then have j: "j < length (g_threads q)" "has_gate (g_threads q ! j)" by (auto simp: holders_def)
    then have "g_threads (now_at i t q) ! j = g_threads q ! j" using held(2) i by (auto simp: now_at_def nth_list_update)
    then show ?thesis using j by (intro bexI [of _ "g_threads q ! j"]) (auto simp: will_look_def in_set_conv_nth now_at_def)
  qed
  have kept: "\<exists>u\<in>set (g_threads (now_at i t q)). will_look u" if pk: "g_parked q \<noteq> 0" "\<not> will_look (g_threads q ! i)" for t
  proof -
    obtain j where "j < length (g_threads q)" "will_look (g_threads q ! j)"
      using ok(2) pk(1) by (auto simp: look_ok_def in_set_conv_nth)
    then show ?thesis using pk(2) i
      by (intro bexI [of _ "g_threads q ! j"]) (auto simp: in_set_conv_nth now_at_def nth_list_update intro!: exI [of _ j])
  qed
  show ?thesis using st new other kept
    by (cases rule: gate_step.cases) (auto simp: look_ok_def will_look_def)
qed

lemma hand_step:
  assumes st: "gate_step i q q'" and ok: "owner_ok q" "hand_ok q" and i: "i < length (g_threads q)"
  shows "hand_ok q'"
proof -
  have only: "g_threads q ! j \<noteq> Acking a" if "j < length (g_threads q)" "j \<noteq> i" "has_gate (g_threads q ! i)" for j a
  proof
    assume "g_threads q ! j = Acking a"
    then have "j \<in> holders q" "i \<in> holders q" using that i by (simp_all add: holders_def)
    then show False using ok(1) that(2) by (auto simp: owner_ok_def split: if_splits)
  qed
  have same: "hand_ok (now_at i t q)" if "\<forall>a. t \<noteq> Acking a" "\<forall>a. g_threads q ! i \<noteq> Acking a" for t
  proof -
    have "g_threads (now_at i t q) ! j = Acking a \<longleftrightarrow> g_threads q ! j = Acking a" if "j < length (g_threads q)" for j a
      using i \<open>\<forall>a. t \<noteq> Acking a\<close> \<open>\<forall>a. g_threads q ! i \<noteq> Acking a\<close> by (auto simp: now_at_def nth_list_update)
    then show ?thesis using ok(2) by (auto simp: hand_ok_def split: if_splits)
  qed
  have fields: "hand_ok (p\<lparr>g_gate := g\<rparr>) = hand_ok p" "hand_ok (p\<lparr>g_parked := k, g_asked := as\<rparr>) = hand_ok p" for p g k as
    by (auto simp: hand_ok_def)
  show ?thesis using st
  proof (cases rule: gate_step.cases)
    case take_one
    then have "\<forall>j<length (g_threads q). \<forall>a. g_threads q ! j \<noteq> Acking a" using only by (metis gate_thread.distinct has_gate.simps(2))
    then have "g_taken q = g_sent q" using ok(2) by (auto simp: hand_ok_def)
    then show ?thesis using take_one only i by (auto simp: hand_ok_def now_at_def nth_list_update)
  next
    case (send_ack a)
    have "g_taken q = g_sent q @ [a]" using ok(2) send_ack(2) i by (auto simp: hand_ok_def split: if_splits)
    moreover have "\<forall>j<length (g_threads q). \<forall>b. (g_threads q)[i := Freeing] ! j \<noteq> Acking b"
      using only send_ack(2) i by (auto simp: nth_list_update)
    ultimately show ?thesis using send_ack(1) by (auto simp: hand_ok_def now_at_def)
  qed (use same in \<open>auto simp: fields\<close>)
qed

lemma gate_reach_ok: "gate_reach n q \<Longrightarrow> gate_ok n q"
proof (induction rule: gate_reach.induct)
  case start
  show ?case by (rule gate_ok_start)
next
  case (step q i q')
  have "length (g_threads q') = length (g_threads q)" using step(3) by (cases rule: gate_step.cases) auto
  then show ?case using step owner_step list_step look_step hand_step by (auto simp: gate_ok_def)
qed

text \<open>
  C6.  No acknowledgement is lost behind the gate: in every interleaving of senders and acknowledgements at most
  one thread has the gate at a time; while one is parked some thread will still look at it; each one sent
  was asked for, in the order asked and at most once; and whenever all threads are at rest nothing is
  parked, the gate is free, and the last acknowledgement asked for is the last one sent.
\<close>

theorem acks_not_lost:
  assumes "gate_reach n q"
  shows "(\<exists>i. holders q \<subseteq> {i}) \<and> (g_parked q \<noteq> 0 \<longrightarrow> (\<exists>t\<in>set (g_threads q). will_look t)) \<and>
    subseq (g_sent q) (g_asked q) \<and>
    (set (g_threads q) \<subseteq> {Resting} \<longrightarrow> g_parked q = 0 \<and> g_gate q = 0 \<and>
       (g_asked q \<noteq> [] \<longrightarrow> g_sent q \<noteq> [] \<and> last (g_sent q) = last (g_asked q)))"
proof -
  have ok: "owner_ok q" "list_ok q" "look_ok q" "hand_ok q" using gate_reach_ok [OF assms] by (simp_all add: gate_ok_def)
  have own: "\<exists>i. holders q \<subseteq> {i}" using ok(1) by (auto simp: owner_ok_def split: if_splits)
  have "prefix (g_sent q) (g_taken q)" using ok(4) by (auto simp: hand_ok_def split: if_splits)
  then have "subseq (g_sent q) (g_taken q @ parked_list q)" by (metis prefix_imp_subseq prefix_prefix)
  then have sub: "subseq (g_sent q) (g_asked q)" using ok(2) subseq_order.trans by (auto simp: list_ok_def)
  have rest: "g_parked q = 0 \<and> g_gate q = 0 \<and> (g_asked q \<noteq> [] \<longrightarrow> g_sent q \<noteq> [] \<and> last (g_sent q) = last (g_asked q))"
    if r: "set (g_threads q) \<subseteq> {Resting}"
  proof -
    have p: "g_parked q = 0" using ok(3) r by (auto simp: look_ok_def will_look_def)
    have at: "g_threads q ! i = Resting" if "i < length (g_threads q)" for i using r that nth_mem by blast
    then have "holders q = {}" by (auto simp: holders_def)
    then have g: "g_gate q = 0" using ok(1) by (auto simp: owner_ok_def split: if_splits)
    have "g_taken q = g_sent q" using ok(4) at by (auto simp: hand_ok_def)
    then show ?thesis using ok(2) p g by (auto simp: list_ok_def parked_list_def)
  qed
  show ?thesis using own sub rest ok(3) by (auto simp: look_ok_def)
qed

theorem acks_not_lost_witness:
  "\<exists>q. gate_reach 1 q \<and> g_threads q = [Resting] \<and> g_asked q = [5] \<and> g_sent q = [5] \<and> g_parked q = 0"
proof -
  note go = gate_reach.step [of 1 _ 0, OF _ zero_less_one]
  let ?a = "gate_start 1"
  let ?b = "(now_at 0 Stored ?a)\<lparr>g_parked := 5, g_asked := g_asked ?a @ [5]\<rparr>"
  let ?c = "(now_at 0 Taking ?b)\<lparr>g_gate := 1\<rparr>"
  let ?d = "(now_at 0 (Acking (g_parked ?c)) ?c)\<lparr>g_parked := 0, g_taken := g_taken ?c @ [g_parked ?c]\<rparr>"
  let ?e = "(now_at 0 Freeing ?d)\<lparr>g_sent := g_sent ?d @ [g_parked ?c]\<rparr>"
  let ?f = "(now_at 0 Looking ?e)\<lparr>g_gate := 0\<rparr>"
  let ?g = "now_at 0 Resting ?f"
  note defs = now_at_def gate_start_def
  have a: "gate_reach 1 ?a" by (rule gate_reach.start)
  have b: "gate_reach 1 ?b" by (rule go [OF a park]) (simp_all add: defs)
  have c: "gate_reach 1 ?c" by (rule go [OF b park_hold]) (simp_all add: defs)
  have d: "gate_reach 1 ?d" by (rule go [OF c take_one]) (simp_all add: defs)
  have e: "gate_reach 1 ?e" by (rule go [OF d send_ack]) (simp_all add: defs)
  have f: "gate_reach 1 ?f" by (rule go [OF e let_go]) (simp_all add: defs)
  have g: "gate_reach 1 ?g" by (rule go [OF f look_none]) (simp_all add: defs)
  show ?thesis using acks_not_lost [OF g] g by (intro exI [of _ ?g]) (simp add: defs)
qed

end
