(* ===== verification/Mdns_Protocol.thy ===== *)
theory Mdns_Protocol
  imports Wire_Codec "HOL-Library.List_Lexorder" "HOL-Library.Product_Lexorder"
begin

text \<open>
  The multicast-DNS messages of \<^verbatim>\<open>net/mdns_protocol.cpp\<close>: names with compression pointers, the packet
  parser, the encoders of responses, announcements and probes, and the tiebreak between two hosts that probe
  for the same name.  An output buffer is the list of the bytes written so far with its capacity; an encoder
  that returns 0 is \<^const>\<open>None\<close>.  A parser reads with \<^const>\<open>byte_at\<close>: its result is \<^const>\<open>None\<close> if it reads outside
  the packet, \<open>Some None\<close> if it refuses the packet, and otherwise what it parsed.  Out-parameters of a refused
  packet are not modelled, because no caller looks at them.
\<close>

section \<open>Types\<close>

definition SERVICE_TYPE_DOMAIN :: string where
  "SERVICE_TYPE_DOMAIN = ''_satellite._udp.local.''"

abbreviation TYPE_A :: u16 where "TYPE_A \<equiv> 1"
abbreviation TYPE_PTR :: u16 where "TYPE_PTR \<equiv> 12"
abbreviation TYPE_TXT :: u16 where "TYPE_TXT \<equiv> 16"
abbreviation TYPE_SRV :: u16 where "TYPE_SRV \<equiv> 33"
abbreviation TYPE_ANY :: u16 where "TYPE_ANY \<equiv> 255"
abbreviation CLASS_IN :: u16 where "CLASS_IN \<equiv> 1"
abbreviation CACHE_FLUSH_BIT :: u16 where "CACHE_FLUSH_BIT \<equiv> 32768"
abbreviation TTL_SERVICE :: u32 where "TTL_SERVICE \<equiv> 120"
abbreviation TTL_HOST :: u32 where "TTL_HOST \<equiv> 4500"

record dns_header =
  dh_id :: u16
  dh_flags :: u16
  dh_qdCount :: u16
  dh_anCount :: u16
  dh_nsCount :: u16
  dh_arCount :: u16

record question =
  q_name :: string
  q_type :: u16
  q_cls :: u16
  q_unicastResponse :: bool

record answer =
  an_name :: string
  an_type :: u16
  an_cls :: u16
  an_ttl :: u32

record probe_record =
  pb_name :: string
  pb_type :: u16
  pb_cls :: u16
  pb_ttl :: u32
  pb_rdata :: "u8 list"

record response_inputs =
  ri_instanceName :: string
  ri_hostName :: string
  ri_udpPort :: u16
  ri_weight :: u16
  ri_priority :: u16
  ri_txtPairs :: "(string \<times> string) list"
  ri_ipv4 :: "(u8 \<times> u8 \<times> u8 \<times> u8) option"
  ri_goodbye :: bool
  ri_suppressPtr :: bool
  ri_suppressSrv :: bool
  ri_suppressTxt :: bool
  ri_suppressA :: bool

record query_match =
  qm_matched :: bool
  qm_wantUnicast :: bool

section \<open>Names\<close>

text \<open>The loop of \<^verbatim>\<open>writeDnsName\<close>: what is written so far, and the rest of the dotted name.\<close>

function write_labels :: "nat \<Rightarrow> u8 list \<Rightarrow> string \<Rightarrow> u8 list option" where
  "write_labels outCap out rest =
     (if rest = [] then Some out
      else let label = takeWhile (\<lambda>c. c \<noteq> CHR ''.'') rest; labelLen = length label in
        if labelLen > 63 then None
        else if labelLen = 0 then Some out
        else if length out + 1 + labelLen > outCap then None
        else write_labels outCap (out @ of_nat labelLen # string_bytes label) (drop (labelLen + 1) rest))"
  by auto
termination by (relation "measure (\<lambda>(c, out, rest). length rest)") auto

declare write_labels.simps [simp del]

definition writeDnsName :: "nat \<Rightarrow> string \<Rightarrow> u8 list option" where
  "writeDnsName outCap dottedName =
     (case write_labels outCap [] dottedName of
        None \<Rightarrow> None
      | Some out \<Rightarrow> if length out + 1 > outCap then None else Some (out @ [0]))"

text \<open>
  The loop of \<^verbatim>\<open>readDnsName\<close>, with its own bound \<open>safety\<close>: where it reads, the bytes consumed before the first
  jump, whether it has jumped, and the name so far.
\<close>

fun read_labels :: "nat \<Rightarrow> u8 list \<Rightarrow> nat \<Rightarrow> nat \<Rightarrow> nat \<Rightarrow> bool \<Rightarrow> string \<Rightarrow> (nat \<times> string) option option" where
  "read_labels 0 packet offset pos consumed jumped name = Some None"
| "read_labels (Suc safety) packet offset pos consumed jumped name =
     (if pos \<ge> length packet then Some None
      else do { b \<leftarrow> byte_at packet pos;
        if b = 0
        then if \<not> jumped then Some (Some (pos - offset + 1, name))
             else if consumed = 0 then Some None else Some (Some (consumed, name))
        else if b AND 0xC0 = 0xC0
        then if pos + 1 \<ge> length packet then Some None
             else do { b2 \<leftarrow> byte_at packet (pos + 1);
               let target = push_bit 8 (ucast (b AND 0x3F)) OR ucast b2 :: u16;
                   consumed' = (if \<not> jumped then pos - offset + 2 else consumed) in
               if unat target \<ge> length packet \<or> unat target \<ge> pos then Some None
               else read_labels safety packet offset (unat target) consumed' True name }
        else if b AND 0xC0 \<noteq> 0 then Some None
        else let labelLen = unat b in
          if pos + 1 + labelLen > length packet then Some None
          else do { label \<leftarrow> slice packet (pos + 1) labelLen;
            read_labels safety packet offset (pos + 1 + labelLen) consumed jumped (name @ bytes_string label @ ''.'') } })"

definition readDnsName :: "u8 list \<Rightarrow> nat \<Rightarrow> (nat \<times> string) option option" where
  "readDnsName packet offset = read_labels 64 packet offset offset 0 False []"

section \<open>The parser\<close>

fun parse_questions :: "nat \<Rightarrow> u8 list \<Rightarrow> nat \<Rightarrow> question list \<Rightarrow> (question list \<times> nat) option option" where
  "parse_questions 0 data pos questions = Some (Some (questions, pos))"
| "parse_questions (Suc n) data pos questions =
     do { named \<leftarrow> readDnsName data pos;
          case named of None \<Rightarrow> Some None
          | Some (consumed, name) \<Rightarrow>
              let pos1 = pos + consumed in
              if pos1 + 4 > length data then Some None
              else do { type \<leftarrow> readBE16 data pos1; rawClass \<leftarrow> readBE16 data (pos1 + 2);
                parse_questions n data (pos1 + 4) (questions @
                  [\<lparr>q_name = name, q_type = type, q_cls = rawClass AND NOT CACHE_FLUSH_BIT,
                    q_unicastResponse = (rawClass AND CACHE_FLUSH_BIT \<noteq> 0)\<rparr>]) } }"

definition parseHeaderAndQuestions :: "u8 list \<Rightarrow> (dns_header \<times> question list \<times> nat) option option" where
  "parseHeaderAndQuestions data =
     (if length data < 12 then Some None
      else do { i \<leftarrow> readBE16 data 0; f \<leftarrow> readBE16 data 2; qd \<leftarrow> readBE16 data 4;
                an \<leftarrow> readBE16 data 6; ns \<leftarrow> readBE16 data 8; ar \<leftarrow> readBE16 data 10;
                parsed \<leftarrow> parse_questions (unat qd) data 12 [];
                Some (map_option (\<lambda>(questions, pos).
                  (\<lparr>dh_id = i, dh_flags = f, dh_qdCount = qd, dh_anCount = an, dh_nsCount = ns, dh_arCount = ar\<rparr>,
                   questions, pos)) parsed) })"

definition parsePacket :: "u8 list \<Rightarrow> (dns_header \<times> question list) option option" where
  "parsePacket data = map_option (map_option (\<lambda>(h, questions, _). (h, questions))) (parseHeaderAndQuestions data)"

text \<open>The time to live of a record, read byte by byte.\<close>

definition read_ttl :: "u8 list \<Rightarrow> nat \<Rightarrow> u32 option" where
  "read_ttl data pos =
     do { a \<leftarrow> byte_at data pos; b \<leftarrow> byte_at data (pos + 1); c \<leftarrow> byte_at data (pos + 2); d \<leftarrow> byte_at data (pos + 3);
          Some (push_bit 24 (ucast a) OR push_bit 16 (ucast b) OR push_bit 8 (ucast c) OR ucast d) }"

fun parseAnswerSection :: "nat \<Rightarrow> u8 list \<Rightarrow> nat \<Rightarrow> answer list \<Rightarrow> (answer list \<times> nat) option option" where
  "parseAnswerSection 0 data pos answers = Some (Some (answers, pos))"
| "parseAnswerSection (Suc n) data pos answers =
     do { named \<leftarrow> readDnsName data pos;
          case named of None \<Rightarrow> Some None
          | Some (consumed, name) \<Rightarrow>
              let pos1 = pos + consumed in
              if pos1 + 10 > length data then Some None
              else do { type \<leftarrow> readBE16 data pos1; cls \<leftarrow> readBE16 data (pos1 + 2); ttl \<leftarrow> read_ttl data (pos1 + 4);
                rdlen \<leftarrow> readBE16 data (pos1 + 8);
                let pos2 = pos1 + 10 in
                if pos2 + unat rdlen > length data then Some None
                else parseAnswerSection n data (pos2 + unat rdlen) (answers @
                  [\<lparr>an_name = name, an_type = type, an_cls = cls AND NOT CACHE_FLUSH_BIT, an_ttl = ttl\<rparr>]) } }"

definition canonicalizeAuthorityRdata :: "u8 list \<Rightarrow> u16 \<Rightarrow> nat \<Rightarrow> nat \<Rightarrow> u8 list option option" where
  "canonicalizeAuthorityRdata data type rdataStart rdlen =
     (if type = TYPE_SRV
      then if rdlen < 6 then Some None
           else do { fixed \<leftarrow> slice data rdataStart 6;
                     named \<leftarrow> readDnsName data (rdataStart + 6);
                     Some (case named of None \<Rightarrow> None
                           | Some (_, target) \<Rightarrow> map_option (\<lambda>n. fixed @ n) (writeDnsName 256 target)) }
      else if type = TYPE_PTR
      then do { named \<leftarrow> readDnsName data rdataStart;
                Some (case named of None \<Rightarrow> None | Some (_, target) \<Rightarrow> writeDnsName 256 target) }
      else map_option Some (slice data rdataStart rdlen))"

fun parse_authority :: "nat \<Rightarrow> u8 list \<Rightarrow> nat \<Rightarrow> probe_record list \<Rightarrow> probe_record list option option" where
  "parse_authority 0 data pos authority = Some (Some authority)"
| "parse_authority (Suc n) data pos authority =
     do { named \<leftarrow> readDnsName data pos;
          case named of None \<Rightarrow> Some None
          | Some (consumed, name) \<Rightarrow>
              let pos1 = pos + consumed in
              if pos1 + 10 > length data then Some None
              else do { type \<leftarrow> readBE16 data pos1; cls \<leftarrow> readBE16 data (pos1 + 2); ttl \<leftarrow> read_ttl data (pos1 + 4);
                rdlen \<leftarrow> readBE16 data (pos1 + 8);
                let pos2 = pos1 + 10 in
                if pos2 + unat rdlen > length data then Some None
                else do { canonical \<leftarrow> canonicalizeAuthorityRdata data type pos2 (unat rdlen);
                  case canonical of None \<Rightarrow> Some None
                  | Some rdata \<Rightarrow> parse_authority n data (pos2 + unat rdlen) (authority @
                      [\<lparr>pb_name = name, pb_type = type, pb_cls = cls AND NOT CACHE_FLUSH_BIT, pb_ttl = ttl,
                        pb_rdata = rdata\<rparr>]) } } }"

text \<open>The overloads that also return the known answers, and the authority section.\<close>

definition parsePacket_answers :: "u8 list \<Rightarrow> (dns_header \<times> question list \<times> answer list) option option" where
  "parsePacket_answers data =
     do { parsed \<leftarrow> parseHeaderAndQuestions data;
          case parsed of None \<Rightarrow> Some None
          | Some (h, questions, pos) \<Rightarrow>
              do { answered \<leftarrow> parseAnswerSection (unat (dh_anCount h)) data pos [];
                   Some (map_option (\<lambda>(answers, _). (h, questions, answers)) answered) } }"

definition parsePacket_probe ::
  "u8 list \<Rightarrow> (dns_header \<times> question list \<times> answer list \<times> probe_record list) option option" where
  "parsePacket_probe data =
     do { parsed \<leftarrow> parseHeaderAndQuestions data;
          case parsed of None \<Rightarrow> Some None
          | Some (h, questions, pos) \<Rightarrow>
              do { answered \<leftarrow> parseAnswerSection (unat (dh_anCount h)) data pos [];
                   case answered of None \<Rightarrow> Some None
                   | Some (answers, pos1) \<Rightarrow>
                       do { proposed \<leftarrow> parse_authority (unat (dh_nsCount h)) data pos1 [];
                            Some (map_option (\<lambda>authority. (h, questions, answers, authority)) proposed) } } }"

section \<open>Matching\<close>

text \<open>\<^verbatim>\<open>std::tolower\<close> in the C locale.\<close>

definition tolower :: "char \<Rightarrow> char" where
  "tolower c = (if 65 \<le> (of_char c :: nat) \<and> (of_char c :: nat) \<le> 90 then char_of ((of_char c :: nat) + 32) else c)"

definition nameEqCi :: "string \<Rightarrow> string \<Rightarrow> bool" where
  "nameEqCi x y \<longleftrightarrow> length x = length y \<and> list_all (\<lambda>i. tolower (x ! i) = tolower (y ! i)) [0..<length x]"

definition isKnownAnswerSuppressed :: "answer list \<Rightarrow> string \<Rightarrow> u16 \<Rightarrow> u32 \<Rightarrow> bool" where
  "isKnownAnswerSuppressed knownAnswers recordName recordType ourTtl \<longleftrightarrow>
     list_ex (\<lambda>a. an_type a = recordType \<and> nameEqCi (an_name a) recordName \<and> an_ttl a \<ge> ourTtl div 2) knownAnswers"

text \<open>The loop runs down the name and the constant together.\<close>

fun same_folded :: "string \<Rightarrow> string \<Rightarrow> bool" where
  "same_folded [] b = (b = [])"
| "same_folded (x # xs) [] = False"
| "same_folded (x # xs) (y # ys) = (if tolower x \<noteq> tolower y then False else same_folded xs ys)"

definition questionMatchesService :: "question \<Rightarrow> bool" where
  "questionMatchesService q \<longleftrightarrow>
     (if q_type q \<noteq> TYPE_PTR \<and> q_type q \<noteq> TYPE_ANY then False else same_folded (q_name q) SERVICE_TYPE_DOMAIN)"

definition authorityHasRecordFor :: "probe_record list \<Rightarrow> string \<Rightarrow> bool" where
  "authorityHasRecordFor authority name \<longleftrightarrow> list_ex (\<lambda>r. nameEqCi (pb_name r) name) authority"

definition classify_one :: "string \<Rightarrow> string \<Rightarrow> question \<Rightarrow> query_match \<Rightarrow> query_match" where
  "classify_one instanceFqdn hostFqdn q m =
     (let ownsInstanceType = q_type q = TYPE_ANY \<or> q_type q = TYPE_SRV \<or> q_type q = TYPE_TXT;
          forInstance = nameEqCi (q_name q) instanceFqdn \<and> ownsInstanceType;
          forHost = nameEqCi (q_name q) hostFqdn \<and> (q_type q = TYPE_ANY \<or> q_type q = TYPE_A) in
      if questionMatchesService q \<or> forInstance \<or> forHost
      then \<lparr>qm_matched = True, qm_wantUnicast = qm_wantUnicast m \<or> q_unicastResponse q\<rparr> else m)"

definition classifyQuestions :: "question list \<Rightarrow> string \<Rightarrow> string \<Rightarrow> query_match" where
  "classifyQuestions questions instanceFqdn hostFqdn =
     fold (classify_one instanceFqdn hostFqdn) questions \<lparr>qm_matched = False, qm_wantUnicast = False\<rparr>"

section \<open>The encoders\<close>

text \<open>The header of a record returns the offset of its length field, which is filled in afterwards.\<close>

definition writeRrHeader :: "nat \<Rightarrow> u8 list \<Rightarrow> string \<Rightarrow> u16 \<Rightarrow> u16 \<Rightarrow> u32 \<Rightarrow> (nat \<times> u8 list) option" where
  "writeRrHeader outCap out name type cls ttl =
     do { n \<leftarrow> writeDnsName (outCap - length out) name;
          let out1 = out @ n in
          if length out1 + 10 > outCap then None
          else Some (length out1 + 8, out1 @ writeBE16 type @ writeBE16 cls @ writeBE32 ttl @ writeBE16 0) }"

definition finalizeRr :: "nat \<Rightarrow> u8 list \<Rightarrow> u8 list" where
  "finalizeRr rdlenOffset out =
     (let rdata = length out - (rdlenOffset + 2) in
      take rdlenOffset out @ writeBE16 (of_nat rdata) @ drop (rdlenOffset + 2) out)"

definition srvFixedRdata :: "response_inputs \<Rightarrow> u8 list" where
  "srvFixedRdata inputs = writeBE16 (ri_priority inputs) @ writeBE16 (ri_weight inputs) @ writeBE16 (ri_udpPort inputs)"

fun txt_entries :: "(string \<times> string) list \<Rightarrow> u8 list \<Rightarrow> u8 list option" where
  "txt_entries [] out = Some out"
| "txt_entries ((k, v) # pairs) out =
     (let entry = k @ ''='' @ v in
      if length entry > 255 then None else txt_entries pairs (out @ of_nat (length entry) # string_bytes entry))"

definition txtRdata :: "(string \<times> string) list \<Rightarrow> u8 list option" where
  "txtRdata pairs = (if pairs = [] then Some [0] else txt_entries pairs [])"

definition writeRdata :: "nat \<Rightarrow> u8 list \<Rightarrow> u8 list \<Rightarrow> u8 list option" where
  "writeRdata outCap out rdata = (if length out + length rdata > outCap then None else Some (out @ rdata))"

record response_names =
  rn_serviceType :: string
  rn_instanceFqdn :: string
  rn_hostFqdn :: string

definition responseNames :: "response_inputs \<Rightarrow> response_names" where
  "responseNames inputs =
     \<lparr>rn_serviceType = SERVICE_TYPE_DOMAIN, rn_instanceFqdn = ri_instanceName inputs @ ''.'' @ SERVICE_TYPE_DOMAIN,
      rn_hostFqdn = ri_hostName inputs @ ''.local.''\<rparr>"

definition writeResponseHeader :: "u16 \<Rightarrow> u16 \<Rightarrow> u8 list" where
  "writeResponseHeader txId answerCount =
     writeBE16 txId @ writeBE16 0x8400 @ writeBE16 0 @ writeBE16 answerCount @ writeBE16 0 @ writeBE16 0"

definition writePtrRecord :: "nat \<Rightarrow> u8 list \<Rightarrow> response_names \<Rightarrow> u32 \<Rightarrow> u8 list option" where
  "writePtrRecord outCap out names ttl =
     do { (c, out1) \<leftarrow> writeRrHeader outCap out (rn_serviceType names) TYPE_PTR CLASS_IN ttl;
          n \<leftarrow> writeDnsName (outCap - length out1) (rn_instanceFqdn names);
          Some (finalizeRr c (out1 @ n)) }"

definition writeSrvRecord :: "nat \<Rightarrow> u8 list \<Rightarrow> response_names \<Rightarrow> response_inputs \<Rightarrow> u32 \<Rightarrow> u8 list option" where
  "writeSrvRecord outCap out names inputs ttl =
     do { (c, out1) \<leftarrow> writeRrHeader outCap out (rn_instanceFqdn names) TYPE_SRV (CLASS_IN OR CACHE_FLUSH_BIT) ttl;
          out2 \<leftarrow> writeRdata outCap out1 (srvFixedRdata inputs);
          n \<leftarrow> writeDnsName (outCap - length out2) (rn_hostFqdn names);
          Some (finalizeRr c (out2 @ n)) }"

definition writeTxtRecord :: "nat \<Rightarrow> u8 list \<Rightarrow> response_names \<Rightarrow> response_inputs \<Rightarrow> u32 \<Rightarrow> u8 list option" where
  "writeTxtRecord outCap out names inputs ttl =
     do { (c, out1) \<leftarrow> writeRrHeader outCap out (rn_instanceFqdn names) TYPE_TXT (CLASS_IN OR CACHE_FLUSH_BIT) ttl;
          txt \<leftarrow> txtRdata (ri_txtPairs inputs);
          out2 \<leftarrow> writeRdata outCap out1 txt;
          Some (finalizeRr c out2) }"

definition ipv4_bytes :: "u8 \<times> u8 \<times> u8 \<times> u8 \<Rightarrow> u8 list" where
  "ipv4_bytes ip = (case ip of (a, b, c, d) \<Rightarrow> [a, b, c, d])"

definition writeARecord :: "nat \<Rightarrow> u8 list \<Rightarrow> response_names \<Rightarrow> u8 \<times> u8 \<times> u8 \<times> u8 \<Rightarrow> u32 \<Rightarrow> u8 list option" where
  "writeARecord outCap out names ipv4 ttl =
     do { (c, out1) \<leftarrow> writeRrHeader outCap out (rn_hostFqdn names) TYPE_A (CLASS_IN OR CACHE_FLUSH_BIT) ttl;
          if length out1 + 4 > outCap then None
          else Some (finalizeRr c (out1 @ ipv4_bytes ipv4)) }"

definition encodeResponse :: "nat \<Rightarrow> u16 \<Rightarrow> response_inputs \<Rightarrow> u8 list option" where
  "encodeResponse outCap txId inputs =
     (if outCap < 12 then None
      else let names = responseNames inputs;
               ttlService = (if ri_goodbye inputs then 0 else TTL_SERVICE);
               ttlHost = (if ri_goodbye inputs then 0 else TTL_HOST);
               emitPtr = (\<not> ri_suppressPtr inputs); emitSrv = (\<not> ri_suppressSrv inputs);
               emitTxt = (\<not> ri_suppressTxt inputs);
               emitA = (ri_ipv4 inputs \<noteq> None \<and> \<not> ri_suppressA inputs);
               answerCount = (if emitPtr then 1 else 0) + (if emitSrv then 1 else 0) + (if emitTxt then 1 else 0) +
                 (if emitA then 1 else 0) :: u16 in
        if answerCount = 0 then None
        else do { out1 \<leftarrow> (if emitPtr then writePtrRecord outCap (writeResponseHeader txId answerCount) names ttlService
                           else Some (writeResponseHeader txId answerCount));
                  out2 \<leftarrow> (if emitSrv then writeSrvRecord outCap out1 names inputs ttlHost else Some out1);
                  out3 \<leftarrow> (if emitTxt then writeTxtRecord outCap out2 names inputs ttlHost else Some out2);
                  (if emitA then writeARecord outCap out3 names (the (ri_ipv4 inputs)) ttlHost else Some out3) })"

definition encodeAnnouncement :: "nat \<Rightarrow> response_inputs \<Rightarrow> u8 list option" where
  "encodeAnnouncement outCap inputs =
     encodeResponse outCap 0 (inputs\<lparr>ri_goodbye := False, ri_suppressPtr := False, ri_suppressSrv := False,
       ri_suppressTxt := False, ri_suppressA := False\<rparr>)"

definition writeAuthorityRecord :: "nat \<Rightarrow> u8 list \<Rightarrow> string \<Rightarrow> u16 \<Rightarrow> u16 \<Rightarrow> u32 \<Rightarrow> u8 list \<Rightarrow> u8 list option" where
  "writeAuthorityRecord outCap out name type cls ttl rdata =
     do { (c, out1) \<leftarrow> writeRrHeader outCap out name type cls ttl;
          if length out1 + length rdata > outCap then None else Some (finalizeRr c (out1 @ rdata)) }"

definition buildProposedRecords :: "response_inputs \<Rightarrow> probe_record list" where
  "buildProposedRecords inputs =
     (let instanceFqdn = ri_instanceName inputs @ ''.'' @ SERVICE_TYPE_DOMAIN; hostFqdn = ri_hostName inputs @ ''.local.'' in
      [\<lparr>pb_name = instanceFqdn, pb_type = TYPE_SRV, pb_cls = CLASS_IN, pb_ttl = TTL_HOST,
        pb_rdata = srvFixedRdata inputs @ (case writeDnsName 256 hostFqdn of Some n \<Rightarrow> n | None \<Rightarrow> [])\<rparr>] @
      (case txtRdata (ri_txtPairs inputs) of
         Some txt \<Rightarrow> [\<lparr>pb_name = instanceFqdn, pb_type = TYPE_TXT, pb_cls = CLASS_IN, pb_ttl = TTL_HOST, pb_rdata = txt\<rparr>]
       | None \<Rightarrow> []) @
      (case ri_ipv4 inputs of
         Some ip \<Rightarrow> [\<lparr>pb_name = hostFqdn, pb_type = TYPE_A, pb_cls = CLASS_IN, pb_ttl = TTL_HOST, pb_rdata = ipv4_bytes ip\<rparr>]
       | None \<Rightarrow> []))"

fun write_authority :: "nat \<Rightarrow> probe_record list \<Rightarrow> u8 list \<Rightarrow> u8 list option" where
  "write_authority outCap [] out = Some out"
| "write_authority outCap (r # rs) out =
     do { out1 \<leftarrow> writeAuthorityRecord outCap out (pb_name r) (pb_type r) CLASS_IN (pb_ttl r) (pb_rdata r);
          write_authority outCap rs out1 }"

definition encodeProbeQuery :: "nat \<Rightarrow> response_inputs \<Rightarrow> u8 list option" where
  "encodeProbeQuery outCap inputs =
     (if outCap < 12 then None
      else let instanceFqdn = ri_instanceName inputs @ ''.'' @ SERVICE_TYPE_DOMAIN; proposed = buildProposedRecords inputs in
        if proposed = [] then None
        else let out = writeBE16 0 @ writeBE16 0 @ writeBE16 1 @ writeBE16 0 @ writeBE16 (of_nat (length proposed)) @ writeBE16 0 in
          do { qn \<leftarrow> writeDnsName (outCap - length out) instanceFqdn;
               if length (out @ qn) + 4 > outCap then None
               else write_authority outCap proposed
                 (out @ qn @ writeBE16 TYPE_ANY @ writeBE16 (CLASS_IN OR CACHE_FLUSH_BIT)) })"

section \<open>The tiebreak\<close>

definition compareOneRecord :: "probe_record \<Rightarrow> probe_record \<Rightarrow> int" where
  "compareOneRecord a b =
     (if pb_cls a \<noteq> pb_cls b then if pb_cls a < pb_cls b then -1 else 1
      else if pb_type a \<noteq> pb_type b then if pb_type a < pb_type b then -1 else 1
      else let common = min (length (pb_rdata a)) (length (pb_rdata b)) in
        case List.find (\<lambda>i. pb_rdata a ! i \<noteq> pb_rdata b ! i) [0..<common] of
          Some i \<Rightarrow> if pb_rdata a ! i < pb_rdata b ! i then -1 else 1
        | None \<Rightarrow> if length (pb_rdata a) \<noteq> length (pb_rdata b)
                   then if length (pb_rdata a) < length (pb_rdata b) then -1 else 1
                   else 0)"

text \<open>\<^verbatim>\<open>std::sort\<close> with that comparison; the records it does not order are equal in all that is compared.\<close>

fun insert_record :: "probe_record \<Rightarrow> probe_record list \<Rightarrow> probe_record list" where
  "insert_record r [] = [r]"
| "insert_record r (x # xs) = (if compareOneRecord x r < 0 then x # insert_record r xs else r # x # xs)"

definition sort_records :: "probe_record list \<Rightarrow> probe_record list" where
  "sort_records rs = foldr insert_record rs []"

definition compareRecordSets :: "probe_record list \<Rightarrow> probe_record list \<Rightarrow> int" where
  "compareRecordSets ours theirs =
     (let us = sort_records ours; ts = sort_records theirs; n = min (length us) (length ts) in
      case List.find (\<lambda>i. compareOneRecord (us ! i) (ts ! i) \<noteq> 0) [0..<n] of
        Some i \<Rightarrow> compareOneRecord (us ! i) (ts ! i)
      | None \<Rightarrow> if length us \<noteq> length ts then if length us < length ts then -1 else 1 else 0)"

section \<open>The parser stays inside the packet\<close>

lemma slice_in [simp]: "off + len \<le> length p \<Longrightarrow> slice p off len = Some (take len (drop off p))"
  by (simp add: slice_def)

lemma read_labels_safe: "read_labels n p off pos c j name \<noteq> None"
  by (induction n arbitrary: pos c j name) (simp_all add: Let_def)

lemma read_labels_end:
  assumes "read_labels n p off pos c j name = Some (Some (k, nm))" "\<not> j \<Longrightarrow> off \<le> pos" "j \<Longrightarrow> 0 < c \<and> off + c \<le> length p"
  shows "0 < k \<and> off + k \<le> length p"
  using assms
proof (induction n arbitrary: pos c j name)
  case 0
  then show ?case by simp
next
  case (Suc n)
  show ?case
  proof (cases "pos < length p")
    case True
    let ?b = "p ! pos"
    consider (zero) "?b = 0" | (jump) "?b \<noteq> 0" "?b AND 0xC0 = 0xC0" | (label) "?b \<noteq> 0" "?b AND 0xC0 = 0" | (bad) "?b \<noteq> 0" "?b AND 0xC0 \<noteq> 0xC0" "?b AND 0xC0 \<noteq> 0"
      by blast
    then show ?thesis
    proof cases
      case zero
      then show ?thesis using Suc.prems True by (cases j) (auto split: if_splits)
    next
      case jump
      let ?t = "unat (push_bit 8 (ucast (?b AND 0x3F)) OR ucast (p ! (pos + 1)) :: u16)"
      let ?c = "if \<not> j then pos - off + 2 else c"
      have q: "pos + 1 < length p" "read_labels n p off ?t ?c True name = Some (Some (k, nm))"
        using Suc.prems(1) True jump by (auto simp: Let_def split: if_splits)
      have "0 < ?c \<and> off + ?c \<le> length p" using Suc.prems(2,3) q(1) by auto
      then show ?thesis using Suc.IH [OF q(2)] by blast
    next
      case label
      then have q: "read_labels n p off (pos + 1 + unat ?b) c j
          (name @ bytes_string (take (unat ?b) (drop (pos + 1) p)) @ ''.'') = Some (Some (k, nm))"
        using Suc.prems(1) True by (auto simp: Let_def split: if_splits)
      show ?thesis by (rule Suc.IH [OF q]) (use Suc.prems(2,3) in \<open>auto simp: trans_le_add1\<close>)
    next
      case bad
      then show ?thesis using Suc.prems True by simp
    qed
  next
    case False
    then show ?thesis using Suc.prems by simp
  qed
qed

lemma readDnsName_safe: "readDnsName p off \<noteq> None"
  unfolding readDnsName_def by (rule read_labels_safe)

lemma readDnsName_end: "readDnsName p off = Some (Some (k, nm)) \<Longrightarrow> 0 < k \<and> off + k \<le> length p"
  using read_labels_end [of 64 p off off 0 False "[]" k nm] by (simp add: readDnsName_def)

lemma read_ttl_None [simp]: "read_ttl p off = None \<longleftrightarrow> length p < off + 4"
  by (auto simp: read_ttl_def bind_eq_None_conv)

lemma parse_questions_safe: "parse_questions n p pos qs \<noteq> None"
proof (induction n arbitrary: pos qs)
  case (Suc n)
  obtain r where r: "readDnsName p pos = Some r" using readDnsName_safe by blast
  show ?case using Suc
    by (auto simp: r Let_def bind_eq_None_conv simp del: not_None_eq split: option.split prod.split)
qed simp

lemma parseAnswerSection_safe: "parseAnswerSection n p pos as \<noteq> None"
proof (induction n arbitrary: pos as)
  case (Suc n)
  obtain r where r: "readDnsName p pos = Some r" using readDnsName_safe by blast
  show ?case using Suc
    by (auto simp: r Let_def bind_eq_None_conv simp del: not_None_eq split: option.split prod.split)
qed simp

lemma canonicalize_safe:
  assumes "start + rdlen \<le> length p"
  shows "canonicalizeAuthorityRdata p ty start rdlen \<noteq> None"
  using assms readDnsName_safe [of p start] readDnsName_safe [of p "start + 6"]
  by (auto simp: canonicalizeAuthorityRdata_def bind_eq_None_conv simp del: not_None_eq split: option.split)

lemma parse_authority_safe: "parse_authority n p pos as \<noteq> None"
proof (induction n arbitrary: pos as)
  case (Suc n)
  obtain r where r: "readDnsName p pos = Some r" using readDnsName_safe by blast
  show ?case using Suc
    by (auto simp: r Let_def bind_eq_None_conv canonicalize_safe simp del: not_None_eq split: option.split prod.split)
qed simp

lemma parseHeaderAndQuestions_safe: "parseHeaderAndQuestions p \<noteq> None"
  using parse_questions_safe [of _ p 12 "[]"]
  by (auto simp: parseHeaderAndQuestions_def bind_eq_None_conv simp del: not_None_eq)

section \<open>Names round trip\<close>

definition dotted :: "string list \<Rightarrow> string" where
  "dotted ls = concat (map (\<lambda>l. l @ ''.'') ls)"

definition label_ok :: "string \<Rightarrow> bool" where
  "label_ok l \<longleftrightarrow> l \<noteq> [] \<and> length l \<le> 63 \<and> CHR ''.'' \<notin> set l"

definition label_bytes :: "string list \<Rightarrow> u8 list" where
  "label_bytes ls = concat (map (\<lambda>l. of_nat (length l) # string_bytes l) ls)"

lemma dotted_simps [simp]: "dotted [] = []" "dotted (l # ls) = l @ CHR ''.'' # dotted ls"
  by (simp_all add: dotted_def)

lemma label_bytes_simps [simp]:
  "label_bytes [] = []" "label_bytes (l # ls) = of_nat (length l) # string_bytes l @ label_bytes ls"
  by (simp_all add: label_bytes_def)

lemma write_labels_dotted:
  assumes "\<forall>l\<in>set ls. l \<noteq> [] \<and> CHR ''.'' \<notin> set l" "write_labels cap out (dotted ls) = Some out'" "length out \<le> cap"
  shows "out' = out @ label_bytes ls \<and> (\<forall>l\<in>set ls. label_ok l) \<and> length out' \<le> cap"
  using assms
proof (induction ls arbitrary: out)
  case Nil
  then show ?case by (simp add: write_labels.simps)
next
  case (Cons l ls)
  have l: "l \<noteq> []" "CHR ''.'' \<notin> set l" using Cons.prems(1) by auto
  have tw: "takeWhile (\<lambda>c. c \<noteq> CHR ''.'') (dotted (l # ls)) = l"
    using l(2) by (simp add: takeWhile_append)
  have dr: "drop (length l + 1) (dotted (l # ls)) = dotted ls" by simp
  have fit: "length l \<le> 63" "length out + 1 + length l \<le> cap"
    using Cons.prems(2) l(1) tw by (simp_all add: write_labels.simps [of cap out] Let_def split: if_splits)
  then have "write_labels cap (out @ of_nat (length l) # string_bytes l) (dotted ls) = Some out'"
    using Cons.prems(2) l(1) tw dr by (simp add: write_labels.simps [of cap out] Let_def)
  from Cons.IH [OF _ this] Cons.prems(1) fit l show ?case by (auto simp: label_ok_def)
qed

lemma writeDnsName_dotted:
  assumes "\<forall>l\<in>set ls. l \<noteq> [] \<and> CHR ''.'' \<notin> set l" "writeDnsName cap (dotted ls) = Some bs"
  shows "bs = label_bytes ls @ [0]" "\<forall>l\<in>set ls. label_ok l" "length bs \<le> cap"
  using assms(2) write_labels_dotted [OF assms(1), of cap "[]"]
  by (auto simp: writeDnsName_def split: option.splits if_splits)

lemma small_label:
  assumes "n \<le> 63"
  shows "(of_nat n :: u8) AND 0xC0 = 0" "unat (of_nat n :: u8) = n"
proof -
  show "unat (of_nat n :: u8) = n" using assms by (simp add: unat_of_nat)
  have "list_all (\<lambda>n. (of_nat n :: u8) AND 0xC0 = 0) [0..<64]" by code_simp
  then show "(of_nat n :: u8) AND 0xC0 = 0" using assms by (simp add: list_all_iff)
qed

lemma byte_at_drop: "byte_at p (n + k) = byte_at (drop n p) k"
  by (auto simp: byte_at_def)

lemma readBE16_drop: "readBE16 p (n + k) = readBE16 (drop n p) k"
  using byte_at_drop [of p n "k + 1"] by (simp add: readBE16_def byte_at_drop add.assoc)

lemma read_ttl_drop: "read_ttl p (n + k) = read_ttl (drop n p) k"
  using byte_at_drop [of p n "k + 1"] byte_at_drop [of p n "k + 2"] byte_at_drop [of p n "k + 3"]
  by (simp add: read_ttl_def byte_at_drop add.assoc)

lemma slice_drop: "n \<le> length p \<Longrightarrow> slice p (n + k) m = slice (drop n p) k m"
  by (auto simp: slice_def add.commute)

lemma read_labels_bytes:
  assumes "drop pos p = label_bytes ls @ 0 # rest" "\<forall>l\<in>set ls. label_ok l" "length ls < n" "off \<le> pos"
  shows "read_labels n p off pos 0 False name =
    Some (Some (pos + length (label_bytes ls) - off + 1, name @ dotted ls))"
  using assms
proof (induction ls arbitrary: n pos name)
  case Nil
  then have "pos < length p" "p ! pos = 0" by (metis append_Nil drop_eq_Nil label_bytes_simps(1) leI list.distinct(1), metis append_Nil drop_eq_Nil label_bytes_simps(1) leI list.distinct(1) Cons_nth_drop_Suc list.inject)
  moreover obtain m where "n = Suc m" using Nil.prems(3) by (cases n) auto
  ultimately show ?case by simp
next
  case (Cons l ls)
  obtain m where n: "n = Suc m" "length ls < m" using Cons.prems(3) by (cases n) auto
  have l: "l \<noteq> []" "length l \<le> 63" using Cons.prems(2) by (simp_all add: label_ok_def)
  have pos: "pos < length p" using Cons.prems(1) by (metis append_Cons drop_eq_Nil label_bytes_simps(2) leI list.distinct(1))
  have d: "p ! pos = of_nat (length l)" "drop (Suc pos) p = string_bytes l @ label_bytes ls @ 0 # rest"
    using Cons.prems(1) Cons_nth_drop_Suc [OF pos] by simp_all
  have fit: "pos + 1 + length l \<le> length p"
    using arg_cong [OF d(2), of length] l(1) by simp
  have nz: "(of_nat (length l) :: u8) \<noteq> 0" using small_label(2) [OF l(2)] l(1) by (metis length_0_conv unat_0)
  have sl: "slice p (pos + 1) (length l) = Some (string_bytes l)" using fit d(2) by simp
  have d2: "drop (pos + 1 + length l) p = label_bytes ls @ 0 # rest"
    using arg_cong [OF d(2), of "drop (length l)"] by (simp add: add.commute)
  have "read_labels n p off pos 0 False name =
      read_labels m p off (pos + 1 + length l) 0 False (name @ l @ ''.'')"
    using pos nz small_label [OF l(2)] fit sl by (simp add: n(1) d(1) Let_def)
  also have "\<dots> = Some (Some (pos + 1 + length l + length (label_bytes ls) - off + 1, (name @ l @ ''.'') @ dotted ls))"
    using Cons.prems(2,4) n(2) d2 by (intro Cons.IH) auto
  finally show ?case by simp
qed

lemma readDnsName_bytes:
  assumes "drop pos p = label_bytes ls @ 0 # rest" "\<forall>l\<in>set ls. label_ok l" "length ls < 64"
  shows "readDnsName p pos = Some (Some (length (label_bytes ls) + 1, dotted ls))"
  using read_labels_bytes [OF assms order_refl] by (simp add: readDnsName_def)

section \<open>Records round trip\<close>

text \<open>The bytes of a record on the wire, for a name of these labels.\<close>

definition rr_bytes :: "string list \<Rightarrow> probe_record \<Rightarrow> u8 list" where
  "rr_bytes ls r = label_bytes ls @ [0] @ writeBE16 (pb_type r) @ writeBE16 (pb_cls r) @ writeBE32 (pb_ttl r) @
     writeBE16 (of_nat (length (pb_rdata r))) @ pb_rdata r"

definition rr_ok :: "string list \<Rightarrow> probe_record \<Rightarrow> bool" where
  "rr_ok ls r \<longleftrightarrow> pb_name r = dotted ls \<and> (\<forall>l\<in>set ls. label_ok l) \<and> length ls < 64 \<and> length (pb_rdata r) < 65536"

lemma read_ttl_write: "read_ttl (writeBE32 v @ xs) 0 = Some v"
proof -
  have "read_ttl p off = readBE32 p off" for p off by (simp add: read_ttl_def readBE32_def)
  then show ?thesis using readBE32_write [of "[]" 0 v xs] by simp
qed

lemma drop_shift: "drop n p = xs @ ys \<Longrightarrow> drop (n + length xs) p = ys"
  by (metis add.commute append_eq_conv_conj drop_drop)

lemma readBE16_here: "readBE16 (writeBE16 v @ xs) 0 = Some v"
  using readBE16_write [of "[]" 0 v xs] by simp

lemma rr_read:
  assumes d: "drop pos p = rr_bytes ls r @ rest" and ok: "rr_ok ls r"
  defines "q \<equiv> pos + (length (label_bytes ls) + 1)"
  shows "readDnsName p pos = Some (Some (length (label_bytes ls) + 1, pb_name r))" "q + 10 \<le> length p"
    "readBE16 p q = Some (pb_type r)" "readBE16 p (q + 2) = Some (pb_cls r)" "read_ttl p (q + 4) = Some (pb_ttl r)"
    "readBE16 p (q + 8) = Some (of_nat (length (pb_rdata r)))" "drop (q + 10) p = pb_rdata r @ rest"
    "q + 10 + length (pb_rdata r) \<le> length p" "unat (of_nat (length (pb_rdata r)) :: u16) = length (pb_rdata r)"
proof -
  have dq: "drop q p = writeBE16 (pb_type r) @ writeBE16 (pb_cls r) @ writeBE32 (pb_ttl r) @
      writeBE16 (of_nat (length (pb_rdata r))) @ pb_rdata r @ rest"
    using arg_cong [OF d, of "drop (length (label_bytes ls) + 1)"] by (simp add: rr_bytes_def q_def add.commute)
  show "readDnsName p pos = Some (Some (length (label_bytes ls) + 1, pb_name r))"
    using readDnsName_bytes [of pos p ls] d ok by (simp add: rr_bytes_def rr_ok_def)
  have lens [simp]: "length (writeBE16 v) = 2" "length (writeBE32 w) = 4" for v w
    by (simp_all add: writeBE16_def writeBE32_def)
  show "q + 10 \<le> length p" "q + 10 + length (pb_rdata r) \<le> length p" using arg_cong [OF dq, of length] by simp_all
  note d2 = drop_shift [OF dq, simplified lens]
  note d4 = drop_shift [OF d2, simplified lens add.assoc, simplified]
  note d8 = drop_shift [OF d4, simplified lens add.assoc, simplified]
  show "drop (q + 10) p = pb_rdata r @ rest" using drop_shift [OF d8] by (simp add: add.commute)
  show "readBE16 p q = Some (pb_type r)" using readBE16_drop [of p q 0] unfolding dq readBE16_here by simp
  show "readBE16 p (q + 2) = Some (pb_cls r)" using readBE16_drop [of p "q + 2" 0] unfolding d2 readBE16_here by simp
  show "read_ttl p (q + 4) = Some (pb_ttl r)" using read_ttl_drop [of p "q + 4" 0] unfolding d4 read_ttl_write by simp
  show "readBE16 p (q + 8) = Some (of_nat (length (pb_rdata r)))"
    using readBE16_drop [of p "q + 8" 0] unfolding d8 readBE16_here by simp
  show "unat (of_nat (length (pb_rdata r)) :: u16) = length (pb_rdata r)"
    using ok by (simp add: rr_ok_def unat_of_nat)
qed

definition answer_of :: "probe_record \<Rightarrow> answer" where
  "answer_of r = \<lparr>an_name = pb_name r, an_type = pb_type r, an_cls = pb_cls r AND NOT CACHE_FLUSH_BIT, an_ttl = pb_ttl r\<rparr>"

abbreviation section_bytes :: "(string list \<times> probe_record) list \<Rightarrow> u8 list" where
  "section_bytes rs \<equiv> concat (map (\<lambda>(ls, r). rr_bytes ls r) rs)"

lemma length_rr_bytes: "length (rr_bytes ls r) = length (label_bytes ls) + 1 + 10 + length (pb_rdata r)"
  by (simp add: rr_bytes_def writeBE16_def writeBE32_def)

lemma answers_read:
  assumes "drop pos p = section_bytes rs @ rest" "\<forall>(ls, r)\<in>set rs. rr_ok ls r"
  shows "parseAnswerSection (length rs) p pos as = Some (Some (as @ map (answer_of \<circ> snd) rs, pos + length (section_bytes rs)))"
  using assms
proof (induction rs arbitrary: pos as)
  case Nil
  then show ?case by simp
next
  case (Cons x rs)
  obtain ls r where x: "x = (ls, r)" by force
  have d: "drop pos p = rr_bytes ls r @ section_bytes rs @ rest" using Cons.prems(1) x by simp
  have ok: "rr_ok ls r" using Cons.prems(2) x by simp
  note rd = rr_read [OF d ok]
  have d': "drop (pos + length (rr_bytes ls r)) p = section_bytes rs @ rest" by (rule drop_shift [OF d])
  have "parseAnswerSection (length (x # rs)) p pos as =
      parseAnswerSection (length rs) p (pos + length (rr_bytes ls r)) (as @ [answer_of r])"
    using rd by (simp add: Let_def answer_of_def length_rr_bytes ac_simps)
  also have "\<dots> = Some (Some ((as @ [answer_of r]) @ map (answer_of \<circ> snd) rs,
      pos + length (rr_bytes ls r) + length (section_bytes rs)))"
    using Cons.prems(2) by (intro Cons.IH d') simp
  finally show ?case using x by (simp add: add.assoc)
qed

text \<open>A record whose data the parser returns unchanged: no name in it, or an uncompressed one.\<close>

definition rdata_plain :: "probe_record \<Rightarrow> bool" where
  "rdata_plain r \<longleftrightarrow> pb_type r \<noteq> TYPE_PTR \<and> (pb_type r = TYPE_SRV \<longrightarrow>
     (\<exists>f ls. length f = 6 \<and> pb_rdata r = f @ label_bytes ls @ [0] \<and> (\<forall>l\<in>set ls. label_ok l) \<and> length ls < 64 \<and>
        writeDnsName 256 (dotted ls) = Some (label_bytes ls @ [0])))"

lemma canonical_plain:
  assumes d: "drop pos p = pb_rdata r @ rest" and pos: "pos + length (pb_rdata r) \<le> length p" and r: "rdata_plain r"
  shows "canonicalizeAuthorityRdata p (pb_type r) pos (length (pb_rdata r)) = Some (Some (pb_rdata r))"
proof (cases "pb_type r = TYPE_SRV")
  case True
  then obtain f ls where f: "length f = 6" "pb_rdata r = f @ label_bytes ls @ [0]" "\<forall>l\<in>set ls. label_ok l" "length ls < 64"
      "writeDnsName 256 (dotted ls) = Some (label_bytes ls @ [0])"
    using r unfolding rdata_plain_def by auto
  have "drop (pos + 6) p = label_bytes ls @ 0 # rest" using drop_shift [of pos p f] d f(1,2) by simp
  note n = readDnsName_bytes [OF this f(3,4)]
  have "slice p pos 6 = Some f" using d f(1,2) pos by simp
  then show ?thesis using True n f by (simp add: canonicalizeAuthorityRdata_def)
next
  case False
  have "slice p pos (length (pb_rdata r)) = Some (pb_rdata r)" using d pos by simp
  then show ?thesis using False r by (simp add: canonicalizeAuthorityRdata_def rdata_plain_def)
qed

lemma authority_read:
  assumes "drop pos p = section_bytes rs @ rest" "\<forall>(ls, r)\<in>set rs. rr_ok ls r \<and> rdata_plain r \<and> pb_cls r = CLASS_IN"
  shows "parse_authority (length rs) p pos as = Some (Some (as @ map snd rs))"
  using assms
proof (induction rs arbitrary: pos as)
  case Nil
  then show ?case by simp
next
  case (Cons x rs)
  obtain ls r where x: "x = (ls, r)" by force
  have d: "drop pos p = rr_bytes ls r @ section_bytes rs @ rest" using Cons.prems(1) x by simp
  have ok: "rr_ok ls r" "rdata_plain r" "pb_cls r = CLASS_IN" using Cons.prems(2) x by simp_all
  note rd = rr_read [OF d ok(1)]
  have can: "canonicalizeAuthorityRdata p (pb_type r) (pos + (length (label_bytes ls) + 1) + 10) (length (pb_rdata r)) =
      Some (Some (pb_rdata r))"
    by (rule canonical_plain [OF rd(7,8) ok(2)])
  have d': "drop (pos + length (rr_bytes ls r)) p = section_bytes rs @ rest" by (rule drop_shift [OF d])
  have self: "\<lparr>pb_name = pb_name r, pb_type = pb_type r, pb_cls = CLASS_IN, pb_ttl = pb_ttl r, pb_rdata = pb_rdata r\<rparr> = r"
    using ok(3) by (cases r) simp
  have "parse_authority (length (x # rs)) p pos as =
      parse_authority (length rs) p (pos + length (rr_bytes ls r)) (as @ [r])"
    using rd can ok(3) by (simp add: Let_def length_rr_bytes ac_simps self)
  also have "\<dots> = Some (Some ((as @ [r]) @ map snd rs))"
    using Cons.prems(2) by (intro Cons.IH d') simp
  finally show ?case using x by simp
qed

section \<open>What the encoders write\<close>

lemma header_written:
  assumes "writeRrHeader cap out (dotted ls) ty cls ttl = Some (c, out1)" "\<forall>l\<in>set ls. l \<noteq> [] \<and> CHR ''.'' \<notin> set l"
  shows "finalizeRr c (out1 @ rd) = out @ rr_bytes ls \<lparr>pb_name = nm, pb_type = ty, pb_cls = cls, pb_ttl = ttl, pb_rdata = rd\<rparr>"
    "\<forall>l\<in>set ls. label_ok l" "length out1 \<le> cap" "length out1 = length out + length (label_bytes ls) + 11"
proof -
  obtain nb where nb: "writeDnsName (cap - length out) (dotted ls) = Some nb" "length (out @ nb) + 10 \<le> cap"
      "c = length (out @ nb) + 8" "out1 = (out @ nb) @ writeBE16 ty @ writeBE16 cls @ writeBE32 ttl @ writeBE16 0"
    using assms(1) by (auto simp: writeRrHeader_def Let_def Option.bind_eq_Some_conv split: if_splits)
  note w = writeDnsName_dotted [OF assms(2) nb(1)]
  show "\<forall>l\<in>set ls. label_ok l" by (rule w(2))
  show "length out1 \<le> cap" "length out1 = length out + length (label_bytes ls) + 11"
    using nb(2,4) w(1) by (simp_all add: writeBE16_def writeBE32_def)
  show "finalizeRr c (out1 @ rd) = out @ rr_bytes ls \<lparr>pb_name = nm, pb_type = ty, pb_cls = cls, pb_ttl = ttl, pb_rdata = rd\<rparr>"
    by (simp add: finalizeRr_def Let_def nb(3,4) w(1) rr_bytes_def writeBE16_def writeBE32_def)
qed

lemma authority_written:
  assumes "write_authority cap (map snd rs) out = Some out'" "length out \<le> cap"
    "\<forall>(ls, r)\<in>set rs. pb_name r = dotted ls \<and> (\<forall>l\<in>set ls. l \<noteq> [] \<and> CHR ''.'' \<notin> set l) \<and> pb_cls r = CLASS_IN"
  shows "out' = out @ section_bytes rs \<and> length out' \<le> cap \<and> (\<forall>(ls, r)\<in>set rs. \<forall>l\<in>set ls. label_ok l)"
  using assms
proof (induction rs arbitrary: out)
  case Nil
  then show ?case by simp
next
  case (Cons x rs)
  obtain ls r where x: "x = (ls, r)" by force
  have r: "pb_name r = dotted ls" "\<forall>l\<in>set ls. l \<noteq> [] \<and> CHR ''.'' \<notin> set l" "pb_cls r = CLASS_IN"
    using Cons.prems(3) x by simp_all
  obtain c out1 out2 where w: "writeRrHeader cap out (dotted ls) (pb_type r) CLASS_IN (pb_ttl r) = Some (c, out1)"
      "length out1 + length (pb_rdata r) \<le> cap" "out2 = finalizeRr c (out1 @ pb_rdata r)"
      "write_authority cap (map snd rs) out2 = Some out'"
    using Cons.prems(1) x r(1)
    by (auto simp: writeAuthorityRecord_def Option.bind_eq_Some_conv case_prod_beta split: if_splits)
  note h = header_written [OF w(1) r(2)]
  have "out2 = out @ rr_bytes ls r"
    using w(3) h(1) [of "pb_rdata r" "pb_name r"] r(3) by (cases r) simp
  moreover have "length out2 \<le> cap" using w(2) h(4) calculation by (simp add: length_rr_bytes)
  ultimately show ?case using Cons.IH [OF w(4)] Cons.prems(3) h(2) x by auto
qed

lemma service_labels: "SERVICE_TYPE_DOMAIN = dotted [''_satellite'', ''_udp'', ''local'']"
  by (simp add: SERVICE_TYPE_DOMAIN_def)

abbreviation instance_labels :: "response_inputs \<Rightarrow> string list" where
  "instance_labels inputs \<equiv> [ri_instanceName inputs, ''_satellite'', ''_udp'', ''local'']"

abbreviation host_labels :: "response_inputs \<Rightarrow> string list" where
  "host_labels inputs \<equiv> [ri_hostName inputs, ''local'']"

text \<open>The names of the host are single labels.\<close>

definition inputs_ok :: "response_inputs \<Rightarrow> bool" where
  "inputs_ok inputs \<longleftrightarrow> label_ok (ri_instanceName inputs) \<and> label_ok (ri_hostName inputs)"

lemma name_labels:
  assumes "inputs_ok inputs"
  shows "ri_instanceName inputs @ ''.'' @ SERVICE_TYPE_DOMAIN = dotted (instance_labels inputs)"
    "ri_hostName inputs @ ''.local.'' = dotted (host_labels inputs)"
    "\<forall>l\<in>set (instance_labels inputs). label_ok l" "\<forall>l\<in>set (host_labels inputs). label_ok l"
  using assms by (auto simp: service_labels inputs_ok_def label_ok_def)

lemma host_written:
  assumes "inputs_ok inputs"
  shows "writeDnsName 256 (ri_hostName inputs @ ''.local.'') = Some (label_bytes (host_labels inputs) @ [0])"
proof -
  have h: "ri_hostName inputs \<noteq> []" "length (ri_hostName inputs) \<le> 63" "CHR ''.'' \<notin> set (ri_hostName inputs)"
    using assms by (simp_all add: inputs_ok_def label_ok_def)
  have tw: "takeWhile (\<lambda>c. c \<noteq> CHR ''.'') (ri_hostName inputs @ ''.local.'') = ri_hostName inputs"
    using h(3) by (simp add: takeWhile_append)
  have "write_labels 256 out ''local.'' = Some (out @ of_nat 5 # string_bytes ''local'')" if "length out \<le> 64" for out
    using that by (simp add: write_labels.simps [of 256 out] write_labels.simps [of 256 _ "[]"] Let_def)
  moreover have "write_labels 256 [] (ri_hostName inputs @ ''.local.'') =
      write_labels 256 (of_nat (length (ri_hostName inputs)) # string_bytes (ri_hostName inputs)) ''local.''"
    using h tw by (simp add: write_labels.simps [of 256 "[]"] Let_def)
  ultimately show ?thesis using h(2) by (simp add: writeDnsName_def)
qed

lemma proposed_ok:
  assumes "inputs_ok inputs" "r \<in> set (buildProposedRecords inputs)"
  shows "pb_name r = dotted (if pb_type r = TYPE_A then host_labels inputs else instance_labels inputs)"
    "pb_cls r = CLASS_IN" "rdata_plain r"
proof -
  note n = name_labels [OF assms(1)]
  let ?srv = "\<lparr>pb_name = dotted (instance_labels inputs), pb_type = TYPE_SRV, pb_cls = CLASS_IN, pb_ttl = TTL_HOST,
    pb_rdata = srvFixedRdata inputs @ label_bytes (host_labels inputs) @ [0]\<rparr>"
  have srv: "rdata_plain ?srv" unfolding rdata_plain_def
  proof (intro conjI impI exI)
    show "length (srvFixedRdata inputs) = 6" by (simp add: srvFixedRdata_def writeBE16_def)
    show "writeDnsName 256 (dotted (host_labels inputs)) = Some (label_bytes (host_labels inputs) @ [0])"
      unfolding n(2) [symmetric] by (rule host_written [OF assms(1)])
  qed (use n(4) in simp_all)
  consider "r = ?srv"
    | t where "r = \<lparr>pb_name = dotted (instance_labels inputs), pb_type = TYPE_TXT, pb_cls = CLASS_IN, pb_ttl = TTL_HOST, pb_rdata = t\<rparr>"
    | ip where "r = \<lparr>pb_name = dotted (host_labels inputs), pb_type = TYPE_A, pb_cls = CLASS_IN, pb_ttl = TTL_HOST, pb_rdata = ip\<rparr>"
    using assms(2) unfolding buildProposedRecords_def n(1,2) host_written [OF assms(1), unfolded n(2)] Let_def
    by (cases "txtRdata (ri_txtPairs inputs)"; cases "ri_ipv4 inputs") (simp_all del: dotted_simps label_bytes_simps, blast+)
  then show "pb_name r = dotted (if pb_type r = TYPE_A then host_labels inputs else instance_labels inputs)"
    "pb_cls r = CLASS_IN" "rdata_plain r"
    using srv by (cases, simp_all add: rdata_plain_def del: dotted_simps)+
qed

lemma section_member: "x \<in> set rs \<Longrightarrow> length (pb_rdata (snd x)) \<le> length (section_bytes rs)"
  by (induction rs) (auto simp: length_rr_bytes)

definition proposed_pairs :: "response_inputs \<Rightarrow> (string list \<times> probe_record) list" where
  "proposed_pairs inputs = map (\<lambda>r. (if pb_type r = TYPE_A then host_labels inputs else instance_labels inputs, r))
     (buildProposedRecords inputs)"

lemma probe_written:
  assumes i: "inputs_ok inputs" and cap: "cap \<le> 65535" and e: "encodeProbeQuery cap inputs = Some out"
  shows "out = (writeBE16 0 @ writeBE16 0 @ writeBE16 1 @ writeBE16 0 @
      writeBE16 (of_nat (length (buildProposedRecords inputs))) @ writeBE16 0) @
      (label_bytes (instance_labels inputs) @ [0]) @ writeBE16 TYPE_ANY @ writeBE16 (CLASS_IN OR CACHE_FLUSH_BIT) @
      section_bytes (proposed_pairs inputs)"
    "length out \<le> cap" "\<forall>(ls, r)\<in>set (proposed_pairs inputs). rr_ok ls r \<and> rdata_plain r \<and> pb_cls r = CLASS_IN"
proof -
  note n = name_labels [OF i]
  let ?h = "writeBE16 0 @ writeBE16 0 @ writeBE16 1 @ writeBE16 0 @
      writeBE16 (of_nat (length (buildProposedRecords inputs))) @ writeBE16 0"
  have lab: "\<forall>l\<in>set (instance_labels inputs). l \<noteq> [] \<and> CHR ''.'' \<notin> set l" using n(3) by (auto simp: label_ok_def)
  obtain qn where q: "writeDnsName (cap - length ?h) (dotted (instance_labels inputs)) = Some qn" "length (?h @ qn) + 4 \<le> cap"
      "write_authority cap (buildProposedRecords inputs) (?h @ qn @ writeBE16 TYPE_ANY @ writeBE16 (CLASS_IN OR CACHE_FLUSH_BIT)) = Some out"
    using e n(1) unfolding encodeProbeQuery_def Let_def by (auto simp: Option.bind_eq_Some_conv split: if_splits)
  have qn: "qn = label_bytes (instance_labels inputs) @ [0]" by (rule writeDnsName_dotted(1) [OF lab q(1)])
  have snd: "map snd (proposed_pairs inputs) = buildProposedRecords inputs" by (simp add: proposed_pairs_def comp_def)
  have mem: "pb_name r = dotted ls \<and> ls \<in> {host_labels inputs, instance_labels inputs} \<and> pb_cls r = CLASS_IN \<and> rdata_plain r"
    if "(ls, r) \<in> set (proposed_pairs inputs)" for ls r
    using that proposed_ok [OF i, of r] by (auto simp: proposed_pairs_def split: if_splits)
  have w: "out = (?h @ qn @ writeBE16 TYPE_ANY @ writeBE16 (CLASS_IN OR CACHE_FLUSH_BIT)) @ section_bytes (proposed_pairs inputs) \<and>
      length out \<le> cap \<and> (\<forall>(ls, r)\<in>set (proposed_pairs inputs). \<forall>l\<in>set ls. label_ok l)"
  proof (rule authority_written)
    show "write_authority cap (map snd (proposed_pairs inputs))
        (?h @ qn @ writeBE16 TYPE_ANY @ writeBE16 (CLASS_IN OR CACHE_FLUSH_BIT)) = Some out" unfolding snd by (rule q(3))
    show "length (?h @ qn @ writeBE16 TYPE_ANY @ writeBE16 (CLASS_IN OR CACHE_FLUSH_BIT)) \<le> cap"
      using q(2) by (simp add: writeBE16_def)
    have "\<forall>l\<in>set (host_labels inputs). l \<noteq> [] \<and> CHR ''.'' \<notin> set l" using n(4) by (auto simp: label_ok_def)
    then show "\<forall>(ls, r)\<in>set (proposed_pairs inputs). pb_name r = dotted ls \<and> (\<forall>l\<in>set ls. l \<noteq> [] \<and> CHR ''.'' \<notin> set l) \<and>
        pb_cls r = CLASS_IN" using mem lab by fast
  qed
  then show "out = ?h @ (label_bytes (instance_labels inputs) @ [0]) @ writeBE16 TYPE_ANY @
      writeBE16 (CLASS_IN OR CACHE_FLUSH_BIT) @ section_bytes (proposed_pairs inputs)" using qn by simp
  show len: "length out \<le> cap" using w by blast
  have "length (pb_rdata r) < 65536" if "(ls, r) \<in> set (proposed_pairs inputs)" for ls r
    using section_member [OF that] len cap w by auto
  moreover have "length ls < 64" if "(ls, r) \<in> set (proposed_pairs inputs)" for ls r using mem [OF that] by auto
  ultimately show "\<forall>(ls, r)\<in>set (proposed_pairs inputs). rr_ok ls r \<and> rdata_plain r \<and> pb_cls r = CLASS_IN"
    using w mem by (fastforce simp: rr_ok_def)
qed

lemma length_writeBE16 [simp]: "length (writeBE16 v) = 2"
  by (simp add: writeBE16_def)

lemma header_words:
  assumes "out = writeBE16 a @ writeBE16 b @ writeBE16 c @ writeBE16 d @ writeBE16 e @ writeBE16 f @ rest"
  shows "readBE16 out 0 = Some a" "readBE16 out 2 = Some b" "readBE16 out 4 = Some c" "readBE16 out 6 = Some d"
    "readBE16 out 8 = Some e" "readBE16 out 10 = Some f" "drop 12 out = rest"
  using readBE16_write [of "[]" 0 a] readBE16_write [of "writeBE16 a" 2 b]
    readBE16_write [of "writeBE16 a @ writeBE16 b" 4 c] readBE16_write [of "writeBE16 a @ writeBE16 b @ writeBE16 c" 6 d]
    readBE16_write [of "writeBE16 a @ writeBE16 b @ writeBE16 c @ writeBE16 d" 8 e]
    readBE16_write [of "writeBE16 a @ writeBE16 b @ writeBE16 c @ writeBE16 d @ writeBE16 e" 10 f]
  by (simp_all add: assms)

lemma few_proposed: "length (buildProposedRecords inputs) \<le> 3"
  by (simp add: buildProposedRecords_def Let_def split: option.split)

lemma record_written:
  assumes "writeRrHeader cap out (dotted ls) ty cls ttl = Some (c, out1)" "\<forall>l\<in>set ls. label_ok l"
    "length out1 + length rd \<le> cap" "length ls < 64" "cap \<le> 65535"
  shows "finalizeRr c (out1 @ rd) = out @ rr_bytes ls \<lparr>pb_name = dotted ls, pb_type = ty, pb_cls = cls, pb_ttl = ttl, pb_rdata = rd\<rparr>"
    "rr_ok ls \<lparr>pb_name = dotted ls, pb_type = ty, pb_cls = cls, pb_ttl = ttl, pb_rdata = rd\<rparr>"
    "length (finalizeRr c (out1 @ rd)) \<le> cap"
proof -
  have "\<forall>l\<in>set ls. l \<noteq> [] \<and> CHR ''.'' \<notin> set l" using assms(2) by (auto simp: label_ok_def)
  note h = header_written [OF assms(1) this]
  show f: "finalizeRr c (out1 @ rd) = out @ rr_bytes ls \<lparr>pb_name = dotted ls, pb_type = ty, pb_cls = cls, pb_ttl = ttl, pb_rdata = rd\<rparr>"
    by (rule h(1))
  show "length (finalizeRr c (out1 @ rd)) \<le> cap" unfolding f using h(4) assms(3) by (simp add: length_rr_bytes)
  show "rr_ok ls \<lparr>pb_name = dotted ls, pb_type = ty, pb_cls = cls, pb_ttl = ttl, pb_rdata = rd\<rparr>"
    using assms by (simp add: rr_ok_def)
qed

text \<open>The records of a response, with the labels of their names.\<close>

definition response_ttl :: "response_inputs \<Rightarrow> u32 \<Rightarrow> u32" where
  "response_ttl inputs t = (if ri_goodbye inputs then 0 else t)"

definition ptr_record :: "response_inputs \<Rightarrow> probe_record" where
  "ptr_record inputs = \<lparr>pb_name = SERVICE_TYPE_DOMAIN, pb_type = TYPE_PTR, pb_cls = CLASS_IN,
     pb_ttl = response_ttl inputs TTL_SERVICE, pb_rdata = label_bytes (instance_labels inputs) @ [0]\<rparr>"

definition srv_record :: "response_inputs \<Rightarrow> probe_record" where
  "srv_record inputs = \<lparr>pb_name = dotted (instance_labels inputs), pb_type = TYPE_SRV, pb_cls = CLASS_IN OR CACHE_FLUSH_BIT,
     pb_ttl = response_ttl inputs TTL_HOST, pb_rdata = srvFixedRdata inputs @ label_bytes (host_labels inputs) @ [0]\<rparr>"

definition txt_record :: "response_inputs \<Rightarrow> probe_record" where
  "txt_record inputs = \<lparr>pb_name = dotted (instance_labels inputs), pb_type = TYPE_TXT, pb_cls = CLASS_IN OR CACHE_FLUSH_BIT,
     pb_ttl = response_ttl inputs TTL_HOST, pb_rdata = the (txtRdata (ri_txtPairs inputs))\<rparr>"

definition a_record :: "response_inputs \<Rightarrow> probe_record" where
  "a_record inputs = \<lparr>pb_name = dotted (host_labels inputs), pb_type = TYPE_A, pb_cls = CLASS_IN OR CACHE_FLUSH_BIT,
     pb_ttl = response_ttl inputs TTL_HOST, pb_rdata = ipv4_bytes (the (ri_ipv4 inputs))\<rparr>"

abbreviation service_label_list :: "string list" where
  "service_label_list \<equiv> [''_satellite'', ''_udp'', ''local'']"

text \<open>Each writer appends its record, or refuses.\<close>

definition appends :: "nat \<Rightarrow> u8 list \<Rightarrow> u8 list \<Rightarrow> string list \<Rightarrow> probe_record \<Rightarrow> bool" where
  "appends cap out out' ls r \<longleftrightarrow> out' = out @ rr_bytes ls r \<and> rr_ok ls r \<and> length out' \<le> cap"

lemma service_label_ok: "\<forall>l\<in>set service_label_list. label_ok l"
  by (simp add: label_ok_def)

lemma ptr_written:
  assumes i: "inputs_ok inputs" and cap: "cap \<le> 65535"
    and w: "writePtrRecord cap out (responseNames inputs) (response_ttl inputs TTL_SERVICE) = Some out'"
  shows "appends cap out out' service_label_list (ptr_record inputs)"
proof -
  note n = name_labels [OF i]
  obtain c out1 nb where h: "writeRrHeader cap out (dotted service_label_list) TYPE_PTR CLASS_IN (response_ttl inputs TTL_SERVICE) = Some (c, out1)"
      "writeDnsName (cap - length out1) (dotted (instance_labels inputs)) = Some nb" "out' = finalizeRr c (out1 @ nb)"
    using w unfolding writePtrRecord_def responseNames_def response_names.simps n(1) service_labels [symmetric]
    by (auto simp: Option.bind_eq_Some_conv)
  have "\<forall>l\<in>set (instance_labels inputs). l \<noteq> [] \<and> CHR ''.'' \<notin> set l" using n(3) by (auto simp: label_ok_def)
  note nb = writeDnsName_dotted [OF this h(2)]
  have "length out1 \<le> cap" by (rule header_written(3) [OF h(1)]) simp
  then have "length out1 + length nb \<le> cap" using nb(3) by simp
  note r = record_written [OF h(1) service_label_ok this _ cap]
  show ?thesis unfolding appends_def ptr_record_def service_labels h(3)
    using r nb(1) by (simp del: label_bytes_simps dotted_simps)
qed

lemma srv_written:
  assumes i: "inputs_ok inputs" and cap: "cap \<le> 65535"
    and w: "writeSrvRecord cap out (responseNames inputs) inputs (response_ttl inputs TTL_HOST) = Some out'"
  shows "appends cap out out' (instance_labels inputs) (srv_record inputs)"
proof -
  note n = name_labels [OF i]
  obtain c out1 nb where h: "writeRrHeader cap out (dotted (instance_labels inputs)) TYPE_SRV (CLASS_IN OR CACHE_FLUSH_BIT)
        (response_ttl inputs TTL_HOST) = Some (c, out1)" "length out1 + length (srvFixedRdata inputs) \<le> cap"
      "writeDnsName (cap - length (out1 @ srvFixedRdata inputs)) (dotted (host_labels inputs)) = Some nb"
      "out' = finalizeRr c (out1 @ srvFixedRdata inputs @ nb)"
    using w unfolding writeSrvRecord_def responseNames_def response_names.simps n(1,2)
    by (auto simp: Option.bind_eq_Some_conv writeRdata_def split: if_splits)
  have "\<forall>l\<in>set (host_labels inputs). l \<noteq> [] \<and> CHR ''.'' \<notin> set l" using n(4) by (auto simp: label_ok_def)
  note nb = writeDnsName_dotted [OF this h(3)]
  have "length out1 + length (srvFixedRdata inputs @ nb) \<le> cap" using h(2) nb(3) by simp
  note r = record_written [OF h(1) n(3) this _ cap]
  show ?thesis unfolding appends_def srv_record_def h(4)
    using r nb(1) by (simp del: label_bytes_simps dotted_simps)
qed

lemma txt_written:
  assumes i: "inputs_ok inputs" and cap: "cap \<le> 65535"
    and w: "writeTxtRecord cap out (responseNames inputs) inputs (response_ttl inputs TTL_HOST) = Some out'"
  shows "appends cap out out' (instance_labels inputs) (txt_record inputs)"
proof -
  note n = name_labels [OF i]
  obtain c out1 tb where h: "writeRrHeader cap out (dotted (instance_labels inputs)) TYPE_TXT (CLASS_IN OR CACHE_FLUSH_BIT)
        (response_ttl inputs TTL_HOST) = Some (c, out1)" "txtRdata (ri_txtPairs inputs) = Some tb"
      "length out1 + length tb \<le> cap" "out' = finalizeRr c (out1 @ tb)"
    using w unfolding writeTxtRecord_def responseNames_def response_names.simps n(1,2)
    by (auto simp: Option.bind_eq_Some_conv writeRdata_def split: if_splits)
  note r = record_written [OF h(1) n(3) h(3) _ cap]
  show ?thesis unfolding appends_def txt_record_def h(4)
    using r h(2) by (simp del: label_bytes_simps dotted_simps)
qed

lemma a_written:
  assumes i: "inputs_ok inputs" and cap: "cap \<le> 65535"
    and w: "writeARecord cap out (responseNames inputs) (the (ri_ipv4 inputs)) (response_ttl inputs TTL_HOST) = Some out'"
  shows "appends cap out out' (host_labels inputs) (a_record inputs)"
proof -
  note n = name_labels [OF i]
  have l: "length (ipv4_bytes ip) = 4" for ip by (simp add: ipv4_bytes_def split: prod.split)
  obtain c out1 where h: "writeRrHeader cap out (dotted (host_labels inputs)) TYPE_A (CLASS_IN OR CACHE_FLUSH_BIT)
        (response_ttl inputs TTL_HOST) = Some (c, out1)" "length out1 + 4 \<le> cap"
      "out' = finalizeRr c (out1 @ ipv4_bytes (the (ri_ipv4 inputs)))"
    using w unfolding writeARecord_def responseNames_def response_names.simps n(1,2)
    by (auto simp: Option.bind_eq_Some_conv split: if_splits)
  have "length out1 + length (ipv4_bytes (the (ri_ipv4 inputs))) \<le> cap" using h(2) l by simp
  note r = record_written [OF h(1) n(4) this _ cap]
  show ?thesis unfolding appends_def a_record_def h(3)
    using r by (simp del: label_bytes_simps dotted_simps)
qed

lemma probe_parsed:
  assumes i: "inputs_ok inputs" and cap: "cap \<le> 65535" and e: "encodeProbeQuery cap inputs = Some out"
  shows "length out \<le> cap" "parsePacket_probe out = Some (Some (\<lparr>dh_id = 0, dh_flags = 0, dh_qdCount = 1, dh_anCount = 0,
      dh_nsCount = of_nat (length (buildProposedRecords inputs)), dh_arCount = 0\<rparr>,
      [\<lparr>q_name = ri_instanceName inputs @ ''.'' @ SERVICE_TYPE_DOMAIN, q_type = TYPE_ANY, q_cls = CLASS_IN,
        q_unicastResponse = True\<rparr>], [], buildProposedRecords inputs))"
proof -
  note n = name_labels [OF i]
  note w = probe_written [OF i cap e]
  let ?k = "length (buildProposedRecords inputs)"
  let ?q = "label_bytes (instance_labels inputs) @ [0]"
  let ?s = "section_bytes (proposed_pairs inputs)"
  let ?c = "CLASS_IN OR CACHE_FLUSH_BIT"
  have k: "unat (of_nat ?k :: u16) = ?k" using few_proposed [of inputs] by (simp add: unat_of_nat)
  note h = header_words [OF w(1) [unfolded append_assoc]]
  have d12: "drop 12 out = ?q @ writeBE16 TYPE_ANY @ writeBE16 ?c @ ?s" using h(7) by simp
  have at: "readBE16 out k' = Some v" if "drop k' out = writeBE16 v @ xs" for k' v xs
    using readBE16_drop [of out k' 0] unfolding that readBE16_here by simp
  let ?p = "12 + length ?q"
  have dp: "drop ?p out = writeBE16 TYPE_ANY @ writeBE16 ?c @ ?s" by (rule drop_shift [OF d12])
  have dp2: "drop (?p + 2) out = writeBE16 ?c @ ?s" using drop_shift [OF dp] unfolding length_writeBE16 .
  have dp4: "drop (?p + 4) out = ?s @ []" using drop_shift [OF dp2] unfolding length_writeBE16 add.assoc by simp
  have len: "?p + 4 \<le> length out" using arg_cong [OF dp, of length] by simp
  have nm: "readDnsName out 12 = Some (Some (length ?q, dotted (instance_labels inputs)))"
    using readDnsName_bytes [of 12 out "instance_labels inputs"] d12 n(3) by simp
  have qs: "parse_questions (Suc 0) out 12 [] = Some (Some ([\<lparr>q_name = dotted (instance_labels inputs), q_type = TYPE_ANY,
      q_cls = CLASS_IN, q_unicastResponse = True\<rparr>], ?p + 4))"
    using nm at [OF dp] at [OF dp2] len by (simp add: Let_def del: label_bytes_simps dotted_simps)
  have hd: "parseHeaderAndQuestions out = Some (Some (\<lparr>dh_id = 0, dh_flags = 0, dh_qdCount = 1, dh_anCount = 0,
      dh_nsCount = of_nat ?k, dh_arCount = 0\<rparr>, [\<lparr>q_name = dotted (instance_labels inputs), q_type = TYPE_ANY,
      q_cls = CLASS_IN, q_unicastResponse = True\<rparr>], ?p + 4))"
    unfolding parseHeaderAndQuestions_def
    using h(1-6) qs len
    by (simp del: label_bytes_simps dotted_simps parse_questions.simps)
  have au: "parse_authority ?k out (?p + 4) [] = Some (Some (buildProposedRecords inputs))"
    using authority_read [OF dp4 w(3), of "[]"] by (simp add: proposed_pairs_def comp_def)
  show "length out \<le> cap" by (rule w(2))
  show "parsePacket_probe out = Some (Some (\<lparr>dh_id = 0, dh_flags = 0, dh_qdCount = 1, dh_anCount = 0,
      dh_nsCount = of_nat ?k, dh_arCount = 0\<rparr>,
      [\<lparr>q_name = ri_instanceName inputs @ ''.'' @ SERVICE_TYPE_DOMAIN, q_type = TYPE_ANY, q_cls = CLASS_IN,
        q_unicastResponse = True\<rparr>], [], buildProposedRecords inputs))"
    unfolding parsePacket_probe_def hd n(1) using au k by (simp del: label_bytes_simps dotted_simps)
qed

text \<open>
  C36.  A probe says what it means: every probe the encoder writes for a host with plain labels fits its buffer
  and parses back to the one question for the instance name, asking for a unicast answer, and to exactly the
  records the host proposes, data included, in order.
\<close>

theorem probe_round_trip:
  assumes i: "inputs_ok inputs" and cap: "cap \<le> 65535" and e: "encodeProbeQuery cap inputs = Some out"
  shows "length out \<le> cap \<and> (\<exists>h. parsePacket_probe out = Some (Some (h,
      [\<lparr>q_name = ri_instanceName inputs @ ''.'' @ SERVICE_TYPE_DOMAIN, q_type = TYPE_ANY, q_cls = CLASS_IN,
        q_unicastResponse = True\<rparr>], [], buildProposedRecords inputs)))"
  using probe_parsed [OF assms] by blast

definition sample_inputs :: response_inputs where
  "sample_inputs = \<lparr>ri_instanceName = ''den'', ri_hostName = ''pc'', ri_udpPort = 9876, ri_weight = 0, ri_priority = 0,
     ri_txtPairs = [(''udp'', ''9876'')], ri_ipv4 = Some (10, 0, 0, 2), ri_goodbye = False, ri_suppressPtr = False,
     ri_suppressSrv = False, ri_suppressTxt = False, ri_suppressA = False\<rparr>"

lemma sample_inputs_ok: "inputs_ok sample_inputs"
  by (simp add: sample_inputs_def inputs_ok_def label_ok_def)

theorem probe_round_trip_witness:
  "\<exists>out h. encodeProbeQuery 768 sample_inputs = Some out \<and> length out \<le> 768 \<and>
    parsePacket_probe out = Some (Some (h, [\<lparr>q_name = ''den._satellite._udp.local.'', q_type = TYPE_ANY, q_cls = CLASS_IN,
      q_unicastResponse = True\<rparr>], [], buildProposedRecords sample_inputs))"
proof -
  have "encodeProbeQuery 768 sample_inputs \<noteq> None"
    by (simp add: encodeProbeQuery_def sample_inputs_def writeDnsName_def write_labels.simps Let_def buildProposedRecords_def
        SERVICE_TYPE_DOMAIN_def txtRdata_def writeAuthorityRecord_def writeRrHeader_def finalizeRr_def srvFixedRdata_def
        writeBE16_def writeBE32_def ipv4_bytes_def string_bytes_def)
  then obtain out where out: "encodeProbeQuery 768 sample_inputs = Some out" by blast
  from probe_round_trip [OF sample_inputs_ok _ out] out show ?thesis
    by (auto simp: sample_inputs_def SERVICE_TYPE_DOMAIN_def)
qed


definition response_records :: "response_inputs \<Rightarrow> (string list \<times> probe_record) list" where
  "response_records inputs =
     (if ri_suppressPtr inputs then [] else [(service_label_list, ptr_record inputs)]) @
     (if ri_suppressSrv inputs then [] else [(instance_labels inputs, srv_record inputs)]) @
     (if ri_suppressTxt inputs then [] else [(instance_labels inputs, txt_record inputs)]) @
     (if ri_ipv4 inputs = None \<or> ri_suppressA inputs then [] else [(host_labels inputs, a_record inputs)])"

lemma maybe_appended:
  assumes "(if b then w else Some out) = Some out'" "w = Some out' \<Longrightarrow> appends cap out out' ls r" "length out \<le> cap"
  shows "out' = out @ section_bytes (if b then [(ls, r)] else []) \<and> length out' \<le> cap \<and> (b \<longrightarrow> rr_ok ls r)"
  using assms by (auto simp: appends_def)

lemma response_written:
  assumes i: "inputs_ok inputs" and cap: "cap \<le> 65535" and e: "encodeResponse cap txId inputs = Some out"
  shows "out = writeResponseHeader txId (of_nat (length (response_records inputs))) @ section_bytes (response_records inputs)"
    "length out \<le> cap" "\<forall>(ls, r)\<in>set (response_records inputs). rr_ok ls r"
proof -
  let ?n = "of_nat (length (response_records inputs)) :: u16"
  let ?names = "responseNames inputs"
  let ?s = "response_ttl inputs TTL_SERVICE" and ?h = "response_ttl inputs TTL_HOST"
  have n: "(if \<not> ri_suppressPtr inputs then 1 else 0) + (if \<not> ri_suppressSrv inputs then 1 else 0) +
      (if \<not> ri_suppressTxt inputs then 1 else 0) + (if ri_ipv4 inputs \<noteq> None \<and> \<not> ri_suppressA inputs then 1 else 0) = ?n"
    by (simp add: response_records_def)
  let ?f1 = "if \<not> ri_suppressPtr inputs then writePtrRecord cap (writeResponseHeader txId ?n) ?names ?s else Some (writeResponseHeader txId ?n)"
  let ?f2 = "\<lambda>o1. if \<not> ri_suppressSrv inputs then writeSrvRecord cap o1 ?names inputs ?h else Some o1"
  let ?f3 = "\<lambda>o2. if \<not> ri_suppressTxt inputs then writeTxtRecord cap o2 ?names inputs ?h else Some o2"
  let ?f4 = "\<lambda>o3. if ri_ipv4 inputs \<noteq> None \<and> \<not> ri_suppressA inputs then writeARecord cap o3 ?names (the (ri_ipv4 inputs)) ?h else Some o3"
  have en: "(if cap < 12 then None else if ?n = 0 then None else ?f1 \<bind> (\<lambda>o1. ?f2 o1 \<bind> (\<lambda>o2. ?f3 o2 \<bind> ?f4))) = Some out"
    using e unfolding encodeResponse_def Let_def response_ttl_def [symmetric] n .
  have c12: "12 \<le> cap" using en by (rule contrapos_pp) (simp only: not_le if_True option.distinct simp_thms)
  have nz: "?n \<noteq> 0" using en by (rule contrapos_pp) (simp only: if_cancel not_not option.distinct simp_thms if_True)
  have "?f1 \<bind> (\<lambda>o1. ?f2 o1 \<bind> (\<lambda>o2. ?f3 o2 \<bind> ?f4)) = Some out"
    using en c12 nz by (simp only: not_less [symmetric] if_False simp_thms)
  then obtain o1 o2 o3 where o1: "?f1 = Some o1" and o2: "?f2 o1 = Some o2" and o3: "?f3 o2 = Some o3" and o4: "?f4 o3 = Some out"
    unfolding Option.bind_eq_Some_conv by blast
  have "length (writeResponseHeader txId ?n) \<le> cap" using c12 by (simp add: writeResponseHeader_def)
  note w1 = maybe_appended [OF o1 ptr_written [OF i cap] this]
  note w2 = maybe_appended [OF o2 srv_written [OF i cap] conjunct1 [OF conjunct2 [OF w1]]]
  note w3 = maybe_appended [OF o3 txt_written [OF i cap] conjunct1 [OF conjunct2 [OF w2]]]
  note w4 = maybe_appended [OF o4 a_written [OF i cap] conjunct1 [OF conjunct2 [OF w3]]]
  show "out = writeResponseHeader txId ?n @ section_bytes (response_records inputs)"
    using w1 w2 w3 w4 by (simp add: response_records_def del: label_bytes_simps dotted_simps)
  show "length out \<le> cap" using w4 by blast
  show "\<forall>(ls, r)\<in>set (response_records inputs). rr_ok ls r"
    using w1 w2 w3 w4 by (auto simp: response_records_def)
qed

lemma few_records: "length (response_records inputs) \<le> 4"
  by (simp add: response_records_def)

definition response_answers :: "response_inputs \<Rightarrow> answer list" where
  "response_answers inputs = map (answer_of \<circ> snd) (response_records inputs)"

lemma response_parsed:
  assumes i: "inputs_ok inputs" and cap: "cap \<le> 65535" and e: "encodeResponse cap txId inputs = Some out"
  shows "length out \<le> cap" "parsePacket_answers out = Some (Some (\<lparr>dh_id = txId, dh_flags = 0x8400, dh_qdCount = 0,
      dh_anCount = of_nat (length (response_answers inputs)), dh_nsCount = 0, dh_arCount = 0\<rparr>, [], response_answers inputs))"
proof -
  note w = response_written [OF i cap e]
  let ?rs = "response_records inputs"
  have k: "unat (of_nat (length ?rs) :: u16) = length ?rs" using few_records [of inputs] by (simp add: unat_of_nat)
  note h = header_words [OF w(1) [unfolded writeResponseHeader_def append_assoc]]
  have len: "12 \<le> length out" using w(1) by (simp add: writeResponseHeader_def)
  have hd: "parseHeaderAndQuestions out = Some (Some (\<lparr>dh_id = txId, dh_flags = 0x8400, dh_qdCount = 0,
      dh_anCount = of_nat (length ?rs), dh_nsCount = 0, dh_arCount = 0\<rparr>, [], 12))"
    unfolding parseHeaderAndQuestions_def using h(1-6) len by simp
  have an: "parseAnswerSection (length ?rs) out 12 [] = Some (Some (map (answer_of \<circ> snd) ?rs, 12 + length (section_bytes ?rs)))"
    using answers_read [of 12 out ?rs "[]" "[]"] h(7) w(3) by simp
  show "length out \<le> cap" by (rule w(2))
  show "parsePacket_answers out = Some (Some (\<lparr>dh_id = txId, dh_flags = 0x8400, dh_qdCount = 0,
      dh_anCount = of_nat (length (response_answers inputs)), dh_nsCount = 0, dh_arCount = 0\<rparr>, [], response_answers inputs))"
    unfolding parsePacket_answers_def hd using an k by (simp add: response_answers_def)
qed

lemma response_answers_list:
  assumes "inputs_ok inputs"
  shows "response_answers inputs =
    (let instanceFqdn = ri_instanceName inputs @ ''.'' @ SERVICE_TYPE_DOMAIN; hostFqdn = ri_hostName inputs @ ''.local.'';
         ttl = (\<lambda>t. if ri_goodbye inputs then 0 else t) in
     (if ri_suppressPtr inputs then [] else [\<lparr>an_name = SERVICE_TYPE_DOMAIN, an_type = TYPE_PTR, an_cls = CLASS_IN, an_ttl = ttl TTL_SERVICE\<rparr>]) @
     (if ri_suppressSrv inputs then [] else [\<lparr>an_name = instanceFqdn, an_type = TYPE_SRV, an_cls = CLASS_IN, an_ttl = ttl TTL_HOST\<rparr>]) @
     (if ri_suppressTxt inputs then [] else [\<lparr>an_name = instanceFqdn, an_type = TYPE_TXT, an_cls = CLASS_IN, an_ttl = ttl TTL_HOST\<rparr>]) @
     (if ri_ipv4 inputs = None \<or> ri_suppressA inputs then [] else [\<lparr>an_name = hostFqdn, an_type = TYPE_A, an_cls = CLASS_IN, an_ttl = ttl TTL_HOST\<rparr>]))"
  unfolding name_labels(1,2) [OF assms]
  by (simp add: response_answers_def response_records_def answer_of_def ptr_record_def srv_record_def txt_record_def
      a_record_def response_ttl_def Let_def del: label_bytes_simps dotted_simps)

text \<open>
  C37.  A response says what it means: every response or goodbye the encoder writes for a host with plain labels
  fits its buffer and parses back to no question and exactly the records that were not suppressed, with their
  names, types and times to live, which are 0 in a goodbye.
\<close>

theorem response_round_trip:
  assumes i: "inputs_ok inputs" and cap: "cap \<le> 65535" and e: "encodeResponse cap txId inputs = Some out"
  shows "length out \<le> cap \<and> (\<exists>h. dh_id h = txId \<and> parsePacket_answers out = Some (Some (h, [],
    (let instanceFqdn = ri_instanceName inputs @ ''.'' @ SERVICE_TYPE_DOMAIN; hostFqdn = ri_hostName inputs @ ''.local.'';
         ttl = (\<lambda>t. if ri_goodbye inputs then 0 else t) in
     (if ri_suppressPtr inputs then [] else [\<lparr>an_name = SERVICE_TYPE_DOMAIN, an_type = TYPE_PTR, an_cls = CLASS_IN, an_ttl = ttl TTL_SERVICE\<rparr>]) @
     (if ri_suppressSrv inputs then [] else [\<lparr>an_name = instanceFqdn, an_type = TYPE_SRV, an_cls = CLASS_IN, an_ttl = ttl TTL_HOST\<rparr>]) @
     (if ri_suppressTxt inputs then [] else [\<lparr>an_name = instanceFqdn, an_type = TYPE_TXT, an_cls = CLASS_IN, an_ttl = ttl TTL_HOST\<rparr>]) @
     (if ri_ipv4 inputs = None \<or> ri_suppressA inputs then [] else [\<lparr>an_name = hostFqdn, an_type = TYPE_A, an_cls = CLASS_IN, an_ttl = ttl TTL_HOST\<rparr>])))))"
  unfolding response_answers_list [OF i, symmetric] using response_parsed [OF assms] by auto

theorem response_round_trip_witness:
  "\<exists>out. encodeResponse 1024 7 sample_inputs = Some out \<and> length out \<le> 1024 \<and>
    (\<exists>h as. dh_id h = 7 \<and> parsePacket_answers out = Some (Some (h, [], as)) \<and> map an_type as = [TYPE_PTR, TYPE_SRV, TYPE_TXT, TYPE_A])"
proof -
  have "encodeResponse 1024 7 sample_inputs \<noteq> None"
    by (simp add: encodeResponse_def responseNames_def writeResponseHeader_def writePtrRecord_def writeSrvRecord_def
        writeTxtRecord_def writeARecord_def sample_inputs_def writeDnsName_def write_labels.simps Let_def
        SERVICE_TYPE_DOMAIN_def txtRdata_def writeRdata_def writeRrHeader_def finalizeRr_def srvFixedRdata_def
        writeBE16_def writeBE32_def ipv4_bytes_def string_bytes_def)
  then obtain out where out: "encodeResponse 1024 7 sample_inputs = Some out" by blast
  have f: "\<not> ri_suppressPtr sample_inputs" "\<not> ri_suppressSrv sample_inputs" "\<not> ri_suppressTxt sample_inputs"
    "\<not> ri_suppressA sample_inputs" "ri_ipv4 sample_inputs \<noteq> None" by (simp_all add: sample_inputs_def)
  from response_round_trip [OF sample_inputs_ok _ out] out f show ?thesis by (auto simp: Let_def)
qed


section \<open>The tiebreak is fair\<close>

definition record_key :: "probe_record \<Rightarrow> u16 \<times> u16 \<times> u8 list" where
  "record_key r = (pb_cls r, pb_type r, pb_rdata r)"

definition order_sign :: "'a :: linorder \<Rightarrow> 'a \<Rightarrow> int" where
  "order_sign x y = (if x < y then -1 else if x = y then 0 else 1)"

lemma first_difference:
  "(case List.find (\<lambda>i. xs ! i \<noteq> ys ! i) [0..<min (length xs) (length ys)] of
      Some i \<Rightarrow> order_sign (xs ! i) (ys ! i)
    | None \<Rightarrow> if length xs \<noteq> length ys then if length xs < length ys then -1 else 1 else 0) = order_sign xs (ys :: 'a :: linorder list)"
  (is "?L xs ys = _")
proof (induction xs arbitrary: ys)
  case Nil
  then show ?case by (cases ys) (simp_all add: order_sign_def)
next
  case (Cons x xs)
  show ?case
  proof (cases ys)
    case Nil
    then show ?thesis by (simp add: order_sign_def)
  next
    case (Cons y ys')
    have shift: "List.find (\<lambda>i. (x # xs) ! i \<noteq> (y # ys') ! i) (map Suc ks) = map_option Suc (List.find (\<lambda>i. xs ! i \<noteq> ys' ! i) ks)" for ks
      by (induction ks) auto
    have up: "[0..<min (length (x # xs)) (length (y # ys'))] = 0 # map Suc [0..<min (length xs) (length ys')]"
      by (simp only: list.size(4) add_Suc_right add_0_right min_Suc_Suc map_Suc_upt upt_conv_Cons [OF zero_less_Suc])
    show ?thesis
    proof (cases "x = y")
      case True
      then have "List.find (\<lambda>i. (x # xs) ! i \<noteq> ys ! i) [0..<min (length (x # xs)) (length ys)] =
          map_option Suc (List.find (\<lambda>i. xs ! i \<noteq> ys' ! i) [0..<min (length xs) (length ys')])"
        unfolding Cons up using shift by simp
      then have "?L (x # xs) ys = order_sign xs ys'" unfolding Cons.IH [of ys', symmetric] using True Cons
        by (cases "List.find (\<lambda>i. xs ! i \<noteq> ys' ! i) [0..<min (length xs) (length ys')]") simp_all
      then show ?thesis using True Cons by (simp add: order_sign_def)
    next
      case False
      then have "List.find (\<lambda>i. (x # xs) ! i \<noteq> ys ! i) [0..<min (length (x # xs)) (length ys)] = Some 0"
        unfolding Cons up by simp
      then show ?thesis using False Cons by (simp add: order_sign_def)
    qed
  qed
qed

lemma compareOneRecord_key: "compareOneRecord a b = order_sign (record_key a) (record_key b)"
proof -
  have "(case List.find (\<lambda>i. xs ! i \<noteq> ys ! i) ks of Some i \<Rightarrow> if xs ! i < ys ! i then - 1 else 1 | None \<Rightarrow> z) =
      (case List.find (\<lambda>i. xs ! i \<noteq> ys ! i) ks of Some i \<Rightarrow> order_sign (xs ! i) (ys ! i) | None \<Rightarrow> z)" for xs ys :: "u8 list" and ks z
    by (auto simp: order_sign_def split: option.split dest: find_Some_set)
  then have rd: "compareOneRecord a b = order_sign (pb_rdata a) (pb_rdata b)" if "pb_cls a = pb_cls b" "pb_type a = pb_type b"
    unfolding compareOneRecord_def Let_def first_difference [symmetric] using that by simp
  show ?thesis
  proof (cases "pb_cls a = pb_cls b \<and> pb_type a = pb_type b")
    case True
    then show ?thesis using rd by (simp add: order_sign_def record_key_def)
  next
    case False
    then show ?thesis by (auto simp: compareOneRecord_def order_sign_def record_key_def)
  qed
qed

lemma sort_records_keys: "map record_key (sort_records rs) = sort (map record_key rs)"
proof -
  have "map record_key (insert_record r xs) = insort (record_key r) (map record_key xs)" for r xs
    by (induction xs) (auto simp: compareOneRecord_key order_sign_def)
  then show ?thesis by (induction rs) (simp_all add: sort_records_def)
qed

lemma compareRecordSets_keys:
  "compareRecordSets ours theirs = order_sign (sort (map record_key ours)) (sort (map record_key theirs))"
proof -
  let ?u = "sort_records ours" and ?t = "sort_records theirs"
  have same: "List.find (\<lambda>i. map record_key ?u ! i \<noteq> map record_key ?t ! i) [0..<min (length ?u) (length ?t)] =
      List.find (\<lambda>i. compareOneRecord (?u ! i) (?t ! i) \<noteq> 0) [0..<min (length ?u) (length ?t)]"
    by (rule find_cong) (auto simp: compareOneRecord_key order_sign_def)
  have "order_sign (map record_key ?u) (map record_key ?t) = compareRecordSets ours theirs"
    unfolding first_difference [symmetric] compareRecordSets_def Let_def length_map same
    by (auto simp: compareOneRecord_key dest: find_Some_set split: option.split)
  then show ?thesis by (simp add: sort_records_keys)
qed

text \<open>
  C38.  The tiebreak between two hosts that probe for one name is fair: what one host computes is the opposite of
  what the other computes, whatever order the records come in, so that the comparison never makes both give way,
  and it makes neither give way exactly when both propose the same records.
\<close>

theorem tiebreak_fair:
  "compareRecordSets theirs ours = - compareRecordSets ours theirs \<and>
   (compareRecordSets ours theirs = 0 \<longleftrightarrow> mset (map record_key ours) = mset (map record_key theirs)) \<and>
   (mset ours' = mset ours \<longrightarrow> compareRecordSets ours' theirs = compareRecordSets ours theirs)"
proof (intro conjI impI)
  let ?k = "\<lambda>rs. sort (map record_key rs)"
  have e: "sort xs = sort ys \<longleftrightarrow> mset xs = mset ys" for xs ys :: "(u16 \<times> u16 \<times> u8 list) list"
  proof
    assume "sort xs = sort ys"
    from arg_cong [OF this, of mset] show "mset xs = mset ys" by simp
  next
    assume "mset xs = mset ys"
    then show "sort xs = sort ys" by (intro properties_for_sort) simp_all
  qed
  have z: "order_sign x y = 0 \<longleftrightarrow> x = y" "order_sign y x = - order_sign x y" for x y :: "(u16 \<times> u16 \<times> u8 list) list"
    by (auto simp: order_sign_def)
  show "compareRecordSets theirs ours = - compareRecordSets ours theirs"
    unfolding compareRecordSets_keys by (rule z(2))
  show "compareRecordSets ours theirs = 0 \<longleftrightarrow> mset (map record_key ours) = mset (map record_key theirs)"
    unfolding compareRecordSets_keys z(1) by (rule e)
  show "compareRecordSets ours' theirs = compareRecordSets ours theirs" if m: "mset ours' = mset ours"
  proof -
    have "mset (map record_key ours') = mset (map record_key ours)" using m by simp
    then show ?thesis unfolding compareRecordSets_keys e [symmetric] by simp
  qed
qed

theorem tiebreak_fair_witness:
  "compareRecordSets [] (buildProposedRecords sample_inputs) = - compareRecordSets (buildProposedRecords sample_inputs) [] \<and>
   compareRecordSets (rev (buildProposedRecords sample_inputs)) [] = compareRecordSets (buildProposedRecords sample_inputs) []"
proof (rule conjI)
  note f = tiebreak_fair [of "[]" "buildProposedRecords sample_inputs" "rev (buildProposedRecords sample_inputs)"]
  show "compareRecordSets [] (buildProposedRecords sample_inputs) = - compareRecordSets (buildProposedRecords sample_inputs) []"
    by (rule conjunct1 [OF f])
  show "compareRecordSets (rev (buildProposedRecords sample_inputs)) [] = compareRecordSets (buildProposedRecords sample_inputs) []"
    by (rule mp [OF conjunct2 [OF conjunct2 [OF f]]]) (rule mset_rev)
qed

text \<open>
  C35.  No packet makes the parser read outside its bytes or run for ever: for every byte sequence, however its
  counts, lengths and compression pointers are forged, each parser returns, either refusing the packet or
  with its contents, and a name that is read has at least one byte and ends inside the packet.
\<close>

theorem parse_safe:
  "parsePacket data \<noteq> None \<and> parsePacket_answers data \<noteq> None \<and> parsePacket_probe data \<noteq> None \<and>
   (\<forall>k name. readDnsName data off = Some (Some (k, name)) \<longrightarrow> 0 < k \<and> off + k \<le> length data)"
proof -
  have a: "parsePacket data \<noteq> None" using parseHeaderAndQuestions_safe [of data] by (simp add: parsePacket_def)
  obtain x where x: "parseHeaderAndQuestions data = Some x" using parseHeaderAndQuestions_safe [of data] by blast
  have an: "\<exists>y. parseAnswerSection n data pos [] = Some y" for n pos using parseAnswerSection_safe by blast
  have au: "\<exists>y. parse_authority n data pos [] = Some y" for n pos using parse_authority_safe by blast
  have bc: "(\<exists>y. parsePacket_answers data = Some y) \<and> (\<exists>y. parsePacket_probe data = Some y)"
  proof (cases x)
    case None
    then show ?thesis by (simp add: parsePacket_answers_def parsePacket_probe_def x)
  next
    case (Some t)
    obtain h qs pos where t: "t = (h, qs, pos)" by (cases t)
    obtain y where y: "parseAnswerSection (unat (dh_anCount h)) data pos [] = Some y" using an by blast
    obtain z where z: "parse_authority (unat (dh_nsCount h)) data (case y of Some (_, p) \<Rightarrow> p | None \<Rightarrow> 0) [] = Some z" using au by blast
    show ?thesis using Some t y z by (cases y) (auto simp: parsePacket_answers_def parsePacket_probe_def x)
  qed
  show ?thesis using a bc readDnsName_end by auto
qed

theorem parse_safe_witness:
  "readDnsName [1, 97, 0, 9] 0 = Some (Some (3, ''a.'')) \<and> (0::nat) + 3 \<le> length [1, 97, 0, 9 :: u8] \<and> parsePacket [] \<noteq> None"
proof -
  have "readDnsName [1, 97, 0, 9] 0 = Some (Some (3, ''a.''))"
    using readDnsName_bytes [of 0 "[1, 97, 0, 9]" "[''a'']" "[9]"] by (simp add: label_ok_def string_bytes_def)
  then show ?thesis using parse_safe [of "[1, 97, 0, 9]" 0] parse_safe [of "[]" 0] by blast
qed


end
