(* ===== verification/Spec2Isabelle.thy ===== *)
theory Spec2Isabelle
  imports Sample_System Hot_Protocol Net_Send Tx_Gate Mdns_Protocol
begin

text \<open>
  Satellite turns a host into a receiver for game controllers: clients send encrypted datagrams with pad,
  motion, touchpad, battery and microphone data, the host feeds them to virtual pads and sends rumble, light
  and audio back.  This development models the C++ program under \<^verbatim>\<open>src/src\<close> from the bytes on the wire to
  the calls of the gamepad backend, and proves what its components promise each other.  Paths below are
  relative to \<^verbatim>\<open>src/src\<close>; a definition keeps the name of the function or type it translates.

  \<^bold>\<open>How the parts interact.\<close>  The receive thread takes a datagram, finds its session in a lock-free table,
  checks the replay counter, decrypts, and calls a handler of \<^verbatim>\<open>SessionService\<close>.  Gamepad and motion reports go
  straight to the backend; touchpad frames in mouse mode and microphone packets go through rings to two worker
  threads.  HTTP threads change the topology (open a session, add or remove controllers, close) under a lock and
  republish the table.  Backend callbacks bring rumble, light and audio for a virtual pad, which go to the client
  that holds it.  A maintenance thread refreshes held rumble and reaps silent sessions.

  \<^bold>\<open>Shared ground.\<close>  \<open>Sat_Prelude\<close> has the machine integers as words, bounded reads of byte buffers and the
  list lemmas.  \<open>Single_Float\<close> is \<^verbatim>\<open>float\<close> arithmetic with rounding to nearest even.  \<open>Wire_Codec\<close> has
  \<^verbatim>\<open>core/byte_order.h\<close>, \<^verbatim>\<open>hex.h\<close>, \<^verbatim>\<open>ipv4_util.h\<close>, \<^verbatim>\<open>touchpad_codec.h\<close> and the report decoders; its lemmas are round trips and
  that no decoder reads past its buffer.  \<open>Domain_Types\<close> has the structs and enums of \<^verbatim>\<open>core/types.h\<close>.

  \<^bold>\<open>The session service\<close> (\<^verbatim>\<open>core/session_service.cpp\<close>).  \<open>Serial_Pool\<close> is the pool of backend serials, with
  the locale \<open>serial_allocator\<close> as its contract.  \<open>Hot_Table\<close> is the table of \<^verbatim>\<open>core/hot_table.h\<close> as data.
  \<open>Session_State\<close> is the service record \<open>svc\<close>; what the service sends and logs is appended to a list of
  effects, random tokens are a list of draws, clocks are arguments.  \<open>Session_Topology\<close> has plan, plug, commit,
  settle and the entry points; an operation that releases its lock between sections is composed of those
  sections.  \<open>Session_Stream\<close> has the receive handlers, \<open>Session_Feedback\<close> the backend's feedback,
  \<open>Session_Audio\<close> the outbound audio, \<open>Session_View\<close> the views.  \<open>Session_Rows\<close>, \<open>Session_Plan\<close>,
  \<open>Session_Mirror\<close>, \<open>Session_Invariant\<close>, \<open>Session_Entry\<close> and \<open>Session_Upsert\<close> prove the invariant
  \<open>svc_inv F\<close>: rows under distinct tokens, every serial in use held by exactly one controller or by the
  operation in flight (the multiset \<open>F\<close>), counts that add up, and a table that mirrors the rows.
  \<open>Session_Converge\<close> follows a request to the row it leaves; \<open>Session_Receive\<close> and \<open>Session_Motors\<close> prove what
  the handlers do under the invariant.

  \<^bold>\<open>Threads and queues.\<close>  \<open>Queues\<close> has the ring (\<^verbatim>\<open>core/spsc_ring.h\<close>, 64-bit wrapping positions; the locale
  \<open>bounded_fifo\<close> is interpreted at the two capacities in use), the multi-producer queue and the wake-up protocol;
  \<open>Hot_Protocol\<close> the sequence lock and epoch barrier of the table; \<open>Tx_Gate\<close> the gate between senders.
  The last four are step relations whose steps are single atomic accesses, for any number of threads and any
  interleaving, under sequential consistency.  \<open>Audio_Jitter\<close>, \<open>Mic_Worker\<close> and \<open>Pointer_Worker\<close> are the workers.
  \<open>Service_System\<close> joins service, workers and lanes into one system with a step per entry point; \<open>sys_reach\<close> are
  its reachable states, and the properties below are stated of them.  \<open>Sample_Session\<close> and \<open>Sample_System\<close>
  build one reachable state with an open session, on which properties are applied.

  \<^bold>\<open>Network.\<close>  \<open>Net_Crypto\<close> is \<^verbatim>\<open>net/session_crypto.cpp\<close>; \<open>Net_Receive\<close> the receive loop, dispatch, counters
  and maintenance loop of \<^verbatim>\<open>net/receiver.cpp\<close>, \<^verbatim>\<open>net/inner_dispatch.cpp\<close>, \<^verbatim>\<open>app/wire_stats.h\<close> and
  \<^verbatim>\<open>core/unknown_token_log.h\<close>; \<open>Net_Send\<close> is \<^verbatim>\<open>adapters/client_adapter.cpp\<close>.
  \<open>Mdns_Protocol\<close> is \<^verbatim>\<open>net/mdns_protocol.cpp\<close>, the messages by which clients find the host.

  \<^bold>\<open>What is shown.\<close>  Sessions and pads: pads are exclusive, rows well formed, serials accounted for; an upsert
  ends, is refused only for its documented reasons, and leaves exactly what was asked.  Receive path: reads of the table are atomic and
  faithful, no datagram is taken twice, every one is counted, a frame a client seals reaches its pad and no other,
  microphone traffic is bounded.  Feedback and audio reach the holder of a pad only; a held rumble does not lapse.
  Workers: the queues are linearizable, no wake-up is lost, pointer motion loses nothing to rounding and buttons
  are released.  Send path: no nonce is used twice before the 32-bit counter wraps, messages parse back, no acknowledgement is lost.
  Discovery: no packet makes the parser read outside it, what is encoded parses back, and of two hosts that
  propose different records for one name the comparison makes exactly one give way.

  \<^bold>\<open>Parameters and bounds.\<close>  The backend is a record of functions over an arbitrary state, with no assumption on
  its results; libsodium is a record of functions with its documented laws; the audio codec, the
  \<^verbatim>\<open>double\<close> scaling of a haptic window and the result of \<^verbatim>\<open>sendto\<close> are arguments.  Loops over arrays are
  recursion or list functions; the retry loops of lock-free reads keep the number of attempts of the source; the two draws
  of random values that repeat until unused consume the list of draws and are \<^const>\<open>None\<close> when it is exhausted, so
  that \<open>upsert_ends\<close> states when they return.

  \<^bold>\<open>Not modelled.\<close>  Sockets, threads and their start and stop, files, the HTTP routes and JSON documents (third-party
  libraries), the platform backends and trays (drivers and operating-system calls), the installer side of the
  updater, and the weak memory orders of the atomics: the step relations take every access as sequentially
  consistent.  Lock diagnostics (\<^verbatim>\<open>core/tracked_mutex.h\<close>) have no effect on data.
\<close>

section \<open>Sessions and pads\<close>

text \<open>
  C1.  A virtual pad belongs to one controller of one session: in every reachable state no serial is
  bound twice, in one session or across two, and every bound serial is one the backend has.
\<close>

theorem pads_exclusive:
  assumes y: "sys_reach y" and r: "r \<in> snd ` set (s_conns (y_svc y))" "r' \<in> snd ` set (s_conns (y_svc y))"
    and h: "holds r x i" "holds r' x j"
  shows "r' = r \<and> j = i \<and> 1 \<le> x \<and> x \<le> MAX_BACKEND_CONTROLLERS"
proof -
  note inv = sys_reachD(1) [OF y]
  have "row_ok r" using inv r(1) by (auto simp: svc_inv_def rows_ok_def)
  then have "ctrl_ok i (controllers r ! i)" using h(1) by (simp add: row_ok_def holds_def)
  then show ?thesis using holder_unique [OF inv r h] h(1) by (simp add: ctrl_ok_def holds_def)
qed

theorem pads_exclusive_witness:
  "holds sample_row 1 0 \<and> (1::nat) \<le> 1 \<and> (1::nat) \<le> MAX_BACKEND_CONTROLLERS"
  using pads_exclusive [OF sample_reach _ _ sample_holds sample_holds] sample_mem sample_holds by simp

text \<open>
  C13.  Every open session of a reachable state is well formed: it is filed under its own non-zero
  token, has a slot of the table and a key of the cipher's size, sixteen controllers whose types,
  identities, touchpad modes and serials are in range where they are bound, and the cached count of
  them; no two sessions share a token, a device, a connection id or a slot.
\<close>

theorem sessions_well_formed:
  assumes "sys_reach y"
  shows "(\<forall>(t, r)\<in>set (s_conns (y_svc y)). t = token r \<and> t \<noteq> 0 \<and> row_ok r \<and> slot r < MAX_SESSIONS \<and>
      length (sessionKey r) = CRYPTO_KEY_SIZE) \<and>
    distinct (map fst (s_conns (y_svc y))) \<and>
    distinct (map (\<lambda>e. deviceId (snd e)) (s_conns (y_svc y))) \<and>
    distinct (map (\<lambda>e. connectionId (snd e)) (s_conns (y_svc y))) \<and>
    distinct (map (\<lambda>e. slot (snd e)) (s_conns (y_svc y)))"
  using sys_reachD(1) [OF assms] by (auto simp: svc_inv_def rows_ok_def)

theorem sessions_well_formed_witness:
  "row_ok sample_row \<and> length (sessionKey sample_row) = CRYPTO_KEY_SIZE"
  using sessions_well_formed [OF sample_reach] by (simp add: sample_opened(5))

text \<open>
  C14.  The pads account for themselves: the serials on offer, the controllers in play and the serials
  quarantined after an unconfirmed unplug always add up to the backend's sixteen.
\<close>

theorem pad_accounting:
  assumes "sys_reach y"
  shows "int (availableSlots (y_svc y)) + totalActiveControllers (y_svc y) +
      int (card (pool_blocked (s_pool (y_svc y)) - pool_used (s_pool (y_svc y)))) = int MAX_BACKEND_CONTROLLERS"
  by (rule pads_and_slots [OF sys_reachD(1) [OF assms]])

theorem pad_accounting_witness:
  "int (availableSlots sample_svc) + totalActiveControllers sample_svc +
      int (card (pool_blocked (s_pool sample_svc) - pool_used (s_pool sample_svc))) = 16"
  using pad_accounting [OF sample_reach] by simp



text \<open>
  C15.  A successful upsert leaves exactly one session for the device, under a token that no session
  had, with the request's name, address and protocol version and a fresh liveness grace; a device that
  already had a session keeps its connection id and slot; every other session is left as it was.
\<close>

theorem upsert_one_session:
  assumes y: "sys_reach y" and key: "length pairingKey = CRYPTO_KEY_SIZE"
    and u: "upsertSession now0 now1 now2 dev name ip pairingKey descs mouse version (y_svc y) = Some (res, s')"
    and ok: "ur_ok res"
  shows "ur_token res \<noteq> 0 \<and> ur_token res \<notin> fst ` set (s_conns (y_svc y)) \<and>
    others (ur_token res) (s_conns s') = filter (\<lambda>e. deviceId (snd e) \<noteq> dev) (s_conns (y_svc y)) \<and>
    (\<exists>r. find_conn (ur_token res) s' = Some r \<and> deviceId r = dev \<and> deviceName r = name \<and> clientIP r = ip \<and>
       protocolVersion r = version \<and> graceUntil r = now1 + sec REST_LIVENESS_GRACE_SEC \<and>
       (\<forall>r0. findByDeviceId dev (y_svc y) = Some r0 \<longrightarrow> connectionId r = connectionId r0 \<and> slot r = slot r0))"
  using upsertSession_ok(2-5) [OF sys_reachD(1) [OF y] _ u ok] key by fastforce

theorem upsert_one_session_witness:
  "(2::u32) \<noteq> 0 \<and> others 2 (s_conns sample_svc) = [] \<and> (\<exists>r. find_conn 2 sample_svc = Some r \<and> deviceId r = ''d'')"
proof -
  let ?y = "sys_init sample_port ([], no_buttons) None [1, 2, 3, 4, 5, 6, 7, 8] :: (sample, unit, unit) sys"
  have y: "sys_reach ?y" by (rule sys_reach.start) (simp add: sources_ok_def)
  have "upsertSession 0 0 0 ''d'' ''n'' ''10.0.0.2'' (replicate 32 7) [sample_desc] True 4 (y_svc ?y)
      = Some (sample_result, sample_svc)"
    using sample_upserted by (simp add: sys_init_def sample_init_def)
  from upsert_one_session [OF y _ this sample_opened(2), unfolded sample_opened(3)]
  show ?thesis by (auto simp: sys_init_def init_svc_def)
qed







lemma sample_by_id: "findByConnectionId (connectionId sample_row) sample_svc = Some sample_row"
  by (simp add: findByConnectionId_def sample_opened(5))


text \<open>
  Removing a controller leaves its index empty, whatever the backend answers to the unplug, and
  every other index of the session as it was.
\<close>

theorem remove_converges:
  assumes y: "sys_reach y" and a: "removeController now cid dev i (y_svc y) = (Some ep, s')"
    and r: "findByConnectionId cid (y_svc y) = Some r"
  shows "(i < MAX_CONTROLLERS_PER_CONN \<longrightarrow> \<not> active (controllers (deref (token r) s') ! i)) \<and>
    (\<forall>j<MAX_CONTROLLERS_PER_CONN. j \<noteq> i \<longrightarrow>
       pad_face (controllers (deref (token r) s') ! j) = pad_face (controllers r ! j))"
  using removeController_converges [OF sys_reachD(1) [OF y] a r] by blast

theorem remove_converges_witness:
  "active (controllers sample_row ! 0) \<and>
   (\<exists>ep s'. removeController 0 (connectionId sample_row) ''d'' 0 sample_svc = (Some ep, s') \<and>
      \<not> active (controllers (deref 2 s') ! 0))"
proof -
  let ?a = "removeController 0 (connectionId sample_row) ''d'' 0 sample_svc"
  have "fst ?a \<noteq> None" using sample_by_id sample_token by (simp add: removeController_def Let_def case_prod_beta)
  then obtain ep s' where a: "removeController 0 (connectionId sample_row) ''d'' 0 (y_svc sample_sys) = (Some ep, s')"
    by (cases ?a) auto
  have "findByConnectionId (connectionId sample_row) (y_svc sample_sys) = Some sample_row"
    using sample_by_id by simp
  from remove_converges [OF sample_reach a this] a show ?thesis using sample_pads(1) by (simp add: sample_token)
qed

text \<open>
  C20.  Closing a device's sessions ends exactly those: every other session stays, row for row, and
  the service stays consistent.
\<close>

theorem close_device_exact:
  assumes y: "sys_reach y" and c: "closeSessionsForDevice dev reason (y_svc y) = (n, s')"
  shows "s_conns s' = filter (\<lambda>e. deviceId (snd e) \<noteq> dev) (s_conns (y_svc y)) \<and> svc_inv {#} s'"
  using closeSessionsForDevice_inv [OF sys_reachD(1) [OF y] c] by blast

theorem close_device_exact_witness:
  "s_conns (snd (closeSessionsForDevice ''d'' CLOSE_REASON_KICKED sample_svc)) = [] \<and>
   s_conns (snd (closeSessionsForDevice ''e'' CLOSE_REASON_KICKED sample_svc)) = s_conns sample_svc"
proof -
  have c: "closeSessionsForDevice dev reason (y_svc sample_sys)
      = (fst (closeSessionsForDevice dev reason sample_svc), snd (closeSessionsForDevice dev reason sample_svc))"
    for dev reason by simp
  from close_device_exact [OF sample_reach c] show ?thesis by (simp add: sample_opened(5) sample_token)
qed

text \<open>
  Closing all sessions gives everything back: no session remains, no serial is in use and none
  is quarantined.
\<close>

theorem close_all_releases:
  assumes "sys_reach y"
  shows "s_conns (closeAllSessions reason (y_svc y)) = [] \<and>
    pool_used (s_pool (closeAllSessions reason (y_svc y))) = {} \<and>
    pool_blocked (s_pool (closeAllSessions reason (y_svc y))) = {}"
  using closeAllSessions_inv(2-4) [OF sys_reachD(1) [OF assms]] by blast

theorem close_all_releases_witness:
  "s_conns sample_svc \<noteq> [] \<and> pool_used (s_pool (closeAllSessions CLOSE_REASON_SHUTDOWN sample_svc)) = {}"
  using close_all_releases [OF sample_reach] by (simp add: sample_opened(5))

text \<open>
  C21.  The reaper, when it gets the topology lock, closes exactly the sessions that have been silent
  past their timeout and grace, and reports how many they were.
\<close>

theorem reap_exact:
  assumes y: "sys_reach y" and q: "reapTimedOut True now (y_svc y) = (n, s')"
  shows "n = length (filter (\<lambda>e. timed_out now (snd e) (y_svc y)) (s_conns (y_svc y))) \<and>
    map fst (s_conns s') = map fst (filter (\<lambda>e. \<not> timed_out now (snd e) (y_svc y)) (s_conns (y_svc y)))"
  using reapTimedOut_inv(2,3) [OF sys_reachD(1) [OF y] q] by blast

theorem reap_exact_witness:
  "map fst (s_conns (snd (reapTimedOut True 0 sample_svc)))
     = (if timed_out 0 sample_row sample_svc then [] else [2])"
proof -
  have q: "reapTimedOut True 0 (y_svc sample_sys)
      = (fst (reapTimedOut True 0 sample_svc), snd (reapTimedOut True 0 sample_svc))" by simp
  from reap_exact [OF sample_reach q] show ?thesis by (simp add: sample_opened(5))
qed

section \<open>The receive path\<close>

text \<open>
  C9.  The lock-free table is a faithful copy: what the receive path reads for a session's token and
  a controller index decodes to what the session's row holds under the lock: its slot, epoch and pointer
  grant, and for a bound controller its serial, capabilities, type, touchpad mode, pointer stamp and
  non-zero plug generation; any other index reads as no pad.
\<close>

theorem hot_read_faithful:
  assumes y: "sys_reach y" and r: "r \<in> snd ` set (s_conns (y_svc y))"
  shows "\<exists>pad. readPad (token r) i (s_hot (y_svc y)) = Some pad \<and> pr_slot pad = slot r \<and> pr_row pad = row r \<and>
    hotSessionEpoch (pr_session pad) = epoch r \<and> hotSessionMouse (pr_session pad) = mouseControlGranted r \<and>
    (let c = controllers r ! i in
     if i < MAX_CONTROLLERS_PER_CONN \<and> active c
     then pr_active pad \<and> pr_serial pad = serialNo c \<and> hotPadCaps (pr_info pad) = caps c \<and>
       hotPadType (pr_info pad) = controllerType c \<and> hotPadMode (pr_info pad) = touchpadMode c \<and>
       pr_stamp pad = pointerStamp c \<and> pr_gen pad = plugGen c \<and> pr_gen pad \<noteq> 0
     else \<not> pr_active pad \<and> pr_serial pad = 0 \<and> pr_info pad = 0 \<and> pr_gen pad = 0)"
proof -
  have "row_ok r" using sys_reachD(1) [OF y] r by (auto simp: svc_inv_def rows_ok_def)
  then have "i < MAX_CONTROLLERS_PER_CONN \<Longrightarrow> ctrl_ok i (controllers r ! i)" by (simp add: row_ok_def)
  then show ?thesis unfolding readPad_row [OF sys_reachD(1) [OF y] r]
    by (auto simp: Let_def ctrl_ok_def sessionWord_def padInfoWord_def padGenWord_def padStampWord_def)
qed

theorem hot_read_faithful_witness:
  "\<exists>pad. readPad 2 0 (s_hot sample_svc) = Some pad \<and> pr_active pad \<and> pr_serial pad = 1 \<and> pr_gen pad \<noteq> 0"
  using hot_read_faithful [OF sample_reach, of sample_row 0] sample_mem sample_pads
  by (auto simp: sample_token Let_def)

text \<open>
  C8.  A gamepad frame reaches the virtual pad of the controller it names and no other: an unknown
  token, an index out of range or an inactive controller changes nothing, and otherwise the backend is
  given the report for the serial bound to that controller, once.
\<close>

theorem frame_routing:
  assumes y: "sys_reach y"
  shows "handleGamepadData now tok i report (y_svc y) =
    (case find_conn tok (y_svc y) of
       Some r \<Rightarrow>
         if i < MAX_CONTROLLERS_PER_CONN \<and> active (controllers r ! i)
         then case gp_submitReport (s_port (y_svc y)) (serialNo (controllers r ! i)) report (s_backend (y_svc y)) of
                (ok, b) \<Rightarrow> (ok, (y_svc y)\<lparr>s_backend := b\<rparr>)
         else (False, y_svc y)
     | None \<Rightarrow> (False, y_svc y))"
proof (cases "find_conn tok (y_svc y)")
  case None
  then show ?thesis
    using submitHotFrame_none [OF sys_reachD(1) [OF y] no_row [OF None]] by (simp add: handleGamepadData_def)
next
  case (Some r)
  then show ?thesis
    using reach_row [OF y Some] submitHotFrame_row [OF sys_reachD(1) [OF y], of r] Some by (simp add: handleGamepadData_def)
qed

theorem frame_routing_witness:
  "(\<forall>report. handleGamepadData 0 2 0 report sample_svc
      = (case gp_submitReport (s_port sample_svc) 1 report (s_backend sample_svc) of
           (ok, b) \<Rightarrow> (ok, sample_svc\<lparr>s_backend := b\<rparr>))) \<and>
   (\<forall>report. handleGamepadData 0 2 5 report sample_svc = (False, sample_svc)) \<and>
   (\<forall>report. handleGamepadData 0 3 0 report sample_svc = (False, sample_svc))"
  using frame_routing [OF sample_reach] sample_pads sample_opened(6)
  by (simp add: find_conn_def sample_opened(5))

text \<open>
  The fused receive path that reads the table once does what the two calls it replaces do:
  recording the datagram and then submitting the frame, on every input.
\<close>

theorem fused_equivalent:
  "handleGamepadDataAndUpdate now tok counter ip port i report s =
     handleGamepadData now tok i report (updatePostDecryptV4 now tok counter ip port s)"
  by (rule fused_hot_path)

text \<open>
  C22.  A heartbeat is answered with the truth: the acknowledgement, built from the lock-free table
  alone, carries the session's topology epoch and the bitmap of its bound controllers and goes to the
  session's own endpoint; an unknown token is answered with nothing.
\<close>

theorem heartbeat_truth:
  assumes y: "sys_reach y"
  shows "handleHeartbeat tok (y_svc y) =
    (case find_conn tok (y_svc y) of
       Some r \<Rightarrow> emit (SendHeartbeatAck (conn_endpoint r) (gp_isBusOpen (s_port (y_svc y)) (s_backend (y_svc y)))
          (of_int (countGlobalActiveControllers (y_svc y))) (epoch r) (activeBitmapLocked r)) (y_svc y)
     | None \<Rightarrow> y_svc y)"
proof (cases "find_conn tok (y_svc y)")
  case None
  then show ?thesis
    using hot_find_none [OF sys_reachD(1) [OF y] no_row [OF None]] by (simp add: handleHeartbeat_def)
next
  case (Some r)
  then show ?thesis
    using reach_row [OF y Some] handleHeartbeat_row [OF sys_reachD(1) [OF y], of r] Some by simp
qed

theorem heartbeat_truth_witness:
  "handleHeartbeat 3 sample_svc = sample_svc \<and>
   handleHeartbeat 2 sample_svc = emit (SendHeartbeatAck (conn_endpoint sample_row)
      (gp_isBusOpen (s_port sample_svc) (s_backend sample_svc)) (of_int (countGlobalActiveControllers sample_svc))
      (epoch sample_row) (activeBitmapLocked sample_row)) sample_svc"
  using heartbeat_truth [OF sample_reach] sample_opened(6) by (simp add: find_conn_def sample_opened(5))

text \<open>
  A counter once accepted is remembered: right after a datagram with counter \<open>c\<close> is recorded for a
  session, the receive path reads back the session's key and \<open>c\<close> as the counter to beat; a token that
  no session has reads nothing, so nothing can be decrypted for it.
\<close>

theorem replay_window:
  assumes y: "sys_reach y"
  shows "getDecryptInfo tok (s_hot (updatePostDecryptV4 now tok c ip port (y_svc y))) =
    map_option (\<lambda>r. (sessionKey r, c, True)) (find_conn tok (y_svc y))"
proof (cases "find_conn tok (y_svc y)")
  case None
  let ?s = "updatePostDecryptV4 now tok c ip port (y_svc y)"
  have rx: "rx_only (y_svc y) ?s" by (rule updatePostDecryptV4_rx_only)
  have "svc_inv {#} ?s" by (rule rx_only_inv [OF rx sys_reachD(1) [OF y]])
  moreover have "tok \<notin> fst ` set (s_conns ?s)" using no_row [OF None] rx by (simp add: rx_only_def)
  ultimately show ?thesis using getDecryptInfo_none None by auto
next
  case (Some r)
  then show ?thesis
    using reach_row [OF y Some] replay_recorded [OF sys_reachD(1) [OF y], of r] Some by (simp add: updatePostDecryptV4_def)
qed

theorem replay_window_witness:
  "getDecryptInfo 2 (s_hot (updatePostDecryptV4 0 2 9 1 2 sample_svc)) = Some (sessionKey sample_row, 9, True) \<and>
   getDecryptInfo 3 (s_hot (updatePostDecryptV4 0 3 9 1 2 sample_svc)) = None"
  using replay_window [OF sample_reach] sample_opened(6) by (simp add: find_conn_def sample_opened(5))

text \<open>
  C3.  No datagram is taken twice: whatever datagrams arrive, in whatever order, repeated or forged, every
  turn of the receive loop returns, the state stays reachable, and the counters of the datagrams taken for a
  session strictly increase.
\<close>

theorem replay_never:
  assumes "sys_reach y"
  shows "sorted_wrt (<) (taken_all so tok gs (v, y_svc y)) \<and>
    (\<exists>v' s'. receive_all so gs (v, y_svc y) = Some (v', s') \<and> sys_reach (y\<lparr>y_svc := s'\<rparr>))"
  using taken_sorted [OF assms, of so tok gs v] receive_all_reach [OF assms, of so gs v] by blast

theorem replay_never_witness:
  "\<forall>v gs. sorted_wrt (<) (taken_all toy_sodium 2 gs (v, y_svc sample_sys)) \<and>
    (\<exists>v' s'. receive_all toy_sodium gs (v, y_svc sample_sys) = Some (v', s') \<and> sys_reach (sample_sys\<lparr>y_svc := s'\<rparr>))"
  by (intro allI replay_never sample_reach)

text \<open>
  C4.  A gamepad frame goes end to end: a datagram that a client with the session's key seals over a report
  for a bound controller, under a counter above the last one taken, is opened by the receive loop, and that
  very report is submitted to the pad of the controller and to no other; its counter is recorded.
\<close>

theorem frame_end_to_end:
  assumes y: "sys_reach y" and r: "r \<in> snd ` set (s_conns (y_svc y))" and h: "holds r x i"
    and laws: "sodium_laws so" and fresh: "\<forall>l. replay_floor (token r) (y_svc y) = Some l \<longrightarrow> l < c"
    and ct: "encryptPacket so (sessionKey r) CRYPTO_DIR_CLIENT_TO_SERVER c (token r)
      (inner_message MSG_GAMEPAD_DATA (of_nat i # gamepadWire report)) = Some ct"
    and d: "dg_bytes d = client_datagram (token r) c ct"
  shows "\<exists>v' s'. receive_turn so (Some d) (v, y_svc y) = Some (v', s') \<and>
    s_backend s' = snd (gp_submitReport (s_port (y_svc y)) x report (s_backend (y_svc y))) \<and>
    replay_floor (token r) s' = Some c"
  by (rule gamepad_datagram [OF assms])

theorem frame_end_to_end_witness:
  "\<exists>(y :: (sample, unit, unit) sys) d. sys_reach y \<and> replay_floor 2 (y_svc y) = Some 9 \<and>
    (\<forall>v report. \<exists>v' s'. receive_turn toy_sodium (Some (d report)) (v, y_svc y) = Some (v', s') \<and>
       s_backend s' = snd (gp_submitReport (s_port (y_svc y)) 1 report (s_backend (y_svc y))) \<and>
       replay_floor 2 s' = Some 10)"
proof -
  let ?s = "updatePostDecryptV4 0 2 9 1 2 sample_svc"
  let ?y = "sample_sys\<lparr>y_svc := ?s\<rparr>"
  let ?m = "\<lambda>report. inner_message MSG_GAMEPAD_DATA (of_nat 0 # gamepadWire report)"
  let ?d = "\<lambda>report. \<lparr>dg_bytes = client_datagram 2 10 (the (encryptPacket toy_sodium (sessionKey sample_row)
      CRYPTO_DIR_CLIENT_TO_SERVER 10 2 (?m report))), dg_ip = 1, dg_port = 2, dg_t0 = 0, dg_now = 0, dg_t1 = 1\<rparr> :: datagram"
  have y: "sys_reach ?y" by (rule sys_reach.step [OF sample_reach sys_step.service]) (simp add: svc_step.post_decrypt)
  have "getDecryptInfo 2 (s_hot ?s) = Some (sessionKey sample_row, 9, True)"
    using replay_recorded [OF sample_inv sample_mem] by (simp add: updatePostDecryptV4_def sample_token)
  then have fl: "replay_floor 2 (y_svc ?y) = Some 9" by (simp add: replay_floor_def)
  have r: "sample_row \<in> snd ` set (s_conns (y_svc ?y))"
    using updatePostDecryptV4_rx_only [of sample_svc 0 2 9 1 2] sample_mem by (simp add: rx_only_def)
  have go: "\<exists>v' s'. receive_turn toy_sodium (Some (?d report)) (v, y_svc ?y) = Some (v', s') \<and>
       s_backend s' = snd (gp_submitReport (s_port (y_svc ?y)) 1 report (s_backend (y_svc ?y))) \<and>
       replay_floor 2 s' = Some 10" for v report
  proof -
    have "encryptPacket toy_sodium (sessionKey sample_row) CRYPTO_DIR_CLIENT_TO_SERVER 10 2 (?m report) =
        Some (the (encryptPacket toy_sodium (sessionKey sample_row) CRYPTO_DIR_CLIENT_TO_SERVER 10 2 (?m report)))"
      by (simp add: encryptPacket_def toy_sodium_def)
    then show ?thesis
      using frame_end_to_end [OF y r sample_holds toy_sodium_laws, of 10 report _ "?d report" v] fl
      unfolding sample_token by simp
  qed
  show ?thesis by (rule exI [of _ ?y], rule exI [of _ ?d]) (intro conjI allI y fl go)
qed



section \<open>Feedback and audio\<close>



text \<open>
  What a client streams is what the dashboard shows: after a motion sample for a bound
  controller, the snapshot of that controller shows motion as active, that sample, and whether the
  backend took it.
\<close>

theorem motion_in_snapshot:
  assumes y: "sys_reach y" and r: "r \<in> snd ` set (s_conns (y_svc y))" and h: "holds r x i"
    and q: "handleMotionData (token r) i report (y_svc y) = (ok, s')"
  shows "ci_motionActive (snapshotController r (controllers r ! i) s') \<and>
    ci_motion (snapshotController r (controllers r ! i) s') = report \<and>
    ci_motionSink (snapshotController r (controllers r ! i) s') = ok"
proof -
  note inv = sys_reachD(1) [OF y]
  have "row_ok r" using inv r by (auto simp: svc_inv_def rows_ok_def)
  then have "i < MAX_CONTROLLERS_PER_CONN" "active (controllers r ! i)" using h by (auto simp: holds_def row_ok_def)
  then show ?thesis using motion_shown [OF inv r _ refl _ q] by blast
qed

theorem motion_in_snapshot_witness:
  "\<forall>report. ci_motion (snapshotController sample_row (controllers sample_row ! 0)
       (snd (handleMotionData 2 0 report sample_svc))) = report"
proof
  fix report
  have "handleMotionData (token sample_row) 0 report (y_svc sample_sys)
      = (fst (handleMotionData 2 0 report sample_svc), snd (handleMotionData 2 0 report sample_svc))"
    by (simp add: sample_token)
  from motion_in_snapshot [OF sample_reach _ sample_holds this] sample_mem
  show "ci_motion (snapshotController sample_row (controllers sample_row ! 0)
       (snd (handleMotionData 2 0 report sample_svc))) = report" by simp
qed

text \<open>
  Light for one pad goes to one client: a lightbar message that a backend report causes goes to
  the session that holds the pad, for the controller bound to it, if that controller has a lightbar,
  and carries the reported colour.
\<close>

theorem lightbar_to_holder:
  assumes y: "sys_reach y"
  shows "\<exists>es. s_out (handleLightbarFromBackend x rd g b (y_svc y)) = s_out (y_svc y) @ es \<and> length es \<le> 1 \<and>
    (\<forall>e\<in>set es. \<exists>r\<in>snd ` set (s_conns (y_svc y)). \<exists>k. holds r x k \<and> lightbarCapable (controllers r ! k) \<and>
       e = SendLightbar (conn_endpoint r) k rd g b)"
proof (cases "findBySerialLocked x (y_svc y)")
  case None
  then show ?thesis by (simp add: handleLightbarFromBackend_def on_serial_def)
next
  case (Some p)
  obtain r i where p: "p = (r, i)" by force
  have r: "r \<in> snd ` set (s_conns (y_svc y))" "holds r x i"
    using findBySerialLocked_Some [OF Some [unfolded p]] by (auto simp: holds_def)
  have "ctrl_index (controllers r ! i) = i" using ctrl_index_of [OF sys_reachD(1) [OF y] r] by blast
  then show ?thesis
    using Some p r by (auto simp: handleLightbarFromBackend_def on_serial_def lightbar_ctrl_def
        lightbarCapable_def emit_def Let_def)
qed

theorem lightbar_to_holder_witness:
  "\<exists>es. s_out (handleLightbarFromBackend 1 9 8 7 sample_svc) = s_out sample_svc @ es \<and>
     set es \<subseteq> {SendLightbar (conn_endpoint sample_row) 0 9 8 7}"
proof -
  obtain es where es: "s_out (handleLightbarFromBackend 1 9 8 7 sample_svc) = s_out sample_svc @ es"
      "\<forall>e\<in>set es. \<exists>r\<in>snd ` set (s_conns sample_svc). \<exists>k. holds r 1 k \<and>
         lightbarCapable (controllers r ! k) \<and> e = SendLightbar (conn_endpoint r) k 9 8 7"
    using lightbar_to_holder [OF sample_reach, of 1 9 8 7] unfolding sample_sys_svc by (elim exE conjE)
  have "e = SendLightbar (conn_endpoint sample_row) 0 9 8 7" if e: "e \<in> set es" for e
  proof -
    obtain r k where r: "r \<in> snd ` set (s_conns sample_svc)" "holds r 1 k" "e = SendLightbar (conn_endpoint r) k 9 8 7"
      using bspec [OF es(2) e] by (elim bexE exE conjE)
    have "r = sample_row" using r(1) by (simp add: sample_opened(5))
    moreover have "k = 0" using holder_unique [OF sample_inv sample_mem r(1) sample_holds r(2)] by simp
    ultimately show ?thesis using r(3) by simp
  qed
  then have "set es \<subseteq> {SendLightbar (conn_endpoint sample_row) 0 9 8 7}" by (simp add: subset_iff)
  then show ?thesis using es(1) by (intro exI [of _ es]) simp
qed

text \<open>
  C27.  Speaker audio from a pad goes to its player: every message that a batch of host samples causes
  is a speaker packet to the session that holds the pad, for the controller bound to it, and that
  controller has a speaker.
\<close>

theorem speaker_to_holder:
  assumes y: "sys_reach y"
    and q: "handleSpeakerAudioFromBackend enc cods x pcm (y_lanes y, y_svc y) = (ok, a', s')"
  shows "\<exists>es. s_out s' = s_out (y_svc y) @ es \<and>
    (\<forall>e\<in>set es. \<exists>r\<in>snd ` set (s_conns (y_svc y)). \<exists>i seq p. holds r x i \<and>
       caps (controllers r ! i) AND CAP_SPEAKER \<noteq> 0 \<and> e = SendSpeakerAudio (conn_endpoint r) i seq p)"
  using handleSpeakerAudio_effects [OF sys_reachD(1,2) [OF y] q] by blast

theorem speaker_to_holder_witness:
  "\<forall>enc cods pcm. \<exists>es. s_out (snd (snd (handleSpeakerAudioFromBackend enc cods 1 pcm (y_lanes sample_sys, sample_svc))))
     = s_out sample_svc @ es \<and> (\<forall>e\<in>set es. \<exists>i seq p. e = SendSpeakerAudio (conn_endpoint sample_row) i seq p)"
proof (intro allI)
  fix enc :: "unit encode_fn" and cods :: "unit audio_codecs option" and pcm :: "i16 list"
  let ?h = "handleSpeakerAudioFromBackend enc cods 1 pcm (y_lanes sample_sys, sample_svc)"
  have "handleSpeakerAudioFromBackend enc cods 1 pcm (y_lanes sample_sys, y_svc sample_sys)
      = (fst ?h, fst (snd ?h), snd (snd ?h))" by simp
  from speaker_to_holder [OF sample_reach this]
  show "\<exists>es. s_out (snd (snd ?h)) = s_out sample_svc @ es \<and>
      (\<forall>e\<in>set es. \<exists>i seq p. e = SendSpeakerAudio (conn_endpoint sample_row) i seq p)"
    by (auto simp: sample_opened(5)) blast
qed

text \<open>
  C26.  Haptic audio takes one of two routes: to a client that can play it, as haptic packets only; to
  a client that can only rumble, as rumble only; to any other client, and for a pad that nobody holds,
  not at all.
\<close>

theorem haptic_one_route:
  assumes y: "sys_reach y"
    and q: "handleHapticAudioFromBackend now level enc cods x pcm (y_lanes y, y_svc y) = (ok, a', s')"
  shows "\<exists>es. s_out s' = s_out (y_svc y) @ es \<and>
    (es \<noteq> [] \<longrightarrow> (\<exists>r\<in>snd ` set (s_conns (y_svc y)). \<exists>i. holds r x i \<and>
       (if caps (controllers r ! i) AND CAP_HAPTIC_AUDIO \<noteq> 0
        then \<forall>e\<in>set es. \<exists>seq p. e = SendHapticAudio (conn_endpoint r) i seq p
        else caps (controllers r ! i) AND CAP_RUMBLE \<noteq> 0 \<and>
             (\<forall>e\<in>set es. \<exists>rep. e = SendRumble (conn_endpoint r) i rep))))"
  using handleHapticAudio_effects [OF sys_reachD(1,2) [OF y] q] by blast

theorem haptic_one_route_witness:
  "\<forall>now level enc cods pcm. \<exists>es.
     s_out (snd (snd (handleHapticAudioFromBackend now level enc cods 2 pcm (y_lanes sample_sys, sample_svc))))
       = s_out sample_svc @ es \<and> es = []"
proof (intro allI)
  fix now level and enc :: "unit encode_fn" and cods :: "unit audio_codecs option" and pcm :: "i16 list"
  let ?h = "handleHapticAudioFromBackend now level enc cods 2 pcm (y_lanes sample_sys, sample_svc)"
  have h: "handleHapticAudioFromBackend now level enc cods 2 pcm (y_lanes sample_sys, y_svc sample_sys)
      = (fst ?h, fst (snd ?h), snd (snd ?h))" by simp
  have "\<not> holds sample_row 2 i" for i
    using sample_opened(7) by (cases "i = 0") (auto simp: holds_def sample_ctrl_def default_controller_def)
  then show "\<exists>es. s_out (snd (snd ?h)) = s_out sample_svc @ es \<and> es = []"
    using haptic_one_route [OF sample_reach h] by (auto simp: sample_opened(5))
qed

section \<open>The workers\<close>



text \<open>
  C24.  A voice reaches only the pad it was sent to: when the microphone worker plays a packet, samples go
  to the backend only for the packet's own serial, and only while some session holds that serial under
  the controller and the plug generation the packet was queued for; a pad that has been replugged or
  handed to another client since gets nothing.
\<close>

theorem mic_to_bound_pad:
  assumes y: "sys_reach y" and x: "mp_serial p \<le> MAX_BACKEND_CONTROLLERS"
    and q: "mic_process dec codecs p (y_mic y, y_svc y) = (w', s')"
  shows "s_backend s' = s_backend (y_svc y) \<or>
    ((\<exists>r\<in>snd ` set (s_conns (y_svc y)). holds r (mp_serial p) (mp_ctrlIdx p) \<and> slot r = mp_slot p \<and>
        plugGen (controllers r ! mp_ctrlIdx p) = mp_gen p) \<and>
     (\<exists>pcms. s_backend s' = to_microphone p pcms (y_svc y)))"
proof -
  obtain accept evs win where push: "jitter_push (mp_seq p) (mp_bytes p)
      (mic_window (mic_pad_for p (mw_pads (y_mic y) ! mp_serial p))) = (accept, evs, win)"
    by (rule prod_cases3)
  note sp = mic_process_spec(4) [OF q sys_reachD(4) [OF y] x push]
  have "s_backend s' = s_backend (y_svc y) \<or>
      mic_bound p (y_svc y) \<and> (\<exists>pcms. s_backend s' = to_microphone p pcms (y_svc y))"
    unfolding sp by (cases "mic_ready codecs (mic_pad_for p (mw_pads (y_mic y) ! mp_serial p))") auto
  moreover have "\<exists>r\<in>snd ` set (s_conns (y_svc y)). holds r (mp_serial p) (mp_ctrlIdx p) \<and> slot r = mp_slot p \<and>
      plugGen (controllers r ! mp_ctrlIdx p) = mp_gen p" if "mic_bound p (y_svc y)"
    by (rule mic_bound_holder [OF sys_reachD(1) [OF y] that [unfolded mic_bound_def] x]) auto
  ultimately show ?thesis by blast
qed

theorem mic_to_bound_pad_witness:
  "\<forall>dec codecs. s_backend (snd (mic_process dec codecs
     \<lparr>mp_serial = 2, mp_gen = 1, mp_slot = 0, mp_ctrlIdx = 0, mp_keyEpoch = 1, mp_seq = 1, mp_bytes = [1]\<rparr>
     (y_mic sample_sys, sample_svc))) = s_backend sample_svc"
proof (intro allI)
  fix dec :: "unit mic_decoder" and codecs :: "unit mic_factory"
  let ?p = "\<lparr>mp_serial = 2, mp_gen = 1, mp_slot = 0, mp_ctrlIdx = 0, mp_keyEpoch = 1, mp_seq = 1, mp_bytes = [1]\<rparr>"
  let ?r = "mic_process dec codecs ?p (y_mic sample_sys, sample_svc)"
  have q: "mic_process dec codecs ?p (y_mic sample_sys, y_svc sample_sys) = (fst ?r, snd ?r)" by simp
  have "\<not> holds sample_row 2 0" using sample_pads(2) by (simp add: holds_def)
  then have "\<not> (\<exists>r\<in>snd ` set (s_conns (y_svc sample_sys)). holds r (mp_serial ?p) (mp_ctrlIdx ?p) \<and>
      slot r = mp_slot ?p \<and> plugGen (controllers r ! mp_ctrlIdx ?p) = mp_gen ?p)"
    unfolding sample_sys_svc sample_opened(5) by simp
  moreover have "mp_serial ?p \<le> MAX_BACKEND_CONTROLLERS" by simp
  ultimately have "s_backend (snd ?r) = s_backend (y_svc sample_sys)"
    using mic_to_bound_pad [OF sample_reach _ q] by blast
  then show "s_backend (snd ?r) = s_backend sample_svc" unfolding sample_sys_svc .
qed

text \<open>
  The sweep frees exactly what nobody uses: after it, a pad's decoder and jitter window are kept only
  for a pad that a session holds under the same controller and plug generation; every other pad's are
  gone; and a pad whose holder is the one its stream belongs to is left as it was.
\<close>

theorem sweep_keeps_held:
  assumes y: "sys_reach y" and x: "1 \<le> x" "x \<le> MAX_BACKEND_CONTROLLERS"
    and old: "old = mw_pads (y_mic y) ! x" and pad: "pad = mw_pads (fst (sweep_turn (y_mic y, y_svc y))) ! x"
  shows "(mic_gen pad \<noteq> 0 \<longrightarrow> (\<exists>r\<in>snd ` set (s_conns (y_svc y)). holds r x (mic_ctrlIdx pad) \<and>
      plugGen (controllers r ! mic_ctrlIdx pad) = mic_gen pad)) \<and>
    (mic_gen pad = 0 \<and> mic_gen old \<noteq> 0 \<longrightarrow> mic_decoder pad = None \<and> \<not> jw_primed (mic_window pad)) \<and>
    (\<forall>r\<in>snd ` set (s_conns (y_svc y)). holds r x (mic_ctrlIdx old) \<and> mic_slot old = int (slot r) \<and>
       mic_gen old = plugGen (controllers r ! mic_ctrlIdx old) \<longrightarrow> pad = old)"
proof -
  have "pad = mw_pads (sweep (s_hot (y_svc y)) (y_mic y)) ! x" using pad by (simp add: sweep_turn_def)
  from sweep_holders [OF sys_reachD(1,4) [OF y] x this] old show ?thesis by blast
qed

theorem sweep_keeps_held_witness:
  "mic_gen (mw_pads (fst (sweep_turn (y_mic sample_sys, sample_svc))) ! 2) = 0"
proof -
  have "length (controllers sample_row) = 16" using sample_opened(7) by auto
  then have "\<not> holds sample_row 2 i" for i
    using sample_pads(2) sample_pads(4) [of i] by (cases "i = 0") (auto simp: holds_def)
  then show ?thesis using sweep_keeps_held [OF sample_reach, of 2, OF _ _ refl refl] by (auto simp: sample_opened(5))
qed

end
